(* ===== verification/Js_Prelude.thy ===== *)
theory Js_Prelude
  imports Complex_Main "HOL-Library.AList"
begin

text \<open>
  The prelude of the development: JavaScript values, insertion-ordered maps, and
  asynchronous computations.

  \<^item> A JavaScript value is a \<open>jsv\<close>. An object carries its identity (what a
    \<open>WeakSet\<close> compares), the names of its prototype chain (what \<open>instanceof\<close>
    inspects) and its own properties.
  \<^item> A JavaScript \<open>Map\<close> is an association list in insertion order:
    \<open>AList.update\<close> keeps the position of a key that is present and appends a new one,
    \<open>AList.delete\<close> removes, \<open>map_of\<close> looks up.
  \<^item> An \<open>async\<close> function is a computation over a world: it settles with
    an outcome and a new world, or never settles (\<open>None\<close>). The combinators below are
    \<open>await\<close> in sequence, \<open>try/catch\<close> and \<open>try/finally\<close>.
  \<^item> \<open>keeps R f\<close> says that every run of \<open>f\<close> that settles relates its first and
    last world by \<open>R\<close>; \<open>refines_comp f g\<close> says that \<open>g\<close> agrees with \<open>f\<close>
    wherever \<open>f\<close> settles. Both have one rule per combinator, in a collection.
\<close>

section \<open>JavaScript values\<close>

text \<open>\<open>JNonInt\<close> stands for every number \<open>Number.isInteger\<close> refuses.\<close>

datatype jsnum = JInt int | JNonInt

datatype jsv =
    Undef
  | Null
  | JBool bool
  | JNum jsnum
  | JStr string
  | JFun nat
  | JObj nat "string list" "(string \<times> jsv) list"

fun is_object :: "jsv \<Rightarrow> bool" where
  "is_object (JObj i cs ps) = True"
| "is_object v = False"

fun object_id :: "jsv \<Rightarrow> nat option" where
  "object_id (JObj i cs ps) = Some i"
| "object_id v = None"

fun instance_of :: "jsv \<Rightarrow> string \<Rightarrow> bool" where
  "instance_of (JObj i cs ps) c = (c \<in> set cs)"
| "instance_of v c = False"

text \<open>Reading a property that is not there gives \<open>undefined\<close>.\<close>

fun prop_of :: "jsv \<Rightarrow> string \<Rightarrow> jsv" where
  "prop_of (JObj i cs ps) k = (case map_of ps k of None \<Rightarrow> Undef | Some v \<Rightarrow> v)"
| "prop_of v k = Undef"

section \<open>Asynchronous computations\<close>

datatype 'a outcome = Resolve 'a | Reject jsv

type_synonym ('w, 'a) comp = "'w \<Rightarrow> ('a outcome \<times> 'w) option"

definition ret :: "'a \<Rightarrow> ('w, 'a) comp" where
  "ret v w = Some (Resolve v, w)"

definition throw :: "jsv \<Rightarrow> ('w, 'a) comp" where
  "throw e w = Some (Reject e, w)"

definition modify :: "('w \<Rightarrow> 'w) \<Rightarrow> ('w, unit) comp" where
  "modify f w = Some (Resolve (), f w)"

definition andThen :: "('w, 'a) comp \<Rightarrow> ('a \<Rightarrow> ('w, 'b) comp) \<Rightarrow> ('w, 'b) comp" where
  "andThen f g w =
     (case f w of
        None \<Rightarrow> None
      | Some (Resolve v, w') \<Rightarrow> g v w'
      | Some (Reject e, w') \<Rightarrow> Some (Reject e, w'))"

definition catching :: "('w, 'a) comp \<Rightarrow> (jsv \<Rightarrow> ('w, 'a) comp) \<Rightarrow> ('w, 'a) comp" where
  "catching f h w =
     (case f w of
        None \<Rightarrow> None
      | Some (Resolve v, w') \<Rightarrow> Some (Resolve v, w')
      | Some (Reject e, w') \<Rightarrow> h e w')"

text \<open>A rejection of the \<open>finally\<close> block replaces the outcome of the \<open>try\<close> block.\<close>

definition finallyDo :: "('w, 'a) comp \<Rightarrow> ('w, unit) comp \<Rightarrow> ('w, 'a) comp" where
  "finallyDo f fin w =
     (case f w of
        None \<Rightarrow> None
      | Some (r, w') \<Rightarrow>
          (case fin w' of
             None \<Rightarrow> None
           | Some (Resolve _, w'') \<Rightarrow> Some (r, w'')
           | Some (Reject e, w'') \<Rightarrow> Some (Reject e, w'')))"

lemmas comp_defs = ret_def throw_def modify_def andThen_def catching_def finallyDo_def

lemma ret_simp [simp]: "ret v w = Some (Resolve v, w)"
  by (simp add: ret_def)

lemma throw_simp [simp]: "throw e w = Some (Reject e, w)"
  by (simp add: throw_def)

lemma modify_simp [simp]: "modify f w = Some (Resolve (), f w)"
  by (simp add: modify_def)

lemma andThen_Some:
  "andThen f g w = Some (r, w') \<longleftrightarrow>
     (\<exists>v w1. f w = Some (Resolve v, w1) \<and> g v w1 = Some (r, w')) \<or>
     (\<exists>e. f w = Some (Reject e, w') \<and> r = Reject e)"
  by (auto simp: andThen_def split: option.splits prod.splits outcome.splits)

lemma catching_Some:
  "catching f h w = Some (r, w') \<longleftrightarrow>
     (\<exists>v. f w = Some (Resolve v, w') \<and> r = Resolve v) \<or>
     (\<exists>e w1. f w = Some (Reject e, w1) \<and> h e w1 = Some (r, w'))"
  by (auto simp: catching_def split: option.splits prod.splits outcome.splits)

lemma finallyDo_Some:
  "finallyDo f fin w = Some (r, w') \<longleftrightarrow>
     (\<exists>w1. f w = Some (r, w1) \<and> fin w1 = Some (Resolve (), w')) \<or>
     (\<exists>r0 w1 e. f w = Some (r0, w1) \<and> fin w1 = Some (Reject e, w') \<and> r = Reject e)"
  by (auto simp: finallyDo_def split: option.splits prod.splits outcome.splits)

lemma andThen_ret [simp]: "andThen (ret v) g = g v"
  by (rule ext) (simp add: andThen_def)

lemma andThen_throw [simp]: "andThen (throw e) g = throw e"
  by (rule ext) (simp add: andThen_def throw_def)

lemma andThen_assoc: "andThen (andThen f g) h = andThen f (\<lambda>v. andThen (g v) h)"
  by (rule ext) (auto simp: andThen_def split: option.splits prod.splits outcome.splits)

lemma andThen_cong:
  "f w = f' w \<Longrightarrow> (\<And>v w1. f w = Some (Resolve v, w1) \<Longrightarrow> g v w1 = g' v w1) \<Longrightarrow>
     andThen f g w = andThen f' g' w"
  by (auto simp: andThen_def split: option.splits prod.splits outcome.splits)

lemma catching_cong:
  "f w = f' w \<Longrightarrow> (\<And>e w1. f w = Some (Reject e, w1) \<Longrightarrow> h e w1 = h' e w1) \<Longrightarrow>
     catching f h w = catching f' h' w"
  by (auto simp: catching_def split: option.splits prod.splits outcome.splits)

section \<open>Predicates on computations\<close>

definition keeps :: "('w \<Rightarrow> 'w \<Rightarrow> bool) \<Rightarrow> ('w, 'a) comp \<Rightarrow> bool" where
  "keeps R f \<longleftrightarrow> (\<forall>w r w'. f w = Some (r, w') \<longrightarrow> R w w')"

named_theorems keeps_intros "introduction rules for keeps"

lemma keepsI: "(\<And>w r w'. f w = Some (r, w') \<Longrightarrow> R w w') \<Longrightarrow> keeps R f"
  by (auto simp: keeps_def)

lemma keepsD: "keeps R f \<Longrightarrow> f w = Some (r, w') \<Longrightarrow> R w w'"
  by (auto simp: keeps_def)

lemma keeps_ret [keeps_intros]: "reflp R \<Longrightarrow> keeps R (ret v)"
  by (auto simp: keeps_def reflp_def)

lemma keeps_throw [keeps_intros]: "reflp R \<Longrightarrow> keeps R (throw e)"
  by (auto simp: keeps_def reflp_def)

lemma keeps_andThen [keeps_intros]:
  "transp R \<Longrightarrow> keeps R f \<Longrightarrow> (\<And>v. keeps R (g v)) \<Longrightarrow> keeps R (andThen f g)"
  by (auto simp: keeps_def andThen_Some) (blast dest: transpD)

lemma keeps_catching [keeps_intros]:
  "transp R \<Longrightarrow> keeps R f \<Longrightarrow> (\<And>e. keeps R (h e)) \<Longrightarrow> keeps R (catching f h)"
  by (auto simp: keeps_def catching_Some) (blast dest: transpD)

lemma keeps_finallyDo [keeps_intros]:
  "transp R \<Longrightarrow> keeps R f \<Longrightarrow> keeps R fin \<Longrightarrow> keeps R (finallyDo f fin)"
  by (auto simp: keeps_def finallyDo_Some) (blast dest: transpD)+

definition refines_comp :: "('w, 'a) comp \<Rightarrow> ('w, 'a) comp \<Rightarrow> bool" where
  "refines_comp f g \<longleftrightarrow> (\<forall>w x. f w = Some x \<longrightarrow> g w = Some x)"

named_theorems refines_intros "introduction rules for refines_comp"

lemma refines_compI:
  "(\<And>w r w'. f w = Some (r, w') \<Longrightarrow> g w = Some (r, w')) \<Longrightarrow> refines_comp f g"
  unfolding refines_comp_def by (metis surj_pair)

lemma refines_compD: "refines_comp f g \<Longrightarrow> f w = Some x \<Longrightarrow> g w = Some x"
  unfolding refines_comp_def by blast

lemma refines_refl [refines_intros, simp]: "refines_comp f f"
  by (auto simp: refines_comp_def)

lemma refines_andThen [refines_intros]:
  "refines_comp f f' \<Longrightarrow> (\<And>v. refines_comp (g v) (g' v)) \<Longrightarrow>
     refines_comp (andThen f g) (andThen f' g')"
  by (rule refines_compI) (simp add: andThen_Some, blast dest: refines_compD)

lemma refines_catching [refines_intros]:
  "refines_comp f f' \<Longrightarrow> (\<And>e. refines_comp (h e) (h' e)) \<Longrightarrow>
     refines_comp (catching f h) (catching f' h')"
  by (rule refines_compI) (simp add: catching_Some, blast dest: refines_compD)

lemma refines_finallyDo [refines_intros]:
  "refines_comp f f' \<Longrightarrow> refines_comp fin fin' \<Longrightarrow>
     refines_comp (finallyDo f fin) (finallyDo f' fin')"
  by (rule refines_compI) (simp add: finallyDo_Some, blast dest: refines_compD)

section \<open>Lists and maps\<close>

lemma map_of_update_same [simp]: "map_of (AList.update k v m) k = Some v"
  by (simp add: update_conv)

lemma map_of_delete_self [simp]: "map_of (AList.delete k m) k = None"
  by (simp add: delete_conv)

lemma delete_update_absent:
  "map_of m k = None \<Longrightarrow> AList.delete k (AList.update k v m) = m"
  by (induction m) (auto simp: delete_id)

lemma update_delete_at_end:
  "AList.update k v (AList.delete k m) = AList.delete k m @ [(k, v)]"
  by (induction m) auto

lemma takeWhile_until: "x \<notin> set xs \<Longrightarrow> takeWhile (\<lambda>c. c \<noteq> x) (xs @ x # ys) = xs"
  by (induction xs) auto

lemma dropWhile_until: "x \<notin> set xs \<Longrightarrow> dropWhile (\<lambda>c. c \<noteq> x) (xs @ x # ys) = x # ys"
  by (induction xs) auto

lemma find_map_None:
  "List.find P (map snd m) = None \<longleftrightarrow> (\<forall>p \<in> set m. \<not> P (snd p))"
  by (auto simp: find_None_iff)

lemma find_unique:
  assumes "x \<in> set xs" and "P x" and "\<And>y. y \<in> set xs \<Longrightarrow> P y \<Longrightarrow> y = x"
  shows "List.find P xs = Some x"
proof (cases "List.find P xs")
  case None
  then show ?thesis using assms(1,2) by (auto simp: find_None_iff)
next
  case (Some y)
  then have "y \<in> set xs \<and> P y" by (auto simp: find_Some_iff)
  with Some assms(3) show ?thesis by simp
qed

end
