(* ===== verification/Core_Types.thy ===== *)
theory Core_Types
  imports Js_Prelude
begin

text \<open>
  The types of \<open>packages/core/src/types\<close>: propagation modes, isolation levels, the
  options a caller passes, the error classes, the opaque handle of a transaction and the
  service-provider interface an adapter implements. An optional field of an interface is
  an \<open>option\<close>, \<open>None\<close> for \<open>undefined\<close>. Classes are named by strings, and error
  messages are left out: nothing in the program reads them.
\<close>

section \<open>Propagation and isolation\<close>

datatype propagation_mode =
    REQUIRED
  | REQUIRES_NEW
  | NESTED
  | SUPPORTS
  | NOT_SUPPORTED
  | NEVER
  | MANDATORY

datatype isolation_level =
    READ_UNCOMMITTED
  | READ_COMMITTED
  | REPEATABLE_READ
  | SERIALIZABLE

section \<open>Options\<close>

definition DEFAULT_DATA_SOURCE_NAME :: string where
  "DEFAULT_DATA_SOURCE_NAME = ''default''"

text \<open>
  The options an adapter reads. A duration is a number of milliseconds.
\<close>

record transaction_options =
  o_isolation :: "isolation_level option"
  o_readOnly :: "bool option"
  o_timeout :: "int option"

text \<open>\<open>delay\<close> is a number or a function of the attempts made so far and the error.\<close>

datatype retry_delay = DelayNumber int | DelayFunction "nat \<Rightarrow> jsv \<Rightarrow> int"

record retry_options =
  r_maxAttempts :: jsnum
  r_delay :: "retry_delay option"
  r_retryIf :: "(jsv \<Rightarrow> bool) option"

text \<open>\<open>retry\<close> is a bare number of attempts or an options object.\<close>

datatype retry_setting = RetryNumber jsnum | RetryObject retry_options

record extended_options = transaction_options +
  o_adapter :: "string option"
  o_adapterInstance :: "string option"
  o_dataSource :: "string option"
  o_propagation :: "propagation_mode option"
  o_rollbackFor :: "string list option"
  o_noRollbackFor :: "string list option"
  o_retry :: "retry_setting option"

text \<open>The empty object literal, \<open>run({}, fn)\<close>.\<close>

definition no_options :: extended_options where
  "no_options =
     \<lparr>o_isolation = None, o_readOnly = None, o_timeout = None, o_adapter = None,
      o_adapterInstance = None, o_dataSource = None, o_propagation = None,
      o_rollbackFor = None, o_noRollbackFor = None, o_retry = None\<rparr>"

section \<open>Errors\<close>

text \<open>
  An error the framework constructs: its prototype chain, most derived class first, and
  the fields its class declares. The constructor of the base class sets \<open>name\<close> to the
  name of the class that is constructed.
\<close>

datatype framework_error = FwError "string list" "(string \<times> jsv) list"

definition TransactionError :: "string \<Rightarrow> string list \<Rightarrow> (string \<times> jsv) list \<Rightarrow> framework_error" where
  "TransactionError code classes props =
     FwError (classes @ [''TransactionError'', ''Error''])
       (props @ [(''code'', JStr code), (''name'', JStr (hd (classes @ [''TransactionError''])))])"

definition IllegalTransactionStateError :: framework_error where
  "IllegalTransactionStateError =
     TransactionError ''ILLEGAL_TRANSACTION_STATE'' [''IllegalTransactionStateError''] []"

definition TransactionAdapterNotFoundError :: "string \<Rightarrow> string \<Rightarrow> framework_error" where
  "TransactionAdapterNotFoundError adapter inst =
     TransactionError ''TRANSACTION_ADAPTER_NOT_FOUND'' [''TransactionAdapterNotFoundError'']
       [(''adapterName'', JStr adapter), (''instanceName'', JStr inst)]"

definition OutboxWriteError :: framework_error where
  "OutboxWriteError = TransactionError ''OUTBOX_WRITE_ERROR'' [''OutboxWriteError''] []"

text \<open>The errors of the language's own classes that the program throws.\<close>

definition TypeError :: framework_error where
  "TypeError = FwError [''TypeError'', ''Error''] [(''name'', JStr ''TypeError'')]"

definition PlainError :: framework_error where
  "PlainError = FwError [''Error''] [(''name'', JStr ''Error'')]"

fun error_classes :: "framework_error \<Rightarrow> string list" where
  "error_classes (FwError cs ps) = cs"

section \<open>The adapter interface\<close>

text \<open>
  A handle carries the adapter's own object in \<open>h_native\<close> (the \<open>EntityManager\<close> of
  TypeORM, the \<open>tx\<close> of Drizzle): core reads only the first two fields.
\<close>

record tx_handle =
  h_id :: nat
  h_adapterName :: string
  h_native :: jsv

text \<open>
  What the manager's callback resolves to: a value, or a business error that must not
  roll the transaction back.
\<close>

datatype internal_result = IOk jsv | IErr jsv

text \<open>
  An adapter over worlds of type \<open>'w\<close>. The optional members of the interface are
  options. The manager runs both callbacks at \<open>internal_result\<close>.
\<close>

type_synonym 'w tx_callback = "tx_handle \<Rightarrow> ('w, internal_result) comp"

record 'w transaction_adapter =
  a_name :: string
  a_dataSourceName :: string
  a_runInTransaction :: "extended_options \<Rightarrow> 'w tx_callback \<Rightarrow> ('w, internal_result) comp"
  a_runInSavepoint :: "tx_handle \<Rightarrow> 'w tx_callback \<Rightarrow> ('w, internal_result) comp"
  a_nativeTransaction :: "(tx_handle \<Rightarrow> jsv) option"
  a_dialect :: "string option"
  a_isRetryableError :: "(jsv \<Rightarrow> bool) option"

section \<open>Observers\<close>

record start_context =
  c_transactionId :: nat
  c_adapterName :: string
  c_adapterInstanceName :: string
  c_correlationId :: nat
  c_options :: extended_options

record commit_context = start_context +
  c_durationMs :: int
  c_commitCount :: nat

record rollback_context = start_context +
  c_rollbackDurationMs :: int
  c_error :: jsv
  c_rollbackCount :: nat

record 'w transaction_observer =
  onTransactionStart :: "(start_context \<Rightarrow> ('w, unit) comp) option"
  onTransactionCommit :: "(commit_context \<Rightarrow> ('w, unit) comp) option"
  onTransactionRollback :: "(rollback_context \<Rightarrow> ('w, unit) comp) option"

end
