(* ===== verification/Tx_Context.thy ===== *)
theory Tx_Context
  imports Core_Types
begin

text \<open>
  \<open>packages/core/src/context\<close>: the store that \<open>AsyncLocalStorage\<close> carries along an
  asynchronous chain, and the transactions that are live on it.

  An \<open>ActiveTransaction\<close> is a mutable object that the store, closures and hooks share,
  so transactions live in a heap \<open>txs\<close> and the store's map holds their addresses; the
  same goes for the stores themselves. \<open>als\<close> is the store of the running chain.
  \<open>fresh\<close> hands out addresses, object identities and \<open>randomUUID()\<close> values, which the
  model takes to be unique; \<open>now\<close> is the clock. The type of hooks is a parameter.
\<close>

section \<open>State\<close>

record 'h active_tx =
  handle :: tx_handle
  adapterName :: string
  adapterInstanceName :: string
  txOptions :: extended_options
  startedAt :: int
  afterCommitHooks :: "'h list"
  afterRollbackHooks :: "'h list"
  beforeCommitHooks :: "'h list"
  correlationId :: nat

record ctx_store =
  activeTransactions :: "(string \<times> nat) list"
  storeCorrelationId :: nat
  storeStartedAt :: int

record 'h ctx_world =
  als :: "nat option"
  stores :: "nat \<Rightarrow> ctx_store"
  txs :: "nat \<Rightarrow> 'h active_tx"
  fresh :: nat
  now :: int

section \<open>Operations\<close>

text \<open>Throwing a new error object.\<close>

fun raise :: "framework_error \<Rightarrow> (('h, 'z) ctx_world_scheme, 'a) comp" where
  "raise (FwError cs ps) w =
     Some (Reject (JObj (fresh w) cs ps), w\<lparr>fresh := Suc (fresh w)\<rparr>)"

definition newStore :: "nat \<Rightarrow> int \<Rightarrow> ctx_store" where
  "newStore corr t =
     \<lparr>activeTransactions = [], storeCorrelationId = corr, storeStartedAt = t\<rparr>"

text \<open>
  \<open>TransactionContext.run\<close>: a nested scope reuses the store; an outermost one installs
  a new store for the duration of \<open>fn\<close>.
\<close>

definition contextRun ::
    "nat \<Rightarrow> (('h, 'z) ctx_world_scheme, 'a) comp \<Rightarrow> (('h, 'z) ctx_world_scheme, 'a) comp" where
  "contextRun corr fn w =
     (if als w \<noteq> None then fn w
      else
        let s = fresh w;
            w1 = w\<lparr>als := Some s, stores := (stores w)(s := newStore corr (now w)),
                   fresh := Suc s\<rparr>
        in (case fn w1 of
              None \<Rightarrow> None
            | Some (r, w2) \<Rightarrow> Some (r, w2\<lparr>als := als w\<rparr>)))"

definition getStore :: "('h, 'z) ctx_world_scheme \<Rightarrow> ctx_store option" where
  "getStore w = (case als w of None \<Rightarrow> None | Some s \<Rightarrow> Some (stores w s))"

definition getActiveTransaction :: "string \<Rightarrow> ('h, 'z) ctx_world_scheme \<Rightarrow> nat option" where
  "getActiveTransaction key w =
     (case getStore w of
        None \<Rightarrow> None
      | Some st \<Rightarrow> map_of (activeTransactions st) key)"

text \<open>The first live transaction, in the order of the map, whose instance has that name.\<close>

definition getActiveTransactionByDataSource ::
    "string \<Rightarrow> ('h, 'z) ctx_world_scheme \<Rightarrow> nat option" where
  "getActiveTransactionByDataSource dataSource w =
     (case getStore w of
        None \<Rightarrow> None
      | Some st \<Rightarrow>
          List.find (\<lambda>t. adapterInstanceName (txs w t) = dataSource)
            (map snd (activeTransactions st)))"

definition updateStore ::
    "nat \<Rightarrow> ((string \<times> nat) list \<Rightarrow> (string \<times> nat) list) \<Rightarrow>
     ('h, 'z) ctx_world_scheme \<Rightarrow> ('h, 'z) ctx_world_scheme" where
  "updateStore s f w =
     w\<lparr>stores := (stores w)(s := (stores w s)
        \<lparr>activeTransactions := f (activeTransactions (stores w s))\<rparr>)\<rparr>"

definition setActiveTransaction ::
    "string \<Rightarrow> nat \<Rightarrow> (('h, 'z) ctx_world_scheme, unit) comp" where
  "setActiveTransaction key tx w =
     (case als w of
        None \<Rightarrow> raise IllegalTransactionStateError w
      | Some s \<Rightarrow> Some (Resolve (), updateStore s (AList.update key tx) w))"

text \<open>A no-op without a store or without an entry.\<close>

definition removeActiveTransaction ::
    "string \<Rightarrow> ('h, 'z) ctx_world_scheme \<Rightarrow> ('h, 'z) ctx_world_scheme" where
  "removeActiveTransaction key w =
     (case als w of
        None \<Rightarrow> w
      | Some s \<Rightarrow> updateStore s (AList.delete key) w)"

section \<open>The read-only view of one dataSource\<close>

definition view_getActiveTransaction :: "string \<Rightarrow> ('h, 'z) ctx_world_scheme \<Rightarrow> nat option" where
  "view_getActiveTransaction dataSource w = getActiveTransactionByDataSource dataSource w"

definition view_hasActiveTransaction :: "string \<Rightarrow> ('h, 'z) ctx_world_scheme \<Rightarrow> bool" where
  "view_hasActiveTransaction dataSource w = (view_getActiveTransaction dataSource w \<noteq> None)"

section \<open>Lemmas\<close>

lemma raise_settles: "raise e w = Some (r, w') \<longleftrightarrow>
    (\<exists>cs ps. e = FwError cs ps \<and> r = Reject (JObj (fresh w) cs ps) \<and> w' = w\<lparr>fresh := Suc (fresh w)\<rparr>)"
  by (cases e) auto

lemma raise_not_Resolve [simp]: "raise e w \<noteq> Some (Resolve v, w')"
  by (cases e) auto

lemma als_updateStore [simp]: "als (updateStore s f w) = als w"
  by (simp add: updateStore_def)

lemma txs_updateStore [simp]: "txs (updateStore s f w) = txs w"
  by (simp add: updateStore_def)

lemma fresh_updateStore [simp]: "fresh (updateStore s f w) = fresh w"
  by (simp add: updateStore_def)

lemma now_updateStore [simp]: "now (updateStore s f w) = now w"
  by (simp add: updateStore_def)

lemma activeTransactions_updateStore [simp]:
  "activeTransactions (stores (updateStore s f w) s') =
     (if s' = s then f (activeTransactions (stores w s)) else activeTransactions (stores w s'))"
  by (simp add: updateStore_def)

lemma correlation_updateStore [simp]:
  "storeCorrelationId (stores (updateStore s f w) s') = storeCorrelationId (stores w s')"
  by (simp add: updateStore_def)

lemma als_removeActiveTransaction [simp]: "als (removeActiveTransaction key w) = als w"
  by (simp add: removeActiveTransaction_def split: option.split)

lemma txs_removeActiveTransaction [simp]: "txs (removeActiveTransaction key w) = txs w"
  by (simp add: removeActiveTransaction_def split: option.split)

lemma fresh_removeActiveTransaction [simp]: "fresh (removeActiveTransaction key w) = fresh w"
  by (simp add: removeActiveTransaction_def split: option.split)

lemma getActiveTransaction_store:
  "als w = Some s \<Longrightarrow> getActiveTransaction key w = map_of (activeTransactions (stores w s)) key"
  by (simp add: getActiveTransaction_def getStore_def)

lemma getActiveTransaction_outside: "als w = None \<Longrightarrow> getActiveTransaction key w = None"
  by (simp add: getActiveTransaction_def getStore_def)

lemma getActiveTransaction_remove:
  "getActiveTransaction key (removeActiveTransaction key' w) =
     (if key = key' then None else getActiveTransaction key w)"
  by (auto simp: getActiveTransaction_def getStore_def removeActiveTransaction_def delete_conv
      split: option.splits)

lemma getActiveTransaction_set:
  assumes "setActiveTransaction key' tx w = Some (Resolve (), w')"
  shows "getActiveTransaction key w' =
     (if key = key' then Some tx else getActiveTransaction key w)"
  using assms
  by (cases "als w")
    (auto simp: setActiveTransaction_def getActiveTransaction_def getStore_def update_conv)

lemma setActiveTransaction_inside:
  "als w = Some s \<Longrightarrow>
     setActiveTransaction key tx w = Some (Resolve (), updateStore s (AList.update key tx) w)"
  by (simp add: setActiveTransaction_def)

lemma removeActiveTransaction_inside:
  "als w = Some s \<Longrightarrow> removeActiveTransaction key w = updateStore s (AList.delete key) w"
  by (simp add: removeActiveTransaction_def)

text \<open>A lookup by dataSource reads the current store and the instance names.\<close>

lemma active_cong:
  assumes "als w' = als w" and "stores w' = stores w"
    and "\<And>t. adapterInstanceName (txs w' t) = adapterInstanceName (txs w t)"
  shows "getActiveTransactionByDataSource ds w' = getActiveTransactionByDataSource ds w"
  by (cases "als w") (simp_all add: getActiveTransactionByDataSource_def getStore_def assms)

end
