(* ===== verification/Adapter_Registry.thy ===== *)
theory Adapter_Registry
  imports Core_Types
begin

text \<open>
  \<open>packages/core/src/manager/adapter.registry.ts\<close>: adapters by type name and instance
  name, with a default. An adapter object is an address; the registry is its insertion
  ordered map plus the default pointer. The map's keys are the two names joined by a colon,
  and the program reads the names back by splitting a key at its first colon.
\<close>

section \<open>State and operations\<close>

record adapter_registration =
  reg_adapterName :: string
  reg_instanceName :: string
  reg_adapter :: nat

record adapter_registry =
  adapters :: "(string \<times> nat) list"
  defaultAdapterName :: "string option"
  defaultInstanceName :: string

definition newRegistry :: adapter_registry where
  "newRegistry = \<lparr>adapters = [], defaultAdapterName = None, defaultInstanceName = ''default''\<rparr>"

definition keyFor :: "string \<Rightarrow> string \<Rightarrow> string" where
  "keyFor adapterName instanceName = adapterName @ '':'' @ instanceName"

text \<open>
  \<open>key.slice(0, colon)\<close> and \<open>key.slice(colon + 1)\<close> with \<open>colon = key.indexOf(':')\<close>.
  Without a colon the index is \<open>-1\<close>, so the slices are all but the last character and the
  whole key.
\<close>

definition splitKey :: "string \<Rightarrow> string \<times> string" where
  "splitKey key =
     (if CHR '':'' \<in> set key
      then (takeWhile (\<lambda>c. c \<noteq> CHR '':'') key, tl (dropWhile (\<lambda>c. c \<noteq> CHR '':'') key))
      else (butlast key, key))"

definition register :: "adapter_registration \<Rightarrow> bool \<Rightarrow> adapter_registry \<Rightarrow> adapter_registry" where
  "register r isDefault reg =
     (let reg1 = reg\<lparr>adapters :=
            AList.update (keyFor (reg_adapterName r) (reg_instanceName r)) (reg_adapter r)
              (adapters reg)\<rparr>
      in if isDefault \<or> defaultAdapterName reg = None
         then reg1\<lparr>defaultAdapterName := Some (reg_adapterName r),
                   defaultInstanceName := reg_instanceName r\<rparr>
         else reg1)"

definition registryGet :: "string \<Rightarrow> string \<Rightarrow> adapter_registry \<Rightarrow> framework_error + nat" where
  "registryGet adapterName instanceName reg =
     (case map_of (adapters reg) (keyFor adapterName instanceName) of
        None \<Rightarrow> Inl (TransactionAdapterNotFoundError adapterName instanceName)
      | Some a \<Rightarrow> Inr a)"

text \<open>Every entry as (adapter name, adapter), for the keys whose instance has that name.\<close>

definition dataSourceMatches :: "string \<Rightarrow> adapter_registry \<Rightarrow> (string \<times> nat) list" where
  "dataSourceMatches dataSource reg =
     map (\<lambda>(key, a). (fst (splitKey key), a))
       (filter (\<lambda>(key, a). snd (splitKey key) = dataSource) (adapters reg))"

definition getByDataSource :: "string \<Rightarrow> adapter_registry \<Rightarrow> framework_error + nat" where
  "getByDataSource dataSource reg =
     (case dataSourceMatches dataSource reg of
        [] \<Rightarrow> Inl (TransactionAdapterNotFoundError ''*'' dataSource)
      | [m] \<Rightarrow> Inr (snd m)
      | _ \<Rightarrow> Inl IllegalTransactionStateError)"

definition getAdapterNameByDataSource :: "string \<Rightarrow> adapter_registry \<Rightarrow> framework_error + string" where
  "getAdapterNameByDataSource dataSource reg =
     (case dataSourceMatches dataSource reg of
        [] \<Rightarrow> Inl (TransactionAdapterNotFoundError ''*'' dataSource)
      | [m] \<Rightarrow> Inr (fst m)
      | _ \<Rightarrow> Inl IllegalTransactionStateError)"

definition getDefaultAdapterName :: "adapter_registry \<Rightarrow> framework_error + string" where
  "getDefaultAdapterName reg =
     (case defaultAdapterName reg of
        None \<Rightarrow> Inl IllegalTransactionStateError
      | Some n \<Rightarrow> Inr n)"

definition getDefaultInstanceName :: "adapter_registry \<Rightarrow> string" where
  "getDefaultInstanceName reg = defaultInstanceName reg"

definition getAll :: "adapter_registry \<Rightarrow> adapter_registration list" where
  "getAll reg =
     map (\<lambda>(key, a). \<lparr>reg_adapterName = fst (splitKey key), reg_instanceName = snd (splitKey key),
                       reg_adapter = a\<rparr>) (adapters reg)"

section \<open>Keys\<close>

definition colon_free :: "string \<Rightarrow> bool" where
  "colon_free s = (CHR '':'' \<notin> set s)"

lemma keyFor_takeWhile: "CHR '':'' \<notin> set a \<Longrightarrow> takeWhile (\<lambda>c. c \<noteq> CHR '':'') (keyFor a i) = a"
  unfolding keyFor_def by (simp add: takeWhile_until)

lemma keyFor_dropWhile:
  "CHR '':'' \<notin> set a \<Longrightarrow> dropWhile (\<lambda>c. c \<noteq> CHR '':'') (keyFor a i) = CHR '':'' # i"
  unfolding keyFor_def by (simp add: dropWhile_until)

lemma keyFor_colon: "CHR '':'' \<in> set (keyFor a i)"
  unfolding keyFor_def by simp

lemma splitKey_keyFor: "colon_free a \<Longrightarrow> splitKey (keyFor a i) = (a, i)"
  unfolding splitKey_def colon_free_def
  by (simp only: keyFor_takeWhile keyFor_dropWhile keyFor_colon if_True list.sel
      not_False_eq_True simp_thms)

lemma keyFor_inj:
  assumes "colon_free a" and "colon_free b"
  shows "keyFor a i = keyFor b j \<longleftrightarrow> a = b \<and> i = j"
  by (metis splitKey_keyFor assms prod.inject)

end
