(* ===== verification/Tx_Manager.thy ===== *)
theory Tx_Manager
  imports Tx_Context Adapter_Registry
begin

text \<open>
  \<open>packages/core/src/manager/transaction.manager.ts\<close>: propagation, the life of a
  transaction, hooks, retries, pending writes and observers.

  The closures client code registers are values of a type \<open>'u\<close>, run by \<open>callHook\<close>
  of the environment; the one closure the manager registers itself, the drain of pending
  writes, is \<open>DrainHook\<close>. A promise some library started is an address, and
  \<open>awaitAll\<close> of the environment is \<open>Promise.all\<close> over such promises. Adapters are
  addresses, and \<open>adapterOf\<close> gives the object at an address.

  The local variable \<open>activeTx\<close> of \<open>startNew\<close>, which a callback assigns and the
  code after the adapter call reads, is a cell of the world. A loop over an array of hooks
  reads the array at every iteration, so hooks pushed meanwhile run in the same pass, and
  the loop need not end: it is a partial function. Log output is left out.
\<close>

section \<open>State and environment\<close>

datatype 'u hook = UserHook 'u | DrainHook nat

record ('u, 'd) manager_world = "'u hook ctx_world" +
  registry :: adapter_registry
  rolledBack :: "nat set"
  pending :: "nat \<Rightarrow> nat list option"
  cells :: "nat \<Rightarrow> nat option"
  db :: 'd

record ('u, 'w) environment =
  adapterOf :: "nat \<Rightarrow> 'w transaction_adapter"
  callHook :: "'u \<Rightarrow> jsv \<Rightarrow> ('w, jsv) comp"
  awaitAll :: "nat list \<Rightarrow> ('w, jsv) comp"
  observers :: "'w transaction_observer list"
  random :: "'w \<Rightarrow> rat"

type_synonym ('u, 'd, 'z) world = "('u, 'd, 'z) manager_world_scheme"
type_synonym ('u, 'd, 'z) env = "('u, ('u, 'd, 'z) world) environment"

section \<open>Which transaction, which adapter\<close>

definition contextKey :: "string \<Rightarrow> string \<Rightarrow> string" where
  "contextKey adapter inst = adapter @ '':'' @ inst"

definition resolveAdapterIdentifiers ::
    "extended_options \<Rightarrow> adapter_registry \<Rightarrow> framework_error + (string \<times> string)" where
  "resolveAdapterIdentifiers options reg =
     (case o_dataSource options of
        Some ds \<Rightarrow>
          (case getAdapterNameByDataSource ds reg of
             Inl e \<Rightarrow> Inl e
           | Inr a \<Rightarrow> Inr (a, ds))
      | None \<Rightarrow>
          (case (case o_adapter options of
                   Some a \<Rightarrow> Inr a
                 | None \<Rightarrow> getDefaultAdapterName reg) of
             Inl e \<Rightarrow> Inl e
           | Inr a \<Rightarrow>
               Inr (a, case o_adapterInstance options of
                         Some i \<Rightarrow> i
                       | None \<Rightarrow> getDefaultInstanceName reg)))"

definition currentTransaction :: "('h, 'z) ctx_world_scheme \<Rightarrow> framework_error + nat" where
  "currentTransaction w =
     (case getStore w of
        None \<Rightarrow> Inl IllegalTransactionStateError
      | Some st \<Rightarrow>
          (case activeTransactions st of
             [] \<Rightarrow> Inl IllegalTransactionStateError
           | p # _ \<Rightarrow> Inr (snd p)))"

section \<open>Registering hooks\<close>

definition updateTx ::
    "nat \<Rightarrow> ('h active_tx \<Rightarrow> 'h active_tx) \<Rightarrow> ('h, 'z) ctx_world_scheme \<Rightarrow> ('h, 'z) ctx_world_scheme" where
  "updateTx t f w = w\<lparr>txs := (txs w)(t := f (txs w t))\<rparr>"

definition pushAfterCommit :: "'h \<Rightarrow> 'h active_tx \<Rightarrow> 'h active_tx" where
  "pushAfterCommit h tx = tx\<lparr>afterCommitHooks := afterCommitHooks tx @ [h]\<rparr>"

definition pushAfterRollback :: "'h \<Rightarrow> 'h active_tx \<Rightarrow> 'h active_tx" where
  "pushAfterRollback h tx = tx\<lparr>afterRollbackHooks := afterRollbackHooks tx @ [h]\<rparr>"

definition pushBeforeCommit :: "'h \<Rightarrow> 'h active_tx \<Rightarrow> 'h active_tx" where
  "pushBeforeCommit h tx = tx\<lparr>beforeCommitHooks := beforeCommitHooks tx @ [h]\<rparr>"

definition onCurrent ::
    "('h active_tx \<Rightarrow> 'h active_tx) \<Rightarrow> (('h, 'z) ctx_world_scheme, unit) comp" where
  "onCurrent f w =
     (case currentTransaction w of
        Inl e \<Rightarrow> raise e w
      | Inr t \<Rightarrow> Some (Resolve (), updateTx t f w))"

definition registerAfterCommit :: "'u \<Rightarrow> (('u, 'd, 'z) world, unit) comp" where
  "registerAfterCommit u = onCurrent (pushAfterCommit (UserHook u))"

definition registerAfterRollback :: "'u \<Rightarrow> (('u, 'd, 'z) world, unit) comp" where
  "registerAfterRollback u = onCurrent (pushAfterRollback (UserHook u))"

definition registerBeforeCommit :: "'u \<Rightarrow> (('u, 'd, 'z) world, unit) comp" where
  "registerBeforeCommit u = onCurrent (pushBeforeCommit (UserHook u))"

section \<open>What bridges ask of the adapter\<close>

definition nativeTransactionOf ::
    "('u, 'd, 'z) env \<Rightarrow> nat \<Rightarrow> (('u, 'd, 'z) world, jsv) comp" where
  "nativeTransactionOf env t w =
     (case registryGet (adapterName (txs w t)) (adapterInstanceName (txs w t)) (registry w) of
        Inl e \<Rightarrow> raise e w
      | Inr a \<Rightarrow>
          (case a_nativeTransaction (adapterOf env a) of
             None \<Rightarrow> raise IllegalTransactionStateError w
           | Some native \<Rightarrow> Some (Resolve (native (handle (txs w t))), w)))"

definition dialectOf ::
    "('u, 'd, 'z) env \<Rightarrow> nat \<Rightarrow> (('u, 'd, 'z) world, string option) comp" where
  "dialectOf env t w =
     (case registryGet (adapterName (txs w t)) (adapterInstanceName (txs w t)) (registry w) of
        Inl e \<Rightarrow> raise e w
      | Inr a \<Rightarrow> Some (Resolve (a_dialect (adapterOf env a)), w))"

section \<open>Pending writes\<close>

text \<open>\<open>Set.add\<close>: insertion order, no duplicates.\<close>

definition setAdd :: "'a \<Rightarrow> 'a list \<Rightarrow> 'a list" where
  "setAdd x xs = (if x \<in> set xs then xs else xs @ [x])"

definition trackPending :: "nat \<Rightarrow> nat \<Rightarrow> ('u, 'd, 'z) world \<Rightarrow> ('u, 'd, 'z) world" where
  "trackPending t p w =
     (case pending w t of
        None \<Rightarrow>
          updateTx t (pushBeforeCommit (DrainHook t)) (w\<lparr>pending := (pending w)(t \<mapsto> [p])\<rparr>)
      | Some ps \<Rightarrow> w\<lparr>pending := (pending w)(t \<mapsto> setAdd p ps)\<rparr>)"

text \<open>The drain: clear the set, await the batch, and again while promises were added.\<close>

partial_function (option) drain ::
    "('u, 'd, 'z) env \<Rightarrow> nat \<Rightarrow> ('u, 'd, 'z) world \<Rightarrow> (jsv outcome \<times> ('u, 'd, 'z) world) option" where
  "drain env t w =
     (case pending w t of
        None \<Rightarrow> Some (Resolve Undef, w)
      | Some ps \<Rightarrow>
          if ps = [] then Some (Resolve Undef, w)
          else
            (case awaitAll env ps (w\<lparr>pending := (pending w)(t \<mapsto> [])\<rparr>) of
               None \<Rightarrow> None
             | Some (r, w1) \<Rightarrow>
                 (case r of
                    Reject e \<Rightarrow> Some (Reject e, w1)
                  | Resolve v \<Rightarrow> drain env t w1)))"

section \<open>Running hooks\<close>

fun invoke :: "('u, 'd, 'z) env \<Rightarrow> 'u hook \<Rightarrow> jsv \<Rightarrow> (('u, 'd, 'z) world, jsv) comp" where
  "invoke env (UserHook u) arg = callHook env u arg"
| "invoke env (DrainHook t) arg = drain env t"

text \<open>The loop over \<open>beforeCommitHooks\<close>: the first rejection ends it.\<close>

partial_function (option) runBeforeCommit ::
    "('u, 'd, 'z) env \<Rightarrow> nat \<Rightarrow> nat \<Rightarrow> ('u, 'd, 'z) world \<Rightarrow> (unit outcome \<times> ('u, 'd, 'z) world) option" where
  "runBeforeCommit env t i w =
     (if i < length (beforeCommitHooks (txs w t)) then
        (case invoke env (beforeCommitHooks (txs w t) ! i) Undef w of
           None \<Rightarrow> None
         | Some (r, w1) \<Rightarrow>
             (case r of
                Reject e \<Rightarrow> Some (Reject e, w1)
              | Resolve v \<Rightarrow> runBeforeCommit env t (Suc i) w1))
      else Some (Resolve (), w))"

text \<open>
  \<open>runHooks\<close> over the array that \<open>sel\<close> reads: a rejection is logged and swallowed, so
  the result is only the world.
\<close>

partial_function (option) runHooks ::
    "('u, 'd, 'z) env \<Rightarrow> ('u hook active_tx \<Rightarrow> 'u hook list) \<Rightarrow> nat \<Rightarrow> jsv \<Rightarrow> nat \<Rightarrow>
     ('u, 'd, 'z) world \<Rightarrow> ('u, 'd, 'z) world option" where
  "runHooks env sel t arg i w =
     (if i < length (sel (txs w t)) then
        (case invoke env (sel (txs w t) ! i) arg w of
           None \<Rightarrow> None
         | Some (r, w1) \<Rightarrow> runHooks env sel t arg (Suc i) w1)
      else Some w)"

declare drain.simps [code] runBeforeCommit.simps [code] runHooks.simps [code]

section \<open>Observers\<close>

text \<open>
  Each observer's method is optional, and what it throws is logged and swallowed. The three
  notifications are the same loop over different methods.
\<close>

fun notify ::
    "('o \<Rightarrow> ('c \<Rightarrow> ('w, unit) comp) option) \<Rightarrow> 'o list \<Rightarrow> 'c \<Rightarrow> 'w \<Rightarrow> 'w option" where
  "notify sel [] ctx w = Some w"
| "notify sel (ob # obs) ctx w =
     (case sel ob of
        None \<Rightarrow> notify sel obs ctx w
      | Some f \<Rightarrow>
          (case f ctx w of
             None \<Rightarrow> None
           | Some (r, w1) \<Rightarrow> notify sel obs ctx w1))"

definition notifyStart :: "('u, 'd, 'z) env \<Rightarrow> start_context \<Rightarrow> ('u, 'd, 'z) world \<Rightarrow> ('u, 'd, 'z) world option" where
  "notifyStart env = notify onTransactionStart (observers env)"

definition notifyCommit :: "('u, 'd, 'z) env \<Rightarrow> commit_context \<Rightarrow> ('u, 'd, 'z) world \<Rightarrow> ('u, 'd, 'z) world option" where
  "notifyCommit env = notify onTransactionCommit (observers env)"

definition notifyRollback :: "('u, 'd, 'z) env \<Rightarrow> rollback_context \<Rightarrow> ('u, 'd, 'z) world \<Rightarrow> ('u, 'd, 'z) world option" where
  "notifyRollback env = notify onTransactionRollback (observers env)"

section \<open>Which errors roll back\<close>

definition shouldRollback :: "jsv \<Rightarrow> extended_options \<Rightarrow> bool" where
  "shouldRollback err options =
     (if (case o_noRollbackFor options of
            None \<Rightarrow> False
          | Some cs \<Rightarrow> cs \<noteq> [] \<and> list_ex (instance_of err) cs)
      then False
      else
        (case o_rollbackFor options of
           None \<Rightarrow> True
         | Some cs \<Rightarrow> if cs = [] then True else list_ex (instance_of err) cs))"

section \<open>Starting a transaction\<close>

definition newActiveTx ::
    "tx_handle \<Rightarrow> string \<Rightarrow> string \<Rightarrow> extended_options \<Rightarrow> int \<Rightarrow> nat \<Rightarrow> 'h active_tx" where
  "newActiveTx h adapter inst options t corr =
     \<lparr>handle = h, adapterName = adapter, adapterInstanceName = inst, txOptions = options,
      startedAt = t, afterCommitHooks = [], afterRollbackHooks = [], beforeCommitHooks = [],
      correlationId = corr\<rparr>"

definition startContext ::
    "tx_handle \<Rightarrow> string \<Rightarrow> string \<Rightarrow> nat \<Rightarrow> extended_options \<Rightarrow> start_context" where
  "startContext h adapter inst corr options =
     \<lparr>c_transactionId = h_id h, c_adapterName = adapter, c_adapterInstanceName = inst,
      c_correlationId = corr, c_options = options\<rparr>"

text \<open>\<open>await fn()\<close>, then the before-commit hooks, inside one \<open>try\<close>.\<close>

definition guardedBody ::
    "('u, 'd, 'z) env \<Rightarrow> nat \<Rightarrow> extended_options \<Rightarrow> (('u, 'd, 'z) world, jsv) comp \<Rightarrow>
     (('u, 'd, 'z) world, internal_result) comp" where
  "guardedBody env t options fn =
     catching
       (andThen fn (\<lambda>v. andThen (runBeforeCommit env t 0) (\<lambda>_. ret (IOk v))))
       (\<lambda>err. if shouldRollback err options then throw err else ret (IErr err))"

text \<open>
  The callback the manager gives the adapter: make the \<open>ActiveTransaction\<close>, assign it
  to the local \<open>activeTx\<close>, put it in the store, notify, run the body, and take it out of
  the store whatever happened.
\<close>

definition txCallback ::
    "('u, 'd, 'z) env \<Rightarrow> string \<Rightarrow> string \<Rightarrow> extended_options \<Rightarrow> nat \<Rightarrow> nat \<Rightarrow>
     (('u, 'd, 'z) world, jsv) comp \<Rightarrow> ('u, 'd, 'z) world tx_callback" where
  "txCallback env adapter inst options corr cell fn h w =
     (let t = fresh w;
          key = contextKey adapter inst;
          w1 = w\<lparr>fresh := Suc t,
                 txs := (txs w)(t := newActiveTx h adapter inst options (now w) corr),
                 cells := (cells w)(cell \<mapsto> t)\<rparr>
      in (case setActiveTransaction key t w1 of
            None \<Rightarrow> None
          | Some (Reject e, w2) \<Rightarrow> Some (Reject e, w2)
          | Some (Resolve _, w2) \<Rightarrow>
              (case notifyStart env (startContext h adapter inst corr options) w2 of
                 None \<Rightarrow> None
               | Some w3 \<Rightarrow>
                   finallyDo (guardedBody env t options fn)
                     (modify (removeActiveTransaction key)) w3)))"

text \<open>\<open>WeakSet.add\<close> of what was thrown, when that is an object.\<close>

definition markRolledBack :: "jsv \<Rightarrow> ('u, 'd, 'z) world \<Rightarrow> ('u, 'd, 'z) world" where
  "markRolledBack e w =
     (case object_id e of
        None \<Rightarrow> w
      | Some i \<Rightarrow> w\<lparr>rolledBack := insert i (rolledBack w)\<rparr>)"

text \<open>The \<open>catch (rollbackError)\<close> branch around the adapter call.\<close>

definition afterAdapterRejected ::
    "('u, 'd, 'z) env \<Rightarrow> string \<Rightarrow> string \<Rightarrow> extended_options \<Rightarrow> nat \<Rightarrow> int \<Rightarrow> nat \<Rightarrow> jsv \<Rightarrow>
     (('u, 'd, 'z) world, jsv) comp" where
  "afterAdapterRejected env adapter inst options corr start cell e w =
     (case cells w cell of
        None \<Rightarrow> Some (Reject e, markRolledBack e w)
      | Some t \<Rightarrow>
          (case notifyRollback env
                  \<lparr>c_transactionId = h_id (handle (txs w t)), c_adapterName = adapter,
                   c_adapterInstanceName = inst, c_correlationId = corr, c_options = options,
                   c_rollbackDurationMs = now w - start, c_error = e,
                   c_rollbackCount = length (afterRollbackHooks (txs w t))\<rparr> w of
             None \<Rightarrow> None
           | Some w1 \<Rightarrow>
               (case runHooks env afterRollbackHooks t e 0 w1 of
                  None \<Rightarrow> None
                | Some w2 \<Rightarrow> Some (Reject e, markRolledBack e w2))))"

text \<open>\<open>if (result.ok) return result.value; throw result.error\<close>\<close>

fun settleResult :: "internal_result \<Rightarrow> ('w, jsv) comp" where
  "settleResult (IOk v) w = Some (Resolve v, w)"
| "settleResult (IErr e) w = Some (Reject e, w)"

definition afterAdapterResolved ::
    "('u, 'd, 'z) env \<Rightarrow> string \<Rightarrow> string \<Rightarrow> extended_options \<Rightarrow> nat \<Rightarrow> int \<Rightarrow> nat \<Rightarrow>
     internal_result \<Rightarrow> (('u, 'd, 'z) world, jsv) comp" where
  "afterAdapterResolved env adapter inst options corr start cell result w =
     (case cells w cell of
        None \<Rightarrow> settleResult result w
      | Some t \<Rightarrow>
          (case notifyCommit env
                  \<lparr>c_transactionId = h_id (handle (txs w t)), c_adapterName = adapter,
                   c_adapterInstanceName = inst, c_correlationId = corr, c_options = options,
                   c_durationMs = now w - start,
                   c_commitCount = length (afterCommitHooks (txs w t))\<rparr> w of
             None \<Rightarrow> None
           | Some w1 \<Rightarrow>
               (case runHooks env afterCommitHooks t Undef 0 w1 of
                  None \<Rightarrow> None
                | Some w2 \<Rightarrow> settleResult result w2)))"

text \<open>The function \<open>body\<close> of \<open>startNew\<close>; \<open>cell\<close> is its variable \<open>activeTx\<close>.\<close>

definition startBody ::
    "('u, 'd, 'z) env \<Rightarrow> ('u, 'd, 'z) world transaction_adapter \<Rightarrow> string \<Rightarrow> string \<Rightarrow> extended_options \<Rightarrow>
     nat \<Rightarrow> int \<Rightarrow> nat \<Rightarrow> (('u, 'd, 'z) world, jsv) comp \<Rightarrow> (('u, 'd, 'z) world, jsv) comp" where
  "startBody env ad adapter inst options corr start cell fn w =
     (case a_runInTransaction ad options (txCallback env adapter inst options corr cell fn) w of
        None \<Rightarrow> None
      | Some (Reject e, w1) \<Rightarrow> afterAdapterRejected env adapter inst options corr start cell e w1
      | Some (Resolve result, w1) \<Rightarrow>
          afterAdapterResolved env adapter inst options corr start cell result w1)"

definition startNew ::
    "('u, 'd, 'z) env \<Rightarrow> ('u, 'd, 'z) world transaction_adapter \<Rightarrow> string \<Rightarrow> string \<Rightarrow> extended_options \<Rightarrow>
     (('u, 'd, 'z) world, jsv) comp \<Rightarrow> (('u, 'd, 'z) world, jsv) comp" where
  "startNew env ad adapter inst options fn w =
     (let outerStore = getStore w;
          corr = (case outerStore of Some st \<Rightarrow> storeCorrelationId st | None \<Rightarrow> fresh w);
          cell = Suc (fresh w);
          w1 = w\<lparr>fresh := Suc cell, cells := (cells w)(cell := None)\<rparr>;
          body = startBody env ad adapter inst options corr (now w) cell fn
      in if outerStore = None then contextRun corr body w1 else body w1)"

section \<open>Retries\<close>

record normalized_retry =
  n_maxAttempts :: nat
  n_delay :: "retry_delay option"
  n_retryIf :: "(jsv \<Rightarrow> bool) option"

text \<open>\<open>Math.floor(Math.random() * Math.min(1000, 10 * 2 ** (attempt - 1)))\<close>\<close>

definition defaultDelay :: "rat \<Rightarrow> nat \<Rightarrow> int" where
  "defaultDelay r attempt = \<lfloor>r * min 1000 (10 * 2 ^ (attempt - 1))\<rfloor>"

definition normalizeRetry :: "retry_setting option \<Rightarrow> framework_error + normalized_retry option" where
  "normalizeRetry setting =
     (case setting of
        None \<Rightarrow> Inr None
      | Some s \<Rightarrow>
          (let options =
                 (case s of
                    RetryNumber n \<Rightarrow> \<lparr>r_maxAttempts = n, r_delay = None, r_retryIf = None\<rparr>
                  | RetryObject ro \<Rightarrow> ro)
           in (case r_maxAttempts options of
                 JNonInt \<Rightarrow> Inl TypeError
               | JInt n \<Rightarrow>
                   if n < 1 then Inl TypeError
                   else Inr (Some \<lparr>n_maxAttempts = nat n, n_delay = r_delay options,
                                   n_retryIf = r_retryIf options\<rparr>))))"

definition retryDelay :: "rat \<Rightarrow> normalized_retry \<Rightarrow> nat \<Rightarrow> jsv \<Rightarrow> int" where
  "retryDelay r nr attempt err =
     (case n_delay nr of
        Some (DelayFunction f) \<Rightarrow> f attempt err
      | Some (DelayNumber n) \<Rightarrow> n
      | None \<Rightarrow> defaultDelay r attempt)"

definition retryable :: "'w transaction_adapter \<Rightarrow> normalized_retry \<Rightarrow> jsv \<Rightarrow> bool" where
  "retryable ad nr err =
     (case n_retryIf nr of
        Some f \<Rightarrow> f err
      | None \<Rightarrow> (case a_isRetryableError ad of None \<Rightarrow> False | Some f \<Rightarrow> f err))"

definition wasRolledBack :: "jsv \<Rightarrow> ('u, 'd, 'z) world \<Rightarrow> bool" where
  "wasRolledBack err w =
     (case object_id err of None \<Rightarrow> False | Some i \<Rightarrow> i \<in> rolledBack w)"

text \<open>\<open>setTimeout\<close> with a positive delay lets that time pass.\<close>

definition sleep :: "int \<Rightarrow> ('h, 'z) ctx_world_scheme \<Rightarrow> ('h, 'z) ctx_world_scheme" where
  "sleep ms w = (if ms > 0 then w\<lparr>now := now w + ms\<rparr> else w)"

text \<open>The \<open>for (let attempt = 1; ; attempt++)\<close> loop, around one start of the transaction.\<close>

function retryLoop ::
    "('u, 'd, 'z) env \<Rightarrow> ('u, 'd, 'z) world transaction_adapter \<Rightarrow> normalized_retry \<Rightarrow>
     (('u, 'd, 'z) world, jsv) comp \<Rightarrow> nat \<Rightarrow> (('u, 'd, 'z) world, jsv) comp" where
  "retryLoop env ad nr once attempt w =
     (case once w of
        None \<Rightarrow> None
      | Some (Resolve v, w1) \<Rightarrow> Some (Resolve v, w1)
      | Some (Reject err, w1) \<Rightarrow>
          if n_maxAttempts nr \<le> attempt \<or> \<not> wasRolledBack err w1 \<or> \<not> retryable ad nr err
          then Some (Reject err, w1)
          else retryLoop env ad nr once (Suc attempt)
                 (sleep (retryDelay (random env w1) nr attempt err) w1))"
  by pat_completeness auto
termination
  by (relation "measure (\<lambda>(env, ad, nr, once, attempt, w). n_maxAttempts nr - attempt)") auto

declare retryLoop.simps [simp del]

definition startNewWithRetry ::
    "('u, 'd, 'z) env \<Rightarrow> ('u, 'd, 'z) world transaction_adapter \<Rightarrow> string \<Rightarrow> string \<Rightarrow> extended_options \<Rightarrow>
     (('u, 'd, 'z) world, jsv) comp \<Rightarrow> (('u, 'd, 'z) world, jsv) comp" where
  "startNewWithRetry env ad adapter inst options fn w =
     (case normalizeRetry (o_retry options) of
        Inl e \<Rightarrow> raise e w
      | Inr None \<Rightarrow> startNew env ad adapter inst options fn w
      | Inr (Some nr) \<Rightarrow> retryLoop env ad nr (startNew env ad adapter inst options fn) 1 w)"

section \<open>Savepoints\<close>

definition runNestedSavepoint ::
    "('u, 'd, 'z) world transaction_adapter \<Rightarrow> nat \<Rightarrow> extended_options \<Rightarrow>
     (('u, 'd, 'z) world, jsv) comp \<Rightarrow> (('u, 'd, 'z) world, jsv) comp" where
  "runNestedSavepoint ad parent options fn w =
     andThen
       (a_runInSavepoint ad (handle (txs w parent))
          (\<lambda>h. catching (andThen fn (\<lambda>v. ret (IOk v)))
                 (\<lambda>err. if shouldRollback err options then throw err else ret (IErr err))))
       settleResult w"

section \<open>Propagation\<close>

definition withAdapter ::
    "('u, 'd, 'z) env \<Rightarrow> string \<Rightarrow> string \<Rightarrow>
     (('u, 'd, 'z) world transaction_adapter \<Rightarrow> (('u, 'd, 'z) world, jsv) comp) \<Rightarrow>
     (('u, 'd, 'z) world, jsv) comp" where
  "withAdapter env adapter inst k w =
     (case registryGet adapter inst (registry w) of
        Inl e \<Rightarrow> raise e w
      | Inr a \<Rightarrow> k (adapterOf env a) w)"

text \<open>
  \<open>TransactionContext.removeActiveTransaction(key); try { ... } finally { set back }\<close>
\<close>

definition suspended ::
    "string \<Rightarrow> nat \<Rightarrow> (('u, 'd, 'z) world, jsv) comp \<Rightarrow> (('u, 'd, 'z) world, jsv) comp" where
  "suspended key existing f w =
     finallyDo f (setActiveTransaction key existing) (removeActiveTransaction key w)"

definition run ::
    "('u, 'd, 'z) env \<Rightarrow> extended_options \<Rightarrow> (('u, 'd, 'z) world, jsv) comp \<Rightarrow>
     (('u, 'd, 'z) world, jsv) comp" where
  "run env options fn w =
     (case resolveAdapterIdentifiers options (registry w) of
        Inl e \<Rightarrow> raise e w
      | Inr (adapter, inst) \<Rightarrow>
          (let propagation = (case o_propagation options of None \<Rightarrow> REQUIRED | Some p \<Rightarrow> p);
               key = contextKey adapter inst;
               existing = getActiveTransaction key w;
               start = (\<lambda>ad. startNewWithRetry env ad adapter inst options fn)
           in (case propagation of
                 REQUIRED \<Rightarrow>
                   (case existing of
                      Some t \<Rightarrow> fn w
                    | None \<Rightarrow> withAdapter env adapter inst start w)
               | REQUIRES_NEW \<Rightarrow>
                   withAdapter env adapter inst
                     (\<lambda>ad. case existing of
                        None \<Rightarrow> start ad
                      | Some t \<Rightarrow> suspended key t (start ad)) w
               | NESTED \<Rightarrow>
                   withAdapter env adapter inst
                     (\<lambda>ad. case existing of
                        None \<Rightarrow> start ad
                      | Some t \<Rightarrow> runNestedSavepoint ad t options fn) w
               | SUPPORTS \<Rightarrow> fn w
               | NOT_SUPPORTED \<Rightarrow>
                   (case existing of
                      None \<Rightarrow> fn w
                    | Some t \<Rightarrow> suspended key t fn w)
               | NEVER \<Rightarrow>
                   (case existing of
                      Some t \<Rightarrow> raise IllegalTransactionStateError w
                    | None \<Rightarrow> fn w)
               | MANDATORY \<Rightarrow>
                   (case existing of
                      None \<Rightarrow> raise IllegalTransactionStateError w
                    | Some t \<Rightarrow> fn w))))"

end
