(* ===== verification/Frame.thy ===== *)
theory Frame
  imports Tx_Manager
begin

text \<open>
  What a computation may change of the transactional state that existed before it.

  \<open>framed n w w'\<close> speaks of the stores, transactions and cells with an address below
  \<open>n\<close>: the store of the running chain is the same, every such store has the same
  entries (perhaps in another order, each key once when it was there once), every such transaction is the same object with
  perhaps more hooks, every such cell has the same value, and no rolled-back mark is lost.
  \<open>quiet w w'\<close> is the stronger relation of code that knows nothing of the manager: only
  the database, the clock and the supply of addresses have moved.
\<close>

section \<open>Definitions\<close>

definition sameTx :: "'h active_tx \<Rightarrow> 'h active_tx \<Rightarrow> bool" where
  "sameTx a b \<longleftrightarrow>
     handle b = handle a \<and> adapterName b = adapterName a \<and>
     adapterInstanceName b = adapterInstanceName a \<and> txOptions b = txOptions a \<and>
     startedAt b = startedAt a \<and> correlationId b = correlationId a \<and>
     (\<exists>hs. afterCommitHooks b = afterCommitHooks a @ hs) \<and>
     (\<exists>hs. afterRollbackHooks b = afterRollbackHooks a @ hs) \<and>
     (\<exists>hs. beforeCommitHooks b = beforeCommitHooks a @ hs)"

definition sameStore :: "ctx_store \<Rightarrow> ctx_store \<Rightarrow> bool" where
  "sameStore a b \<longleftrightarrow>
     map_of (activeTransactions b) = map_of (activeTransactions a) \<and>
     (distinct (map fst (activeTransactions a)) \<longrightarrow> distinct (map fst (activeTransactions b))) \<and>
     storeCorrelationId b = storeCorrelationId a"

definition framed :: "nat \<Rightarrow> ('u, 'd, 'z) world \<Rightarrow> ('u, 'd, 'z) world \<Rightarrow> bool" where
  "framed n w w' \<longleftrightarrow>
     als w' = als w \<and> fresh w \<le> fresh w' \<and>
     (\<forall>s<n. sameStore (stores w s) (stores w' s)) \<and>
     (\<forall>t<n. sameTx (txs w t) (txs w' t)) \<and>
     (\<forall>c<n. cells w' c = cells w c) \<and>
     rolledBack w \<subseteq> rolledBack w'"

text \<open>The store of the running chain was allocated.\<close>

definition wf_world :: "('h, 'z) ctx_world_scheme \<Rightarrow> bool" where
  "wf_world w \<longleftrightarrow> (case als w of None \<Rightarrow> True | Some s \<Rightarrow> s < fresh w)"

text \<open>A computation that keeps everything there was when it began.\<close>

definition framedAll :: "('u, 'd, 'z) world \<Rightarrow> ('u, 'd, 'z) world \<Rightarrow> bool" where
  "framedAll w w' \<longleftrightarrow> (wf_world w \<longrightarrow> framed (fresh w) w w')"

abbreviation tame :: "(('u, 'd, 'z) world, 'a) comp \<Rightarrow> bool" where
  "tame f \<equiv> keeps framedAll f"

definition quiet :: "('u, 'd, 'z) world \<Rightarrow> ('u, 'd, 'z) world \<Rightarrow> bool" where
  "quiet w w' \<longleftrightarrow>
     (\<exists>d f t. w' = w\<lparr>db := d, fresh := f, now := t\<rparr> \<and> fresh w \<le> f \<and> now w \<le> t)"

section \<open>Order properties\<close>

lemma sameTx_refl [simp]: "sameTx a a"
  by (simp add: sameTx_def)

lemma sameTx_trans: "sameTx a b \<Longrightarrow> sameTx b c \<Longrightarrow> sameTx a c"
  by (auto simp: sameTx_def)

lemma sameStore_refl [simp]: "sameStore a a"
  by (simp add: sameStore_def)

lemma sameStore_trans: "sameStore a b \<Longrightarrow> sameStore b c \<Longrightarrow> sameStore a c"
  by (auto simp: sameStore_def)

lemma framed_refl [simp]: "framed n w w"
  by (simp add: framed_def)

lemma framed_trans: "framed n w w1 \<Longrightarrow> framed n w1 w2 \<Longrightarrow> framed n w w2"
  unfolding framed_def by (auto intro: sameStore_trans sameTx_trans)

lemma framed_mono: "framed n w w' \<Longrightarrow> m \<le> n \<Longrightarrow> framed m w w'"
  unfolding framed_def by (meson less_le_trans)

lemma reflp_framed [simp, keeps_intros]: "reflp (framed n)"
  by (simp add: reflp_def)

lemma transp_framed [simp, keeps_intros]: "transp (framed n)"
  by (rule transpI) (rule framed_trans)

lemma framed_als: "framed n w w' \<Longrightarrow> als w' = als w"
  by (simp add: framed_def)

lemma framed_fresh: "framed n w w' \<Longrightarrow> fresh w \<le> fresh w'"
  by (simp add: framed_def)

lemma framed_store: "framed n w w' \<Longrightarrow> s < n \<Longrightarrow>
    map_of (activeTransactions (stores w' s)) = map_of (activeTransactions (stores w s))"
  by (simp add: framed_def sameStore_def)

lemma framed_cell: "framed n w w' \<Longrightarrow> c < n \<Longrightarrow> cells w' c = cells w c"
  by (simp add: framed_def)

lemma framed_tx: "framed n w w' \<Longrightarrow> t < n \<Longrightarrow> sameTx (txs w t) (txs w' t)"
  by (simp add: framed_def)

lemma framed_rolledBack: "framed n w w' \<Longrightarrow> rolledBack w \<subseteq> rolledBack w'"
  by (simp add: framed_def)

lemma framed_getActive:
  "framed n w w' \<Longrightarrow> (\<And>s. als w = Some s \<Longrightarrow> s < n) \<Longrightarrow>
     getActiveTransaction key w' = getActiveTransaction key w"
  by (cases "als w") (auto simp: getActiveTransaction_def getStore_def framed_als framed_store)

section \<open>Quiet steps\<close>

lemma quiet_refl [simp]: "quiet w w"
  unfolding quiet_def by (intro exI[of _ "db w"] exI[of _ "fresh w"] exI[of _ "now w"]) simp

lemma quiet_trans: "quiet w w1 \<Longrightarrow> quiet w1 w2 \<Longrightarrow> quiet w w2"
  by (auto simp: quiet_def) (metis order_trans)

lemma quiet_framed: "quiet w w' \<Longrightarrow> framed n w w'"
  by (auto simp: quiet_def framed_def)

lemma quiet_fields:
  assumes "quiet w w'"
  shows "als w' = als w" and "stores w' = stores w" and "txs w' = txs w" and "cells w' = cells w"
    and "rolledBack w' = rolledBack w" and "registry w' = registry w" and "pending w' = pending w"
    and "fresh w \<le> fresh w'" and "now w \<le> now w'"
  using assms by (auto simp: quiet_def)

lemma quiet_getActive: "quiet w w' \<Longrightarrow> getActiveTransaction key w' = getActiveTransaction key w"
  by (cases "als w") (simp_all add: getActiveTransaction_def getStore_def quiet_fields)

lemma quiet_db: "quiet w (w\<lparr>db := d\<rparr>)"
  unfolding quiet_def by (intro exI[of _ d] exI[of _ "fresh w"] exI[of _ "now w"]) simp

lemma quiet_alloc: "quiet w (w\<lparr>fresh := Suc (fresh w)\<rparr>)"
  unfolding quiet_def by (intro exI[of _ "db w"] exI[of _ "Suc (fresh w)"] exI[of _ "now w"]) simp

lemma quiet_alloc_db: "quiet w (w\<lparr>fresh := Suc (fresh w), db := d\<rparr>)"
  unfolding quiet_def by (intro exI[of _ d] exI[of _ "Suc (fresh w)"] exI[of _ "now w"]) simp

lemma quiet_sleep: "quiet w (sleep ms w)"
  unfolding quiet_def sleep_def
  by (intro exI[of _ "db w"] exI[of _ "fresh w"] exI[of _ "if ms > 0 then now w + ms else now w"]) simp

lemma quiet_raise: "raise e w = Some (r, w') \<Longrightarrow> quiet w w'"
  by (auto simp: raise_settles quiet_alloc)

section \<open>Tame computations\<close>

lemma reflp_framedAll [simp, keeps_intros]: "reflp framedAll"
  by (simp add: reflp_def framedAll_def)

lemma wf_worldD: "wf_world w \<Longrightarrow> als w = Some s \<Longrightarrow> s < fresh w"
  by (simp add: wf_world_def)

lemma wf_world_framed: "framed n w w' \<Longrightarrow> wf_world w \<Longrightarrow> wf_world w'"
  by (auto simp: wf_world_def framed_def split: option.splits)

lemma transp_framedAll [simp, keeps_intros]: "transp framedAll"
  unfolding framedAll_def
  by (rule transpI) (meson framed_fresh framed_mono framed_trans wf_world_framed)

lemma framedAll_trans: "framedAll w w1 \<Longrightarrow> framedAll w1 w2 \<Longrightarrow> framedAll w w2"
  by (rule transpD[OF transp_framedAll])

lemma framedAllI: "(wf_world w \<Longrightarrow> framed (fresh w) w w') \<Longrightarrow> framedAll w w'"
  by (simp add: framedAll_def)

lemma tameI: "(\<And>w r w'. wf_world w \<Longrightarrow> f w = Some (r, w') \<Longrightarrow> framed (fresh w) w w') \<Longrightarrow> tame f"
  by (auto simp: framedAll_def intro: keepsI)

lemma framedAllD: "framedAll w w' \<Longrightarrow> wf_world w \<Longrightarrow> n \<le> fresh w \<Longrightarrow> framed n w w'"
  unfolding framedAll_def by (blast intro: framed_mono)

lemma tameD: "tame f \<Longrightarrow> f w = Some (r, w') \<Longrightarrow> wf_world w \<Longrightarrow> n \<le> fresh w \<Longrightarrow> framed n w w'"
  by (blast dest: keepsD framedAllD)

lemma quiet_framedAll: "quiet w w' \<Longrightarrow> framedAll w w'"
  by (simp add: framedAll_def quiet_framed)

lemma getActive_framedAll:
  "framedAll w w' \<Longrightarrow> wf_world w \<Longrightarrow>
     getActiveTransaction key w' = getActiveTransaction key w"
  by (rule framed_getActive[of "fresh w"]) (auto dest: framedAllD wf_worldD)

lemma tame_raise [keeps_intros]: "tame (raise e)"
  by (auto intro!: tameI quiet_framed quiet_raise)

end
