(* ===== verification/Adapter_Contract.thy ===== *)
theory Adapter_Contract
  imports Frame
begin

text \<open>
  The contract between the manager and an adapter
  (\<open>packages/core/src/types/transaction-adapter.ts\<close>), and the contract of everything
  else the manager runs.

  \<^item> A lawful adapter either rejects without calling the callback, or calls it exactly
    once, settles after it, and resolves to what the callback resolved to or rejects;
    when the callback rejects, it rejects. Of the world it touches only the database, the
    clock and the supply of addresses. What it does depends on the callback only
    where it calls it, and a callback that settles more often makes it settle more often.
  \<^item> A faithful adapter rejects with the error the callback rejected with.
  \<^item> A lawful environment has lawful adapters, and closures, promises and observers that
    keep the transactional state that was there before them.
\<close>

section \<open>Adapters\<close>

fun answers :: "'a outcome \<Rightarrow> 'a outcome \<Rightarrow> bool" where
  "answers (Resolve v) r \<longleftrightarrow> r = Resolve v \<or> (\<exists>e. r = Reject e)"
| "answers (Reject e) r \<longleftrightarrow> (\<exists>e'. r = Reject e')"

definition wraps ::
    "(tx_handle \<Rightarrow> (('u, 'd, 'z) world, 'a) comp) \<Rightarrow> ('u, 'd, 'z) world \<Rightarrow> 'a outcome \<Rightarrow>
     ('u, 'd, 'z) world \<Rightarrow> bool" where
  "wraps cb w r w' \<longleftrightarrow>
     (\<exists>e. r = Reject e \<and> quiet w w') \<or>
     (\<exists>h w1 r1 w2. quiet w w1 \<and> cb h w1 = Some (r1, w2) \<and> quiet w2 w' \<and> answers r1 r)"

lemma answers_refl [simp]: "answers r r"
  by (cases r) auto

lemma wrapsI:
  "quiet w w1 \<Longrightarrow> cb h w1 = Some (r, w2) \<Longrightarrow> quiet w2 w' \<Longrightarrow> wraps cb w r w'"
  unfolding wraps_def using answers_refl by blast

lemma wraps_rejected: "quiet w w' \<Longrightarrow> wraps cb w (Reject e) w'"
  unfolding wraps_def by blast

locale lawful_adapter =
  fixes ad :: "('u, 'd, 'z) world transaction_adapter"
  assumes in_transaction:
      "a_runInTransaction ad opts cb w = Some (r, w') \<Longrightarrow> wraps cb w r w'"
    and in_savepoint:
      "a_runInSavepoint ad parent cb w = Some (r, w') \<Longrightarrow> wraps cb w r w'"
    and transaction_mono:
      "(\<And>h. refines_comp (cb h) (cb' h)) \<Longrightarrow>
         refines_comp (a_runInTransaction ad opts cb) (a_runInTransaction ad opts cb')"
    and savepoint_mono:
      "(\<And>h. refines_comp (cb h) (cb' h)) \<Longrightarrow>
         refines_comp (a_runInSavepoint ad parent cb) (a_runInSavepoint ad parent cb')"
    and transaction_local:
      "(\<And>h w1. quiet w w1 \<Longrightarrow> cb h w1 = cb' h w1) \<Longrightarrow>
         a_runInTransaction ad opts cb w = a_runInTransaction ad opts cb' w"
    and savepoint_local:
      "(\<And>h w1. quiet w w1 \<Longrightarrow> cb h w1 = cb' h w1) \<Longrightarrow>
         a_runInSavepoint ad parent cb w = a_runInSavepoint ad parent cb' w"

locale faithful_adapter = lawful_adapter +
  assumes transaction_error:
      "a_runInTransaction ad opts cb w = Some (r, w') \<Longrightarrow>
         (\<And>h w1. quiet w w1 \<Longrightarrow> \<exists>e w2. cb h w1 = Some (Reject e, w2) \<and> P e) \<Longrightarrow>
         \<exists>e. r = Reject e \<and> P e"

context lawful_adapter
begin

lemma transaction_framed:
  assumes "a_runInTransaction ad opts cb w = Some (r, w')"
    and "\<And>h w1 r1 w2. quiet w w1 \<Longrightarrow> cb h w1 = Some (r1, w2) \<Longrightarrow> framed n w1 w2"
  shows "framed n w w'"
  using in_transaction[OF assms(1)] assms(2) unfolding wraps_def
  by (meson framed_trans quiet_framed)

lemma savepoint_tame:
  assumes "\<And>h. tame (cb h)"
  shows "tame (a_runInSavepoint ad parent cb)"
proof (rule keepsI)
  fix w r w' assume "a_runInSavepoint ad parent cb w = Some (r, w')"
  from in_savepoint[OF this] show "framedAll w w'"
    unfolding wraps_def by (meson assms framedAll_trans quiet_framedAll keepsD)
qed

end

section \<open>Environments\<close>

locale lawful_environment =
  fixes env :: "('u, 'd, 'z) env"
  assumes adapters_lawful: "lawful_adapter (adapterOf env a)"
    and hooks_tame: "tame (callHook env u arg)"
    and promises_tame: "tame (awaitAll env ps)"
    and start_tame:
      "ob \<in> set (observers env) \<Longrightarrow> onTransactionStart ob = Some f \<Longrightarrow> tame (f sc)"
    and commit_tame:
      "ob \<in> set (observers env) \<Longrightarrow> onTransactionCommit ob = Some g \<Longrightarrow> tame (g cc)"
    and rollback_tame:
      "ob \<in> set (observers env) \<Longrightarrow> onTransactionRollback ob = Some k \<Longrightarrow> tame (k rc)"

section \<open>Loops\<close>

text \<open>Induction over the passes of a loop that ends.\<close>

lemma drain_induct:
  assumes "drain env t w = Some x"
    and stop: "\<And>w. pending w t = None \<or> pending w t = Some [] \<Longrightarrow> P w (Resolve Undef, w)"
    and fail: "\<And>w ps e w1. pending w t = Some ps \<Longrightarrow> ps \<noteq> [] \<Longrightarrow>
      awaitAll env ps (w\<lparr>pending := (pending w)(t \<mapsto> [])\<rparr>) = Some (Reject e, w1) \<Longrightarrow>
      P w (Reject e, w1)"
    and pass: "\<And>w ps v w1 x. pending w t = Some ps \<Longrightarrow> ps \<noteq> [] \<Longrightarrow>
      awaitAll env ps (w\<lparr>pending := (pending w)(t \<mapsto> [])\<rparr>) = Some (Resolve v, w1) \<Longrightarrow>
      P w1 x \<Longrightarrow> P w x"
  shows "P w x"
proof -
  have "env = env \<longrightarrow> t = t \<longrightarrow> P w x"
  proof (rule drain.raw_induct[where P = "\<lambda>env' t' w x. env' = env \<longrightarrow> t' = t \<longrightarrow> P w x",
        OF _ assms(1)], intro impI)
    fix rec :: "('a, 'b, 'c) env \<Rightarrow> nat \<Rightarrow> ('a, 'b, 'c) world \<Rightarrow> (jsv outcome \<times> ('a, 'b, 'c) world) option"
    fix env' t' w x
    assume IH: "\<And>env' t' w y. rec env' t' w = Some y \<Longrightarrow> env' = env \<longrightarrow> t' = t \<longrightarrow> P w y"
      and eq: "(case pending w t' of None \<Rightarrow> Some (Resolve Undef, w)
        | Some ps \<Rightarrow> if ps = [] then Some (Resolve Undef, w)
            else case awaitAll env' ps (w\<lparr>pending := (pending w)(t' \<mapsto> [])\<rparr>) of None \<Rightarrow> None
            | Some (r, w1) \<Rightarrow> (case r of Reject e \<Rightarrow> Some (Reject e, w1)
                | Resolve v \<Rightarrow> rec env' t' w1)) = Some x"
      and same: "env' = env" "t' = t"
    show "P w x"
      using eq unfolding same
      by (auto split: option.splits if_splits prod.splits outcome.splits
          intro: stop fail pass IH[rule_format])
  qed
  then show ?thesis by simp
qed

lemma runBeforeCommit_induct:
  assumes "runBeforeCommit env t i w = Some x"
    and stop: "\<And>i w. length (beforeCommitHooks (txs w t)) \<le> i \<Longrightarrow> P i w (Resolve (), w)"
    and fail: "\<And>i w e w1. i < length (beforeCommitHooks (txs w t)) \<Longrightarrow>
      invoke env (beforeCommitHooks (txs w t) ! i) Undef w = Some (Reject e, w1) \<Longrightarrow>
      P i w (Reject e, w1)"
    and pass: "\<And>i w v w1 x. i < length (beforeCommitHooks (txs w t)) \<Longrightarrow>
      invoke env (beforeCommitHooks (txs w t) ! i) Undef w = Some (Resolve v, w1) \<Longrightarrow>
      P (Suc i) w1 x \<Longrightarrow> P i w x"
  shows "P i w x"
proof -
  have "env = env \<longrightarrow> t = t \<longrightarrow> P i w x"
  proof (rule runBeforeCommit.raw_induct
        [where P = "\<lambda>env' t' i w x. env' = env \<longrightarrow> t' = t \<longrightarrow> P i w x", OF _ assms(1)], intro impI)
    fix rec :: "('a, 'b, 'c) env \<Rightarrow> nat \<Rightarrow> nat \<Rightarrow> ('a, 'b, 'c) world \<Rightarrow>
      (unit outcome \<times> ('a, 'b, 'c) world) option"
    fix env' t' i w x
    assume IH: "\<And>env' t' i w y. rec env' t' i w = Some y \<Longrightarrow> env' = env \<longrightarrow> t' = t \<longrightarrow> P i w y"
      and eq: "(if i < length (beforeCommitHooks (txs w t')) then
          (case invoke env' (beforeCommitHooks (txs w t') ! i) Undef w of None \<Rightarrow> None
          | Some (r, w1) \<Rightarrow> (case r of Reject e \<Rightarrow> Some (Reject e, w1)
              | Resolve v \<Rightarrow> rec env' t' (Suc i) w1)) else Some (Resolve (), w)) = Some x"
      and same: "env' = env" "t' = t"
    show "P i w x"
      using eq unfolding same
      by (auto split: option.splits if_splits prod.splits outcome.splits
          intro: stop fail pass IH[rule_format])
  qed
  then show ?thesis by simp
qed

lemma runHooks_induct:
  assumes "runHooks env sel t arg i w = Some x"
    and stop: "\<And>i w. length (sel (txs w t)) \<le> i \<Longrightarrow> P i w w"
    and pass: "\<And>i w r w1 x. i < length (sel (txs w t)) \<Longrightarrow>
      invoke env (sel (txs w t) ! i) arg w = Some (r, w1) \<Longrightarrow> P (Suc i) w1 x \<Longrightarrow> P i w x"
  shows "P i w x"
proof -
  have "env = env \<longrightarrow> sel = sel \<longrightarrow> t = t \<longrightarrow> arg = arg \<longrightarrow> P i w x"
  proof (rule runHooks.raw_induct[where P = "\<lambda>env' sel' t' arg' i w x.
          env' = env \<longrightarrow> sel' = sel \<longrightarrow> t' = t \<longrightarrow> arg' = arg \<longrightarrow> P i w x", OF _ assms(1)], intro impI)
    fix rec :: "('a, 'b, 'c) env \<Rightarrow> ('a hook active_tx \<Rightarrow> 'a hook list) \<Rightarrow> nat \<Rightarrow> jsv \<Rightarrow> nat \<Rightarrow>
      ('a, 'b, 'c) world \<Rightarrow> ('a, 'b, 'c) world option"
    fix env' sel' t' arg' i w x
    assume IH: "\<And>env' sel' t' arg' i w y. rec env' sel' t' arg' i w = Some y \<Longrightarrow>
        env' = env \<longrightarrow> sel' = sel \<longrightarrow> t' = t \<longrightarrow> arg' = arg \<longrightarrow> P i w y"
      and eq: "(if i < length (sel' (txs w t')) then
          (case invoke env' (sel' (txs w t') ! i) arg' w of None \<Rightarrow> None
          | Some (r, w1) \<Rightarrow> rec env' sel' t' arg' (Suc i) w1) else Some w) = Some x"
      and same: "env' = env" "sel' = sel" "t' = t" "arg' = arg"
    show "P i w x"
      using eq unfolding same
      by (auto split: option.splits if_splits prod.splits intro: stop pass IH[rule_format])
  qed
  then show ?thesis by simp
qed

text \<open>Each loop keeps a reflexive and transitive relation its steps keep.\<close>

lemma drain_keeps:
  assumes R: "reflp R" "transp R"
    and clear: "\<And>w. R w (w\<lparr>pending := (pending w)(t \<mapsto> [])\<rparr>)"
    and await: "\<And>ps. keeps R (awaitAll env ps)"
  shows "keeps R (drain env t)"
proof -
  have "R w (snd x)" if "drain env t w = Some x" for x w
    using that
    by (rule drain_induct) (auto intro: reflpD[OF R(1)] transpD[OF R(2)]
        transpD[OF R(2) clear keepsD[OF await]]
        transpD[OF R(2) clear transpD[OF R(2) keepsD[OF await]]])
  then show ?thesis by (fastforce intro: keepsI)
qed

lemma runBeforeCommit_keeps:
  assumes R: "reflp R" "transp R" and step: "\<And>h. keeps R (invoke env h Undef)"
  shows "keeps R (runBeforeCommit env t i)"
proof -
  have "R w (snd x)" if "runBeforeCommit env t i w = Some x" for x w
    using that
    by (rule runBeforeCommit_induct) (auto intro: reflpD[OF R(1)] transpD[OF R(2)] keepsD[OF step])
  then show ?thesis by (fastforce intro: keepsI)
qed

lemma runHooks_keeps:
  assumes R: "reflp R" "transp R" and step: "\<And>h. keeps R (invoke env h arg)"
    and run: "runHooks env sel t arg i w = Some w'"
  shows "R w w'"
  using run
  by (rule runHooks_induct) (auto intro: reflpD[OF R(1)] transpD[OF R(2)] keepsD[OF step])

lemma notify_keeps:
  assumes R: "reflp R" "transp R"
    and step: "\<And>ob f. ob \<in> set obs \<Longrightarrow> sel ob = Some f \<Longrightarrow> keeps R (f ctx)"
    and run: "notify sel obs ctx w = Some w'"
  shows "R w w'"
  using step run
proof (induction obs arbitrary: w)
  case Nil
  then show ?case using reflpD[OF R(1)] by simp
next
  case (Cons ob obs)
  have rest: "R w1 w'" if "notify sel obs ctx w1 = Some w'" for w1
    using Cons that by (meson list.set_intros(2))
  from Cons.prems(2) show ?case
    by (auto split: option.splits prod.splits
        intro: rest transpD[OF R(2) keepsD[OF Cons.prems(1)] rest])
qed

end
