(* ===== verification/Manager_Frame.thy ===== *)
theory Manager_Frame
  imports Adapter_Contract
begin

text \<open>
  In a lawful environment \<open>TransactionManager.run\<close> keeps the transactional state around
  it: whatever the propagation, whether the work commits, rolls back or is retried, the
  store of the chain and its live transactions are afterwards what they were before.
\<close>

section \<open>Small steps\<close>

lemma framed_updateTx:
  "(\<And>tx. sameTx tx (f tx)) \<Longrightarrow> framed n w (updateTx t f w)"
  by (auto simp: framed_def updateTx_def)

lemma sameTx_push [simp]:
  "sameTx tx (pushAfterCommit h tx)" "sameTx tx (pushAfterRollback h tx)"
  "sameTx tx (pushBeforeCommit h tx)"
  by (auto simp: sameTx_def pushAfterCommit_def pushAfterRollback_def pushBeforeCommit_def)

lemma onCurrent_tame: "(\<And>tx. sameTx tx (f tx)) \<Longrightarrow> tame (onCurrent f)"
  by (rule tameI)
    (auto simp: onCurrent_def split: sum.splits intro: framed_updateTx quiet_framed quiet_raise)

lemma register_tame [keeps_intros]:
  "tame (registerAfterCommit u)" "tame (registerAfterRollback u)" "tame (registerBeforeCommit u)"
  by (auto simp: registerAfterCommit_def registerAfterRollback_def registerBeforeCommit_def
      intro: onCurrent_tame)

lemma trackPending_framed: "framed n w (trackPending t p w)"
  by (auto simp: trackPending_def framed_def updateTx_def split: option.splits)

lemma markRolledBack_framed: "framed n w (markRolledBack e w)"
  by (auto simp: markRolledBack_def framed_def split: option.splits)

lemma pending_framed: "framed n w (w\<lparr>pending := p\<rparr>)"
  by (auto simp: framed_def)

lemma settleResult_world: "settleResult r w = Some (x, w') \<Longrightarrow> w' = w"
  by (cases r) auto

lemma settleResult_tame [keeps_intros]: "tame (settleResult r)"
  by (rule tameI) (auto dest: settleResult_world)

section \<open>Suspension\<close>

text \<open>
  Taking an entry out, running something that keeps the rest, and putting it back.
\<close>

lemma suspended_tame:
  assumes f: "tame f" and entry: "getActiveTransaction key w = Some t"
    and run: "suspended key t f w = Some (r, w')"
  shows "framedAll w w'"
proof (rule framedAllI)
  assume wf: "wf_world w"
  from entry obtain s where s: "als w = Some s"
    by (cases "als w") (auto simp: getActiveTransaction_outside)
  define w0 where "w0 = removeActiveTransaction key w"
  have w0: "als w0 = Some s" "fresh w0 = fresh w" "wf_world w0"
    unfolding w0_def using s wf by (simp_all add: wf_world_def)
  from run obtain r1 w1 where w1: "f w0 = Some (r1, w1)"
    and set: "setActiveTransaction key t w1 = Some (Resolve (), w')"
    unfolding suspended_def w0_def[symmetric]
    using tameD[OF f, of w0 _ _ "fresh w"] w0
    by (fastforce simp: finallyDo_Some setActiveTransaction_inside dest: framed_als)
  have fr: "framed (fresh w) w0 w1" using tameD[OF f w1] w0 by simp
  then have al: "als w1 = Some s" using w0 framed_als by metis
  have w': "w' = updateStore s (AList.update key t) w1"
    using set al by (simp add: setActiveTransaction_inside)
  have "sameStore (stores w s') (stores w' s')" if "s' < fresh w" for s'
  proof -
    have "sameStore (stores w0 s') (stores w1 s')" using fr that by (simp add: framed_def)
    then show ?thesis
      using entry s unfolding w0_def w' sameStore_def
      by (auto simp: removeActiveTransaction_inside update_conv delete_conv distinct_update distinct_delete
          getActiveTransaction_store fun_eq_iff)
  qed
  then show "framed (fresh w) w w'"
    using fr s al unfolding framed_def w' w0_def
    by (simp add: updateStore_def removeActiveTransaction_inside)
qed

section \<open>The manager in a lawful environment\<close>

lemma framed_fresh_cells: "framed n w (w\<lparr>fresh := Suc (fresh w)\<rparr>)"
  by (simp add: framed_def)

context lawful_environment
begin

lemma drain_tame: "tame (drain env t)"
  by (rule drain_keeps) (auto simp: framedAll_def pending_framed promises_tame)

lemma invoke_tame: "tame (invoke env h arg)"
  by (cases h) (auto intro: hooks_tame drain_tame)

lemma beforeCommit_tame: "tame (runBeforeCommit env t i)"
  by (rule runBeforeCommit_keeps) (auto intro: invoke_tame)

lemma hooks_framed: "runHooks env sel t arg i w = Some w' \<Longrightarrow> framedAll w w'"
  by (rule runHooks_keeps) (auto intro: invoke_tame)

lemma notify_framed:
  "notifyStart env sc w = Some w' \<Longrightarrow> framedAll w w'"
  "notifyCommit env cc w = Some w' \<Longrightarrow> framedAll w w'"
  "notifyRollback env rc w = Some w' \<Longrightarrow> framedAll w w'"
  unfolding notifyStart_def notifyCommit_def notifyRollback_def
  by (erule notify_keeps[rotated 3], auto intro: start_tame commit_tame rollback_tame)+

lemma guardedBody_tame: "tame fn \<Longrightarrow> tame (guardedBody env t options fn)"
  unfolding guardedBody_def by (auto intro!: keeps_intros beforeCommit_tame)

text \<open>
  The callback takes the key's slot, which is empty, and leaves it empty; the only cell
  it writes is its own.
\<close>

lemma txCallback_framed:
  assumes fn: "tame fn"
    and slot: "als w = Some s" "map_of (activeTransactions (stores w s)) (contextKey a i) = None"
    and n: "n \<le> cell" "n \<le> fresh w" and wf: "wf_world w"
    and run: "txCallback env a i options corr cell fn h w = Some (r, w')"
  shows "framed n w w'"
proof -
  define t where "t = fresh w"
  define key where "key = contextKey a i"
  define w1 where "w1 = w\<lparr>fresh := Suc t, txs := (txs w)(t := newActiveTx h a i options (now w) corr),
                          cells := (cells w)(cell \<mapsto> t)\<rparr>"
  define w2 where "w2 = updateStore s (AList.update key t) w1"
  have set: "setActiveTransaction key t w1 = Some (Resolve (), w2)"
    using slot by (simp add: setActiveTransaction_inside w1_def w2_def)
  from run obtain w3 where w3: "notifyStart env (startContext h a i corr options) w2 = Some w3"
    and "finallyDo (guardedBody env t options fn) (modify (removeActiveTransaction key)) w3 = Some (r, w')"
    using set unfolding txCallback_def Let_def t_def key_def w1_def
    by (auto split: option.splits)
  then obtain w4 where w4: "guardedBody env t options fn w3 = Some (r, w4)"
    and w': "w' = removeActiveTransaction key w4"
    by (auto simp: finallyDo_Some)
  have f23: "framedAll w2 w3" by (rule notify_framed(1)[OF w3])
  have f34: "framedAll w3 w4" by (rule keepsD[OF guardedBody_tame[OF fn] w4])
  have "fresh w2 = Suc (fresh w)" "wf_world w2"
    using slot(1) wf_worldD[OF wf] by (simp_all add: w2_def w1_def t_def wf_world_def)
  then have f24: "framed n w2 w4"
    using framedAllD[OF framedAll_trans[OF f23 f34]] n by simp
  then have al: "als w4 = Some s" using framed_als[OF f24] slot by (simp add: w2_def w1_def)
  have st: "sameStore (stores w s') (stores w' s')" if "s' < n" for s'
  proof -
    have "sameStore (stores w2 s') (stores w4 s')" using f24 that by (simp add: framed_def)
    then show ?thesis
      using slot(2) al unfolding w' sameStore_def w2_def w1_def key_def
      by (auto simp: removeActiveTransaction_inside update_conv delete_conv distinct_update
          distinct_delete fun_eq_iff)
  qed
  have ts: "sameTx (txs w t') (txs w' t')" if "t' < n" for t'
    using framed_tx[OF f24 that] that n unfolding w' by (simp add: w2_def w1_def t_def)
  have cs: "cells w' c = cells w c" if "c < n" for c
    using framed_cell[OF f24 that] that n al unfolding w'
    by (simp add: w2_def w1_def updateStore_def removeActiveTransaction_inside)
  show ?thesis
    using st ts cs al slot framed_fresh[OF f24] framed_rolledBack[OF f24]
    unfolding framed_def w'
    by (simp add: w2_def w1_def t_def removeActiveTransaction_inside updateStore_def)
qed

lemma startBody_framed:
  assumes fn: "tame fn" and ad: "lawful_adapter ad"
    and slot: "als w = Some s" "map_of (activeTransactions (stores w s)) (contextKey a i) = None"
    and n: "n \<le> cell" "n \<le> fresh w" and wf: "wf_world w"
    and run: "startBody env ad a i options corr start cell fn w = Some (r, w')"
  shows "framed n w w'"
proof -
  from run obtain r1 w1
    where call: "a_runInTransaction ad options (txCallback env a i options corr cell fn) w = Some (r1, w1)"
      and rest: "(case r1 of Reject e \<Rightarrow> afterAdapterRejected env a i options corr start cell e w1
          | Resolve res \<Rightarrow> afterAdapterResolved env a i options corr start cell res w1) = Some (r, w')"
    unfolding startBody_def by (auto split: option.splits prod.splits outcome.splits)
  have f1: "framed n w w1"
  proof (rule lawful_adapter.transaction_framed[OF ad call])
    fix h w2 r1 w3
    assume q: "quiet w w2" and cb: "txCallback env a i options corr cell fn h w2 = Some (r1, w3)"
    show "framed n w2 w3"
      using txCallback_framed[OF fn _ _ n(1) _ _ cb, of s] slot n quiet_fields[OF q]
        wf_world_framed[OF quiet_framed[OF q] wf] by auto
  qed
  have n1: "n \<le> fresh w1" and wf1: "wf_world w1"
    using framed_fresh[OF f1] n wf_world_framed[OF f1 wf] by simp_all
  have "framed n w1 w'"
  proof (cases r1)
    case (Reject e)
    with rest show ?thesis
      by (auto simp: afterAdapterRejected_def markRolledBack_framed split: option.splits
          dest!: notify_framed(3) hooks_framed
          intro: framed_trans[OF framedAllD[OF framedAll_trans wf1 n1] markRolledBack_framed])
  next
    case (Resolve res)
    with rest show ?thesis
      by (auto simp: afterAdapterResolved_def split: option.splits
          dest!: settleResult_world notify_framed(2) hooks_framed
          intro: framedAllD[OF framedAll_trans wf1 n1])
  qed
  then show ?thesis by (rule framed_trans[OF f1])
qed

lemma startNew_framed:
  assumes fn: "tame fn" and ad: "lawful_adapter ad"
    and slot: "getActiveTransaction (contextKey a i) w = None"
    and run: "startNew env ad a i options fn w = Some (r, w')"
  shows "framedAll w w'"
proof (rule framedAllI, cases "als w")
  case (Some s)
  assume wf: "wf_world w"
  with Some run slot show "framed (fresh w) w w'"
    unfolding startNew_def
    by (auto simp: Let_def getStore_def getActiveTransaction_store framed_def wf_world_def
        dest!: startBody_framed[OF fn ad, rotated 5, where s = s and n = "fresh w"])
next
  case None
  define w1 where "w1 = w\<lparr>cells := (cells w)(Suc (fresh w) := None),
      als := Some (Suc (Suc (fresh w))),
      stores := (stores w)(Suc (Suc (fresh w)) := newStore (fresh w) (now w)),
      fresh := Suc (Suc (Suc (fresh w)))\<rparr>"
  from run None obtain w2
    where w2: "startBody env ad a i options (fresh w) (now w) (Suc (fresh w)) fn w1 = Some (r, w2)"
      and w': "w' = w2\<lparr>als := None\<rparr>"
    unfolding startNew_def contextRun_def w1_def
    by (auto simp: Let_def getStore_def split: option.splits prod.splits)
  have "framed (fresh w) w1 w2"
    by (rule startBody_framed[OF fn ad _ _ _ _ _ w2, of "Suc (Suc (fresh w))"])
      (auto simp: w1_def newStore_def wf_world_def)
  then show "framed (fresh w) w w'"
    unfolding w' w1_def using None by (simp add: framed_def)
qed

text \<open>Every attempt finds the slot empty again.\<close>

lemma retryLoop_framed:
  assumes fn: "tame fn" and ad: "lawful_adapter ad"
    and slot: "getActiveTransaction (contextKey a i) w = None"
    and run: "retryLoop env ad nr (startNew env ad a i options fn) attempt w = Some (r, w')"
  shows "framedAll w w'"
proof (rule framedAllI)
  assume "wf_world w"
  with slot run have "framedAll w w'"
  proof (induction "n_maxAttempts nr - attempt" arbitrary: attempt w rule: less_induct)
    case less
    from less.prems(2) obtain r1 w1
      where once: "startNew env ad a i options fn w = Some (r1, w1)"
      by (subst (asm) retryLoop.simps) (auto split: option.splits prod.splits)
    have f1: "framedAll w w1" by (rule startNew_framed[OF fn ad less.prems(1) once])
    show ?case
    proof (cases "w1 = w'")
      case True
      then show ?thesis using f1 by simp
    next
      case False
      then obtain err where again: "attempt < n_maxAttempts nr"
        and next_run: "retryLoop env ad nr (startNew env ad a i options fn) (Suc attempt)
          (sleep (retryDelay (random env w1) nr attempt err) w1) = Some (r, w')"
        using less.prems(2) once
        by (subst (asm) retryLoop.simps) (auto split: outcome.splits if_splits)
      let ?w2 = "sleep (retryDelay (random env w1) nr attempt err) w1"
      have f2: "framedAll w ?w2" by (rule framedAll_trans[OF f1 quiet_framedAll[OF quiet_sleep]])
      have "getActiveTransaction (contextKey a i) ?w2 = None"
        using getActive_framedAll[OF f2 less.prems(3)] less.prems(1) by simp
      moreover have "wf_world ?w2"
        using wf_world_framed[OF framedAllD[OF f2 less.prems(3) order_refl] less.prems(3)] .
      ultimately have "framedAll ?w2 w'"
        using less.hyps[OF _ _ next_run] again by simp
      then show ?thesis by (rule framedAll_trans[OF f2])
    qed
  qed
  then show "framed (fresh w) w w'" using \<open>wf_world w\<close> by (simp add: framedAll_def)
qed

lemma startNewWithRetry_framed:
  assumes "tame fn" and "lawful_adapter ad"
    and "getActiveTransaction (contextKey a i) w = None"
    and "startNewWithRetry env ad a i options fn w = Some (r, w')"
  shows "framedAll w w'"
  using assms(4) unfolding startNewWithRetry_def
  by (auto split: sum.splits option.splits intro: quiet_framedAll quiet_raise
      startNew_framed[OF assms(1-3)] retryLoop_framed[OF assms(1-3)])

lemma runNestedSavepoint_tame:
  assumes "tame fn" and "lawful_adapter ad"
  shows "tame (runNestedSavepoint ad t options fn)"
proof (rule keepsI)
  fix w r w' assume "runNestedSavepoint ad t options fn w = Some (r, w')"
  moreover have "tame (a_runInSavepoint ad (handle (txs w t))
      (\<lambda>h. catching (andThen fn (\<lambda>v. ret (IOk v)))
             (\<lambda>err. if shouldRollback err options then throw err else ret (IErr err))))"
    by (rule lawful_adapter.savepoint_tame[OF assms(2)]) (auto intro!: keeps_intros assms(1))
  ultimately show "framedAll w w'"
    unfolding runNestedSavepoint_def
    by (auto simp: andThen_Some dest!: settleResult_world dest: keepsD)
qed

text \<open>
  The suspended call starts with the slot empty, so it keeps the world it starts in.
\<close>

lemma suspended_start_framed:
  assumes fn: "tame fn" and ad: "lawful_adapter ad"
    and entry: "getActiveTransaction (contextKey a i) w = Some t"
    and run: "suspended (contextKey a i) t (startNewWithRetry env ad a i options fn) w = Some (r, w')"
  shows "framedAll w w'"
proof -
  define w0 where "w0 = removeActiveTransaction (contextKey a i) w"
  define g where "g = (\<lambda>v. if v = w0 then startNewWithRetry env ad a i options fn v else None)"
  have "tame g"
    unfolding g_def
    by (rule keepsI)
      (auto split: if_splits intro: startNewWithRetry_framed[OF fn ad]
        simp: w0_def getActiveTransaction_remove)
  moreover have "suspended (contextKey a i) t g w = Some (r, w')"
    using run unfolding suspended_def finallyDo_def g_def w0_def by simp
  ultimately show ?thesis using suspended_tame entry by blast
qed

theorem run_tame:
  assumes "tame fn"
  shows "tame (run env options fn)"
proof (rule keepsI)
  fix w r w' assume "run env options fn w = Some (r, w')"
  then show "framedAll w w'"
    unfolding run_def withAdapter_def Let_def
    by (auto split: sum.splits prod.splits option.splits propagation_mode.splits
        intro: quiet_framedAll quiet_raise startNewWithRetry_framed[OF assms adapters_lawful]
          suspended_start_framed[OF assms adapters_lawful] suspended_tame[OF assms]
          keepsD[OF assms] keepsD[OF runNestedSavepoint_tame[OF assms adapters_lawful]])
qed

end

end
