(* ===== verification/Propagation.thy ===== *)
theory Propagation
  imports Manager_Frame
begin

text \<open>
  What the function passed to \<open>run\<close> finds when it is called. \<open>bodySees\<close> is the
  specification of the seven propagation modes; \<open>assertIn P f\<close> is \<open>f\<close> with an
  assertion in front that never settles when \<open>P\<close> fails. The theorem of this theory says
  that the assertion \<open>bodySees\<close> never fails: with it or without it \<open>run\<close> is the same.
\<close>

section \<open>Specification\<close>

definition assertIn :: "('w \<Rightarrow> bool) \<Rightarrow> ('w, 'a) comp \<Rightarrow> ('w, 'a) comp" where
  "assertIn P f w = (if P w then f w else None)"

text \<open>A transaction of this call, begun at address \<open>n\<close> or later, is in the key's slot.\<close>

definition opened ::
    "string \<Rightarrow> string \<Rightarrow> extended_options \<Rightarrow> nat \<Rightarrow> ('h, 'z) ctx_world_scheme \<Rightarrow> bool" where
  "opened a i options n w \<longleftrightarrow>
     (\<exists>t. n \<le> t \<and> getActiveTransaction (contextKey a i) w = Some t \<and>
        adapterName (txs w t) = a \<and> adapterInstanceName (txs w t) = i \<and>
        txOptions (txs w t) = options)"

definition bodySees ::
    "propagation_mode \<Rightarrow> nat option \<Rightarrow> string \<Rightarrow> string \<Rightarrow> extended_options \<Rightarrow> nat \<Rightarrow>
     ('h, 'z) ctx_world_scheme \<Rightarrow> bool" where
  "bodySees mode existing a i options n w =
     (case mode of
        REQUIRED \<Rightarrow>
          if existing = None then opened a i options n w
          else getActiveTransaction (contextKey a i) w = existing
      | REQUIRES_NEW \<Rightarrow> opened a i options n w
      | NESTED \<Rightarrow>
          if existing = None then opened a i options n w
          else getActiveTransaction (contextKey a i) w = existing
      | SUPPORTS \<Rightarrow> getActiveTransaction (contextKey a i) w = existing
      | NOT_SUPPORTED \<Rightarrow> getActiveTransaction (contextKey a i) w = None
      | NEVER \<Rightarrow> getActiveTransaction (contextKey a i) w = None
      | MANDATORY \<Rightarrow> existing \<noteq> None \<and> getActiveTransaction (contextKey a i) w = existing)"

section \<open>The assertion can be inserted\<close>

lemma assertIn_tame: "tame fn \<Longrightarrow> tame (assertIn P fn)"
  by (auto simp: keeps_def assertIn_def)

lemma guardedBody_assert:
  "P w \<Longrightarrow> guardedBody env t options (assertIn P fn) w = guardedBody env t options fn w"
  by (simp add: guardedBody_def catching_def andThen_def assertIn_def)

context lawful_environment
begin

lemma txCallback_assert:
  assumes s: "als w = Some s" and wf: "wf_world w" and n: "n \<le> fresh w"
  shows "txCallback env a i options corr cell (assertIn (opened a i options n) fn) h w =
     txCallback env a i options corr cell fn h w"
proof -
  define w1 where "w1 = w\<lparr>fresh := Suc (fresh w),
      txs := (txs w)(fresh w := newActiveTx h a i options (now w) corr),
      cells := (cells w)(cell \<mapsto> fresh w)\<rparr>"
  define w2 where "w2 = updateStore s (AList.update (contextKey a i) (fresh w)) w1"
  have set: "setActiveTransaction (contextKey a i) (fresh w) w1 = Some (Resolve (), w2)"
    using s by (simp add: setActiveTransaction_inside w1_def w2_def)
  have wf2: "wf_world w2" and fr2: "fresh w2 = Suc (fresh w)"
    using s wf_worldD[OF wf s] by (simp_all add: w2_def w1_def wf_world_def)
  have "opened a i options n w3"
    if "notifyStart env (startContext h a i corr options) w2 = Some w3" for w3
  proof -
    have f: "framed (Suc (fresh w)) w2 w3"
      using framedAllD[OF notify_framed(1)[OF that] wf2] fr2 by simp
    have "getActiveTransaction (contextKey a i) w3 = getActiveTransaction (contextKey a i) w2"
      by (rule framed_getActive[OF f]) (use wf_worldD[OF wf s] s in \<open>auto simp: w2_def w1_def\<close>)
    also have "\<dots> = Some (fresh w)"
      using getActiveTransaction_set[OF set] by simp
    finally show ?thesis
      using framed_tx[OF f, of "fresh w"] n
      by (auto simp: opened_def sameTx_def w2_def w1_def newActiveTx_def)
  qed
  then show ?thesis
    unfolding txCallback_def Let_def w1_def[symmetric] set
    by (auto simp: finallyDo_def guardedBody_assert split: option.splits)
qed

lemma startBody_assert:
  assumes ad: "lawful_adapter ad" and s: "als w = Some s" and wf: "wf_world w" and n: "n \<le> fresh w"
  shows "startBody env ad a i options corr start cell (assertIn (opened a i options n) fn) w =
     startBody env ad a i options corr start cell fn w"
proof -
  have "a_runInTransaction ad options
      (txCallback env a i options corr cell (assertIn (opened a i options n) fn)) w =
    a_runInTransaction ad options (txCallback env a i options corr cell fn) w"
  proof (rule lawful_adapter.transaction_local[OF ad])
    fix h w1 assume q: "quiet w w1"
    show "txCallback env a i options corr cell (assertIn (opened a i options n) fn) h w1 =
        txCallback env a i options corr cell fn h w1"
      by (rule txCallback_assert)
        (use quiet_fields[OF q] s n wf_world_framed[OF quiet_framed[OF q] wf] in auto)
  qed
  then show ?thesis by (simp add: startBody_def)
qed

lemma startNew_assert:
  assumes ad: "lawful_adapter ad" and wf: "wf_world w" and n: "n \<le> fresh w"
  shows "startNew env ad a i options (assertIn (opened a i options n) fn) w =
     startNew env ad a i options fn w"
proof -
  have "startBody env ad a i options corr start cell (assertIn (opened a i options n) fn) w1 =
      startBody env ad a i options corr start cell fn w1"
    if "als w1 = Some s" "s < fresh w1" "fresh w \<le> fresh w1" for w1 s corr start cell
    by (rule startBody_assert[OF ad]) (use that n in \<open>auto simp: wf_world_def\<close>)
  then show ?thesis
    using wf by (auto simp: startNew_def contextRun_def Let_def getStore_def wf_world_def split: option.splits)
qed

lemma retryLoop_assert:
  assumes ad: "lawful_adapter ad" and fn: "tame fn"
    and w: "wf_world w" "n \<le> fresh w" "getActiveTransaction (contextKey a i) w = None"
  shows "retryLoop env ad nr (startNew env ad a i options (assertIn (opened a i options n) fn)) attempt w =
     retryLoop env ad nr (startNew env ad a i options fn) attempt w"
  using w
proof (induction "n_maxAttempts nr - attempt" arbitrary: attempt w rule: less_induct)
  case less
  let ?once = "startNew env ad a i options fn"
  let ?next = "\<lambda>err w1. sleep (retryDelay (random env w1) nr attempt err) w1"
  have same: "startNew env ad a i options (assertIn (opened a i options n) fn) w = ?once w"
    by (rule startNew_assert[OF ad less.prems(1,2)])
  have "retryLoop env ad nr (startNew env ad a i options (assertIn (opened a i options n) fn))
        (Suc attempt) (?next err w1) =
      retryLoop env ad nr ?once (Suc attempt) (?next err w1)"
    if "?once w = Some (r1, w1)" "attempt < n_maxAttempts nr" for r1 w1 err
  proof -
    have f: "framedAll w (?next err w1)"
      by (rule framedAll_trans[OF startNew_framed[OF fn ad less.prems(3) that(1)]
            quiet_framedAll[OF quiet_sleep]])
    note f' = framedAllD[OF f less.prems(1) order_refl]
    show ?thesis
      using less.hyps[OF _ wf_world_framed[OF f' less.prems(1)]] that(2) framed_fresh[OF f']
        getActive_framedAll[OF f less.prems(1)] less.prems(2,3) by simp
  qed
  then show ?case
    by (subst (1 2) retryLoop.simps) (auto simp: same split: option.splits outcome.splits)
qed

lemma startNewWithRetry_assert:
  assumes "lawful_adapter ad" and "tame fn" and "wf_world w" and "n \<le> fresh w"
    and "getActiveTransaction (contextKey a i) w = None"
  shows "startNewWithRetry env ad a i options (assertIn (opened a i options n) fn) w =
     startNewWithRetry env ad a i options fn w"
  by (simp add: startNewWithRetry_def startNew_assert retryLoop_assert assms
      split: sum.splits option.splits)

lemma runNestedSavepoint_assert:
  assumes ad: "lawful_adapter ad" and P: "\<And>w1. quiet w w1 \<Longrightarrow> P w1"
  shows "runNestedSavepoint ad t options (assertIn P fn) w = runNestedSavepoint ad t options fn w"
proof -
  have "a_runInSavepoint ad (handle (txs w t))
      (\<lambda>h. catching (andThen (assertIn P fn) (\<lambda>v. ret (IOk v)))
         (\<lambda>err. if shouldRollback err options then throw err else ret (IErr err))) w =
    a_runInSavepoint ad (handle (txs w t))
      (\<lambda>h. catching (andThen fn (\<lambda>v. ret (IOk v)))
         (\<lambda>err. if shouldRollback err options then throw err else ret (IErr err))) w"
    by (rule lawful_adapter.savepoint_local[OF ad])
      (simp add: catching_def andThen_def assertIn_def P)
  then show ?thesis by (simp add: runNestedSavepoint_def andThen_def)
qed

lemma suspended_assert:
  assumes "f (removeActiveTransaction key w) = g (removeActiveTransaction key w)"
  shows "suspended key t f w = suspended key t g w"
  using assms by (simp add: suspended_def finallyDo_def)

lemma removed_slot:
  assumes "wf_world w"
  shows "wf_world (removeActiveTransaction key w)" "fresh (removeActiveTransaction key w) = fresh w"
    "getActiveTransaction key (removeActiveTransaction key w) = None"
  using assms by (auto simp: wf_world_def getActiveTransaction_remove split: option.splits)

theorem run_assert:
  assumes fn: "tame fn" and wf: "wf_world w"
    and ids: "resolveAdapterIdentifiers options (registry w) = Inr (a, i)"
    and mode: "mode = (case o_propagation options of None \<Rightarrow> REQUIRED | Some p \<Rightarrow> p)"
  shows "run env options (assertIn
      (bodySees mode (getActiveTransaction (contextKey a i) w) a i options (fresh w)) fn) w =
    run env options fn w"
proof -
  let ?key = "contextKey a i"
  let ?ex = "getActiveTransaction ?key w"
  let ?P = "bodySees mode ?ex a i options (fresh w)"
  have nested: "runNestedSavepoint (adapterOf env k) t options (assertIn ?P fn) w =
      runNestedSavepoint (adapterOf env k) t options fn w"
    if "?ex = Some t" "mode = NESTED" for k t
    by (rule runNestedSavepoint_assert[OF adapters_lawful])
      (use that in \<open>auto simp: bodySees_def dest: quiet_getActive[where key = ?key]\<close>)
  have start: "startNewWithRetry env (adapterOf env k) a i options (assertIn ?P fn) w =
      startNewWithRetry env (adapterOf env k) a i options fn w"
    if "?ex = None" "mode \<in> {REQUIRED, REQUIRES_NEW, NESTED}" for k
  proof -
    have P: "?P = opened a i options (fresh w)" using that by (auto simp: bodySees_def)
    show ?thesis
      unfolding P by (rule startNewWithRetry_assert[OF adapters_lawful fn wf order_refl that(1)])
  qed
  have fresh_start: "suspended ?key t (startNewWithRetry env (adapterOf env k) a i options (assertIn ?P fn)) w =
      suspended ?key t (startNewWithRetry env (adapterOf env k) a i options fn) w"
    if "mode = REQUIRES_NEW" for k t
  proof -
    have P: "?P = opened a i options (fresh w)" using that by (auto simp: bodySees_def)
    show ?thesis
      unfolding P by (intro suspended_assert)
        (simp add: startNewWithRetry_assert[OF adapters_lawful fn] removed_slot[OF wf])
  qed
  have away: "suspended ?key t (assertIn ?P fn) w = suspended ?key t fn w"
    if "mode = NOT_SUPPORTED" for t
    by (rule suspended_assert) (simp add: assertIn_def bodySees_def that removed_slot[OF wf])
  have now: "assertIn ?P fn w = fn w"
    if "mode \<notin> {REQUIRES_NEW, NESTED}" "mode = NEVER \<longrightarrow> ?ex = None" "mode = MANDATORY \<longrightarrow> ?ex \<noteq> None"
      "mode = REQUIRED \<longrightarrow> ?ex \<noteq> None" "mode = NOT_SUPPORTED \<longrightarrow> ?ex = None"
    using that by (cases mode; cases ?ex) (simp_all add: assertIn_def bodySees_def)
  show ?thesis
  proof (cases mode)
    case REQUIRED
    show ?thesis
      using start now unfolding REQUIRED
      by (cases ?ex) (simp_all add: run_def ids mode[symmetric] REQUIRED withAdapter_def Let_def split: sum.split)
  next
    case REQUIRES_NEW
    show ?thesis
      using start fresh_start unfolding REQUIRES_NEW
      by (cases ?ex) (simp_all add: run_def ids mode[symmetric] REQUIRES_NEW withAdapter_def Let_def split: sum.split)
  next
    case NESTED
    show ?thesis
      using start nested unfolding NESTED
      by (cases ?ex) (simp_all add: run_def ids mode[symmetric] NESTED withAdapter_def Let_def split: sum.split)
  next
    case SUPPORTS
    show ?thesis
      using now unfolding SUPPORTS
      by (cases ?ex) (simp_all add: run_def ids mode[symmetric] SUPPORTS withAdapter_def Let_def split: sum.split)
  next
    case NOT_SUPPORTED
    show ?thesis
      using away now unfolding NOT_SUPPORTED
      by (cases ?ex) (simp_all add: run_def ids mode[symmetric] NOT_SUPPORTED withAdapter_def Let_def split: sum.split)
  next
    case NEVER
    show ?thesis
      using now unfolding NEVER
      by (cases ?ex) (simp_all add: run_def ids mode[symmetric] NEVER withAdapter_def Let_def split: sum.split)
  next
    case MANDATORY
    show ?thesis
      using now unfolding MANDATORY
      by (cases ?ex) (simp_all add: run_def ids mode[symmetric] MANDATORY withAdapter_def Let_def split: sum.split)
  qed
qed

end

end
