(* ===== verification/Session_Contract.thy ===== *)
theory Session_Contract
  imports Adapter_Contract
begin

text \<open>
  What an adapter does around the manager's callback
  (\<open>packages/core/src/types/transaction-adapter.ts\<close>: if the callback resolves, the adapter
  commits and returns the value; if it rejects, it rolls back and rethrows the error; a
  savepoint is released or rolled back to in the same way).

  A session is entered, runs the callback, and is left or undone. The big-step relation
  \<open>session\<close> has one rule for each way it can end. A transactional adapter is a lawful one both
  operations of which are sessions, with the steps given: a locale, whose client lemmas are what
  the interface promises. The in-memory, the TypeORM and the Drizzle adapters interpret it.
\<close>

section \<open>Sessions\<close>

inductive session ::
    "('w, 'k) comp \<Rightarrow> ('k \<Rightarrow> ('w, unit) comp) \<Rightarrow> ('k \<Rightarrow> jsv \<Rightarrow> ('w, unit) comp) \<Rightarrow> ('k \<Rightarrow> ('w, 'a) comp) \<Rightarrow>
     'w \<Rightarrow> 'a outcome \<Rightarrow> 'w \<Rightarrow> bool"
  for enter leave undo f where
  not_entered: "enter w = Some (Reject e, w1) \<Longrightarrow> session enter leave undo f w (Reject e) w1"
| left_with: "enter w = Some (Resolve k, w1) \<Longrightarrow> f k w1 = Some (Resolve v, w2) \<Longrightarrow>
    leave k w2 = Some (Resolve (), w3) \<Longrightarrow> session enter leave undo f w (Resolve v) w3"
| undone: "enter w = Some (Resolve k, w1) \<Longrightarrow> f k w1 = Some (Reject e, w2) \<Longrightarrow>
    undo k e w2 = Some (Resolve (), w3) \<Longrightarrow> session enter leave undo f w (Reject e) w3"
| undo_failed: "enter w = Some (Resolve k, w1) \<Longrightarrow> f k w1 = Some (Reject e, w2) \<Longrightarrow>
    undo k e w2 = Some (Reject e', w3) \<Longrightarrow> session enter leave undo f w (Reject e') w3"
| leave_failed: "enter w = Some (Resolve k, w1) \<Longrightarrow> f k w1 = Some (Resolve v, w2) \<Longrightarrow>
    leave k w2 = Some (Reject e, w3) \<Longrightarrow> undo k e w3 = Some (Resolve (), w4) \<Longrightarrow>
    session enter leave undo f w (Reject e) w4"
| both_failed: "enter w = Some (Resolve k, w1) \<Longrightarrow> f k w1 = Some (Resolve v, w2) \<Longrightarrow>
    leave k w2 = Some (Reject e, w3) \<Longrightarrow> undo k e w3 = Some (Reject e', w4) \<Longrightarrow>
    session enter leave undo f w (Reject e') w4"

inductive_cases session_resolved: "session enter leave undo f w (Resolve v) w'"
inductive_cases session_rejected: "session enter leave undo f w (Reject e) w'"

text \<open>The relation as a computation: \<open>try\<close> and \<open>catch\<close> after the entry.\<close>

definition sessionRun ::
    "('w, 'k) comp \<Rightarrow> ('k \<Rightarrow> ('w, unit) comp) \<Rightarrow> ('k \<Rightarrow> jsv \<Rightarrow> ('w, unit) comp) \<Rightarrow> ('k \<Rightarrow> ('w, 'a) comp) \<Rightarrow>
     ('w, 'a) comp" where
  "sessionRun enter leave undo f =
     andThen enter (\<lambda>k.
       catching (andThen (f k) (\<lambda>v. andThen (leave k) (\<lambda>_. ret v)))
         (\<lambda>e. andThen (undo k e) (\<lambda>_. throw e)))"

lemma session_run:
  "session enter leave undo f w r w' \<longleftrightarrow> sessionRun enter leave undo f w = Some (r, w')"
  unfolding sessionRun_def andThen_Some catching_Some
  by (subst session.simps) auto

lemma session_fun:
  assumes "\<And>r w'. g w = Some (r, w') \<longleftrightarrow> session enter leave undo f w r w'"
  shows "g w = sessionRun enter leave undo f w"
proof (cases "g w")
  case None
  with assms show ?thesis by (cases "sessionRun enter leave undo f w") (auto simp: session_run)
next
  case (Some x)
  with assms[of "fst x" "snd x"] show ?thesis by (simp add: session_run)
qed

section \<open>The contract of an adapter\<close>

locale transactional_adapter = lawful_adapter ad
  for ad :: "('u, 'd, 'z) world transaction_adapter" +
  fixes enter :: "extended_options \<Rightarrow> (('u, 'd, 'z) world, tx_handle) comp"
    and leave :: "extended_options \<Rightarrow> tx_handle \<Rightarrow> (('u, 'd, 'z) world, unit) comp"
    and undo :: "extended_options \<Rightarrow> tx_handle \<Rightarrow> jsv \<Rightarrow> (('u, 'd, 'z) world, unit) comp"
    and mark :: "tx_handle \<Rightarrow> (('u, 'd, 'z) world, 'k) comp"
    and release :: "tx_handle \<Rightarrow> 'k \<Rightarrow> (('u, 'd, 'z) world, unit) comp"
    and revert :: "tx_handle \<Rightarrow> 'k \<Rightarrow> jsv \<Rightarrow> (('u, 'd, 'z) world, unit) comp"
  assumes transaction_session:
      "a_runInTransaction ad opts cb w = Some (r, w') \<longleftrightarrow>
         session (enter opts) (leave opts) (undo opts) cb w r w'"
    and savepoint_session:
      "a_runInSavepoint ad parent cb w = Some (r, w') \<longleftrightarrow>
         session (mark parent) (release parent) (revert parent) (\<lambda>_. cb parent) w r w'"
begin

text \<open>What the interface promises.\<close>

lemma resolved_committed:
  assumes "a_runInTransaction ad opts cb w = Some (Resolve v, w')"
  shows "\<exists>h w1 w2. enter opts w = Some (Resolve h, w1) \<and> cb h w1 = Some (Resolve v, w2) \<and>
    leave opts h w2 = Some (Resolve (), w')"
  using assms unfolding transaction_session by (blast elim: session_resolved)

lemma rejected_undone:
  assumes "enter opts w = Some (Resolve h, w1)" and "cb h w1 = Some (Reject e, w2)"
    and "undo opts h e w2 = Some (Resolve (), w3)"
  shows "a_runInTransaction ad opts cb w = Some (Reject e, w3)"
  unfolding transaction_session by (rule session.undone) (fact assms)+

lemma savepoint_released:
  assumes "a_runInSavepoint ad parent cb w = Some (Resolve v, w')"
  shows "\<exists>k w1 w2. mark parent w = Some (Resolve k, w1) \<and> cb parent w1 = Some (Resolve v, w2) \<and>
    release parent k w2 = Some (Resolve (), w')"
  using assms unfolding savepoint_session by (blast elim: session_resolved)

lemma savepoint_undone:
  assumes "mark parent w = Some (Resolve k, w1)" and "cb parent w1 = Some (Reject e, w2)"
    and "revert parent k e w2 = Some (Resolve (), w3)"
  shows "a_runInSavepoint ad parent cb w = Some (Reject e, w3)"
  unfolding savepoint_session by (rule session.undone) (fact assms)+

end

end
