(* ===== verification/Sql_Library.thy ===== *)
theory Sql_Library
  imports Propagation Session_Contract
begin

text \<open>
  What the two SQL adapters, of TypeORM and of Drizzle, share: the handle a new transaction
  gets, the statements of a savepoint, and the contract of the library underneath.

  The library is a pair of parameters. \<open>transaction\<close> begins a transaction through some
  object, calls its callback once with the object of the new transaction, and commits or rolls
  back; \<open>query\<close> sends a statement on such an object. A first locale states what the frame
  laws need of them; the adapters' laws are proved in it once. A second one states what both
  libraries document: \<open>transaction\<close> is a session of steps \<open>begins\<close>, \<open>commits\<close> and \<open>rolls\<close>,
  none of which touches the manager's state. It gives the first, and the two operations of an
  adapter are sessions of those steps and of the savepoint statements.
\<close>

section \<open>Names and handles\<close>

text \<open>\<open>replace\<close> of every occurrence of one character.\<close>

definition replaceChar :: "char \<Rightarrow> char \<Rightarrow> string \<Rightarrow> string" where
  "replaceChar c d = map (\<lambda>x. if x = c then d else x)"

fun isolation_text :: "isolation_level \<Rightarrow> string" where
  "isolation_text READ_UNCOMMITTED = ''READ_UNCOMMITTED''"
| "isolation_text READ_COMMITTED = ''READ_COMMITTED''"
| "isolation_text REPEATABLE_READ = ''REPEATABLE_READ''"
| "isolation_text SERIALIZABLE = ''SERIALIZABLE''"

text \<open>
  The text of a UUID: 32 hexadecimal digits in five groups. The digits of the address are
  written from the least significant on, so that prefixes differ too.
\<close>

definition hexDigit :: "nat \<Rightarrow> char" where
  "hexDigit n = ''0123456789abcdef'' ! (n mod 16)"

definition uuidText :: "nat \<Rightarrow> string" where
  "uuidText n =
     (let ds = map (\<lambda>i. hexDigit (n div 16 ^ i)) [0..<32]
      in take 8 ds @ ''-'' @ take 4 (drop 8 ds) @ ''-'' @ take 4 (drop 12 ds) @ ''-'' @
         take 4 (drop 16 ds) @ ''-'' @ drop 20 ds)"

definition savepointName :: "nat \<Rightarrow> string" where
  "savepointName n = ''sp_'' @ take 30 (replaceChar CHR ''-'' CHR ''_'' (uuidText n))"

definition allocHandle ::
    "(nat \<Rightarrow> tx_handle) \<Rightarrow> ('u, 'd, 'z) world tx_callback \<Rightarrow> (('u, 'd, 'z) world, internal_result) comp" where
  "allocHandle mk fn w = fn (mk (fresh w)) (w\<lparr>fresh := Suc (fresh w)\<rparr>)"

section \<open>Savepoints\<close>

text \<open>
  \<open>SAVEPOINT\<close>, the callback, then \<open>RELEASE\<close> inside the \<open>try\<close>, \<open>ROLLBACK TO\<close> in the
  \<open>catch\<close>.
\<close>

definition inSavepoint ::
    "(string \<Rightarrow> (('u, 'd, 'z) world, jsv) comp) \<Rightarrow> string \<Rightarrow> (('u, 'd, 'z) world, internal_result) comp \<Rightarrow>
     (('u, 'd, 'z) world, internal_result) comp" where
  "inSavepoint query name fn =
     andThen (query (''SAVEPOINT '' @ name))
       (\<lambda>_. catching
          (andThen fn (\<lambda>r. andThen (query (''RELEASE SAVEPOINT '' @ name)) (\<lambda>_. ret r)))
          (\<lambda>err. andThen (query (''ROLLBACK TO SAVEPOINT '' @ name)) (\<lambda>_. throw err)))"

section \<open>The contract\<close>

text \<open>What a call of the callback may look like from outside.\<close>

definition wrapsManager ::
    "(nat \<Rightarrow> (('u, 'd, 'z) world, 'a) comp) \<Rightarrow> ('u, 'd, 'z) world \<Rightarrow> 'a outcome \<Rightarrow>
     ('u, 'd, 'z) world \<Rightarrow> bool" where
  "wrapsManager f w r w' \<longleftrightarrow>
     (\<exists>e. r = Reject e \<and> quiet w w') \<or>
     (\<exists>m w1 r1 w2. quiet w w1 \<and> f m w1 = Some (r1, w2) \<and> quiet w2 w' \<and> answers r1 r)"

locale sql_library =
  fixes transaction :: "nat \<Rightarrow> 'cfg \<Rightarrow> (nat \<Rightarrow> (('u, 'd, 'z) world, internal_result) comp) \<Rightarrow>
      (('u, 'd, 'z) world, internal_result) comp"
    and query :: "nat \<Rightarrow> string \<Rightarrow> (('u, 'd, 'z) world, jsv) comp"
  assumes transaction_wraps:
      "transaction m0 cfg f w = Some (r, w') \<Longrightarrow> wrapsManager f w r w'"
    and transaction_mono:
      "(\<And>m. refines_comp (f m) (f' m)) \<Longrightarrow>
         refines_comp (transaction m0 cfg f) (transaction m0 cfg f')"
    and transaction_local:
      "(\<And>m w1. quiet w w1 \<Longrightarrow> f m w1 = f' m w1) \<Longrightarrow>
         transaction m0 cfg f w = transaction m0 cfg f' w"
    and query_quiet: "query m sql w = Some (v, w') \<Longrightarrow> quiet w w'"
begin

text \<open>A callback that takes quiet steps and then calls \<open>fn\<close> on a new handle.\<close>

lemma runner_cases:
  assumes pre: "keeps quiet pre" and run: "andThen pre (\<lambda>_. allocHandle mk fn) w = Some (r, w')"
  shows "(\<exists>e. r = Reject e \<and> quiet w w') \<or> (\<exists>h w1. quiet w w1 \<and> fn h w1 = Some (r, w'))"
proof -
  have alloc: "quiet w (w1\<lparr>fresh := Suc (fresh w1)\<rparr>)" if "quiet w w1" for w1
    by (rule quiet_trans[OF that quiet_alloc])
  from run consider e where "pre w = Some (Reject e, w')" "r = Reject e"
    | v w1 where "pre w = Some (Resolve v, w1)" "fn (mk (fresh w1)) (w1\<lparr>fresh := Suc (fresh w1)\<rparr>) = Some (r, w')"
    unfolding andThen_Some allocHandle_def by auto
  then show ?thesis by cases (blast intro: alloc dest: keepsD[OF pre])+
qed

lemma begun_lawful:
  assumes pre: "\<And>m. keeps quiet (pre m)"
    and run: "transaction m0 cfg (\<lambda>m. andThen (pre m) (\<lambda>_. allocHandle (mk m) fn)) w = Some (r, w')"
  shows "wraps fn w r w'"
  using transaction_wraps[OF run] unfolding wrapsManager_def
proof (elim disjE exE conjE)
  fix m w1 r1 w2
  assume q: "quiet w w1" "quiet w2 w'" and a: "answers r1 r"
    and f: "andThen (pre m) (\<lambda>_. allocHandle (mk m) fn) w1 = Some (r1, w2)"
  from runner_cases[OF pre f] show ?thesis
  proof (elim disjE exE conjE)
    fix e assume "r1 = Reject e" "quiet w1 w2"
    with q a show ?thesis unfolding wraps_def by (auto intro: quiet_trans)
  next
    fix h w3 assume "quiet w1 w3" "fn h w3 = Some (r1, w2)"
    with q a show ?thesis unfolding wraps_def by (blast intro: quiet_trans)
  qed
qed (auto intro: wraps_rejected)

lemma begun_mono:
  assumes "\<And>h. refines_comp (fn h) (fn' h)"
  shows "refines_comp (transaction m0 cfg (\<lambda>m. andThen (pre m) (\<lambda>_. allocHandle (mk m) fn)))
    (transaction m0 cfg (\<lambda>m. andThen (pre m) (\<lambda>_. allocHandle (mk m) fn')))"
proof -
  have "refines_comp (allocHandle (mk m) fn) (allocHandle (mk m) fn')" for m
    using assms by (auto simp: allocHandle_def refines_comp_def)
  then show ?thesis by (intro transaction_mono refines_andThen refines_refl)
qed

lemma begun_local:
  assumes pre: "\<And>m. keeps quiet (pre m)" and fn: "\<And>h w1. quiet w w1 \<Longrightarrow> fn h w1 = fn' h w1"
  shows "transaction m0 cfg (\<lambda>m. andThen (pre m) (\<lambda>_. allocHandle (mk m) fn)) w =
    transaction m0 cfg (\<lambda>m. andThen (pre m) (\<lambda>_. allocHandle (mk m) fn')) w"
proof (rule transaction_local)
  fix m w0 assume q: "quiet w w0"
  have "allocHandle (mk m) fn w1 = allocHandle (mk m) fn' w1" if "quiet w0 w1" for w1
    unfolding allocHandle_def by (rule fn) (rule quiet_trans[OF quiet_trans[OF q that] quiet_alloc])
  then show "andThen (pre m) (\<lambda>_. allocHandle (mk m) fn) w0 = andThen (pre m) (\<lambda>_. allocHandle (mk m) fn') w0"
    by (intro andThen_cong refl) (blast dest: keepsD[OF pre])
qed

lemma released_cases:
  assumes "andThen fn (\<lambda>x. andThen (query m sql) (\<lambda>_. ret x)) w = Some (r, w')"
  shows "\<exists>r1 w1. fn w = Some (r1, w1) \<and> quiet w1 w' \<and> answers r1 r"
  using assms by (auto simp: andThen_Some dest!: query_quiet)

lemma inSavepoint_cases:
  assumes "inSavepoint (query m) name fn w = Some (r, w')"
  shows "(\<exists>e. r = Reject e \<and> quiet w w') \<or>
    (\<exists>w1 r1 w2. quiet w w1 \<and> fn w1 = Some (r1, w2) \<and> quiet w2 w' \<and> answers r1 r)"
proof -
  from assms consider
    e where "r = Reject e" "quiet w w'"
  | w1 where "quiet w w1" "andThen fn (\<lambda>x. andThen (query m (''RELEASE SAVEPOINT '' @ name))
        (\<lambda>_. ret x)) w1 = Some (r, w')"
  | w1 e w2 e' where "quiet w w1" "andThen fn (\<lambda>x. andThen (query m (''RELEASE SAVEPOINT '' @ name))
        (\<lambda>_. ret x)) w1 = Some (Reject e, w2)" "quiet w2 w'" "r = Reject e'"
    unfolding inSavepoint_def
    by (subst (asm) andThen_Some, subst (asm) catching_Some)
      (auto simp: andThen_Some[of "query m x" for x] dest!: query_quiet)
  then show ?thesis
  proof cases
    case 1
    then show ?thesis by blast
  next
    case 2
    then show ?thesis using released_cases by blast
  next
    case 3
    then obtain r1 w3 where "fn w1 = Some (r1, w3)" "quiet w3 w2"
      using released_cases by blast
    moreover have "answers r1 r" using 3(4) by (cases r1) auto
    moreover have "quiet w3 w'" by (rule quiet_trans[OF \<open>quiet w3 w2\<close> 3(3)])
    ultimately show ?thesis using 3(1) by blast
  qed
qed

text \<open>A savepoint behind quiet steps, named after a new address.\<close>

lemma savepoint_lawful:
  assumes pre: "keeps quiet pre"
    and run: "andThen pre (\<lambda>_ v. inSavepoint (query m) (savepointName (fresh v)) (fn parent)
        (v\<lparr>fresh := Suc (fresh v)\<rparr>)) w = Some (r, w')"
  shows "wraps fn w r w'"
proof -
  from run consider e where "r = Reject e" "quiet w w'"
    | w1 name where "quiet w w1" "inSavepoint (query m) name (fn parent) (w1\<lparr>fresh := Suc (fresh w1)\<rparr>) = Some (r, w')"
    by (auto simp: andThen_Some dest!: keepsD[OF pre])
  then show ?thesis
  proof cases
    case 2
    have "quiet w (w1\<lparr>fresh := Suc (fresh w1)\<rparr>)" by (rule quiet_trans[OF 2(1) quiet_alloc])
    with inSavepoint_cases[OF 2(2)] show ?thesis
      unfolding wraps_def by (blast intro: quiet_trans)
  qed (auto intro: wraps_rejected)
qed

lemma savepoint_mono:
  assumes "\<And>h. refines_comp (cb h) (cb' h)"
  shows "refines_comp
    (andThen pre (\<lambda>_ v. inSavepoint (query m) (savepointName (fresh v)) (cb parent) (v\<lparr>fresh := Suc (fresh v)\<rparr>)))
    (andThen pre (\<lambda>_ v. inSavepoint (query m) (savepointName (fresh v)) (cb' parent) (v\<lparr>fresh := Suc (fresh v)\<rparr>)))"
proof -
  have "refines_comp (inSavepoint (query m) name (cb parent)) (inSavepoint (query m) name (cb' parent))" for name
    unfolding inSavepoint_def by (intro refines_andThen refines_catching refines_refl assms)
  then show ?thesis
    by (intro refines_andThen refines_refl) (auto simp: refines_comp_def)
qed

lemma savepoint_local:
  assumes pre: "keeps quiet pre" and cb: "\<And>h w1. quiet w w1 \<Longrightarrow> cb h w1 = cb' h w1"
  shows "andThen pre (\<lambda>_ v. inSavepoint (query m) (savepointName (fresh v)) (cb parent) (v\<lparr>fresh := Suc (fresh v)\<rparr>)) w =
    andThen pre (\<lambda>_ v. inSavepoint (query m) (savepointName (fresh v)) (cb' parent) (v\<lparr>fresh := Suc (fresh v)\<rparr>)) w"
proof -
  have inner: "inSavepoint (query m) name (cb parent) w1 = inSavepoint (query m) name (cb' parent) w1"
    if "quiet w w1" for name w1
    unfolding inSavepoint_def
    by (intro andThen_cong catching_cong refl cb quiet_trans[OF that query_quiet])
  show ?thesis
    by (intro andThen_cong refl inner quiet_trans[OF keepsD[OF pre] quiet_alloc])
qed

end

lemma keeps_quiet_ret: "keeps quiet (ret v)"
  by (auto simp: keeps_def)

lemma keeps_quiet_raise: "keeps quiet (raise e)"
  by (auto intro: keepsI quiet_raise)

section \<open>Transactions as sessions\<close>

locale settling_library =
  fixes transaction :: "nat \<Rightarrow> 'cfg \<Rightarrow> (nat \<Rightarrow> (('u, 'd, 'z) world, internal_result) comp) \<Rightarrow>
      (('u, 'd, 'z) world, internal_result) comp"
    and query :: "nat \<Rightarrow> string \<Rightarrow> (('u, 'd, 'z) world, jsv) comp"
    and begins :: "nat \<Rightarrow> 'cfg \<Rightarrow> (('u, 'd, 'z) world, nat) comp"
    and commits rolls :: "nat \<Rightarrow> (('u, 'd, 'z) world, unit) comp"
  assumes transaction_session:
      "transaction m0 cfg f w = Some (r, w') \<longleftrightarrow>
         session (begins m0 cfg) commits (\<lambda>m e. rolls m) f w r w'"
    and begins_quiet: "keeps quiet (begins m0 cfg)"
    and commits_quiet: "keeps quiet (commits m)"
    and rolls_quiet: "keeps quiet (rolls m)"
    and statements_quiet: "query m sql w = Some (v, w') \<Longrightarrow> quiet w w'"
begin

lemma transaction_run: "transaction m0 cfg f w = sessionRun (begins m0 cfg) commits (\<lambda>m e. rolls m) f w"
  by (rule session_fun) (rule transaction_session)

lemma session_wraps:
  assumes "session (begins m0 cfg) commits (\<lambda>m e. rolls m) f w r w'"
  shows "wrapsManager f w r w'"
  using assms
proof (cases rule: session.cases)
  case (not_entered e)
  then show ?thesis using keepsD[OF begins_quiet] unfolding wrapsManager_def by blast
next
  case (left_with k w1 v w2)
  then show ?thesis
    using keepsD[OF begins_quiet] keepsD[OF commits_quiet] answers_refl unfolding wrapsManager_def by blast
next
  case (undone k w1 e w2)
  then show ?thesis
    using keepsD[OF begins_quiet] keepsD[OF rolls_quiet] answers_refl unfolding wrapsManager_def by blast
next
  case (undo_failed k w1 e w2 e')
  then have "answers (Reject e) r" by simp
  then show ?thesis
    using undo_failed keepsD[OF begins_quiet] keepsD[OF rolls_quiet] unfolding wrapsManager_def by blast
next
  case (leave_failed k w1 v w2 e w3)
  then have "answers (Resolve v) r" "quiet w2 w'"
    by (auto intro: quiet_trans[OF keepsD[OF commits_quiet] keepsD[OF rolls_quiet]])
  then show ?thesis
    using leave_failed keepsD[OF begins_quiet] unfolding wrapsManager_def by blast
next
  case (both_failed k w1 v w2 e w3 e')
  then have "answers (Resolve v) r" "quiet w2 w'"
    by (auto intro: quiet_trans[OF keepsD[OF commits_quiet] keepsD[OF rolls_quiet]])
  then show ?thesis
    using both_failed keepsD[OF begins_quiet] unfolding wrapsManager_def by blast
qed

end

sublocale settling_library \<subseteq> sql_library transaction query
proof
  show "transaction m0 cfg f w = Some (r, w') \<Longrightarrow> wrapsManager f w r w'" for m0 cfg f w r w'
    by (simp add: transaction_session session_wraps)
  show "refines_comp (transaction m0 cfg f) (transaction m0 cfg f')"
    if "\<And>m. refines_comp (f m) (f' m)" for m0 cfg f f'
  proof -
    have "refines_comp (sessionRun (begins m0 cfg) commits (\<lambda>m e. rolls m) f)
        (sessionRun (begins m0 cfg) commits (\<lambda>m e. rolls m) f')"
      unfolding sessionRun_def by (intro refines_andThen refines_catching refines_refl that)
    then show ?thesis by (simp add: refines_comp_def transaction_run)
  qed
  show "transaction m0 cfg f w = transaction m0 cfg f' w"
    if "\<And>m w1. quiet w w1 \<Longrightarrow> f m w1 = f' m w1" for m0 cfg f f' w
    unfolding transaction_run sessionRun_def
    by (intro andThen_cong catching_cong refl that keepsD[OF begins_quiet])
qed (rule statements_quiet)

text \<open>
  The steps of an adapter over such a library. Entering: begin, prepare inside the library's
  callback (an error there rolls back), make the handle.
\<close>

definition begunWith ::
    "(('u, 'd, 'z) world, nat) comp \<Rightarrow> (nat \<Rightarrow> (('u, 'd, 'z) world, unit) comp) \<Rightarrow>
     (nat \<Rightarrow> (('u, 'd, 'z) world, unit) comp) \<Rightarrow> (nat \<Rightarrow> nat \<Rightarrow> tx_handle) \<Rightarrow> (('u, 'd, 'z) world, tx_handle) comp" where
  "begunWith begin_step rolls prepare mk =
     andThen begin_step (\<lambda>m.
       catching
         (andThen (prepare m) (\<lambda>_ v. Some (Resolve (mk m (fresh v)), v\<lparr>fresh := Suc (fresh v)\<rparr>)))
         (\<lambda>e. andThen (rolls m) (\<lambda>_. throw e)))"

definition sendTo ::
    "(nat \<Rightarrow> string \<Rightarrow> (('u, 'd, 'z) world, jsv) comp) \<Rightarrow> nat \<Rightarrow> string \<Rightarrow> (('u, 'd, 'z) world, unit) comp" where
  "sendTo query m sql = andThen (query m sql) (\<lambda>_. ret ())"

text \<open>Marking a savepoint: a new name, the statement on the parent's connection.\<close>

definition markedOn ::
    "(nat \<Rightarrow> string \<Rightarrow> (('u, 'd, 'z) world, jsv) comp) \<Rightarrow> nat \<Rightarrow> (('u, 'd, 'z) world, unit) comp \<Rightarrow>
     (('u, 'd, 'z) world, string) comp" where
  "markedOn query m check =
     andThen check (\<lambda>_ v.
       andThen (sendTo query m (''SAVEPOINT '' @ savepointName (fresh v)))
         (\<lambda>_. ret (savepointName (fresh v))) (v\<lparr>fresh := Suc (fresh v)\<rparr>))"

lemma begun_sessionRun:
  assumes "\<And>m i. on (mk m i) = m"
  shows "sessionRun begin_step commits (\<lambda>m e. rolls m) (\<lambda>m. andThen (prepare m) (\<lambda>_. allocHandle (mk m) cb)) w =
    sessionRun (begunWith begin_step rolls prepare mk) (\<lambda>h. commits (on h)) (\<lambda>h e. rolls (on h)) cb w"
proof (cases "begin_step w")
  case (Some x)
  then obtain b w1 where b: "begin_step w = Some (b, w1)" by (cases x) auto
  show ?thesis
  proof (cases b)
    case (Resolve m)
    show ?thesis
      by (cases "prepare m w1")
        (auto simp: b Resolve sessionRun_def begunWith_def andThen_def catching_def allocHandle_def assms
          split: option.splits outcome.splits)
  qed (simp add: b sessionRun_def begunWith_def andThen_def)
qed (simp add: sessionRun_def begunWith_def andThen_def)

lemma andThen_sendTo: "andThen (sendTo query m sql) g = andThen (query m sql) (\<lambda>_. g ())"
  by (simp add: sendTo_def andThen_assoc)

lemma savepoint_sessionRun:
  "andThen check (\<lambda>_ v. inSavepoint (query m) (savepointName (fresh v)) fn (v\<lparr>fresh := Suc (fresh v)\<rparr>)) w =
    sessionRun (markedOn query m check) (\<lambda>name. sendTo query m (''RELEASE SAVEPOINT '' @ name))
      (\<lambda>name e. sendTo query m (''ROLLBACK TO SAVEPOINT '' @ name)) (\<lambda>_. fn) w"
proof -
  have "sessionRun (markedOn query m check) (\<lambda>name. sendTo query m (''RELEASE SAVEPOINT '' @ name))
      (\<lambda>name e. sendTo query m (''ROLLBACK TO SAVEPOINT '' @ name)) (\<lambda>_. fn) =
    andThen check (\<lambda>_ v. andThen (sendTo query m (''SAVEPOINT '' @ savepointName (fresh v)))
      (\<lambda>_. catching
         (andThen fn (\<lambda>r. andThen (query m (''RELEASE SAVEPOINT '' @ savepointName (fresh v))) (\<lambda>_. ret r)))
         (\<lambda>err. andThen (query m (''ROLLBACK TO SAVEPOINT '' @ savepointName (fresh v))) (\<lambda>_. throw err)))
      (v\<lparr>fresh := Suc (fresh v)\<rparr>))"
    unfolding sessionRun_def markedOn_def andThen_assoc andThen_sendTo
    by (rule ext, rule andThen_cong[OF refl])
      (auto simp: andThen_def split: option.split outcome.split)
  then show ?thesis by (simp only: inSavepoint_def andThen_sendTo)
qed

end
