(* ===== verification/Registry_Properties.thy ===== *)
theory Registry_Properties
  imports Tx_Manager
begin

text \<open>
  Properties of the adapter registry. Adapter type names contain no colon (the names in the
  repository are \<open>typeorm\<close>, \<open>drizzle\<close> and \<open>in-memory\<close>); instance names are arbitrary. A
  registry is well formed when it was built by registrations of such names.
\<close>

section \<open>Well-formed registries\<close>

definition goodKey :: "string \<Rightarrow> bool" where
  "goodKey key \<longleftrightarrow> colon_free (fst (splitKey key)) \<and>
     keyFor (fst (splitKey key)) (snd (splitKey key)) = key"

definition wf_registry :: "adapter_registry \<Rightarrow> bool" where
  "wf_registry reg \<longleftrightarrow>
     distinct (map fst (adapters reg)) \<and> list_all goodKey (map fst (adapters reg))"

lemma goodKey_keyFor [simp]: "colon_free a \<Longrightarrow> goodKey (keyFor a i)"
  by (simp add: goodKey_def splitKey_keyFor)

lemma wf_newRegistry [simp]: "wf_registry newRegistry"
  by (simp add: wf_registry_def newRegistry_def)

lemma adapters_register [simp]:
  "adapters (register r d reg) =
     AList.update (keyFor (reg_adapterName r) (reg_instanceName r)) (reg_adapter r) (adapters reg)"
  by (simp add: register_def Let_def)

lemma wf_register [simp]:
  assumes "wf_registry reg" and "colon_free (reg_adapterName r)"
  shows "wf_registry (register r d reg)"
  using assms
  by (auto simp: wf_registry_def list_all_iff distinct_update dom_update)

lemma registryGet_iff:
  "registryGet a i reg = Inr k \<longleftrightarrow> map_of (adapters reg) (keyFor a i) = Some k"
  by (simp add: registryGet_def split: option.split)

lemma matches_iff:
  assumes "wf_registry reg"
  shows "(a, k) \<in> set (dataSourceMatches ds reg) \<longleftrightarrow> colon_free a \<and> registryGet a ds reg = Inr k"
proof -
  have keys: "goodKey key" if "(key, v) \<in> set (adapters reg)" for key v
    using assms that by (force simp: wf_registry_def list_all_iff)
  have mem: "map_of (adapters reg) key = Some v \<longleftrightarrow> (key, v) \<in> set (adapters reg)" for key v
    using assms by (simp add: wf_registry_def)
  show ?thesis
    unfolding registryGet_iff mem
  proof
    assume "(a, k) \<in> set (dataSourceMatches ds reg)"
    then obtain key where "(key, k) \<in> set (adapters reg)" "splitKey key = (a, ds)"
      by (auto simp: dataSourceMatches_def)
    with keys show "colon_free a \<and> (keyFor a ds, k) \<in> set (adapters reg)"
      by (metis fst_conv goodKey_def snd_conv)
  next
    assume "colon_free a \<and> (keyFor a ds, k) \<in> set (adapters reg)"
    then show "(a, k) \<in> set (dataSourceMatches ds reg)"
      by (force simp: dataSourceMatches_def splitKey_keyFor)
  qed
qed

section \<open>Properties\<close>

text \<open>
  \<open>get\<close> after \<open>register\<close>: the pair of names just registered gives the new adapter,
  every other pair gives what it gave before, also when instance names contain colons.
\<close>

theorem get_after_register:
  assumes "colon_free a" and "colon_free (reg_adapterName r)"
  shows "registryGet a i (register r d reg) =
    (if a = reg_adapterName r \<and> i = reg_instanceName r then Inr (reg_adapter r)
     else registryGet a i reg)"
  using keyFor_inj[OF assms, of i "reg_instanceName r"]
  by (auto simp: registryGet_def update_conv split: option.splits)

lemma get_after_register_witness:
  "registryGet ''typeorm'' ''a:b''
     (register \<lparr>reg_adapterName = ''typeorm'', reg_instanceName = ''a:b'', reg_adapter = 4\<rparr> False newRegistry) =
   Inr 4"
  by (subst get_after_register) (simp_all add: colon_free_def)

text \<open>
  Looking an adapter up by its dataSource succeeds exactly when one adapter type and
  no other is registered under that instance name, and then agrees with \<open>get\<close>.
\<close>

theorem getByDataSource_unique:
  assumes "wf_registry reg"
  shows "getByDataSource ds reg = Inr k \<longleftrightarrow>
    (\<exists>a. colon_free a \<and> registryGet a ds reg = Inr k \<and>
       getAdapterNameByDataSource ds reg = Inr a \<and>
       (\<forall>b k'. colon_free b \<and> registryGet b ds reg = Inr k' \<longrightarrow> b = a))"
proof
  assume get: "getByDataSource ds reg = Inr k"
  then obtain a where one: "dataSourceMatches ds reg = [(a, k)]"
    by (auto simp: getByDataSource_def split: list.splits)
  have "(b, k') \<in> set (dataSourceMatches ds reg) \<longleftrightarrow> b = a \<and> k' = k" for b k'
    unfolding one by auto
  then show "\<exists>a. colon_free a \<and> registryGet a ds reg = Inr k \<and>
      getAdapterNameByDataSource ds reg = Inr a \<and>
      (\<forall>b k'. colon_free b \<and> registryGet b ds reg = Inr k' \<longrightarrow> b = a)"
    unfolding matches_iff[OF assms] by (auto simp: getAdapterNameByDataSource_def one)
next
  assume "\<exists>a. colon_free a \<and> registryGet a ds reg = Inr k \<and>
      getAdapterNameByDataSource ds reg = Inr a \<and>
      (\<forall>b k'. colon_free b \<and> registryGet b ds reg = Inr k' \<longrightarrow> b = a)"
  then obtain a where a: "(a, k) \<in> set (dataSourceMatches ds reg)"
    and name: "getAdapterNameByDataSource ds reg = Inr a"
    by (auto simp: matches_iff[OF assms])
  from name obtain m where "dataSourceMatches ds reg = [m]"
    by (auto simp: getAdapterNameByDataSource_def split: list.splits)
  with a show "getByDataSource ds reg = Inr k" by (auto simp: getByDataSource_def)
qed

definition twoTypes :: adapter_registry where
  "twoTypes =
     register \<lparr>reg_adapterName = ''typeorm'', reg_instanceName = ''b'', reg_adapter = 2\<rparr> False
       (register \<lparr>reg_adapterName = ''drizzle'', reg_instanceName = ''a'', reg_adapter = 1\<rparr> False newRegistry)"

lemma twoTypes_wf: "wf_registry twoTypes"
  unfolding twoTypes_def by (intro wf_register wf_newRegistry) (simp_all add: colon_free_def)

lemma getByDataSource_unique_witness:
  "getByDataSource ''a'' twoTypes = Inr 1 \<longleftrightarrow>
    (\<exists>a. colon_free a \<and> registryGet a ''a'' twoTypes = Inr 1 \<and>
       getAdapterNameByDataSource ''a'' twoTypes = Inr a \<and>
       (\<forall>b k'. colon_free b \<and> registryGet b ''a'' twoTypes = Inr k' \<longrightarrow> b = a))"
  by (rule getByDataSource_unique[OF twoTypes_wf])

text \<open>
  A call that names a dataSource resolves to a pair of names the registry has an adapter
  for, and the adapter is the dataSource's: after the names are resolved, \<open>get\<close> cannot
  fail. The options \<open>adapter\<close> and \<open>adapterInstance\<close> play no part.
\<close>

theorem dataSource_resolves:
  assumes "wf_registry reg" and "o_dataSource options = Some ds"
    and "resolveAdapterIdentifiers options reg = Inr (a, i)"
  shows "i = ds \<and> (\<exists>k. registryGet a i reg = Inr k \<and> getByDataSource ds reg = Inr k) \<and>
    (\<forall>x y. resolveAdapterIdentifiers (options\<lparr>o_adapter := x, o_adapterInstance := y\<rparr>) reg = Inr (a, i))"
proof -
  from assms(2,3) have i: "i = ds" and name: "getAdapterNameByDataSource ds reg = Inr a"
    by (auto simp: resolveAdapterIdentifiers_def split: sum.splits)
  then obtain k where one: "dataSourceMatches ds reg = [(a, k)]"
    by (auto simp: getAdapterNameByDataSource_def split: list.splits)
  have "registryGet a ds reg = Inr k" using matches_iff[OF assms(1), of a k ds] one by simp
  then show ?thesis
    using i name one assms(2) by (auto simp: getByDataSource_def resolveAdapterIdentifiers_def)
qed

lemma dataSource_resolves_witness:
  "\<exists>k. registryGet ''drizzle'' ''a'' twoTypes = Inr k \<and> getByDataSource ''a'' twoTypes = Inr k"
proof -
  have "resolveAdapterIdentifiers (no_options\<lparr>o_dataSource := Some ''a''\<rparr>) twoTypes =
      Inr (''drizzle'', ''a'')" by code_simp
  from dataSource_resolves[OF twoTypes_wf _ this] show ?thesis by simp
qed

text \<open>The registration that becomes the default of a sequence of registrations.\<close>

definition chosenDefault :: "(adapter_registration \<times> bool) list \<Rightarrow> adapter_registration" where
  "chosenDefault rs = fst (if filter snd rs = [] then hd rs else last (filter snd rs))"

abbreviation registerAll ::
    "(adapter_registration \<times> bool) list \<Rightarrow> adapter_registry \<Rightarrow> adapter_registry" where
  "registerAll rs reg \<equiv> fold (\<lambda>(r, d). register r d) rs reg"

lemma registerAll_default:
  "defaultAdapterName reg \<noteq> None \<Longrightarrow>
     defaultAdapterName (registerAll rs reg) =
       (if filter snd rs = [] then defaultAdapterName reg
        else Some (reg_adapterName (fst (last (filter snd rs))))) \<and>
     defaultInstanceName (registerAll rs reg) =
       (if filter snd rs = [] then defaultInstanceName reg
        else reg_instanceName (fst (last (filter snd rs))))"
  by (induction rs arbitrary: reg) (auto simp: register_def Let_def)

text \<open>
  The default adapter after any sequence of registrations is the last one registered as
  the default, and the first one registered when none was.
\<close>

theorem default_adapter:
  assumes "rs \<noteq> []"
  shows "getDefaultAdapterName (registerAll rs newRegistry) = Inr (reg_adapterName (chosenDefault rs)) \<and>
    getDefaultInstanceName (registerAll rs newRegistry) = reg_instanceName (chosenDefault rs)"
proof -
  obtain r d rs' where rs: "rs = (r, d) # rs'" using assms by (cases rs) auto
  have "defaultAdapterName (register r d newRegistry) = Some (reg_adapterName r)"
    "defaultInstanceName (register r d newRegistry) = reg_instanceName r"
    by (simp_all add: register_def Let_def newRegistry_def)
  with registerAll_default[of "register r d newRegistry" rs'] show ?thesis
    by (auto simp: rs chosenDefault_def getDefaultAdapterName_def getDefaultInstanceName_def)
qed

lemma default_adapter_witness:
  "getDefaultInstanceName (registerAll
     [(\<lparr>reg_adapterName = ''typeorm'', reg_instanceName = ''a'', reg_adapter = 1\<rparr>, False),
      (\<lparr>reg_adapterName = ''drizzle'', reg_instanceName = ''b'', reg_adapter = 2\<rparr>, True),
      (\<lparr>reg_adapterName = ''drizzle'', reg_instanceName = ''c'', reg_adapter = 3\<rparr>, False)] newRegistry) = ''b''"
  using default_adapter[of
     "[(\<lparr>reg_adapterName = ''typeorm'', reg_instanceName = ''a'', reg_adapter = 1\<rparr>, False),
       (\<lparr>reg_adapterName = ''drizzle'', reg_instanceName = ''b'', reg_adapter = 2\<rparr>, True),
       (\<lparr>reg_adapterName = ''drizzle'', reg_instanceName = ''c'', reg_adapter = 3\<rparr>, False)]"]
  by (simp add: chosenDefault_def)

text \<open>
  Round trip: registering again what \<open>getAll\<close> lists, in that order, rebuilds the
  registry's map.
\<close>

theorem getAll_roundtrip:
  assumes "wf_registry reg"
  shows "adapters (registerAll (map (\<lambda>r. (r, False)) (getAll reg)) newRegistry) = adapters reg"
proof -
  have "adapters (registerAll (map (\<lambda>p. (\<lambda>(key, a).
        (\<lparr>reg_adapterName = fst (splitKey key), reg_instanceName = snd (splitKey key),
          reg_adapter = a\<rparr>, False)) p) ps) reg0) = adapters reg0 @ ps"
    if "distinct (map fst (adapters reg0 @ ps))" "list_all goodKey (map fst ps)" for ps reg0
    using that
  proof (induction ps arbitrary: reg0)
    case (Cons p ps)
    obtain key a where p: "p = (key, a)" by (cases p)
    have "key \<notin> dom (map_of (adapters reg0))" using Cons.prems(1) by (auto simp: p dom_map_of_conv_image_fst)
    then have "AList.update key a (adapters reg0) = adapters reg0 @ [(key, a)]"
      by (metis delete_id domIff map_of_eq_None_iff update_delete_at_end)
    then show ?case
      using Cons.prems Cons.IH by (simp add: p goodKey_def)
  qed simp
  from this[of newRegistry "adapters reg"] assms show ?thesis
    by (simp add: getAll_def newRegistry_def wf_registry_def case_prod_beta comp_def)
qed

lemma getAll_roundtrip_witness:
  "adapters (registerAll (map (\<lambda>r. (r, False)) (getAll twoTypes)) newRegistry) = adapters twoTypes"
  by (rule getAll_roundtrip[OF twoTypes_wf])

end
