(* ===== verification/Drizzle.thy ===== *)
theory Drizzle
  imports Sql_Library Registry_Properties
begin

text \<open>
  \<open>packages/drizzle/src\<close>: the adapter for Drizzle's PostgreSQL databases, the helper, the
  patch that makes a database follow the transaction of the running chain, and the
  registration path. Drizzle's classes are parameters: a \<open>drizzle_lib\<close> gives, for a
  database or a \<open>tx\<close> (an address), its unpatched \<open>transaction\<close> and \<open>execute\<close>, the entity
  kinds along its constructor chain, and the properties of its prototypes and its own. The
  \<open>tx\<close> of a handle is an object of class \<open>DrizzleTx\<close> with its address as identity.

  What the code writes on a database is a field of the world: the dataSource it is managed
  as, the names of the methods the patch replaced (\<open>ORIGINALS\<close>), and the names of its
  properties that have become accessors.
\<close>

section \<open>Drizzle\<close>

record drizzle_config =
  isolationLevel :: "string option"
  accessMode :: "string option"

record 'w drizzle_lib =
  dl_transaction ::
    "nat \<Rightarrow> drizzle_config option \<Rightarrow> (nat \<Rightarrow> ('w, internal_result) comp) \<Rightarrow> ('w, internal_result) comp"
  dl_execute :: "nat \<Rightarrow> string \<Rightarrow> ('w, jsv) comp"
  dl_kinds :: "nat \<Rightarrow> string list"
  dl_protos :: "nat \<Rightarrow> (string \<times> bool) list list"
  dl_ownData :: "nat \<Rightarrow> string list"

record ('u, 'd) drizzle_world = "('u, 'd) manager_world" +
  dz_managed :: "nat \<Rightarrow> string option"
  dz_originals :: "nat \<Rightarrow> string list option"
  dz_accessors :: "nat \<Rightarrow> string list"

type_synonym ('u, 'd, 'z) dzw = "('u, 'd, 'z) drizzle_world_scheme"

definition drizzleHandle :: "nat \<Rightarrow> nat \<Rightarrow> tx_handle" where
  "drizzleHandle i tx = \<lparr>h_id = i, h_adapterName = ''drizzle'', h_native = JObj tx [''DrizzleTx''] []\<rparr>"

text \<open>\<open>handle.tx\<close>, which only handles of this adapter have.\<close>

definition txOf :: "tx_handle \<Rightarrow> nat option" where
  "txOf h = (if instance_of (h_native h) ''DrizzleTx'' then object_id (h_native h) else None)"

section \<open>The patch\<close>

definition activeTx :: "string \<Rightarrow> ('h, 'z) ctx_world_scheme \<Rightarrow> nat option" where
  "activeTx dataSourceName w =
     (case getActiveTransaction (''drizzle:'' @ dataSourceName) w of
        None \<Rightarrow> None
      | Some t \<Rightarrow> txOf (handle (txs w t)))"

definition targetOf :: "nat \<Rightarrow> ('u, 'd, 'z) dzw \<Rightarrow> nat" where
  "targetOf base w =
     (case (case dz_managed w base of None \<Rightarrow> None | Some name \<Rightarrow> activeTx name w) of
        None \<Rightarrow> base
      | Some tx \<Rightarrow> tx)"

definition ROUTED_PROPERTIES :: "string list" where
  "ROUTED_PROPERTIES = [''query'', ''_query'', ''$with'']"

text \<open>What \<open>name in originals\<close> finds in an object literal that holds nothing yet.\<close>

definition objectPrototypeNames :: "string list" where
  "objectPrototypeNames =
     [''constructor'', ''__defineGetter__'', ''__defineSetter__'', ''hasOwnProperty'',
      ''__lookupGetter__'', ''__lookupSetter__'', ''isPrototypeOf'', ''propertyIsEnumerable'',
      ''toString'', ''valueOf'', ''__proto__'', ''toLocaleString'']"

text \<open>
  The loop over the prototype chain: a property is wrapped unless it is the constructor, a
  name already in \<open>originals\<close>, or no method.
\<close>

fun wrapMethods :: "(string \<times> bool) list \<Rightarrow> string list \<Rightarrow> string list" where
  "wrapMethods [] originals = originals"
| "wrapMethods ((name, isMethod) # ps) originals =
     (if name = ''constructor'' \<or> name \<in> set originals \<or> name \<in> set objectPrototypeNames \<or> \<not> isMethod
      then wrapMethods ps originals
      else wrapMethods ps (originals @ [name]))"

definition originalsOf :: "(string \<times> bool) list list \<Rightarrow> string list" where
  "originalsOf protos = fold wrapMethods protos []"

definition patchDrizzleInstance ::
    "'w drizzle_lib \<Rightarrow> nat \<Rightarrow> string \<Rightarrow> (('u, 'd, 'z) dzw, unit) comp" where
  "patchDrizzleInstance lib base dataSourceName w =
     (if (case dz_managed w base of None \<Rightarrow> False | Some registered \<Rightarrow> registered \<noteq> dataSourceName)
      then raise TypeError w
      else
        let w1 = w\<lparr>dz_managed := (dz_managed w)(base \<mapsto> dataSourceName)\<rparr>
        in if dz_originals w1 base \<noteq> None then Some (Resolve (), w1)
           else Some (Resolve (),
             w1\<lparr>dz_accessors := (dz_accessors w1)
                  (base := filter (\<lambda>p. p \<in> set (dl_ownData lib base)) ROUTED_PROPERTIES),
                dz_originals := (dz_originals w1)(base \<mapsto> originalsOf (dl_protos lib base))\<rparr>))"

text \<open>
  The object a method call \<open>db.name(...)\<close> runs on, and the object \<open>db.name\<close> is read from.
\<close>

definition methodTarget :: "nat \<Rightarrow> string \<Rightarrow> ('u, 'd, 'z) dzw \<Rightarrow> nat" where
  "methodTarget base name w =
     (case dz_originals w base of
        None \<Rightarrow> base
      | Some originals \<Rightarrow> if name \<in> set originals then targetOf base w else base)"

definition propertyTarget :: "nat \<Rightarrow> string \<Rightarrow> ('u, 'd, 'z) dzw \<Rightarrow> nat" where
  "propertyTarget base name w = (if name \<in> set (dz_accessors w base) then targetOf base w else base)"

text \<open>Whether \<open>base\<close> has a \<open>transaction\<close> method from before the patch.\<close>

definition originalTransactionOf :: "nat \<Rightarrow> ('u, 'd, 'z) dzw \<Rightarrow> bool" where
  "originalTransactionOf base w =
     (case dz_originals w base of
        None \<Rightarrow> False
      | Some originals \<Rightarrow> ''transaction'' \<in> set originals)"

definition managedDataSourceOf :: "nat \<Rightarrow> ('u, 'd, 'z) dzw \<Rightarrow> string option" where
  "managedDataSourceOf base w = dz_managed w base"

definition resetDrizzlePatchingForTesting :: "('u, 'd, 'z) dzw \<Rightarrow> ('u, 'd, 'z) dzw" where
  "resetDrizzlePatchingForTesting w = w\<lparr>dz_managed := (\<lambda>_. None)\<rparr>"

section \<open>The adapter\<close>

definition wordChar :: "char \<Rightarrow> bool" where
  "wordChar c \<longleftrightarrow>
     c \<in> set ''abcdefghijklmnopqrstuvwxyzABCDEFGHIJKLMNOPQRSTUVWXYZ0123456789_''"

text \<open>\<open>/^Pg\w*Database$/\<close>\<close>

definition isPgDatabaseKind :: "string \<Rightarrow> bool" where
  "isPgDatabaseKind s \<longleftrightarrow>
     10 \<le> length s \<and> take 2 s = ''Pg'' \<and> drop (length s - 8) s = ''Database'' \<and>
     list_all wordChar (take (length s - 10) (drop 2 s))"

definition drizzleDialectOf :: "'w drizzle_lib \<Rightarrow> nat \<Rightarrow> framework_error + string" where
  "drizzleDialectOf lib base =
     (if list_ex isPgDatabaseKind (dl_kinds lib base) then Inr ''postgres'' else Inl TypeError)"

definition toLowerCase :: "string \<Rightarrow> string" where
  "toLowerCase = map (\<lambda>c.
     case map_of (zip ''ABCDEFGHIJKLMNOPQRSTUVWXYZ'' ''abcdefghijklmnopqrstuvwxyz'') c of
       None \<Rightarrow> c | Some d \<Rightarrow> d)"

definition drizzleMapIsolation :: "isolation_level \<Rightarrow> string" where
  "drizzleMapIsolation level = toLowerCase (replaceChar CHR ''_'' CHR '' '' (isolation_text level))"

definition DRIZZLE_SQLSTATES :: "string list" where
  "DRIZZLE_SQLSTATES = [''40001'', ''40P01'']"

function drizzleRetryable :: "jsv \<Rightarrow> nat \<Rightarrow> bool" where
  "drizzleRetryable err depth =
     (if \<not> is_object err \<or> depth > 3 then False
      else if (case prop_of err ''code'' of JStr s \<Rightarrow> s \<in> set DRIZZLE_SQLSTATES | _ \<Rightarrow> False) then True
      else drizzleRetryable (prop_of err ''cause'') (depth + 1))"
  by pat_completeness auto
termination by (relation "measure (\<lambda>(err, depth). 4 - depth)") auto

declare drizzleRetryable.simps [simp del]

text \<open>The second argument of \<open>transaction\<close>: \<open>undefined\<close> when it would have no key.\<close>

definition transactionConfig :: "extended_options \<Rightarrow> drizzle_config option" where
  "transactionConfig options =
     (let config = \<lparr>isolationLevel = map_option drizzleMapIsolation (o_isolation options),
                    accessMode = (if o_readOnly options = Some True then Some ''read only'' else None)\<rparr>
      in if isolationLevel config = None \<and> accessMode config = None then None else Some config)"

text \<open>
  The object whose unpatched \<open>transaction\<close> begins: the database itself by the original
  method, and otherwise whatever its present one runs on.
\<close>

definition dz_beginOn :: "nat \<Rightarrow> ('u, 'd, 'z) dzw \<Rightarrow> nat" where
  "dz_beginOn base w = (if originalTransactionOf base w then base else methodTarget base ''transaction'' w)"

definition dz_runInTransaction ::
    "('u, 'd, 'z) dzw drizzle_lib \<Rightarrow> nat \<Rightarrow> extended_options \<Rightarrow> ('u, 'd, 'z) dzw tx_callback \<Rightarrow>
     (('u, 'd, 'z) dzw, internal_result) comp" where
  "dz_runInTransaction lib base options fn w =
     dl_transaction lib (dz_beginOn base w) (transactionConfig options)
       (\<lambda>tx. allocHandle (\<lambda>i. drizzleHandle i tx) fn) w"

definition dz_runInSavepoint ::
    "('u, 'd, 'z) dzw drizzle_lib \<Rightarrow> tx_handle \<Rightarrow> ('u, 'd, 'z) dzw tx_callback \<Rightarrow>
     (('u, 'd, 'z) dzw, internal_result) comp" where
  "dz_runInSavepoint lib parent fn w =
     inSavepoint (dl_execute lib (case txOf parent of None \<Rightarrow> 0 | Some tx \<Rightarrow> tx))
       (savepointName (fresh w)) (fn parent) (w\<lparr>fresh := Suc (fresh w)\<rparr>)"

definition DrizzleTransactionAdapter ::
    "('u, 'd, 'z) dzw drizzle_lib \<Rightarrow> nat \<Rightarrow> string \<Rightarrow> ('u, 'd, 'z) dzw transaction_adapter" where
  "DrizzleTransactionAdapter lib base dataSourceName =
     \<lparr>a_name = ''drizzle'', a_dataSourceName = dataSourceName,
      a_runInTransaction = dz_runInTransaction lib base,
      a_runInSavepoint = dz_runInSavepoint lib,
      a_nativeTransaction = Some h_native, a_dialect = Some ''postgres'',
      a_isRetryableError = Some (\<lambda>err. drizzleRetryable err 0)\<rparr>"

section \<open>Helpers and registration\<close>

definition getCurrentDrizzleTransaction ::
    "string \<Rightarrow> jsv option \<Rightarrow> ('h, 'z) ctx_world_scheme \<Rightarrow> framework_error + jsv" where
  "getCurrentDrizzleTransaction dataSource fallback w =
     (case getActiveTransaction (''drizzle:'' @ dataSource) w of
        Some t \<Rightarrow> Inr (h_native (handle (txs w t)))
      | None \<Rightarrow>
          (case fallback of
             Some v \<Rightarrow> Inr v
           | None \<Rightarrow> Inl IllegalTransactionStateError))"

definition isInDrizzleTransaction :: "string \<Rightarrow> ('h, 'z) ctx_world_scheme \<Rightarrow> bool" where
  "isInDrizzleTransaction dataSource w = (getActiveTransaction (''drizzle:'' @ dataSource) w \<noteq> None)"

text \<open>The adapter checks the database first; then it is patched, then registered.\<close>

definition registerManagedDatabase ::
    "'w drizzle_lib \<Rightarrow> nat \<Rightarrow> string \<Rightarrow> bool \<Rightarrow> nat \<Rightarrow> (('u, 'd, 'z) dzw, nat) comp" where
  "registerManagedDatabase lib base dataSourceName isDefault a w =
     (case drizzleDialectOf lib base of
        Inl e \<Rightarrow> raise e w
      | Inr dialect \<Rightarrow>
          andThen (patchDrizzleInstance lib base dataSourceName)
            (\<lambda>_ v. Some (Resolve a, v\<lparr>registry := register
               \<lparr>reg_adapterName = ''drizzle'', reg_instanceName = dataSourceName, reg_adapter = a\<rparr>
               isDefault (registry v)\<rparr>)) w)"

section \<open>The contract\<close>

locale drizzle_library = sql_library "dl_transaction lib" "dl_execute lib"
  for lib :: "('u, 'd, 'z) dzw drizzle_lib"

sublocale drizzle_library \<subseteq> adapter: lawful_adapter "DrizzleTransactionAdapter lib base name"
  for base name
proof
  fix opts :: extended_options and cb cb' :: "('u, 'd, 'z) dzw tx_callback" and parent w r w'
  let ?ad = "DrizzleTransactionAdapter lib base name"
  have run: "a_runInTransaction ?ad opts cb w = dl_transaction lib (dz_beginOn base w) (transactionConfig opts)
      (\<lambda>tx. andThen (ret ()) (\<lambda>_. allocHandle (\<lambda>i. drizzleHandle i tx) cb)) w" for cb w
    by (simp add: DrizzleTransactionAdapter_def dz_runInTransaction_def)
  have save: "a_runInSavepoint ?ad parent cb w = andThen (ret ())
      (\<lambda>_ v. inSavepoint (dl_execute lib (case txOf parent of None \<Rightarrow> 0 | Some tx \<Rightarrow> tx))
         (savepointName (fresh v)) (cb parent) (v\<lparr>fresh := Suc (fresh v)\<rparr>)) w" for cb w
    by (simp add: DrizzleTransactionAdapter_def dz_runInSavepoint_def)
  show "a_runInTransaction ?ad opts cb w = Some (r, w') \<Longrightarrow> wraps cb w r w'"
    unfolding run by (rule begun_lawful[OF keeps_quiet_ret])
  show "a_runInSavepoint ?ad parent cb w = Some (r, w') \<Longrightarrow> wraps cb w r w'"
    unfolding save by (rule savepoint_lawful[OF keeps_quiet_ret])
  show "refines_comp (a_runInTransaction ?ad opts cb) (a_runInTransaction ?ad opts cb')"
    if "\<And>h. refines_comp (cb h) (cb' h)"
    by (rule refines_compI, unfold run) (rule refines_compD[OF begun_mono[OF that]])
  show "refines_comp (a_runInSavepoint ?ad parent cb) (a_runInSavepoint ?ad parent cb')"
    if "\<And>h. refines_comp (cb h) (cb' h)"
    by (rule refines_compI, unfold save) (rule refines_compD[OF savepoint_mono[OF that]])
  show "a_runInTransaction ?ad opts cb w = a_runInTransaction ?ad opts cb' w"
    if "\<And>h w1. quiet w w1 \<Longrightarrow> cb h w1 = cb' h w1"
    unfolding run by (rule begun_local[OF keeps_quiet_ret that])
  show "a_runInSavepoint ?ad parent cb w = a_runInSavepoint ?ad parent cb' w"
    if "\<And>h w1. quiet w w1 \<Longrightarrow> cb h w1 = cb' h w1"
    unfolding save by (rule savepoint_local[OF keeps_quiet_ret that])
qed

context drizzle_library
begin

lemma drizzle_adapter: "lawful_adapter (DrizzleTransactionAdapter lib base name)"
  by (rule adapter.lawful_adapter_axioms)

end

section \<open>The adapter's sessions\<close>

fun drizzleIsolation :: "isolation_level \<Rightarrow> string" where
  "drizzleIsolation READ_UNCOMMITTED = ''read uncommitted''"
| "drizzleIsolation READ_COMMITTED = ''read committed''"
| "drizzleIsolation REPEATABLE_READ = ''repeatable read''"
| "drizzleIsolation SERIALIZABLE = ''serializable''"

text \<open>What a transaction is begun with: nothing when neither isolation nor read-only is asked for.\<close>

definition drizzleConfig :: "extended_options \<Rightarrow> drizzle_config option" where
  "drizzleConfig opts =
     (if o_isolation opts = None \<and> o_readOnly opts \<noteq> Some True then None
      else Some \<lparr>isolationLevel = map_option drizzleIsolation (o_isolation opts),
                 accessMode = (if o_readOnly opts = Some True then Some ''read only'' else None)\<rparr>)"

definition dzTx :: "tx_handle \<Rightarrow> nat" where
  "dzTx h = (case txOf h of None \<Rightarrow> 0 | Some tx \<Rightarrow> tx)"

definition dz_enter ::
    "(nat \<Rightarrow> drizzle_config option \<Rightarrow> (('u, 'd, 'z) dzw, nat) comp) \<Rightarrow> (nat \<Rightarrow> (('u, 'd, 'z) dzw, unit) comp) \<Rightarrow>
     nat \<Rightarrow> extended_options \<Rightarrow> (('u, 'd, 'z) dzw, tx_handle) comp" where
  "dz_enter begins rolls base opts w =
     begunWith (begins (dz_beginOn base w) (drizzleConfig opts)) rolls (\<lambda>tx. ret ()) (\<lambda>tx i. drizzleHandle i tx) w"

definition dz_mark :: "('u, 'd, 'z) dzw drizzle_lib \<Rightarrow> tx_handle \<Rightarrow> (('u, 'd, 'z) dzw, string) comp" where
  "dz_mark lib parent = markedOn (dl_execute lib) (dzTx parent) (ret ())"

abbreviation dz_release ::
    "('u, 'd, 'z) dzw drizzle_lib \<Rightarrow> tx_handle \<Rightarrow> string \<Rightarrow> (('u, 'd, 'z) dzw, unit) comp" where
  "dz_release lib parent name \<equiv> sendTo (dl_execute lib) (dzTx parent) (''RELEASE SAVEPOINT '' @ name)"

abbreviation dz_revert ::
    "('u, 'd, 'z) dzw drizzle_lib \<Rightarrow> tx_handle \<Rightarrow> string \<Rightarrow> jsv \<Rightarrow> (('u, 'd, 'z) dzw, unit) comp" where
  "dz_revert lib parent name e \<equiv> sendTo (dl_execute lib) (dzTx parent) (''ROLLBACK TO SAVEPOINT '' @ name)"

lemma transactionConfig_spec: "transactionConfig opts = drizzleConfig opts"
proof -
  have "drizzleMapIsolation READ_UNCOMMITTED = drizzleIsolation READ_UNCOMMITTED"
    "drizzleMapIsolation READ_COMMITTED = drizzleIsolation READ_COMMITTED"
    "drizzleMapIsolation REPEATABLE_READ = drizzleIsolation REPEATABLE_READ"
    "drizzleMapIsolation SERIALIZABLE = drizzleIsolation SERIALIZABLE"
    by code_simp+
  then have "drizzleMapIsolation l = drizzleIsolation l" for l
    by (cases l) simp_all
  then have "map_option drizzleMapIsolation x = map_option drizzleIsolation x" for x
    by (cases x) simp_all
  then show ?thesis by (simp add: transactionConfig_def drizzleConfig_def Let_def)
qed

lemma dzTx_handle [simp]: "dzTx (drizzleHandle i tx) = tx"
  by (simp add: dzTx_def txOf_def drizzleHandle_def)

locale settling_drizzle = settling_library "dl_transaction lib" "dl_execute lib" begins commits rolls
  for lib :: "('u, 'd, 'z) dzw drizzle_lib" and begins commits rolls

sublocale settling_drizzle \<subseteq> drizzle_library lib
  by unfold_locales

context settling_drizzle
begin

lemma dz_runInTransaction_session:
  "dz_runInTransaction lib base opts cb w = Some (r, w') \<longleftrightarrow>
     session (dz_enter begins rolls base opts) (\<lambda>h. commits (dzTx h)) (\<lambda>h e. rolls (dzTx h)) cb w r w'"
proof -
  have "dz_runInTransaction lib base opts cb w =
      sessionRun (begins (dz_beginOn base w) (drizzleConfig opts)) commits (\<lambda>m e. rolls m)
        (\<lambda>tx. andThen (ret ()) (\<lambda>_. allocHandle (\<lambda>i. drizzleHandle i tx) cb)) w"
    by (simp add: dz_runInTransaction_def transaction_run transactionConfig_spec)
  also have "\<dots> = sessionRun (dz_enter begins rolls base opts) (\<lambda>h. commits (dzTx h)) (\<lambda>h e. rolls (dzTx h)) cb w"
    by (subst begun_sessionRun[where on = dzTx]) (simp_all add: sessionRun_def andThen_def dz_enter_def)
  finally show ?thesis by (simp add: session_run)
qed

lemma dz_runInSavepoint_session:
  "dz_runInSavepoint lib parent cb w = Some (r, w') \<longleftrightarrow>
     session (dz_mark lib parent) (dz_release lib parent) (dz_revert lib parent) (\<lambda>_. cb parent) w r w'"
  unfolding session_run dz_mark_def savepoint_sessionRun[symmetric]
  by (simp add: dz_runInSavepoint_def dzTx_def)

end

sublocale settling_drizzle \<subseteq> settling: transactional_adapter "DrizzleTransactionAdapter lib base name"
    "dz_enter begins rolls base" "\<lambda>opts h. commits (dzTx h)" "\<lambda>opts h e. rolls (dzTx h)"
    "dz_mark lib" "dz_release lib" "dz_revert lib"
  for base name
  by unfold_locales
    (simp_all add: DrizzleTransactionAdapter_def dz_runInTransaction_session dz_runInSavepoint_session)

context settling_drizzle
begin

lemma drizzle_transactional:
  "transactional_adapter (DrizzleTransactionAdapter lib base name)
     (dz_enter begins rolls base) (\<lambda>opts h. commits (dzTx h)) (\<lambda>opts h e. rolls (dzTx h))
     (dz_mark lib) (dz_release lib) (dz_revert lib)"
  by (rule settling.transactional_adapter_axioms)

end

end
