(* ===== verification/Typeorm_Adapter.thy ===== *)
theory Typeorm_Adapter
  imports Sql_Library
begin

text \<open>
  \<open>packages/typeorm/src/adapter/typeorm.adapter.ts\<close> and \<open>packages/typeorm/src/helpers\<close>, over
  TypeORM, whose classes are parameters: a \<open>typeorm_lib\<close> gives what the code uses of them.
  A DataSource and an EntityManager are addresses; the properties the code reads of them and
  never changes are functions of the address. The EntityManager of a handle is an object
  of class \<open>EntityManager\<close> with its address as identity.

  The contracts \<open>typeorm_library\<close> and \<open>settling_typeorm\<close> are those of \<open>Sql_Library\<close> for
  TypeORM's \<open>transaction\<close> and \<open>query\<close>. Under the first the adapter is lawful, under the second
  it is transactional: it begins with the isolation asked for, commits or rolls back on the
  handle's own manager, and sends the savepoint statements on the parent's.
\<close>

section \<open>TypeORM\<close>

record 'w typeorm_lib =
  tl_transaction ::
    "nat \<Rightarrow> string option \<Rightarrow> (nat \<Rightarrow> ('w, internal_result) comp) \<Rightarrow> ('w, internal_result) comp"
  tl_query :: "nat \<Rightarrow> string \<Rightarrow> ('w, jsv) comp"
  tl_type :: "nat \<Rightarrow> string"
  tl_transactionSupport :: "nat \<Rightarrow> string option"
  tl_em_dataSource :: "nat \<Rightarrow> nat option"
  tl_em_connection :: "nat \<Rightarrow> nat option"
  tl_em_queryRunner :: "nat \<Rightarrow> nat option"

section \<open>The adapter\<close>

definition mapIsolation :: "isolation_level option \<Rightarrow> string option" where
  "mapIsolation level = map_option (\<lambda>l. replaceChar CHR ''_'' CHR '' '' (isolation_text l)) level"

definition READ_ONLY_DIALECTS :: "string list" where
  "READ_ONLY_DIALECTS = [''postgres'', ''cockroachdb'', ''aurora-postgres'']"

definition applyReadOnly :: "'w typeorm_lib \<Rightarrow> nat \<Rightarrow> string \<Rightarrow> ('w, unit) comp" where
  "applyReadOnly lib em dialect =
     (if dialect \<notin> set READ_ONLY_DIALECTS then ret ()
      else andThen (tl_query lib em ''SET TRANSACTION READ ONLY'') (\<lambda>_. ret ()))"

definition RETRYABLE_SQLSTATES :: "string list" where
  "RETRYABLE_SQLSTATES = [''40001'', ''40P01'']"

definition RETRYABLE_MYSQL_ERRNOS :: "int list" where
  "RETRYABLE_MYSQL_ERRNOS = [1213]"

definition retryableCode :: "jsv \<Rightarrow> bool" where
  "retryableCode code =
     (case code of
        JStr s \<Rightarrow> s \<in> set RETRYABLE_SQLSTATES \<or> s = ''ER_LOCK_DEADLOCK''
      | _ \<Rightarrow> False)"

definition retryableErrno :: "jsv \<Rightarrow> bool" where
  "retryableErrno errno =
     (case errno of
        JNum (JInt n) \<Rightarrow> n \<in> set RETRYABLE_MYSQL_ERRNOS
      | _ \<Rightarrow> False)"

function isRetryableDriverError :: "jsv \<Rightarrow> nat \<Rightarrow> bool" where
  "isRetryableDriverError err depth =
     (if \<not> is_object err \<or> depth > 3 then False
      else if retryableCode (prop_of err ''code'') then True
      else if retryableErrno (prop_of err ''errno'') then True
      else isRetryableDriverError (prop_of err ''driverError'') (depth + 1) \<or>
           isRetryableDriverError (prop_of err ''cause'') (depth + 1))"
  by pat_completeness auto
termination by (relation "measure (\<lambda>(err, depth). 4 - depth)") auto

declare isRetryableDriverError.simps [simp del]

definition entityManagerHandle :: "nat \<Rightarrow> nat \<Rightarrow> tx_handle" where
  "entityManagerHandle i em =
     \<lparr>h_id = i, h_adapterName = ''typeorm'', h_native = JObj em [''EntityManager''] []\<rparr>"

text \<open>\<open>handle.entityManager\<close>, which only handles of this adapter have.\<close>

definition entityManagerOf :: "tx_handle \<Rightarrow> nat option" where
  "entityManagerOf h = (if instance_of (h_native h) ''EntityManager'' then object_id (h_native h) else None)"

text \<open>
  The callback of \<open>runInTransaction\<close>, and the method itself: \<open>DataSource.transaction\<close> is
  \<open>this.manager.transaction\<close>, and \<open>manager\<close> is the address that property has.
\<close>

definition to_runner ::
    "('u, 'd, 'z) world typeorm_lib \<Rightarrow> nat \<Rightarrow> extended_options \<Rightarrow> ('u, 'd, 'z) world tx_callback \<Rightarrow>
     nat \<Rightarrow> (('u, 'd, 'z) world, internal_result) comp" where
  "to_runner lib ds options fn em =
     andThen
       (if o_readOnly options = Some True then applyReadOnly lib em (tl_type lib ds) else ret ())
       (\<lambda>_. allocHandle (\<lambda>i. entityManagerHandle i em) fn)"

definition to_runInTransaction ::
    "('u, 'd, 'z) world typeorm_lib \<Rightarrow> nat \<Rightarrow> (('u, 'd, 'z) world \<Rightarrow> nat) \<Rightarrow> extended_options \<Rightarrow>
     ('u, 'd, 'z) world tx_callback \<Rightarrow> (('u, 'd, 'z) world, internal_result) comp" where
  "to_runInTransaction lib ds manager options fn w =
     tl_transaction lib (manager w) (mapIsolation (o_isolation options)) (to_runner lib ds options fn) w"

definition assertSavepointsSupported ::
    "('u, 'd, 'z) world typeorm_lib \<Rightarrow> nat \<Rightarrow> (('u, 'd, 'z) world, unit) comp" where
  "assertSavepointsSupported lib ds =
     (case tl_transactionSupport lib ds of
        None \<Rightarrow> ret ()
      | Some s \<Rightarrow> if s = ''nested'' then ret () else raise IllegalTransactionStateError)"

definition to_runInSavepoint ::
    "('u, 'd, 'z) world typeorm_lib \<Rightarrow> nat \<Rightarrow> tx_handle \<Rightarrow> ('u, 'd, 'z) world tx_callback \<Rightarrow>
     (('u, 'd, 'z) world, internal_result) comp" where
  "to_runInSavepoint lib ds parent fn =
     andThen (assertSavepointsSupported lib ds)
       (\<lambda>_ v. inSavepoint (tl_query lib (case entityManagerOf parent of None \<Rightarrow> 0 | Some em \<Rightarrow> em))
          (savepointName (fresh v)) (fn parent) (v\<lparr>fresh := Suc (fresh v)\<rparr>))"

definition TypeOrmTransactionAdapter ::
    "('u, 'd, 'z) world typeorm_lib \<Rightarrow> nat \<Rightarrow> (('u, 'd, 'z) world \<Rightarrow> nat) \<Rightarrow> string \<Rightarrow>
     ('u, 'd, 'z) world transaction_adapter" where
  "TypeOrmTransactionAdapter lib ds manager instanceName =
     \<lparr>a_name = ''typeorm'', a_dataSourceName = instanceName,
      a_runInTransaction = to_runInTransaction lib ds manager,
      a_runInSavepoint = to_runInSavepoint lib ds,
      a_nativeTransaction = Some h_native,
      a_dialect = Some (tl_type lib ds),
      a_isRetryableError = Some (\<lambda>err. isRetryableDriverError err 0)\<rparr>"

section \<open>Helpers\<close>

definition typeOrmContextKey :: "string \<Rightarrow> string" where
  "typeOrmContextKey adapterInstance = ''typeorm:'' @ adapterInstance"

text \<open>\<open>fallback\<close> is the manager of the DataSource passed as fallback.\<close>

definition getCurrentEntityManager ::
    "string \<Rightarrow> nat option \<Rightarrow> ('h, 'z) ctx_world_scheme \<Rightarrow> framework_error + nat option" where
  "getCurrentEntityManager adapterInstance fallback w =
     (case getActiveTransaction (typeOrmContextKey adapterInstance) w of
        Some t \<Rightarrow> Inr (entityManagerOf (handle (txs w t)))
      | None \<Rightarrow>
          (case fallback of
             Some em \<Rightarrow> Inr (Some em)
           | None \<Rightarrow> Inl IllegalTransactionStateError))"

definition isInTransaction :: "string \<Rightarrow> ('h, 'z) ctx_world_scheme \<Rightarrow> bool" where
  "isInTransaction adapterInstance w =
     (getActiveTransaction (typeOrmContextKey adapterInstance) w \<noteq> None)"

section \<open>The contract of TypeORM\<close>

locale typeorm_library = sql_library "tl_transaction lib" "tl_query lib"
  for lib :: "('u, 'd, 'z) world typeorm_lib"
begin

lemma applyReadOnly_quiet: "keeps quiet (applyReadOnly lib em d)"
  by (auto simp: applyReadOnly_def andThen_Some keeps_quiet_ret intro!: keepsI split: if_splits
      dest: query_quiet)

lemma readOnly_quiet:
  "keeps quiet (if o_readOnly options = Some True then applyReadOnly lib em d else ret ())"
  by (simp add: applyReadOnly_quiet keeps_quiet_ret)

lemma asserted_quiet: "keeps quiet (assertSavepointsSupported lib ds)"
  by (auto simp: assertSavepointsSupported_def keeps_quiet_ret keeps_quiet_raise split: option.splits)

end

sublocale typeorm_library \<subseteq> adapter: lawful_adapter "TypeOrmTransactionAdapter lib ds manager name"
  for ds manager name
proof
  fix opts :: extended_options and cb cb' :: "('u, 'd, 'z) world tx_callback" and parent w r w'
  let ?ad = "TypeOrmTransactionAdapter lib ds manager name"
  have run: "a_runInTransaction ?ad opts cb w = tl_transaction lib (manager w) (mapIsolation (o_isolation opts))
      (\<lambda>em. andThen (if o_readOnly opts = Some True then applyReadOnly lib em (tl_type lib ds) else ret ())
         (\<lambda>_. allocHandle (\<lambda>i. entityManagerHandle i em) cb)) w" for cb w
    by (simp add: TypeOrmTransactionAdapter_def to_runInTransaction_def to_runner_def[abs_def])
  have save: "a_runInSavepoint ?ad parent cb = andThen (assertSavepointsSupported lib ds)
      (\<lambda>_ v. inSavepoint (tl_query lib (case entityManagerOf parent of None \<Rightarrow> 0 | Some em \<Rightarrow> em))
         (savepointName (fresh v)) (cb parent) (v\<lparr>fresh := Suc (fresh v)\<rparr>))" for cb
    by (simp add: TypeOrmTransactionAdapter_def to_runInSavepoint_def)
  show "a_runInTransaction ?ad opts cb w = Some (r, w') \<Longrightarrow> wraps cb w r w'"
    unfolding run by (rule begun_lawful[OF readOnly_quiet])
  show "a_runInSavepoint ?ad parent cb w = Some (r, w') \<Longrightarrow> wraps cb w r w'"
    unfolding save by (rule savepoint_lawful[OF asserted_quiet])
  show "refines_comp (a_runInTransaction ?ad opts cb) (a_runInTransaction ?ad opts cb')"
    if "\<And>h. refines_comp (cb h) (cb' h)"
  proof (rule refines_compI, unfold run)
    fix v x v' assume "tl_transaction lib (manager v) (mapIsolation (o_isolation opts))
        (\<lambda>em. andThen (if o_readOnly opts = Some True then applyReadOnly lib em (tl_type lib ds) else ret ())
           (\<lambda>_. allocHandle (\<lambda>i. entityManagerHandle i em) cb)) v = Some (x, v')"
    then show "tl_transaction lib (manager v) (mapIsolation (o_isolation opts))
        (\<lambda>em. andThen (if o_readOnly opts = Some True then applyReadOnly lib em (tl_type lib ds) else ret ())
           (\<lambda>_. allocHandle (\<lambda>i. entityManagerHandle i em) cb')) v = Some (x, v')"
      by (rule refines_compD[OF begun_mono[OF that]])
  qed
  show "refines_comp (a_runInSavepoint ?ad parent cb) (a_runInSavepoint ?ad parent cb')"
    if "\<And>h. refines_comp (cb h) (cb' h)"
    unfolding save by (rule savepoint_mono[OF that])
  show "a_runInTransaction ?ad opts cb w = a_runInTransaction ?ad opts cb' w"
    if "\<And>h w1. quiet w w1 \<Longrightarrow> cb h w1 = cb' h w1"
    unfolding run by (rule begun_local[OF readOnly_quiet that])
  show "a_runInSavepoint ?ad parent cb w = a_runInSavepoint ?ad parent cb' w"
    if "\<And>h w1. quiet w w1 \<Longrightarrow> cb h w1 = cb' h w1"
    unfolding save by (rule savepoint_local[OF asserted_quiet that])
qed

context typeorm_library
begin

lemma typeorm_adapter: "lawful_adapter (TypeOrmTransactionAdapter lib ds manager name)"
  by (rule adapter.lawful_adapter_axioms)

end

section \<open>The adapter's sessions\<close>

text \<open>What SQL calls the isolation levels; the dialects that know read-only transactions.\<close>

fun sqlIsolation :: "isolation_level \<Rightarrow> string" where
  "sqlIsolation READ_UNCOMMITTED = ''READ UNCOMMITTED''"
| "sqlIsolation READ_COMMITTED = ''READ COMMITTED''"
| "sqlIsolation REPEATABLE_READ = ''REPEATABLE READ''"
| "sqlIsolation SERIALIZABLE = ''SERIALIZABLE''"

definition managerOf :: "tx_handle \<Rightarrow> nat" where
  "managerOf h = (case entityManagerOf h of None \<Rightarrow> 0 | Some em \<Rightarrow> em)"

text \<open>
  Entering: begin on the current manager of the DataSource with the isolation asked for, make
  the transaction read-only where that was asked for and the dialect knows it.
\<close>

definition to_enter ::
    "(nat \<Rightarrow> string option \<Rightarrow> (('u, 'd, 'z) world, nat) comp) \<Rightarrow> (nat \<Rightarrow> (('u, 'd, 'z) world, unit) comp) \<Rightarrow>
     ('u, 'd, 'z) world typeorm_lib \<Rightarrow> nat \<Rightarrow> (('u, 'd, 'z) world \<Rightarrow> nat) \<Rightarrow> extended_options \<Rightarrow>
     (('u, 'd, 'z) world, tx_handle) comp" where
  "to_enter begins rolls lib ds manager opts w =
     begunWith (begins (manager w) (map_option sqlIsolation (o_isolation opts))) rolls
       (\<lambda>em. if o_readOnly opts = Some True \<and> tl_type lib ds \<in> {''postgres'', ''cockroachdb'', ''aurora-postgres''}
             then sendTo (tl_query lib) em ''SET TRANSACTION READ ONLY'' else ret ())
       (\<lambda>em i. entityManagerHandle i em) w"

definition to_mark ::
    "('u, 'd, 'z) world typeorm_lib \<Rightarrow> nat \<Rightarrow> tx_handle \<Rightarrow> (('u, 'd, 'z) world, string) comp" where
  "to_mark lib ds parent = markedOn (tl_query lib) (managerOf parent) (assertSavepointsSupported lib ds)"

abbreviation to_release ::
    "('u, 'd, 'z) world typeorm_lib \<Rightarrow> tx_handle \<Rightarrow> string \<Rightarrow> (('u, 'd, 'z) world, unit) comp" where
  "to_release lib parent name \<equiv> sendTo (tl_query lib) (managerOf parent) (''RELEASE SAVEPOINT '' @ name)"

abbreviation to_revert ::
    "('u, 'd, 'z) world typeorm_lib \<Rightarrow> tx_handle \<Rightarrow> string \<Rightarrow> jsv \<Rightarrow> (('u, 'd, 'z) world, unit) comp" where
  "to_revert lib parent name e \<equiv> sendTo (tl_query lib) (managerOf parent) (''ROLLBACK TO SAVEPOINT '' @ name)"

lemma mapIsolation_sql: "mapIsolation level = map_option sqlIsolation level"
proof -
  have "replaceChar CHR ''_'' CHR '' '' (isolation_text l) = sqlIsolation l" for l
    by (cases l) (simp_all add: replaceChar_def)
  then show ?thesis by (simp add: mapIsolation_def)
qed

lemma managerOf_handle [simp]: "managerOf (entityManagerHandle i em) = em"
  by (simp add: managerOf_def entityManagerOf_def entityManagerHandle_def)

locale settling_typeorm = settling_library "tl_transaction lib" "tl_query lib" begins commits rolls
  for lib :: "('u, 'd, 'z) world typeorm_lib" and begins commits rolls

sublocale settling_typeorm \<subseteq> typeorm_library lib
  by unfold_locales

context settling_typeorm
begin

lemma to_runInTransaction_session:
  "to_runInTransaction lib ds manager opts cb w = Some (r, w') \<longleftrightarrow>
     session (to_enter begins rolls lib ds manager opts) (\<lambda>h. commits (managerOf h))
       (\<lambda>h e. rolls (managerOf h)) cb w r w'"
proof -
  have prepare: "(if o_readOnly opts = Some True then applyReadOnly lib em (tl_type lib ds) else ret ()) =
      (if o_readOnly opts = Some True \<and> tl_type lib ds \<in> {''postgres'', ''cockroachdb'', ''aurora-postgres''}
       then sendTo (tl_query lib) em ''SET TRANSACTION READ ONLY'' else ret ())" for em
    by (simp add: applyReadOnly_def READ_ONLY_DIALECTS_def sendTo_def)
  have "to_runInTransaction lib ds manager opts cb w =
      sessionRun (begins (manager w) (map_option sqlIsolation (o_isolation opts))) commits (\<lambda>m e. rolls m)
        (\<lambda>em. andThen (if o_readOnly opts = Some True \<and> tl_type lib ds \<in> {''postgres'', ''cockroachdb'', ''aurora-postgres''}
           then sendTo (tl_query lib) em ''SET TRANSACTION READ ONLY'' else ret ())
          (\<lambda>_. allocHandle (\<lambda>i. entityManagerHandle i em) cb)) w"
    by (simp only: to_runInTransaction_def to_runner_def[abs_def] transaction_run mapIsolation_sql prepare)
  also have "\<dots> = sessionRun (to_enter begins rolls lib ds manager opts) (\<lambda>h. commits (managerOf h))
      (\<lambda>h e. rolls (managerOf h)) cb w"
    by (subst begun_sessionRun[where on = managerOf]) (simp_all add: sessionRun_def andThen_def to_enter_def)
  finally show ?thesis by (simp add: session_run)
qed

lemma to_runInSavepoint_session:
  "to_runInSavepoint lib ds parent cb w = Some (r, w') \<longleftrightarrow>
     session (to_mark lib ds parent) (to_release lib parent) (to_revert lib parent) (\<lambda>_. cb parent) w r w'"
  unfolding session_run to_runInSavepoint_def to_mark_def managerOf_def[symmetric] savepoint_sessionRun ..

end

sublocale settling_typeorm \<subseteq> settling: transactional_adapter "TypeOrmTransactionAdapter lib ds manager name"
    "to_enter begins rolls lib ds manager" "\<lambda>opts h. commits (managerOf h)" "\<lambda>opts h e. rolls (managerOf h)"
    "to_mark lib ds" "to_release lib" "to_revert lib"
  for ds manager name
  by unfold_locales
    (simp_all add: TypeOrmTransactionAdapter_def to_runInTransaction_session to_runInSavepoint_session)

context settling_typeorm
begin

lemma typeorm_transactional:
  "transactional_adapter (TypeOrmTransactionAdapter lib ds manager name)
     (to_enter begins rolls lib ds manager) (\<lambda>opts h. commits (managerOf h)) (\<lambda>opts h e. rolls (managerOf h))
     (to_mark lib ds) (to_release lib) (to_revert lib)"
  by (rule settling.transactional_adapter_axioms)

end

section \<open>A library that logs its statements\<close>

text \<open>
  The database is the list of statements it received, each with the manager it came
  through; nothing fails. Managers up to 9 belong to the DataSource with their own
  address, a manager that \<open>transaction\<close> makes is its own query runner.
\<close>

type_synonym sql_log = "(nat \<times> string) list"

definition logSql :: "nat \<Rightarrow> string \<Rightarrow> ('u, sql_log, 'z) world \<Rightarrow> ('u, sql_log, 'z) world" where
  "logSql em sql w = w\<lparr>db := db w @ [(em, sql)]\<rparr>"

definition log_transaction ::
    "nat \<Rightarrow> string option \<Rightarrow> (nat \<Rightarrow> (('u, sql_log, 'z) world, internal_result) comp) \<Rightarrow>
     (('u, sql_log, 'z) world, internal_result) comp" where
  "log_transaction em0 level f w =
     (let em = fresh w;
          begin_sql = (case level of None \<Rightarrow> ''BEGIN'' | Some l \<Rightarrow> ''BEGIN ISOLATION LEVEL '' @ l)
      in (case f em (logSql em begin_sql (w\<lparr>fresh := Suc em\<rparr>)) of
            None \<Rightarrow> None
          | Some (Resolve v, w2) \<Rightarrow> Some (Resolve v, logSql em ''COMMIT'' w2)
          | Some (Reject e, w2) \<Rightarrow> Some (Reject e, logSql em ''ROLLBACK'' w2)))"

definition loggingLib :: "string \<Rightarrow> ('u, sql_log, 'z) world typeorm_lib" where
  "loggingLib dialect =
     \<lparr>tl_transaction = log_transaction,
      tl_query = (\<lambda>em sql w. Some (Resolve Undef, logSql em sql w)),
      tl_type = (\<lambda>ds. dialect), tl_transactionSupport = (\<lambda>ds. Some ''nested''),
      tl_em_dataSource = (\<lambda>em. None), tl_em_connection = Some,
      tl_em_queryRunner = (\<lambda>em. if em < 10 then None else Some em)\<rparr>"

lemma logSql_quiet: "quiet w (logSql em sql w)"
  by (simp add: logSql_def quiet_db)

definition log_begins :: "nat \<Rightarrow> string option \<Rightarrow> (('u, sql_log, 'z) world, nat) comp" where
  "log_begins em0 level w =
     Some (Resolve (fresh w),
       logSql (fresh w) (case level of None \<Rightarrow> ''BEGIN'' | Some l \<Rightarrow> ''BEGIN ISOLATION LEVEL '' @ l)
         (w\<lparr>fresh := Suc (fresh w)\<rparr>))"

definition log_commits :: "nat \<Rightarrow> (('u, sql_log, 'z) world, unit) comp" where
  "log_commits em = modify (logSql em ''COMMIT'')"

definition log_rolls :: "nat \<Rightarrow> (('u, sql_log, 'z) world, unit) comp" where
  "log_rolls em = modify (logSql em ''ROLLBACK'')"

lemma log_transaction_session:
  "log_transaction em0 level f w = Some (r, w') \<longleftrightarrow>
     session (log_begins em0 level) log_commits (\<lambda>m e. log_rolls m) f w r w'"
  by (auto simp: session_run sessionRun_def log_transaction_def Let_def log_begins_def log_commits_def
      log_rolls_def andThen_def catching_def split: option.splits outcome.splits)

interpretation logging: settling_typeorm "loggingLib dialect" log_begins log_commits log_rolls
proof
  show "tl_transaction (loggingLib dialect) em0 level f w = Some (r, w') \<longleftrightarrow>
      session (log_begins em0 level) log_commits (\<lambda>m e. log_rolls m) f w r w'"
    for em0 level r and f :: "nat \<Rightarrow> (('a, sql_log, 'b) world, internal_result) comp" and w w'
    by (simp add: loggingLib_def log_transaction_session)
  show "keeps quiet (log_begins em0 level :: (('a, sql_log, 'b) world, nat) comp)" for em0 level
    by (rule keepsI) (auto simp: log_begins_def intro: quiet_trans[OF quiet_alloc logSql_quiet])
  show "keeps quiet (log_commits em :: (('a, sql_log, 'b) world, unit) comp)"
    "keeps quiet (log_rolls em :: (('a, sql_log, 'b) world, unit) comp)" for em
    by (auto simp: keeps_def log_commits_def log_rolls_def logSql_quiet)
  show "tl_query (loggingLib dialect) em sql w = Some (v, w') \<Longrightarrow> quiet w w'"
    for em sql v and w w' :: "('a, sql_log, 'b) world"
    by (auto simp: loggingLib_def logSql_quiet)
qed

end
