(* ===== verification/Typeorm_Patches.thy ===== *)
theory Typeorm_Patches
  imports Typeorm_Adapter
begin

text \<open>
  \<open>packages/typeorm/src/patching\<close> and the registration path of
  \<open>packages/typeorm/src/module\<close>: the accessors and wrappers that make repositories and
  DataSources use the transaction of the running chain.

  The hidden properties the code writes on TypeORM's objects are fields of the world,
  by the object's address: the name stamped on a DataSource, the marker of its patches, the
  manager its accessor pair has captured, and the manager stamped on a repository. An
  unpatched accessor reads the same field.
\<close>

section \<open>State\<close>

record ('u, 'd) orm_world = "('u, 'd) manager_world" +
  managedDataSources :: "nat set"
  dsName :: "nat \<Rightarrow> string option"
  dsPatched :: "nat \<Rightarrow> bool"
  dsManager :: "nat \<Rightarrow> nat"
  repoManager :: "nat \<Rightarrow> nat option"
  repositoryPatches :: bool
  entityManagerPatches :: bool

type_synonym ('u, 'd, 'z) orm = "('u, 'd, 'z) orm_world_scheme"

section \<open>Managed DataSources\<close>

definition markAsManaged :: "nat \<Rightarrow> string \<Rightarrow> ('u, 'd, 'z) orm \<Rightarrow> ('u, 'd, 'z) orm" where
  "markAsManaged ds name w =
     w\<lparr>managedDataSources := insert ds (managedDataSources w), dsName := (dsName w)(ds \<mapsto> name)\<rparr>"

definition isManaged :: "nat \<Rightarrow> ('u, 'd, 'z) orm \<Rightarrow> bool" where
  "isManaged ds w = (ds \<in> managedDataSources w)"

definition getManagedDataSourceName :: "nat \<Rightarrow> ('u, 'd, 'z) orm \<Rightarrow> string option" where
  "getManagedDataSourceName ds w = dsName w ds"

definition getActiveEntityManager :: "string \<Rightarrow> ('h, 'z) ctx_world_scheme \<Rightarrow> nat option" where
  "getActiveEntityManager name w =
     (case getActiveTransactionByDataSource name w of
        None \<Rightarrow> None
      | Some t \<Rightarrow> entityManagerOf (handle (txs w t)))"

definition resetManagedRegistry :: "('u, 'd, 'z) orm \<Rightarrow> ('u, 'd, 'z) orm" where
  "resetManagedRegistry w = w\<lparr>managedDataSources := {}\<rparr>"

text \<open>\<open>shape.dataSource ?? shape.connection\<close>\<close>

definition getEmDataSource :: "'w typeorm_lib \<Rightarrow> nat \<Rightarrow> framework_error + nat" where
  "getEmDataSource lib em =
     (case tl_em_dataSource lib em of
        Some ds \<Rightarrow> Inr ds
      | None \<Rightarrow>
          (case tl_em_connection lib em of
             Some ds \<Rightarrow> Inr ds
           | None \<Rightarrow> Inl PlainError))"

section \<open>DataSources\<close>

definition patchDataSourceInstance :: "nat \<Rightarrow> ('u, 'd, 'z) orm \<Rightarrow> ('u, 'd, 'z) orm" where
  "patchDataSourceInstance ds w =
     (if dsPatched w ds then w else w\<lparr>dsPatched := (dsPatched w)(ds := True)\<rparr>)"

definition get_dataSource_manager :: "nat \<Rightarrow> ('u, 'd, 'z) orm \<Rightarrow> nat" where
  "get_dataSource_manager ds w =
     (if \<not> dsPatched w ds then dsManager w ds
      else
        (case getManagedDataSourceName ds w of
           None \<Rightarrow> dsManager w ds
         | Some name \<Rightarrow>
             (case getActiveEntityManager name w of
                None \<Rightarrow> dsManager w ds
              | Some em \<Rightarrow> em)))"

definition set_dataSource_manager :: "nat \<Rightarrow> nat \<Rightarrow> ('u, 'd, 'z) orm \<Rightarrow> ('u, 'd, 'z) orm" where
  "set_dataSource_manager ds em w = w\<lparr>dsManager := (dsManager w)(ds := em)\<rparr>"

definition pickActiveQueryRunner :: "'w typeorm_lib \<Rightarrow> nat \<Rightarrow> ('u, 'd, 'z) orm \<Rightarrow> nat option" where
  "pickActiveQueryRunner lib ds w =
     (case getManagedDataSourceName ds w of
        None \<Rightarrow> None
      | Some name \<Rightarrow>
          (case getActiveEntityManager name w of
             None \<Rightarrow> None
           | Some em \<Rightarrow> tl_em_queryRunner lib em))"

text \<open>
  The wrappers of \<open>query\<close> and \<open>createQueryBuilder\<close> call the original with these
  arguments; \<open>qr\<close> makes a query runner an argument, and a missing argument is
  \<open>undefined\<close>.
\<close>

definition arg :: "jsv list \<Rightarrow> nat \<Rightarrow> jsv" where
  "arg args i = (if i < length args then args ! i else Undef)"

definition patchedQuery ::
    "'w typeorm_lib \<Rightarrow> (nat \<Rightarrow> jsv) \<Rightarrow> nat \<Rightarrow> jsv list \<Rightarrow> ('u, 'd, 'z) orm \<Rightarrow> jsv list" where
  "patchedQuery lib qr ds args w =
     (if length args \<ge> 3 then args
      else
        (case pickActiveQueryRunner lib ds w of
           Some r \<Rightarrow> [arg args 0, arg args 1, qr r]
         | None \<Rightarrow> args))"

definition patchedCreateQueryBuilder ::
    "'w typeorm_lib \<Rightarrow> (nat \<Rightarrow> jsv) \<Rightarrow> nat \<Rightarrow> jsv list \<Rightarrow> ('u, 'd, 'z) orm \<Rightarrow> jsv list" where
  "patchedCreateQueryBuilder lib qr ds args w =
     (let active = pickActiveQueryRunner lib ds w
      in if args = [] then (case active of Some r \<Rightarrow> [qr r] | None \<Rightarrow> [])
         else if length args \<ge> 3 then args
         else (case active of
                 Some r \<Rightarrow> [arg args 0, arg args 1, qr r]
               | None \<Rightarrow> args))"

section \<open>Repositories\<close>

definition applyRepositoryPatches :: "('u, 'd, 'z) orm \<Rightarrow> ('u, 'd, 'z) orm" where
  "applyRepositoryPatches w = (if repositoryPatches w then w else w\<lparr>repositoryPatches := True\<rparr>)"

definition applyEntityManagerPatches :: "('u, 'd, 'z) orm \<Rightarrow> ('u, 'd, 'z) orm" where
  "applyEntityManagerPatches w =
     (if entityManagerPatches w then w else w\<lparr>entityManagerPatches := True\<rparr>)"

definition applyAllPatches :: "('u, 'd, 'z) orm \<Rightarrow> ('u, 'd, 'z) orm" where
  "applyAllPatches w = applyEntityManagerPatches (applyRepositoryPatches w)"

text \<open>
  The accessor pair of \<open>Repository.prototype.manager\<close>; before it is installed the property is
  what the constructor assigned.
\<close>

definition get_repository_manager ::
    "'w typeorm_lib \<Rightarrow> nat \<Rightarrow> ('u, 'd, 'z) orm \<Rightarrow> framework_error + nat option" where
  "get_repository_manager lib repo w =
     (if \<not> repositoryPatches w then Inr (repoManager w repo)
      else
        (case repoManager w repo of
           None \<Rightarrow> Inr None
         | Some original \<Rightarrow>
             (case getEmDataSource lib original of
                Inl e \<Rightarrow> Inl e
              | Inr ds \<Rightarrow>
                  if \<not> isManaged ds w then Inr (Some original)
                  else
                    (case getManagedDataSourceName ds w of
                       None \<Rightarrow> Inr (Some original)
                     | Some name \<Rightarrow>
                         (case getActiveEntityManager name w of
                            Some em \<Rightarrow> Inr (Some em)
                          | None \<Rightarrow> Inr (Some original))))))"

definition set_repository_manager :: "nat \<Rightarrow> nat \<Rightarrow> ('u, 'd, 'z) orm \<Rightarrow> ('u, 'd, 'z) orm" where
  "set_repository_manager repo em w = w\<lparr>repoManager := (repoManager w)(repo \<mapsto> em)\<rparr>"

text \<open>After the original \<open>extend\<close> of \<open>repo\<close> has returned the repository \<open>result\<close>.\<close>

definition patchedExtend :: "nat \<Rightarrow> nat \<Rightarrow> ('u, 'd, 'z) orm \<Rightarrow> ('u, 'd, 'z) orm" where
  "patchedExtend repo result w =
     (if repoManager w result = None
      then w\<lparr>repoManager := (repoManager w)(result := repoManager w repo)\<rparr> else w)"

text \<open>After the original \<open>getRepository\<close> of \<open>em\<close> has returned the repository \<open>repo\<close>.\<close>

definition patchedGetRepository :: "nat \<Rightarrow> nat \<Rightarrow> ('u, 'd, 'z) orm \<Rightarrow> ('u, 'd, 'z) orm" where
  "patchedGetRepository em repo w =
     (if repoManager w repo = None then w\<lparr>repoManager := (repoManager w)(repo \<mapsto> em)\<rparr> else w)"

section \<open>Registration\<close>

text \<open>\<open>a\<close> is the address of the adapter the registration creates.\<close>

definition registerManagedDataSource ::
    "nat \<Rightarrow> string \<Rightarrow> bool \<Rightarrow> nat \<Rightarrow> ('u, 'd, 'z) orm \<Rightarrow> ('u, 'd, 'z) orm" where
  "registerManagedDataSource ds name isDefault a w =
     (let w1 = patchDataSourceInstance ds (markAsManaged ds name (applyAllPatches w))
      in w1\<lparr>registry := register
           \<lparr>reg_adapterName = ''typeorm'', reg_instanceName = name, reg_adapter = a\<rparr> isDefault (registry w1)\<rparr>)"

definition resetPatchingForTesting :: "('u, 'd, 'z) orm \<Rightarrow> ('u, 'd, 'z) orm" where
  "resetPatchingForTesting w = resetManagedRegistry w"

text \<open>The adapter registered for a DataSource begins through the patched property.\<close>

definition managedAdapter ::
    "('u, 'd, 'z) orm typeorm_lib \<Rightarrow> nat \<Rightarrow> string \<Rightarrow> ('u, 'd, 'z) orm transaction_adapter" where
  "managedAdapter lib ds name = TypeOrmTransactionAdapter lib ds (get_dataSource_manager ds) name"

end
