(* ===== verification/Db_Invariant.thy ===== *)
theory Db_Invariant
  imports Adapter_Contract
begin

text \<open>
  The manager never touches the database itself: a relation between the databases (and
  the supplies of addresses) before and after that the adapters, the closures, the promises
  and the observers each keep is kept by every \<open>run\<close>, whatever the nesting, the
  retries and the hooks.
\<close>

definition dbRel ::
    "(nat \<Rightarrow> 'd \<Rightarrow> nat \<Rightarrow> 'd \<Rightarrow> bool) \<Rightarrow> ('u, 'd, 'z) world \<Rightarrow> ('u, 'd, 'z) world \<Rightarrow> bool" where
  "dbRel Q w w' \<longleftrightarrow> fresh w \<le> fresh w' \<and> Q (fresh w) (db w) (fresh w') (db w')"

lemma dbRel_als [simp]: "dbRel Q w (w'\<lparr>als := a\<rparr>) = dbRel Q w w'"
  by (simp add: dbRel_def)

locale db_relation =
  fixes Q :: "nat \<Rightarrow> 'd \<Rightarrow> nat \<Rightarrow> 'd \<Rightarrow> bool"
  assumes grow: "n \<le> m \<Longrightarrow> Q n d m d"
    and chain: "n \<le> m \<Longrightarrow> m \<le> k \<Longrightarrow> Q n a m b \<Longrightarrow> Q m b k c \<Longrightarrow> Q n a k c"
begin

lemma reflp_dbRel [simp]: "reflp (dbRel Q)"
  by (auto simp: reflp_def dbRel_def intro: grow)

lemma transp_dbRel [simp]: "transp (dbRel Q)"
  by (auto simp: transp_def dbRel_def) (rule chain)

lemma dbRel_trans: "dbRel Q w w1 \<Longrightarrow> dbRel Q w1 w2 \<Longrightarrow> dbRel Q w w2"
  by (rule transpD[OF transp_dbRel])

lemma alloc: "fresh w \<le> fresh w' \<Longrightarrow> db w' = db w \<Longrightarrow> dbRel Q w w'"
  by (simp add: dbRel_def grow)

lemma alloc_before:
  "dbRel Q w1 w' \<Longrightarrow> fresh w \<le> fresh w1 \<Longrightarrow> db w1 = db w \<Longrightarrow> dbRel Q w w'"
  by (rule dbRel_trans[OF alloc])

end

locale db_environment = db_relation Q for Q :: "nat \<Rightarrow> 'd \<Rightarrow> nat \<Rightarrow> 'd \<Rightarrow> bool" +
  fixes env :: "('u, 'd, 'z) env"
  assumes transaction_keeps:
      "(\<And>h. keeps (dbRel Q) (cb h)) \<Longrightarrow>
         keeps (dbRel Q) (a_runInTransaction (adapterOf env a) opts cb)"
    and savepoint_keeps:
      "(\<And>h. keeps (dbRel Q) (cb h)) \<Longrightarrow>
         keeps (dbRel Q) (a_runInSavepoint (adapterOf env a) parent cb)"
    and hooks_keep: "keeps (dbRel Q) (callHook env u arg)"
    and promises_keep: "keeps (dbRel Q) (awaitAll env ps)"
    and start_keep:
      "ob \<in> set (observers env) \<Longrightarrow> onTransactionStart ob = Some f \<Longrightarrow> keeps (dbRel Q) (f sc)"
    and commit_keep:
      "ob \<in> set (observers env) \<Longrightarrow> onTransactionCommit ob = Some g \<Longrightarrow> keeps (dbRel Q) (g cc)"
    and rollback_keep:
      "ob \<in> set (observers env) \<Longrightarrow> onTransactionRollback ob = Some k \<Longrightarrow> keeps (dbRel Q) (k rc)"

context db_environment
begin

abbreviation ok :: "(('u, 'd, 'z) world, 'a) comp \<Rightarrow> bool" where
  "ok f \<equiv> keeps (dbRel Q) f"

lemma raise_keeps: "ok (raise e)"
  by (rule keepsI) (auto simp: raise_settles intro: alloc)

lemma set_keeps: "ok (setActiveTransaction key t)"
  by (rule keepsI)
    (auto simp: setActiveTransaction_def updateStore_def split: option.splits
      intro: alloc keepsD[OF raise_keeps])

lemma remove_rel: "dbRel Q w (removeActiveTransaction key w)"
  by (rule alloc) (simp_all add: removeActiveTransaction_def updateStore_def split: option.split)

lemma remove_keeps: "ok (modify (removeActiveTransaction key))"
  by (rule keepsI) (auto intro: remove_rel)

lemma drain_ok: "ok (drain env t)"
  by (rule drain_keeps) (auto intro: promises_keep alloc)

lemma invoke_ok: "ok (invoke env h arg)"
  by (cases h) (auto intro: hooks_keep drain_ok)

lemma runHooks_ok: "runHooks env sel t arg i w = Some w' \<Longrightarrow> dbRel Q w w'"
  by (rule runHooks_keeps) (auto intro: invoke_ok)

lemma notify_ok:
  "notifyStart env sc w = Some w' \<Longrightarrow> dbRel Q w w'"
  "notifyCommit env cc w = Some w' \<Longrightarrow> dbRel Q w w'"
  "notifyRollback env rc w = Some w' \<Longrightarrow> dbRel Q w w'"
  unfolding notifyStart_def notifyCommit_def notifyRollback_def
  by (erule notify_keeps[rotated 3], auto intro: start_keep commit_keep rollback_keep)+

lemma guardedBody_ok: "ok fn \<Longrightarrow> ok (guardedBody env t options fn)"
  unfolding guardedBody_def
  by (auto intro!: keeps_intros reflp_dbRel transp_dbRel runBeforeCommit_keeps invoke_ok)

lemma txCallback_ok:
  assumes "ok fn"
  shows "ok (txCallback env a i options corr cell fn h)"
proof (rule keepsI)
  fix w r w' assume run: "txCallback env a i options corr cell fn h w = Some (r, w')"
  define w1 where "w1 = w\<lparr>fresh := Suc (fresh w),
      txs := (txs w)(fresh w := newActiveTx h a i options (now w) corr),
      cells := (cells w)(cell \<mapsto> fresh w)\<rparr>"
  have w1: "dbRel Q w w1" by (rule alloc) (simp_all add: w1_def)
  have body: "ok (finallyDo (guardedBody env (fresh w) options fn)
      (modify (removeActiveTransaction (contextKey a i))))"
    by (auto intro!: keeps_intros reflp_dbRel transp_dbRel guardedBody_ok remove_keeps assms)
  show "dbRel Q w w'"
    using run unfolding txCallback_def Let_def w1_def[symmetric]
    by (auto split: option.splits prod.splits outcome.splits
        dest!: keepsD[OF set_keeps] notify_ok(1) keepsD[OF body]
        intro: dbRel_trans[OF w1] dbRel_trans)
qed

lemma markRolledBack_rel: "dbRel Q w (markRolledBack e w)"
  by (rule alloc) (simp_all add: markRolledBack_def split: option.split)

lemma after_rejected:
  assumes "afterAdapterRejected env a i options corr start cell e w = Some (r, w')"
  shows "r = Reject e" and "dbRel Q w w'"
  using assms unfolding afterAdapterRejected_def
  by (auto split: option.splits dest!: notify_ok(3) runHooks_ok
      intro: markRolledBack_rel dbRel_trans[OF _ dbRel_trans[OF _ markRolledBack_rel]])

lemma after_resolved:
  assumes "afterAdapterResolved env a i options corr start cell x w = Some (r, w')"
  shows "r = (case x of IOk v \<Rightarrow> Resolve v | IErr err \<Rightarrow> Reject err)" and "dbRel Q w w'"
  using assms unfolding afterAdapterResolved_def
  by (cases x; auto split: option.splits dest!: notify_ok(2) runHooks_ok intro: dbRel_trans alloc)+

lemma startBody_ok:
  assumes "ok fn" and "ad = adapterOf env k"
  shows "ok (startBody env ad a i options corr start cell fn)"
proof (rule keepsI)
  fix w r w' assume run: "startBody env ad a i options corr start cell fn w = Some (r, w')"
  have call: "ok (a_runInTransaction ad options (txCallback env a i options corr cell fn))"
    unfolding assms(2) by (rule transaction_keeps) (rule txCallback_ok[OF assms(1)])
  show "dbRel Q w w'"
    using run unfolding startBody_def
    by (auto split: option.splits prod.splits outcome.splits dest!: keepsD[OF call]
        intro: dbRel_trans after_rejected after_resolved)
qed

lemma startNew_ok:
  assumes "ok fn" and "ad = adapterOf env k"
  shows "ok (startNew env ad a i options fn)"
proof (rule keepsI)
  fix w r w' assume run: "startNew env ad a i options fn w = Some (r, w')"
  note body = keepsD[OF startBody_ok[OF assms]]
  show "dbRel Q w w'"
    using run unfolding startNew_def contextRun_def Let_def
    by (auto split: if_splits option.splits prod.splits dest!: body
        elim!: alloc_before)
qed

lemma retryLoop_ok:
  assumes "ok once"
  shows "ok (retryLoop env ad nr once attempt)"
proof -
  have "dbRel Q w w'" if "retryLoop env ad nr once attempt w = Some (r, w')" for w r w'
    using that
  proof (induction "n_maxAttempts nr - attempt" arbitrary: attempt w rule: less_induct)
    case less
    have sleep: "dbRel Q w1 (sleep d w1)" for w1 d
      by (rule alloc) (simp_all add: sleep_def)
    from less.prems show ?case
      apply (subst (asm) retryLoop.simps)
      apply (auto split: option.splits prod.splits outcome.splits if_splits dest!: keepsD[OF assms])
      apply (rule dbRel_trans[OF dbRel_trans[OF _ sleep] less.hyps])
        apply auto
      done
  qed
  then show ?thesis by (rule keepsI)
qed

lemma startNewWithRetry_ok:
  assumes "ok fn"
  shows "ok (startNewWithRetry env (adapterOf env k) a i options fn)"
  by (rule keepsI)
    (auto simp: startNewWithRetry_def split: sum.splits option.splits
      dest: keepsD[OF raise_keeps] keepsD[OF startNew_ok[OF assms refl]]
        keepsD[OF retryLoop_ok[OF startNew_ok[OF assms refl]]])

lemma runNestedSavepoint_ok:
  assumes "ok fn"
  shows "ok (runNestedSavepoint (adapterOf env k) t options fn)"
proof (rule keepsI)
  fix w r w' assume run: "runNestedSavepoint (adapterOf env k) t options fn w = Some (r, w')"
  have call: "ok (a_runInSavepoint (adapterOf env k) (handle (txs w t))
      (\<lambda>h. catching (andThen fn (\<lambda>v. ret (IOk v)))
             (\<lambda>err. if shouldRollback err options then throw err else ret (IErr err))))"
    by (rule savepoint_keeps) (auto intro!: keeps_intros reflp_dbRel transp_dbRel assms)
  have settle: "w2 = w1" if "settleResult x w1 = Some (r', w2)" for x r' and w1 w2 :: "('a, 'b, 'c) world"
    using that by (cases x) auto
  show "dbRel Q w w'"
    using run unfolding runNestedSavepoint_def
    by (auto simp: andThen_Some dest!: settle dest: keepsD[OF call])
qed

lemma suspended_ok:
  assumes "ok f"
  shows "ok (suspended key t f)"
proof -
  have "ok (finallyDo f (setActiveTransaction key t))"
    by (auto intro!: keeps_intros reflp_dbRel transp_dbRel assms set_keeps)
  then show ?thesis
    by (auto simp: suspended_def intro!: keepsI intro: dbRel_trans[OF remove_rel] dest: keepsD)
qed

theorem run_keeps:
  assumes "ok fn"
  shows "ok (run env options fn)"
proof (rule keepsI)
  fix w r w' assume "run env options fn w = Some (r, w')"
  then show "dbRel Q w w'"
    unfolding run_def withAdapter_def Let_def
    by (auto split: sum.splits prod.splits option.splits propagation_mode.splits
        intro: keepsD[OF raise_keeps] keepsD[OF startNewWithRetry_ok[OF assms]]
          keepsD[OF suspended_ok[OF startNewWithRetry_ok[OF assms]]] keepsD[OF suspended_ok[OF assms]]
          keepsD[OF assms] keepsD[OF runNestedSavepoint_ok[OF assms]])
qed

end

end
