(* ===== verification/In_Memory_Adapter.thy ===== *)
theory In_Memory_Adapter
  imports Manager_Frame Db_Invariant Session_Contract
begin

text \<open>
  \<open>packages/core/src/testing/in-memory.adapter.ts\<close>: the adapter that keeps the life of
  every transaction in arrays. The database of the world holds the adapter objects, by
  address, and the \<open>operations\<close> arrays, which a handle and its record share.

  The adapter is lawful, faithful and transactional: it enters by making the handle and its
  array, and leaves or undoes by recording the handle's transaction once.
\<close>

section \<open>State\<close>

record committed_transaction =
  ct_id :: nat
  ct_operations :: nat
  ct_options :: extended_options

record rolled_back_transaction = committed_transaction +
  rt_error :: jsv

record savepoint_record =
  sp_parentId :: nat
  sp_savepointId :: nat

record rolled_back_savepoint = savepoint_record +
  sp_error :: jsv

record in_memory_adapter =
  im_dataSourceName :: string
  committedTransactions :: "committed_transaction list"
  rolledBackTransactions :: "rolled_back_transaction list"
  savepointsCreated :: "savepoint_record list"
  savepointsReleased :: "savepoint_record list"
  savepointsRolledBack :: "rolled_back_savepoint list"

record in_memory_db =
  im_adapters :: "nat \<Rightarrow> in_memory_adapter"
  im_arrays :: "nat \<Rightarrow> jsv list"

section \<open>Operations\<close>

definition newInMemoryAdapter :: "string \<Rightarrow> in_memory_adapter" where
  "newInMemoryAdapter ds =
     \<lparr>im_dataSourceName = ds, committedTransactions = [], rolledBackTransactions = [],
      savepointsCreated = [], savepointsReleased = [], savepointsRolledBack = []\<rparr>"

definition updateAdapter ::
    "nat \<Rightarrow> (in_memory_adapter \<Rightarrow> in_memory_adapter) \<Rightarrow> ('u, in_memory_db, 'z) world \<Rightarrow>
     ('u, in_memory_db, 'z) world" where
  "updateAdapter self f w =
     w\<lparr>db := (db w)\<lparr>im_adapters := (im_adapters (db w))(self := f (im_adapters (db w) self))\<rparr>\<rparr>"

definition im_runInTransaction ::
    "nat \<Rightarrow> extended_options \<Rightarrow> ('u, in_memory_db, 'z) world tx_callback \<Rightarrow>
     (('u, in_memory_db, 'z) world, internal_result) comp" where
  "im_runInTransaction self options fn w =
     (let i = fresh w;
          ops = Suc i;
          h = \<lparr>h_id = i, h_adapterName = ''in-memory'', h_native = JObj ops [''Array''] []\<rparr>;
          w1 = w\<lparr>fresh := Suc ops,
                 db := (db w)\<lparr>im_arrays := (im_arrays (db w))(ops := [])\<rparr>\<rparr>
      in (case fn h w1 of
            None \<Rightarrow> None
          | Some (Resolve v, w2) \<Rightarrow>
              Some (Resolve v,
                updateAdapter self (\<lambda>a. a\<lparr>committedTransactions := committedTransactions a @
                  [\<lparr>ct_id = i, ct_operations = ops, ct_options = options\<rparr>]\<rparr>) w2)
          | Some (Reject e, w2) \<Rightarrow>
              Some (Reject e,
                updateAdapter self (\<lambda>a. a\<lparr>rolledBackTransactions := rolledBackTransactions a @
                  [\<lparr>ct_id = i, ct_operations = ops, ct_options = options, rt_error = e\<rparr>]\<rparr>) w2)))"

definition im_runInSavepoint ::
    "nat \<Rightarrow> tx_handle \<Rightarrow> ('u, in_memory_db, 'z) world tx_callback \<Rightarrow>
     (('u, in_memory_db, 'z) world, internal_result) comp" where
  "im_runInSavepoint self parent fn w =
     (let s = fresh w;
          r = \<lparr>sp_parentId = h_id parent, sp_savepointId = s\<rparr>;
          w1 = updateAdapter self (\<lambda>a. a\<lparr>savepointsCreated := savepointsCreated a @ [r]\<rparr>)
                 (w\<lparr>fresh := Suc s\<rparr>)
      in (case fn parent w1 of
            None \<Rightarrow> None
          | Some (Resolve v, w2) \<Rightarrow>
              Some (Resolve v,
                updateAdapter self (\<lambda>a. a\<lparr>savepointsReleased := savepointsReleased a @ [r]\<rparr>) w2)
          | Some (Reject e, w2) \<Rightarrow>
              Some (Reject e,
                updateAdapter self (\<lambda>a. a\<lparr>savepointsRolledBack := savepointsRolledBack a @
                  [\<lparr>sp_parentId = h_id parent, sp_savepointId = s, sp_error = e\<rparr>]\<rparr>) w2)))"

definition reset :: "nat \<Rightarrow> ('u, in_memory_db, 'z) world \<Rightarrow> ('u, in_memory_db, 'z) world" where
  "reset self =
     updateAdapter self (\<lambda>a. a\<lparr>committedTransactions := [], rolledBackTransactions := [],
       savepointsCreated := [], savepointsReleased := [], savepointsRolledBack := []\<rparr>)"

text \<open>The class as an adapter of the manager.\<close>

definition InMemoryTransactionAdapter ::
    "string \<Rightarrow> nat \<Rightarrow> ('u, in_memory_db, 'z) world transaction_adapter" where
  "InMemoryTransactionAdapter ds self =
     \<lparr>a_name = ''in-memory'', a_dataSourceName = ds,
      a_runInTransaction = im_runInTransaction self, a_runInSavepoint = im_runInSavepoint self,
      a_nativeTransaction = None, a_dialect = None, a_isRetryableError = None\<rparr>"

section \<open>The contract\<close>

lemma updateAdapter_quiet: "quiet w (updateAdapter self f w)"
  by (simp add: updateAdapter_def quiet_db)

lemma fresh_updateAdapter [simp]: "fresh (updateAdapter self f w) = fresh w"
  by (simp add: updateAdapter_def)

lemma quiet_grow_db: "fresh w \<le> n \<Longrightarrow> quiet w (w\<lparr>fresh := n, db := d\<rparr>)"
  unfolding quiet_def by (intro exI[of _ d] exI[of _ n] exI[of _ "now w"]) simp

lemma im_transaction_cases:
  assumes "im_runInTransaction self options fn w = Some (r, w')"
  shows "\<exists>h w1 w2. fn h w1 = Some (r, w2) \<and> quiet w w1 \<and> quiet w2 w'"
proof (intro exI conjI)
  let ?h = "\<lparr>h_id = fresh w, h_adapterName = ''in-memory'',
      h_native = JObj (Suc (fresh w)) [''Array''] []\<rparr>"
  let ?w1 = "w\<lparr>fresh := Suc (Suc (fresh w)),
      db := (db w)\<lparr>im_arrays := (im_arrays (db w))(Suc (fresh w) := [])\<rparr>\<rparr>"
  show "fn ?h ?w1 = Some (r, snd (the (fn ?h ?w1)))" "quiet w ?w1"
    "quiet (snd (the (fn ?h ?w1))) w'"
    using assms unfolding im_runInTransaction_def Let_def
    by (auto split: option.splits prod.splits outcome.splits
        intro: updateAdapter_quiet quiet_grow_db)
qed

lemma im_savepoint_cases:
  assumes "im_runInSavepoint self parent fn w = Some (r, w')"
  shows "\<exists>w1 w2. fn parent w1 = Some (r, w2) \<and> quiet w w1 \<and> quiet w2 w'"
proof (intro exI conjI)
  let ?w1 = "updateAdapter self (\<lambda>a. a\<lparr>savepointsCreated := savepointsCreated a @
      [\<lparr>sp_parentId = h_id parent, sp_savepointId = fresh w\<rparr>]\<rparr>) (w\<lparr>fresh := Suc (fresh w)\<rparr>)"
  show "quiet w ?w1" by (rule quiet_trans[OF quiet_alloc updateAdapter_quiet])
  show "fn parent ?w1 = Some (r, snd (the (fn parent ?w1)))" "quiet (snd (the (fn parent ?w1))) w'"
    using assms unfolding im_runInSavepoint_def Let_def
    by (auto split: option.splits prod.splits outcome.splits intro: updateAdapter_quiet)
qed

lemma im_transaction_mono:
  assumes "\<And>h. refines_comp (cb h) (cb' h)"
  shows "refines_comp (im_runInTransaction self opts cb) (im_runInTransaction self opts cb')"
  by (rule refines_compI) (auto simp: im_runInTransaction_def Let_def
      split: option.splits prod.splits outcome.splits dest!: refines_compD[OF assms])

lemma im_savepoint_mono:
  assumes "\<And>h. refines_comp (cb h) (cb' h)"
  shows "refines_comp (im_runInSavepoint self p cb) (im_runInSavepoint self p cb')"
  by (rule refines_compI) (auto simp: im_runInSavepoint_def Let_def
      split: option.splits prod.splits outcome.splits dest!: refines_compD[OF assms])

lemma im_transaction_local:
  assumes "\<And>h w1. quiet w w1 \<Longrightarrow> cb h w1 = cb' h w1"
  shows "im_runInTransaction self opts cb w = im_runInTransaction self opts cb' w"
  unfolding im_runInTransaction_def Let_def by (subst assms) (simp_all add: quiet_grow_db)

lemma im_savepoint_local:
  assumes "\<And>h w1. quiet w w1 \<Longrightarrow> cb h w1 = cb' h w1"
  shows "im_runInSavepoint self p cb w = im_runInSavepoint self p cb' w"
  unfolding im_runInSavepoint_def Let_def
  by (subst assms) (simp_all add: quiet_trans[OF quiet_alloc updateAdapter_quiet])

lemma im_lawful: "lawful_adapter (InMemoryTransactionAdapter ds self)"
  by unfold_locales
    (auto simp: InMemoryTransactionAdapter_def im_transaction_mono im_savepoint_mono
      dest!: im_transaction_cases im_savepoint_cases
      intro: wrapsI im_transaction_local im_savepoint_local)

interpretation im: faithful_adapter "InMemoryTransactionAdapter ds self"
proof -
  have "\<exists>e. r = Reject e \<and> P e"
    if "im_runInTransaction self opts cb w = Some (r, w')"
      and "\<And>h w1. quiet w w1 \<Longrightarrow> \<exists>e w2. cb h w1 = Some (Reject e, w2) \<and> P e"
    for opts cb w r P and w' :: "('a, in_memory_db, 'b) world"
    using im_transaction_cases[OF that(1)] that(2) by (metis option.inject prod.inject)
  then show "faithful_adapter (InMemoryTransactionAdapter ds self :: ('a, in_memory_db, 'b) world transaction_adapter)"
    unfolding faithful_adapter_def faithful_adapter_axioms_def
    using im_lawful[of ds self] by (simp add: InMemoryTransactionAdapter_def)
qed

section \<open>The adapter's sessions\<close>

definition im_enter :: "extended_options \<Rightarrow> (('u, in_memory_db, 'z) world, tx_handle) comp" where
  "im_enter options w =
     Some (Resolve \<lparr>h_id = fresh w, h_adapterName = ''in-memory'', h_native = JObj (Suc (fresh w)) [''Array''] []\<rparr>,
       w\<lparr>fresh := Suc (Suc (fresh w)), db := (db w)\<lparr>im_arrays := (im_arrays (db w))(Suc (fresh w) := [])\<rparr>\<rparr>)"

definition operationsOf :: "tx_handle \<Rightarrow> nat" where
  "operationsOf h = (case object_id (h_native h) of None \<Rightarrow> 0 | Some ops \<Rightarrow> ops)"

definition im_commit :: "nat \<Rightarrow> extended_options \<Rightarrow> tx_handle \<Rightarrow> (('u, in_memory_db, 'z) world, unit) comp" where
  "im_commit self options h =
     modify (updateAdapter self (\<lambda>a. a\<lparr>committedTransactions := committedTransactions a @
       [\<lparr>ct_id = h_id h, ct_operations = operationsOf h, ct_options = options\<rparr>]\<rparr>))"

definition im_rollback ::
    "nat \<Rightarrow> extended_options \<Rightarrow> tx_handle \<Rightarrow> jsv \<Rightarrow> (('u, in_memory_db, 'z) world, unit) comp" where
  "im_rollback self options h e =
     modify (updateAdapter self (\<lambda>a. a\<lparr>rolledBackTransactions := rolledBackTransactions a @
       [\<lparr>ct_id = h_id h, ct_operations = operationsOf h, ct_options = options, rt_error = e\<rparr>]\<rparr>))"

definition im_mark :: "nat \<Rightarrow> tx_handle \<Rightarrow> (('u, in_memory_db, 'z) world, nat) comp" where
  "im_mark self parent w =
     Some (Resolve (fresh w), updateAdapter self (\<lambda>a. a\<lparr>savepointsCreated := savepointsCreated a @
       [\<lparr>sp_parentId = h_id parent, sp_savepointId = fresh w\<rparr>]\<rparr>) (w\<lparr>fresh := Suc (fresh w)\<rparr>))"

definition im_release :: "nat \<Rightarrow> tx_handle \<Rightarrow> nat \<Rightarrow> (('u, in_memory_db, 'z) world, unit) comp" where
  "im_release self parent sp =
     modify (updateAdapter self (\<lambda>a. a\<lparr>savepointsReleased := savepointsReleased a @
       [\<lparr>sp_parentId = h_id parent, sp_savepointId = sp\<rparr>]\<rparr>))"

definition im_revert :: "nat \<Rightarrow> tx_handle \<Rightarrow> nat \<Rightarrow> jsv \<Rightarrow> (('u, in_memory_db, 'z) world, unit) comp" where
  "im_revert self parent sp e =
     modify (updateAdapter self (\<lambda>a. a\<lparr>savepointsRolledBack := savepointsRolledBack a @
       [\<lparr>sp_parentId = h_id parent, sp_savepointId = sp, sp_error = e\<rparr>]\<rparr>))"

interpretation ims: transactional_adapter "InMemoryTransactionAdapter ds self" im_enter "im_commit self"
    "im_rollback self" "im_mark self" "im_release self" "im_revert self"
  by unfold_locales
    (auto simp: InMemoryTransactionAdapter_def im_runInTransaction_def im_runInSavepoint_def Let_def
      session_run sessionRun_def andThen_def catching_def im_enter_def im_commit_def im_rollback_def
      im_mark_def im_release_def im_revert_def operationsOf_def
      split: option.splits prod.splits outcome.splits)

end
