(* ===== verification/Manager_Mono.thy ===== *)
theory Manager_Mono
  imports Adapter_Contract
begin

text \<open>
  The manager is monotone: when the closures of an environment and the function a caller
  passes settle in more cases and agree where they settled before, so does \<open>run\<close>.
\<close>

definition env_refines :: "('u, 'd, 'z) env \<Rightarrow> ('u, 'd, 'z) env \<Rightarrow> bool" where
  "env_refines env env' \<longleftrightarrow>
     (\<exists>ch. env' = env\<lparr>callHook := ch\<rparr> \<and> (\<forall>u arg. refines_comp (callHook env u arg) (ch u arg))) \<and>
     (\<forall>a. lawful_adapter (adapterOf env a))"

lemma env_refines_fields:
  assumes "env_refines env env'"
  shows "adapterOf env' = adapterOf env" "awaitAll env' = awaitAll env"
    "observers env' = observers env" "random env' = random env"
    "refines_comp (callHook env u arg) (callHook env' u arg)" "lawful_adapter (adapterOf env a)"
  using assms by (auto simp: env_refines_def)

lemma drain_env:
  assumes "awaitAll env' = awaitAll env" and "drain env t w = Some x"
  shows "drain env' t w = Some x"
  using assms(2)
  by (rule drain_induct) (auto simp: drain.simps[of env'] assms(1))

lemma invoke_mono:
  assumes env: "env_refines env env'"
  shows "refines_comp (invoke env h arg) (invoke env' h arg)"
  by (cases h)
    (auto simp: refines_comp_def intro: drain_env[OF env_refines_fields(2)[OF env]]
      dest: refines_compD[OF env_refines_fields(5)[OF env]])

lemma runBeforeCommit_mono:
  assumes env: "env_refines env env'"
  shows "refines_comp (runBeforeCommit env t i) (runBeforeCommit env' t i)"
proof (rule refines_compI)
  fix w r w' assume "runBeforeCommit env t i w = Some (r, w')"
  then show "runBeforeCommit env' t i w = Some (r, w')"
    by (rule runBeforeCommit_induct)
      (auto simp: runBeforeCommit.simps[of env'] dest: refines_compD[OF invoke_mono[OF env]])
qed

lemma runHooks_mono:
  assumes env: "env_refines env env'" and "runHooks env sel t arg i w = Some w'"
  shows "runHooks env' sel t arg i w = Some w'"
  using assms(2)
  by (rule runHooks_induct)
    (auto simp: runHooks.simps[of env'] dest: refines_compD[OF invoke_mono[OF env]])

lemma notify_same:
  assumes env: "env_refines env env'"
  shows "notifyStart env' = notifyStart env" "notifyCommit env' = notifyCommit env"
  "notifyRollback env' = notifyRollback env"
  by (simp_all add: notifyStart_def notifyCommit_def notifyRollback_def env_refines_fields[OF env])

lemma guardedBody_mono:
  assumes "env_refines env env'" and "refines_comp fn fn'"
  shows "refines_comp (guardedBody env t options fn) (guardedBody env' t options fn')"
  unfolding guardedBody_def
  by (intro refines_catching refines_andThen runBeforeCommit_mono refines_refl assms)

lemma txCallback_mono:
  assumes env: "env_refines env env'" and "refines_comp fn fn'"
  shows "refines_comp (txCallback env a i options corr cell fn h)
           (txCallback env' a i options corr cell fn' h)"
proof -
  have fin: "refines_comp (finallyDo (guardedBody env t options fn) (modify (removeActiveTransaction key)))
      (finallyDo (guardedBody env' t options fn') (modify (removeActiveTransaction key)))" for t key
    by (intro refines_finallyDo guardedBody_mono assms refines_refl)
  show ?thesis
    unfolding txCallback_def Let_def
    by (intro refines_compI)
      (auto simp: notify_same[OF env] split: option.splits prod.splits outcome.splits
        dest: refines_compD[OF fin])
qed

lemma startBody_mono:
  assumes env: "env_refines env env'" and "refines_comp fn fn'" and "lawful_adapter ad"
  shows "refines_comp (startBody env ad a i options corr start cell fn)
           (startBody env' ad a i options corr start cell fn')"
proof -
  have call: "refines_comp (a_runInTransaction ad options (txCallback env a i options corr cell fn))
      (a_runInTransaction ad options (txCallback env' a i options corr cell fn'))"
    by (rule lawful_adapter.transaction_mono[OF assms(3)]) (rule txCallback_mono[OF env assms(2)])
  have rejected: "refines_comp (afterAdapterRejected env a i options corr start cell e)
      (afterAdapterRejected env' a i options corr start cell e)" for e
    unfolding afterAdapterRejected_def
    by (rule refines_compI)
      (auto simp: notify_same[OF env] split: option.splits dest: runHooks_mono[OF env])
  have resolved: "refines_comp (afterAdapterResolved env a i options corr start cell x)
      (afterAdapterResolved env' a i options corr start cell x)" for x
    unfolding afterAdapterResolved_def
    by (rule refines_compI)
      (auto simp: notify_same[OF env] split: option.splits dest: runHooks_mono[OF env])
  show ?thesis
    unfolding startBody_def
    by (intro refines_compI) (auto split: option.splits prod.splits outcome.splits
        dest!: refines_compD[OF call] refines_compD[OF rejected] refines_compD[OF resolved])
qed

lemma startNew_mono:
  assumes env: "env_refines env env'" and "refines_comp fn fn'" and "lawful_adapter ad"
  shows "refines_comp (startNew env ad a i options fn) (startNew env' ad a i options fn')"
  unfolding startNew_def contextRun_def Let_def
  by (rule refines_compI)
    (auto split: if_splits option.splits prod.splits dest: refines_compD[OF startBody_mono[OF assms]])

lemma retryLoop_mono:
  assumes env: "env_refines env env'" and once: "refines_comp once once'"
  shows "refines_comp (retryLoop env ad nr once attempt) (retryLoop env' ad nr once' attempt)"
proof -
  have "retryLoop env ad nr once attempt w = Some x \<Longrightarrow> retryLoop env' ad nr once' attempt w = Some x"
    for w x
  proof (induction "n_maxAttempts nr - attempt" arbitrary: attempt w rule: less_induct)
    case less
    then obtain r w1 where "once w = Some (r, w1)"
      by (subst (asm) (2) retryLoop.simps) (auto split: option.splits)
    moreover from this have "once' w = Some (r, w1)" by (rule refines_compD[OF once])
    ultimately show ?case
      using less.prems
      by (subst retryLoop.simps, subst (asm) retryLoop.simps)
        (auto simp: env_refines_fields[OF env] split: outcome.splits if_splits intro: less.hyps)
  qed
  then show ?thesis by (auto simp: refines_comp_def)
qed

lemma startNewWithRetry_mono:
  assumes env: "env_refines env env'" and "refines_comp fn fn'" and "lawful_adapter ad"
  shows "refines_comp (startNewWithRetry env ad a i options fn)
           (startNewWithRetry env' ad a i options fn')"
  unfolding startNewWithRetry_def
  by (rule refines_compI)
    (auto split: sum.splits option.splits dest: refines_compD[OF startNew_mono[OF assms]]
      refines_compD[OF retryLoop_mono[OF env startNew_mono[OF assms]]])

lemma runNestedSavepoint_mono:
  assumes "refines_comp fn fn'" and "lawful_adapter ad"
  shows "refines_comp (runNestedSavepoint ad t options fn) (runNestedSavepoint ad t options fn')"
proof (rule refines_compI)
  fix w r w' assume run: "runNestedSavepoint ad t options fn w = Some (r, w')"
  have "refines_comp
      (a_runInSavepoint ad (handle (txs w t)) (\<lambda>h. catching (andThen fn (\<lambda>v. ret (IOk v)))
         (\<lambda>err. if shouldRollback err options then throw err else ret (IErr err))))
      (a_runInSavepoint ad (handle (txs w t)) (\<lambda>h. catching (andThen fn' (\<lambda>v. ret (IOk v)))
         (\<lambda>err. if shouldRollback err options then throw err else ret (IErr err))))"
    by (intro lawful_adapter.savepoint_mono[OF assms(2)] refines_catching refines_andThen assms(1)
        refines_refl)
  from refines_compD[OF refines_andThen[OF this refines_refl]] run
  show "runNestedSavepoint ad t options fn' w = Some (r, w')"
    unfolding runNestedSavepoint_def by blast
qed

lemma suspended_mono:
  "refines_comp f f' \<Longrightarrow> refines_comp (suspended key t f) (suspended key t f')"
  unfolding suspended_def
  by (rule refines_compI) (blast dest: refines_compD[OF refines_finallyDo[OF _ refines_refl]])

theorem run_mono:
  assumes env: "env_refines env env'" and fn: "refines_comp fn fn'"
  shows "refines_comp (run env options fn) (run env' options fn')"
proof (rule refines_compI)
  fix w r w' assume run: "run env options fn w = Some (r, w')"
  note start = startNewWithRetry_mono[OF env fn env_refines_fields(6)[OF env]]
  note laws = refines_compD[OF start] refines_compD[OF suspended_mono[OF start]]
    refines_compD[OF suspended_mono[OF fn]] refines_compD[OF fn]
    refines_compD[OF runNestedSavepoint_mono[OF fn env_refines_fields(6)[OF env]]]
  show "run env' options fn' w = Some (r, w')"
    using run unfolding run_def withAdapter_def Let_def env_refines_fields(1)[OF env]
    by (auto split: sum.splits prod.splits option.splits propagation_mode.splits dest: laws)
qed

end
