(* ===== verification/Client.thy ===== *)
theory Client
  imports In_Memory_Adapter Manager_Mono
begin

text \<open>
  Client code. A \<open>client\<close> is a program over the manager's public operations: it returns and
  throws, sequences, catches, calls \<open>run\<close> with a nested program, registers hooks (programs
  themselves), tracks pending promises, looks transactions up and does work the model
  leaves to a parameter. \<open>exec\<close> runs it; because hooks are programs that may
  call the manager again, \<open>exec\<close> takes fuel, \<open>None\<close> standing for fuel that ran
  out as well as for a program that never settles. More fuel never changes an answer.

  What is proved of \<open>exec\<close> holds for every program, to any depth of nesting.
\<close>

section \<open>Programs\<close>

datatype client =
    Give jsv
  | Throw jsv
  | ThrowNew "string list"
  | Bind client "jsv \<Rightarrow> client"
  | Catch client "jsv \<Rightarrow> client"
  | Finally client client
  | Run extended_options client
  | OnAfterCommit "jsv \<Rightarrow> client"
  | OnAfterRollback "jsv \<Rightarrow> client"
  | OnBeforeCommit "jsv \<Rightarrow> client"
  | Track string nat
  | Lookup string "bool \<Rightarrow> client"
  | Work nat

type_synonym client_hook = "jsv \<Rightarrow> client"
type_synonym ('d, 'z) client_world = "(client_hook, 'd, 'z) world"
type_synonym ('d, 'z) client_env = "(client_hook, 'd, 'z) env"
type_synonym ('d, 'z) work = "nat \<Rightarrow> (('d, 'z) client_world, jsv) comp"

abbreviation andUndef :: "('w, unit) comp \<Rightarrow> ('w, jsv) comp" where
  "andUndef f \<equiv> andThen f (\<lambda>_. ret Undef)"

definition trackCurrent :: "string \<Rightarrow> nat \<Rightarrow> (('u, 'd, 'z) world, jsv) comp" where
  "trackCurrent ds p w =
     (case getActiveTransactionByDataSource ds w of
        None \<Rightarrow> Some (Resolve Undef, w)
      | Some t \<Rightarrow> Some (Resolve Undef, trackPending t p w))"

text \<open>The environment whose closures are programs that \<open>rec\<close> runs.\<close>

definition closing ::
    "('d, 'z) client_env \<Rightarrow> (client \<Rightarrow> (('d, 'z) client_world, jsv) comp) \<Rightarrow> ('d, 'z) client_env" where
  "closing env rec = env\<lparr>callHook := (\<lambda>u arg. rec (u arg))\<rparr>"

fun perform ::
    "('d, 'z) client_env \<Rightarrow> ('d, 'z) work \<Rightarrow> (client \<Rightarrow> (('d, 'z) client_world, jsv) comp) \<Rightarrow>
     client \<Rightarrow> (('d, 'z) client_world, jsv) comp" where
  "perform env work rec (Give v) = ret v"
| "perform env work rec (Throw e) = throw e"
| "perform env work rec (ThrowNew cs) = raise (FwError cs [])"
| "perform env work rec (Bind p q) = andThen (rec p) (\<lambda>v. rec (q v))"
| "perform env work rec (Catch p q) = catching (rec p) (\<lambda>e. rec (q e))"
| "perform env work rec (Finally p q) = finallyDo (rec p) (andThen (rec q) (\<lambda>_. ret ()))"
| "perform env work rec (Run opts p) = run (closing env rec) opts (rec p)"
| "perform env work rec (OnAfterCommit u) = andUndef (registerAfterCommit u)"
| "perform env work rec (OnAfterRollback u) = andUndef (registerAfterRollback u)"
| "perform env work rec (OnBeforeCommit u) = andUndef (registerBeforeCommit u)"
| "perform env work rec (Track ds p) = trackCurrent ds p"
| "perform env work rec (Lookup ds q) = (\<lambda>w. rec (q (view_hasActiveTransaction ds w)) w)"
| "perform env work rec (Work k) = work k"

fun exec ::
    "('d, 'z) client_env \<Rightarrow> ('d, 'z) work \<Rightarrow> nat \<Rightarrow> client \<Rightarrow> (('d, 'z) client_world, jsv) comp" where
  "exec env work 0 p = (\<lambda>w. None)"
| "exec env work (Suc n) p = perform env work (exec env work n) p"

section \<open>Every program keeps the context\<close>

lemma trackCurrent_tame: "tame (trackCurrent ds p)"
  by (rule tameI) (auto simp: trackCurrent_def trackPending_framed split: option.splits)

lemma lookup_keeps:
  "(\<And>p. keeps R (rec p)) \<Longrightarrow> keeps R (\<lambda>w. rec (q (view_hasActiveTransaction ds w)) w)"
  by (auto simp: keeps_def)


text \<open>The interface of client code: lawful adapters and well-behaved work.\<close>

locale client_setting =
  fixes env :: "('d, 'z) client_env" and work :: "('d, 'z) work"
  assumes adapters: "lawful_adapter (adapterOf env a)"
    and work_tame: "tame (work k)"
    and promises: "tame (awaitAll env ps)"
    and no_observers: "observers env = []"
begin

lemma closing_lawful:
  assumes "\<And>p. tame (rec p)"
  shows "lawful_environment (closing env rec)"
  unfolding lawful_environment_def closing_def
  using adapters promises by (auto simp: no_observers assms)

lemma perform_tame:
  assumes "\<And>p. tame (rec p)"
  shows "tame (perform env work rec p)"
proof (cases p)
  case (Run opts q)
  then show ?thesis
    using lawful_environment.run_tame[OF closing_lawful[OF assms] assms] by simp
next
  case (Finally q1 q2)
  then show ?thesis by (simp add: keeps_finallyDo keeps_andThen keeps_ret assms)
next
  case (Bind q1 q2)
  then show ?thesis by (simp add: keeps_andThen assms)
next
  case (Catch q1 q2)
  then show ?thesis by (simp add: keeps_catching assms)
qed (simp_all add: keeps_andThen keeps_ret keeps_throw tame_raise register_tame
    trackCurrent_tame lookup_keeps work_tame assms)

theorem exec_tame: "tame (exec env work n p)"
  by (induction n arbitrary: p) (auto simp: keeps_def[of _ "\<lambda>w. None"] intro: perform_tame)

text \<open>More fuel gives the same answer.\<close>

lemma perform_mono:
  assumes "\<And>p. refines_comp (rec p) (rec' p)"
  shows "refines_comp (perform env work rec p) (perform env work rec' p)"
proof (cases p)
  case (Run opts q)
  have "env_refines (closing env rec) (closing env rec')"
    using assms adapters by (auto simp: env_refines_def closing_def intro!: exI[of _ "\<lambda>u arg. rec' (u arg)"])
  then show ?thesis using Run assms by (simp add: run_mono)
next
  case (Lookup ds q)
  then show ?thesis using assms by (auto simp: refines_comp_def)
qed (simp_all add: refines_andThen refines_catching refines_finallyDo assms)

lemma exec_Suc: "refines_comp (exec env work n p) (exec env work (Suc n) p)"
proof (induction n arbitrary: p)
  case 0
  then show ?case by (simp add: refines_comp_def)
next
  case (Suc n)
  show ?case
    by (subst (1 2) exec.simps) (rule perform_mono, rule Suc.IH)
qed

lemma exec_mono: "n \<le> m \<Longrightarrow> refines_comp (exec env work n p) (exec env work m p)"
proof (induction m rule: dec_induct)
  case base
  then show ?case by simp
next
  case (step m)
  then show ?case using exec_Suc unfolding refines_comp_def by blast
qed

end

section \<open>Every program keeps a database relation\<close>

text \<open>The same interface for a relation between databases.\<close>

locale client_db = db_relation Q for Q :: "nat \<Rightarrow> 'd \<Rightarrow> nat \<Rightarrow> 'd \<Rightarrow> bool" +
  fixes env :: "('d, 'z) client_env" and work :: "('d, 'z) work"
  assumes adapter_transaction:
      "(\<And>h. keeps (dbRel Q) (cb h)) \<Longrightarrow>
         keeps (dbRel Q) (a_runInTransaction (adapterOf env a) opts cb)"
    and adapter_savepoint:
      "(\<And>h. keeps (dbRel Q) (cb h)) \<Longrightarrow>
         keeps (dbRel Q) (a_runInSavepoint (adapterOf env a) parent cb)"
    and work_keeps: "keeps (dbRel Q) (work k)"
    and promises: "keeps (dbRel Q) (awaitAll env ps)"
    and no_observers: "observers env = []"
begin

lemma closing_db:
  assumes "\<And>p. keeps (dbRel Q) (rec p)"
  shows "db_environment Q (closing env rec)"
proof -
  have "db_environment_axioms Q (closing env rec)"
    unfolding db_environment_axioms_def closing_def
    using adapter_transaction adapter_savepoint promises by (auto simp: no_observers assms)
  then show ?thesis by (simp add: db_environment_def db_relation_axioms)
qed

lemma onCurrent_keeps: "keeps (dbRel Q) (onCurrent f)"
  by (rule keepsI)
    (auto simp: onCurrent_def updateTx_def raise_settles split: sum.splits intro: alloc)

lemma register_keeps:
  "keeps (dbRel Q) (registerAfterCommit u)" "keeps (dbRel Q) (registerAfterRollback u)"
  "keeps (dbRel Q) (registerBeforeCommit u)"
  by (simp_all add: registerAfterCommit_def registerAfterRollback_def registerBeforeCommit_def
      onCurrent_keeps)

lemma trackCurrent_keeps: "keeps (dbRel Q) (trackCurrent ds p)"
  by (rule keepsI)
    (auto simp: trackCurrent_def trackPending_def updateTx_def split: option.splits intro: alloc)

lemma raise_keeps: "keeps (dbRel Q) (raise e)"
  by (rule keepsI) (auto simp: raise_settles intro: alloc)

lemma perform_keeps:
  assumes "\<And>p. keeps (dbRel Q) (rec p)"
  shows "keeps (dbRel Q) (perform env work rec p)"
proof (cases p)
  case (Run opts q)
  then show ?thesis
    using db_environment.run_keeps[OF closing_db[OF assms] assms] by simp
next
  case (Finally q1 q2)
  then show ?thesis by (simp add: keeps_finallyDo keeps_andThen keeps_ret assms)
next
  case (Bind q1 q2)
  then show ?thesis by (simp add: keeps_andThen assms)
next
  case (Catch q1 q2)
  then show ?thesis by (simp add: keeps_catching assms)
qed (simp_all add: keeps_andThen keeps_ret keeps_throw raise_keeps register_keeps
    trackCurrent_keeps lookup_keeps work_keeps assms)

theorem exec_keeps: "keeps (dbRel Q) (exec env work n p)"
  by (induction n arbitrary: p) (auto simp: keeps_def[of _ "\<lambda>w. None"] intro: perform_keeps)

end

section \<open>Clients of in-memory adapters\<close>

text \<open>
  \<open>Promise.all\<close> over promises whose outcomes are given: the first rejection wins.
\<close>

fun promiseAll :: "(nat \<Rightarrow> jsv outcome) \<Rightarrow> nat list \<Rightarrow> ('w, jsv) comp" where
  "promiseAll settled [] = ret Undef"
| "promiseAll settled (p # ps) =
     (case settled p of
        Reject e \<Rightarrow> throw e
      | Resolve v \<Rightarrow> promiseAll settled ps)"

definition im_env ::
    "(nat \<Rightarrow> string) \<Rightarrow> (nat \<Rightarrow> jsv outcome) \<Rightarrow> (in_memory_db, 'z) client_env" where
  "im_env names settled =
     \<lparr>adapterOf = (\<lambda>a. InMemoryTransactionAdapter (names a) a), callHook = (\<lambda>u arg w. None),
      awaitAll = promiseAll settled, observers = [], random = (\<lambda>w. 1 / 2)\<rparr>"

text \<open>Work number \<open>k\<close>: push \<open>k\<close> on the \<open>operations\<close> of the current transaction.\<close>

definition pushOperation :: "nat \<Rightarrow> jsv \<Rightarrow> ('u, in_memory_db, 'z) world \<Rightarrow> ('u, in_memory_db, 'z) world" where
  "pushOperation ops v w =
     w\<lparr>db := (db w)\<lparr>im_arrays := (im_arrays (db w))(ops := im_arrays (db w) ops @ [v])\<rparr>\<rparr>"

definition im_work :: "(in_memory_db, 'z) work" where
  "im_work k w =
     (case currentTransaction w of
        Inl e \<Rightarrow> raise e w
      | Inr t \<Rightarrow>
          (case object_id (h_native (handle (txs w t))) of
             None \<Rightarrow> Some (Resolve Undef, w)
           | Some ops \<Rightarrow> Some (Resolve Undef, pushOperation ops (JNum (JInt (int k))) w)))"

lemma promiseAll_world: "promiseAll settled ps w = Some (r, w') \<Longrightarrow> w' = w"
  by (induction ps) (auto split: outcome.splits)

lemma promiseAll_tame: "tame (promiseAll settled ps)"
  by (rule keepsI) (auto dest!: promiseAll_world intro: quiet_framedAll)

lemma im_work_quiet: "im_work k w = Some (r, w') \<Longrightarrow> quiet w w'"
  by (auto simp: im_work_def pushOperation_def split: sum.splits option.splits
      intro: quiet_raise quiet_db)

interpretation ic: client_setting "im_env names settled" im_work
  by unfold_locales
    (auto simp: im_env_def im.transaction_mono im.savepoint_mono
      promiseAll_tame
      intro: keepsI quiet_framedAll im_work_quiet im.in_transaction im.in_savepoint
        im.transaction_local im.savepoint_local)

section \<open>A sample application\<close>

text \<open>
  Two dataSources, each with an in-memory adapter, the first the default; nothing runs
  yet and no promise rejects. Programs of the later theories are evaluated on it.
\<close>

definition sampleRegistry :: adapter_registry where
  "sampleRegistry =
     register \<lparr>reg_adapterName = ''in-memory'', reg_instanceName = ''billing'', reg_adapter = 1\<rparr> False
       (register \<lparr>reg_adapterName = ''in-memory'', reg_instanceName = ''default'', reg_adapter = 0\<rparr> True
         newRegistry)"

definition sampleWorld :: "(in_memory_db, unit) client_world" where
  "sampleWorld =
     \<lparr>als = None, stores = (\<lambda>_. newStore 0 0),
      txs = (\<lambda>_. \<lparr>handle = \<lparr>h_id = 0, h_adapterName = [], h_native = Undef\<rparr>, adapterName = [],
                  adapterInstanceName = [], txOptions = no_options, startedAt = 0,
                  afterCommitHooks = [], afterRollbackHooks = [], beforeCommitHooks = [],
                  correlationId = 0\<rparr>),
      fresh = 10, now = 0, registry = sampleRegistry, rolledBack = {}, pending = (\<lambda>_. None),
      cells = (\<lambda>_. None),
      db = \<lparr>im_adapters = (\<lambda>_. newInMemoryAdapter ''default''), im_arrays = (\<lambda>_. [])\<rparr>, \<dots> = ()\<rparr>"

definition sampleEnv :: "(in_memory_db, unit) client_env" where
  "sampleEnv = im_env (\<lambda>_. ''default'') (\<lambda>_. Resolve Undef)"

abbreviation sampleRun ::
    "nat \<Rightarrow> client \<Rightarrow> (jsv outcome \<times> (in_memory_db, unit) client_world) option" where
  "sampleRun n p \<equiv> exec sampleEnv im_work n p sampleWorld"

end
