(* ===== verification/Settlement.thy ===== *)
theory Settlement
  imports Client Propagation
begin

text \<open>
  How transactions end, on in-memory adapters and for every client program: each
  transaction is recorded once, and it is rolled back exactly when the error that leaves
  it asks for that.
\<close>

section \<open>Records\<close>

definition timesCommitted :: "nat \<Rightarrow> nat \<Rightarrow> in_memory_db \<Rightarrow> nat" where
  "timesCommitted self i d = count_list (map ct_id (committedTransactions (im_adapters d self))) i"

definition timesRolledBack :: "nat \<Rightarrow> nat \<Rightarrow> in_memory_db \<Rightarrow> nat" where
  "timesRolledBack self i d = count_list (map ct_id (rolledBackTransactions (im_adapters d self))) i"

definition unrecorded :: "nat \<Rightarrow> nat \<Rightarrow> in_memory_db \<Rightarrow> bool" where
  "unrecorded self n d \<longleftrightarrow> (\<forall>i\<ge>n. timesCommitted self i d + timesRolledBack self i d = 0)"

definition im_grows :: "nat \<Rightarrow> in_memory_db \<Rightarrow> nat \<Rightarrow> in_memory_db \<Rightarrow> bool" where
  "im_grows n d m d' \<longleftrightarrow>
     (\<forall>self.
        (\<forall>i<n. timesCommitted self i d' = timesCommitted self i d \<and>
               timesRolledBack self i d' = timesRolledBack self i d) \<and>
        (unrecorded self n d \<longrightarrow>
           unrecorded self m d' \<and>
           (\<forall>i\<ge>n. timesCommitted self i d' + timesRolledBack self i d' \<le> 1)))"

interpretation ig: db_relation im_grows
proof
  show "im_grows n d m d" if "n \<le> m" for n m d
    using that by (auto simp: im_grows_def unrecorded_def)
next
  fix n m k a b c
  assume le: "n \<le> m" "m \<le> k" and ab: "im_grows n a m b" and bc: "im_grows m b k c"
  show "im_grows n a k c"
    unfolding im_grows_def
  proof (intro allI conjI impI)
    fix self i
    show "timesCommitted self i c = timesCommitted self i a"
      "timesRolledBack self i c = timesRolledBack self i a" if "i < n"
      using ab bc le that unfolding im_grows_def by simp_all
    assume "unrecorded self n a"
    then have b: "unrecorded self m b"
        "\<forall>i\<ge>n. timesCommitted self i b + timesRolledBack self i b \<le> 1"
      using ab unfolding im_grows_def by blast+
    then show "unrecorded self k c" using bc unfolding im_grows_def by blast
    show "timesCommitted self i c + timesRolledBack self i c \<le> 1" if "n \<le> i"
      using b bc that unfolding im_grows_def by (cases "i < m") auto
  qed
qed

lemma times_updateAdapter:
  "timesCommitted self i (db (updateAdapter self' f w)) =
     (if self = self'
      then count_list (map ct_id (committedTransactions (f (im_adapters (db w) self)))) i
      else timesCommitted self i (db w))"
  "timesRolledBack self i (db (updateAdapter self' f w)) =
     (if self = self'
      then count_list (map ct_id (rolledBackTransactions (f (im_adapters (db w) self)))) i
      else timesRolledBack self i (db w))"
  by (simp_all add: updateAdapter_def timesCommitted_def timesRolledBack_def)

lemma times_arrays [simp]:
  "timesCommitted self i (d\<lparr>im_arrays := a\<rparr>) = timesCommitted self i d"
  "timesRolledBack self i (d\<lparr>im_arrays := a\<rparr>) = timesRolledBack self i d"
  by (simp_all add: timesCommitted_def timesRolledBack_def)

text \<open>What the adapter records of transaction \<open>i\<close>.\<close>

definition im_record ::
    "nat \<Rightarrow> extended_options \<Rightarrow> 'a outcome \<Rightarrow> in_memory_adapter \<Rightarrow> in_memory_adapter" where
  "im_record i options r a =
     (case r of
        Resolve v \<Rightarrow> a\<lparr>committedTransactions := committedTransactions a @
          [\<lparr>ct_id = i, ct_operations = Suc i, ct_options = options\<rparr>]\<rparr>
      | Reject e \<Rightarrow> a\<lparr>rolledBackTransactions := rolledBackTransactions a @
          [\<lparr>ct_id = i, ct_operations = Suc i, ct_options = options, rt_error = e\<rparr>]\<rparr>)"

lemma times_record:
  "timesCommitted s i (db (updateAdapter self (im_record j opts r) w)) =
     timesCommitted s i (db w) + (if s = self \<and> i = j \<and> (\<exists>v. r = Resolve v) then 1 else 0)"
  "timesRolledBack s i (db (updateAdapter self (im_record j opts r) w)) =
     timesRolledBack s i (db w) + (if s = self \<and> i = j \<and> (\<exists>e. r = Reject e) then 1 else 0)"
  by (cases r; simp add: times_updateAdapter im_record_def; simp add: timesCommitted_def timesRolledBack_def)+

lemma im_run_unfold:
  assumes "im_runInTransaction self options cb w = Some (r, w')"
  shows "\<exists>h w2. cb h (w\<lparr>fresh := Suc (Suc (fresh w)),
      db := (db w)\<lparr>im_arrays := (im_arrays (db w))(Suc (fresh w) := [])\<rparr>\<rparr>) = Some (r, w2) \<and>
    w' = updateAdapter self (im_record (fresh w) options r) w2"
  using assms unfolding im_runInTransaction_def Let_def im_record_def[abs_def]
  by (auto split: option.splits prod.splits outcome.splits) blast+

text \<open>
  One call of the adapter records the address it began at, in the array the callback's
  outcome asks for, whatever the callback does to the records of other transactions.
\<close>

lemma im_transaction_records:
  assumes cb: "\<And>h. keeps (dbRel im_grows) (cb h)"
    and run: "im_runInTransaction self options cb w = Some (r, w')"
  shows im_transaction_grows: "dbRel im_grows w w'"
    and im_transaction_exact: "unrecorded self (fresh w) (db w) \<Longrightarrow>
       (timesCommitted self (fresh w) (db w'), timesRolledBack self (fresh w) (db w')) =
         (case r of Resolve v \<Rightarrow> (1, 0) | Reject e \<Rightarrow> (0, 1))"
    and im_transaction_fresh: "fresh w < fresh w'"
proof -
  define w1 where "w1 = w\<lparr>fresh := Suc (Suc (fresh w)),
      db := (db w)\<lparr>im_arrays := (im_arrays (db w))(Suc (fresh w) := [])\<rparr>\<rparr>"
  obtain h w2 where w2: "cb h w1 = Some (r, w2)"
    and w': "w' = updateAdapter self (im_record (fresh w) options r) w2"
    using im_run_unfold[OF run] unfolding w1_def by blast
  have g: "dbRel im_grows w1 w2" by (rule keepsD[OF cb w2])
  have fr: "Suc (Suc (fresh w)) \<le> fresh w2" using g by (simp add: dbRel_def w1_def)
  have low: "timesCommitted s i (db w2) = timesCommitted s i (db w)"
    "timesRolledBack s i (db w2) = timesRolledBack s i (db w)" if "i < Suc (Suc (fresh w))" for s i
    using g that by (auto simp: dbRel_def im_grows_def w1_def)
  have high: "unrecorded s (fresh w2) (db w2)"
    "\<forall>i\<ge>Suc (Suc (fresh w)). timesCommitted s i (db w2) + timesRolledBack s i (db w2) \<le> 1"
    if "unrecorded s (fresh w) (db w)" for s
    using g that by (auto simp: dbRel_def im_grows_def w1_def unrecorded_def)
  show "fresh w < fresh w'" using fr w' by simp
  show "dbRel im_grows w w'"
    unfolding dbRel_def im_grows_def
  proof (intro conjI allI impI)
    show "fresh w \<le> fresh w'" using fr w' by simp
    fix s i
    show "timesCommitted s i (db w') = timesCommitted s i (db w)"
      "timesRolledBack s i (db w') = timesRolledBack s i (db w)" if "i < fresh w"
      using that by (simp_all add: w' times_record low)
    assume u: "unrecorded s (fresh w) (db w)"
    show "unrecorded s (fresh w') (db w')"
      using high(1)[OF u] fr by (auto simp: unrecorded_def w' times_record)
    show "timesCommitted s i (db w') + timesRolledBack s i (db w') \<le> 1" if "fresh w \<le> i"
    proof (cases "i < Suc (Suc (fresh w))")
      case True
      then show ?thesis using u that by (cases r) (auto simp: w' times_record low unrecorded_def)
    next
      case False
      then show ?thesis using high(2)[OF u] by (auto simp: w' times_record)
    qed
  qed
  show "(timesCommitted self (fresh w) (db w'), timesRolledBack self (fresh w) (db w')) =
      (case r of Resolve v \<Rightarrow> (1, 0) | Reject e \<Rightarrow> (0, 1))"
    if "unrecorded self (fresh w) (db w)"
    using that by (cases r) (auto simp: w' times_record low unrecorded_def)
qed

section \<open>Every client program keeps the records\<close>

lemma same_records: "fresh w \<le> fresh w' \<Longrightarrow>
    im_adapters (db w') = im_adapters (db w) \<Longrightarrow> dbRel im_grows w w'"
  unfolding dbRel_def
  by (auto simp: im_grows_def unrecorded_def timesCommitted_def timesRolledBack_def)

lemma savepoint_records:
  "(\<And>a. committedTransactions (f a) = committedTransactions a \<and>
        rolledBackTransactions (f a) = rolledBackTransactions a) \<Longrightarrow>
     dbRel im_grows w (updateAdapter self f (w\<lparr>fresh := fresh w + k\<rparr>))"
  unfolding dbRel_def
  by (auto simp: im_grows_def unrecorded_def times_updateAdapter)
    (auto simp: timesCommitted_def timesRolledBack_def updateAdapter_def)

lemma im_savepoint_keeps:
  assumes cb: "\<And>h. keeps (dbRel im_grows) (cb h)"
  shows "keeps (dbRel im_grows) (im_runInSavepoint self parent cb)"
proof (rule keepsI)
  fix w r w' assume run: "im_runInSavepoint self parent cb w = Some (r, w')"
  let ?w1 = "updateAdapter self (\<lambda>a. a\<lparr>savepointsCreated := savepointsCreated a @
      [\<lparr>sp_parentId = h_id parent, sp_savepointId = fresh w\<rparr>]\<rparr>) (w\<lparr>fresh := Suc (fresh w)\<rparr>)"
  have first: "dbRel im_grows w ?w1" using savepoint_records[of _ w self 1] by simp
  have last: "dbRel im_grows w2 (updateAdapter self f w2)"
    if "\<And>a. committedTransactions (f a) = committedTransactions a \<and>
        rolledBackTransactions (f a) = rolledBackTransactions a" for f and w2 :: "('a, in_memory_db, 'b) world"
    using savepoint_records[of f w2 self 0] that by simp
  from run obtain r1 w2 f where "cb parent ?w1 = Some (r1, w2)" "w' = updateAdapter self f w2"
    "\<And>a. committedTransactions (f a) = committedTransactions a \<and>
        rolledBackTransactions (f a) = rolledBackTransactions a"
    unfolding im_runInSavepoint_def Let_def
    by (auto split: option.splits prod.splits outcome.splits)
  then show "dbRel im_grows w w'"
    using ig.dbRel_trans[OF first ig.dbRel_trans[OF keepsD[OF cb] last]] by blast
qed

interpretation ics: client_db im_grows "im_env names settled" im_work
proof
  show "keeps (dbRel im_grows) (a_runInTransaction (adapterOf (im_env names settled) a) opts cb)"
    if "\<And>h. keeps (dbRel im_grows) (cb h)" for cb a opts
    using that
    by (auto simp: im_env_def InMemoryTransactionAdapter_def intro: keepsI im_transaction_grows)
  show "keeps (dbRel im_grows) (a_runInSavepoint (adapterOf (im_env names settled) a) parent cb)"
    if "\<And>h. keeps (dbRel im_grows) (cb h)" for cb a parent
    using that by (simp add: im_env_def InMemoryTransactionAdapter_def im_savepoint_keeps)
  show "keeps (dbRel im_grows) (im_work k)" for k
    by (rule keepsI)
      (auto simp: im_work_def pushOperation_def raise_settles split: sum.splits option.splits
        intro: same_records)
  show "keeps (dbRel im_grows) (awaitAll (im_env names settled) ps)" for ps
    by (rule keepsI) (auto simp: im_env_def dest!: promiseAll_world intro: ig.alloc)
  show "observers (im_env names settled) = []" by (simp add: im_env_def)
qed

section \<open>How a transaction ends\<close>

lemma guardedBody_outcome:
  assumes "guardedBody env t options fn w = Some (r, w')"
  shows "case r of
      Resolve (IOk v) \<Rightarrow> True
    | Resolve (IErr e) \<Rightarrow> \<not> shouldRollback e options
    | Reject e \<Rightarrow> shouldRollback e options"
  using assms unfolding guardedBody_def
  by (auto simp: catching_Some andThen_Some split: if_splits outcome.splits internal_result.splits)

lemma txCallback_outcome:
  assumes "txCallback env a i options corr cell fn h w = Some (r, w')" and "als w \<noteq> None"
  shows "case r of
      Resolve (IOk v) \<Rightarrow> True
    | Resolve (IErr e) \<Rightarrow> \<not> shouldRollback e options
    | Reject e \<Rightarrow> shouldRollback e options"
  using assms unfolding txCallback_def Let_def
  by (auto simp: setActiveTransaction_def finallyDo_Some split: option.splits dest!: guardedBody_outcome)

text \<open>
  The specification: an outcome other than an error that asks for a rollback is a commit.
\<close>

definition rollsBack :: "jsv outcome \<Rightarrow> extended_options \<Rightarrow> bool" where
  "rollsBack r options = (case r of Resolve v \<Rightarrow> False | Reject e \<Rightarrow> shouldRollback e options)"

lemma startBody_settles:
  fixes w :: "(in_memory_db, 'z) client_world"
  assumes env: "env = closing (im_env names settled) (exec (im_env names settled) im_work n)"
    and run: "startBody env (InMemoryTransactionAdapter ds self) a i options corr start cell
        (exec (im_env names settled) im_work n p) w = Some (r, w')"
    and als: "als w \<noteq> None" and un: "unrecorded self (fresh w) (db w)"
  shows "(timesCommitted self (fresh w) (db w'), timesRolledBack self (fresh w) (db w')) =
    (if rollsBack r options then (0, 1) else (1, 0))"
proof -
  let ?fn = "exec (im_env names settled) im_work n p"
  let ?cb = "txCallback env a i options corr cell ?fn"
  have E: "db_environment im_grows env" unfolding env by (rule ics.closing_db[OF ics.exec_keeps])
  have cb: "keeps (dbRel im_grows) (?cb h)" for h
    by (rule db_environment.txCallback_ok[OF E ics.exec_keeps])
  obtain r1 w1 where call: "im_runInTransaction self options ?cb w = Some (r1, w1)"
    and rest: "(case r1 of Reject e \<Rightarrow> afterAdapterRejected env a i options corr start cell e w1
        | Resolve x \<Rightarrow> afterAdapterResolved env a i options corr start cell x w1) = Some (r, w')"
    using run unfolding startBody_def InMemoryTransactionAdapter_def
    by (auto split: option.splits prod.splits outcome.splits)
  have out: "case r1 of Resolve (IOk v) \<Rightarrow> True | Resolve (IErr e) \<Rightarrow> \<not> shouldRollback e options
      | Reject e \<Rightarrow> shouldRollback e options"
    using im_run_unfold[OF call] als by (auto dest: txCallback_outcome)
  have "dbRel im_grows w1 w'"
    using rest db_environment.after_rejected(2)[OF E] db_environment.after_resolved(2)[OF E]
    by (cases r1) auto
  then have keep: "timesCommitted self (fresh w) (db w') = timesCommitted self (fresh w) (db w1)"
    "timesRolledBack self (fresh w) (db w') = timesRolledBack self (fresh w) (db w1)"
    using im_transaction_fresh[OF cb call] by (simp_all add: dbRel_def im_grows_def)
  have "rollsBack r options = (case r1 of Resolve x \<Rightarrow> False | Reject e \<Rightarrow> True)"
  proof (cases r1)
    case (Reject e)
    then have "r = Reject e" using rest db_environment.after_rejected(1)[OF E] by simp
    then show ?thesis using out Reject by (simp add: rollsBack_def)
  next
    case (Resolve x)
    then have "r = (case x of IOk v \<Rightarrow> Resolve v | IErr err \<Rightarrow> Reject err)"
      using rest db_environment.after_resolved(1)[OF E] by simp
    then show ?thesis using out Resolve by (cases x) (simp_all add: rollsBack_def)
  qed
  then show ?thesis
    using im_transaction_exact[OF cb call un] keep by (cases r1) auto
qed

lemma adapterOf_closing:
  "adapterOf (closing (im_env names settled) rec) self = InMemoryTransactionAdapter (names self) self"
  by (simp add: closing_def im_env_def)

text \<open>The same of \<open>startNew\<close> outside any store, which draws three addresses first.\<close>

lemma startNew_settles:
  fixes w :: "(in_memory_db, 'z) client_world"
  assumes env: "env = closing (im_env names settled) (exec (im_env names settled) im_work n)"
    and run: "startNew env (InMemoryTransactionAdapter ds self) a i options
        (exec (im_env names settled) im_work n p) w = Some (r, w')"
    and outer: "als w = None" and un: "unrecorded self (fresh w) (db w)"
  shows "(timesCommitted self (fresh w + 3) (db w'), timesRolledBack self (fresh w + 3) (db w')) =
    (if rollsBack r options then (0, 1) else (1, 0))"
    and "als w' = None" and "dbRel im_grows w w'" and "fresh w + 3 < fresh w'"
proof -
  let ?fn = "exec (im_env names settled) im_work n p"
  define w1 where "w1 = w\<lparr>cells := (cells w)(Suc (fresh w) := None),
      als := Some (Suc (Suc (fresh w))),
      stores := (stores w)(Suc (Suc (fresh w)) := newStore (fresh w) (now w)),
      fresh := Suc (Suc (Suc (fresh w)))\<rparr>"
  obtain w2 where w2: "startBody env (InMemoryTransactionAdapter ds self) a i options (fresh w) (now w)
        (Suc (fresh w)) ?fn w1 = Some (r, w2)" and w': "w' = w2\<lparr>als := None\<rparr>"
    using run unfolding startNew_def contextRun_def w1_def using outer
    by (auto simp: Let_def getStore_def split: option.splits prod.splits)
  have w1: "als w1 \<noteq> None" "unrecorded self (fresh w1) (db w1)" "fresh w1 = fresh w + 3"
    using un by (auto simp: w1_def unrecorded_def)
  then show "(timesCommitted self (fresh w + 3) (db w'), timesRolledBack self (fresh w + 3) (db w')) =
      (if rollsBack r options then (0, 1) else (1, 0))"
    using startBody_settles[OF env w2] w' by simp
  show "als w' = None" by (simp add: w')
  have E: "db_environment im_grows env" unfolding env by (rule ics.closing_db[OF ics.exec_keeps])
  have cb: "keeps (dbRel im_grows) (txCallback env a i options (fresh w) (Suc (fresh w)) ?fn h)" for h
    by (rule db_environment.txCallback_ok[OF E ics.exec_keeps])
  obtain r1 w3 where call: "im_runInTransaction self options
        (txCallback env a i options (fresh w) (Suc (fresh w)) ?fn) w1 = Some (r1, w3)"
    and rest: "(case r1 of Reject e \<Rightarrow> afterAdapterRejected env a i options (fresh w) (now w) (Suc (fresh w)) e w3
        | Resolve x \<Rightarrow> afterAdapterResolved env a i options (fresh w) (now w) (Suc (fresh w)) x w3) = Some (r, w2)"
    using w2 unfolding startBody_def InMemoryTransactionAdapter_def
    by (auto split: option.splits prod.splits outcome.splits)
  have "dbRel im_grows w3 w2"
    using rest db_environment.after_rejected(2)[OF E] db_environment.after_resolved(2)[OF E]
    by (cases r1) auto
  with im_transaction_grows[OF cb call] have b: "dbRel im_grows w1 w2" by (rule ig.dbRel_trans)
  have "dbRel im_grows w w1" by (rule ig.alloc) (simp_all add: w1_def)
  with b have "dbRel im_grows w w2" by (metis ig.dbRel_trans)
  then show "dbRel im_grows w w'" by (simp add: w' dbRel_def)
  have "fresh w1 < fresh w3" by (rule im_transaction_fresh[OF cb call])
  then show "fresh w + 3 < fresh w'"
    using \<open>dbRel im_grows w3 w2\<close> w1(3) by (simp add: w' dbRel_def)
qed

text \<open>The modes in which a call outside any transaction begins one.\<close>

definition opensTransaction :: "extended_options \<Rightarrow> bool" where
  "opensTransaction options \<longleftrightarrow>
     o_propagation options \<in> {None, Some REQUIRED, Some REQUIRES_NEW, Some NESTED}"

lemma run_outermost:
  assumes "als w = None" and "resolveAdapterIdentifiers options (registry w) = Inr (a, i)"
    and "registryGet a i (registry w) = Inr k" and "opensTransaction options" and "o_retry options = None"
  shows "run env options fn w = startNew env (adapterOf env k) a i options fn w"
  using assms
  by (auto simp: run_def Let_def withAdapter_def opensTransaction_def startNewWithRetry_def
      normalizeRetry_def getActiveTransaction_outside)

text \<open>
  C2. An outermost call that begins a transaction: when it settles, the transaction of
  this call (the adapter drew its id fourth, after the correlation id, the call's variable
  and the store) is recorded exactly once, rolled back if the call rejects with an error
  that asks for a rollback under the options, committed in every other case.
\<close>

theorem outermost_run_settles:
  fixes w :: "(in_memory_db, 'z) client_world"
  assumes run: "exec (im_env names settled) im_work (Suc n) (Run options p) w = Some (r, w')"
    and outer: "als w = None"
    and ids: "resolveAdapterIdentifiers options (registry w) = Inr (a, i)"
    and reg: "registryGet a i (registry w) = Inr self"
    and mode: "opensTransaction options" and retry: "o_retry options = None"
    and un: "unrecorded self (fresh w) (db w)"
  shows "(timesCommitted self (fresh w + 3) (db w'), timesRolledBack self (fresh w + 3) (db w')) =
    (if rollsBack r options then (0, 1) else (1, 0))"
proof -
  let ?env = "closing (im_env names settled) (exec (im_env names settled) im_work n)"
  have "startNew ?env (adapterOf ?env self) a i options (exec (im_env names settled) im_work n p) w =
      Some (r, w')"
    using run run_outermost[OF outer ids reg mode retry] by simp
  from startNew_settles(1)[OF refl this[unfolded adapterOf_closing] outer un] show ?thesis .
qed

lemma outermost_run_settles_witness:
  "\<exists>w'. sampleRun 5 (Run no_options (Throw (JStr ''no''))) = Some (Reject (JStr ''no''), w') \<and>
     (timesCommitted 0 13 (db w'), timesRolledBack 0 13 (db w')) = (0, 1)"
proof -
  have "map_option fst (sampleRun 5 (Run no_options (Throw (JStr ''no'')))) =
      Some (Reject (JStr ''no''))" by code_simp
  then obtain w' where w': "sampleRun 5 (Run no_options (Throw (JStr ''no''))) =
      Some (Reject (JStr ''no''), w')" by auto
  have "exec (im_env (\<lambda>_. ''default'') (\<lambda>_. Resolve Undef)) im_work (Suc 4)
      (Run no_options (Throw (JStr ''no''))) sampleWorld = Some (Reject (JStr ''no''), w')"
    using w' by (simp add: sampleEnv_def)
  from outermost_run_settles[OF this, of "''in-memory''" "''default''" 0]
  have "(timesCommitted 0 (fresh sampleWorld + 3) (db w'),
      timesRolledBack 0 (fresh sampleWorld + 3) (db w')) = (0, 1)"
    by (simp add: sampleWorld_def sampleRegistry_def register_def newRegistry_def no_options_def
        keyFor_def resolveAdapterIdentifiers_def getDefaultAdapterName_def getDefaultInstanceName_def
        registryGet_def opensTransaction_def unrecorded_def timesCommitted_def timesRolledBack_def
        newInMemoryAdapter_def rollsBack_def shouldRollback_def)
  with w' show ?thesis by (auto simp: sampleWorld_def)
qed

end
