(* ===== verification/Retries.thy ===== *)
theory Retries
  imports Settlement
begin

text \<open>
  Automatic retries (\<open>startNewWithRetry\<close>, \<open>normalizeRetry\<close>, \<open>defaultDelay\<close>). The
  specification of the loop is a chain of starts, each but the last one a rejection
  with an error that was rolled back and may be retried.
\<close>

section \<open>Specification\<close>

text \<open>
  \<open>retry_chain env ad nr once attempt w k r w'\<close>: beginning with attempt number
  \<open>attempt\<close> in \<open>w\<close>, exactly \<open>k\<close> starts are made, the last one with outcome \<open>r\<close>.
\<close>

inductive retry_chain ::
    "('u, 'd, 'z) env \<Rightarrow> ('u, 'd, 'z) world transaction_adapter \<Rightarrow> normalized_retry \<Rightarrow>
     (('u, 'd, 'z) world, jsv) comp \<Rightarrow> nat \<Rightarrow> ('u, 'd, 'z) world \<Rightarrow> nat \<Rightarrow> jsv outcome \<Rightarrow>
     ('u, 'd, 'z) world \<Rightarrow> bool"
  for env ad nr once where
  success: "once w = Some (Resolve v, w1) \<Longrightarrow>
      retry_chain env ad nr once attempt w 1 (Resolve v) w1"
| last: "once w = Some (Reject e, w1) \<Longrightarrow>
      n_maxAttempts nr \<le> attempt \<or> \<not> wasRolledBack e w1 \<or> \<not> retryable ad nr e \<Longrightarrow>
      retry_chain env ad nr once attempt w 1 (Reject e) w1"
| again: "once w = Some (Reject e, w1) \<Longrightarrow> attempt < n_maxAttempts nr \<Longrightarrow>
      wasRolledBack e w1 \<Longrightarrow> retryable ad nr e \<Longrightarrow>
      retry_chain env ad nr once (Suc attempt)
        (sleep (retryDelay (random env w1) nr attempt e) w1) k r w' \<Longrightarrow>
      retry_chain env ad nr once attempt w (Suc k) r w'"

lemma retry_chain_loop:
  "retry_chain env ad nr once attempt w k r w' \<Longrightarrow>
     retryLoop env ad nr once attempt w = Some (r, w')"
  by (induction rule: retry_chain.induct) (subst retryLoop.simps, auto)+

lemma retryLoop_step:
  "once w = Some (r1, w1) \<Longrightarrow> retryLoop env ad nr once attempt w =
     (case r1 of
        Resolve v \<Rightarrow> Some (Resolve v, w1)
      | Reject e \<Rightarrow>
          if n_maxAttempts nr \<le> attempt \<or> \<not> wasRolledBack e w1 \<or> \<not> retryable ad nr e
          then Some (Reject e, w1)
          else retryLoop env ad nr once (Suc attempt)
                 (sleep (retryDelay (random env w1) nr attempt e) w1))"
  by (subst retryLoop.simps) (simp split: outcome.split)

lemma retry_loop_chain:
  "retryLoop env ad nr once attempt w = Some (r, w') \<Longrightarrow>
     \<exists>k. retry_chain env ad nr once attempt w k r w'"
proof (induction "n_maxAttempts nr - attempt" arbitrary: attempt w rule: less_induct)
  case less
  from less.prems obtain r1 w1 where once: "once w = Some (r1, w1)"
    by (subst (asm) retryLoop.simps) (auto split: option.splits)
  note step = less.prems[unfolded retryLoop_step[where once = once and w = w, OF once]]
  show ?case
  proof (cases r1)
    case (Resolve v)
    with step once show ?thesis by (auto intro: retry_chain.success)
  next
    case (Reject e)
    show ?thesis
    proof (cases "n_maxAttempts nr \<le> attempt \<or> \<not> wasRolledBack e w1 \<or> \<not> retryable ad nr e")
      case True
      with step once Reject show ?thesis by (auto intro: retry_chain.last)
    next
      case False
      with step Reject
      have "retryLoop env ad nr once (Suc attempt)
          (sleep (retryDelay (random env w1) nr attempt e) w1) = Some (r, w')" by simp
      with less.hyps False obtain k where "retry_chain env ad nr once (Suc attempt)
          (sleep (retryDelay (random env w1) nr attempt e) w1) k r w'"
        by (meson diff_less_mono2 lessI not_le)
      with once Reject False show ?thesis by (meson not_le retry_chain.again)
    qed
  qed
qed

lemma retry_chain_bound:
  "retry_chain env ad nr once attempt w k r w' \<Longrightarrow> 1 \<le> k \<and> k \<le> max 1 (Suc (n_maxAttempts nr) - attempt)"
  by (induction rule: retry_chain.induct) auto

section \<open>Properties\<close>

text \<open>
  C9. The retry loop settles exactly when such a chain of starts does, with the same
  outcome and the same world, and the chain has at least one start and at most
  \<open>maxAttempts\<close> of them.
\<close>

theorem retryLoop_is_chain:
  assumes "1 \<le> n_maxAttempts nr"
  shows "retryLoop env ad nr once 1 w = Some (r, w') \<longleftrightarrow>
    (\<exists>k. 1 \<le> k \<and> k \<le> n_maxAttempts nr \<and> retry_chain env ad nr once 1 w k r w')"
proof -
  have "1 \<le> k \<and> k \<le> n_maxAttempts nr" if "retry_chain env ad nr once 1 w k r w'" for k
    using retry_chain_bound[OF that] assms by (simp add: max_def split: if_splits)
  then show ?thesis by (blast intro: retry_chain_loop dest: retry_loop_chain)
qed

lemma retryLoop_is_chain_witness:
  "retryLoop sampleEnv (adapterOf sampleEnv 0) \<lparr>n_maxAttempts = 3, n_delay = None, n_retryIf = None\<rparr>
     (throw Null) 1 sampleWorld = Some (Reject Null, sampleWorld) \<longleftrightarrow>
   (\<exists>k. 1 \<le> k \<and> k \<le> 3 \<and>
      retry_chain sampleEnv (adapterOf sampleEnv 0) \<lparr>n_maxAttempts = 3, n_delay = None, n_retryIf = None\<rparr>
        (throw Null) 1 sampleWorld k (Reject Null) sampleWorld)"
  using retryLoop_is_chain[of "\<lparr>n_maxAttempts = 3, n_delay = None, n_retryIf = None\<rparr>"] by simp

text \<open>
  C40. The default backoff before the next attempt is at least zero and less than the
  exponential bound from 10 ms and less than one second, for every value
  \<open>Math.random\<close> can return.
\<close>

theorem defaultDelay_bounds:
  assumes "0 \<le> r" and "r < 1"
  shows "0 \<le> defaultDelay r attempt \<and> defaultDelay r attempt < 10 * 2 ^ (attempt - 1) \<and>
    defaultDelay r attempt < 1000"
proof (intro conjI)
  let ?m = "min 1000 (10 * 2 ^ (attempt - 1)) :: rat"
  have m: "0 < ?m" by simp
  have lt: "of_int (defaultDelay r attempt) < ?m"
  proof -
    have "of_int (defaultDelay r attempt) \<le> r * ?m"
      unfolding defaultDelay_def by (rule of_int_floor_le)
    also have "\<dots> < 1 * ?m" using assms m by (intro mult_strict_right_mono) auto
    finally show ?thesis by simp
  qed
  show "0 \<le> defaultDelay r attempt" using assms m by (simp add: defaultDelay_def)
  have "of_int (defaultDelay r attempt) < (of_int 1000 :: rat)" using lt by simp
  then show "defaultDelay r attempt < 1000" by (simp only: of_int_less_iff)
  have "of_int (defaultDelay r attempt) < (of_int (10 * 2 ^ (attempt - 1)) :: rat)" using lt by simp
  then show "defaultDelay r attempt < 10 * 2 ^ (attempt - 1)" by (simp only: of_int_less_iff)
qed

lemma defaultDelay_bounds_witness:
  "0 \<le> defaultDelay (1 / 3) 4 \<and> defaultDelay (1 / 3) 4 < 80 \<and> defaultDelay (1 / 3) 4 < 1000"
  using defaultDelay_bounds[of "1 / 3" 4] by simp

text \<open>The number of attempts a setting asks for.\<close>

fun requestedAttempts :: "retry_setting \<Rightarrow> jsnum" where
  "requestedAttempts (RetryNumber n) = n"
| "requestedAttempts (RetryObject ro) = r_maxAttempts ro"

text \<open>
  A retry setting is refused with a \<open>TypeError\<close> exactly when its number of attempts
  is not an integer or is less than one; otherwise the loop gets that number, at least one.
\<close>

theorem normalizeRetry_checks:
  "(normalizeRetry (Some s) = Inl TypeError \<longleftrightarrow> \<not> (\<exists>n\<ge>1. requestedAttempts s = JInt n)) \<and>
   (normalizeRetry (Some s) = Inr (Some nr) \<longleftrightarrow>
     (\<exists>n\<ge>1. requestedAttempts s = JInt n \<and> n_maxAttempts nr = nat n \<and> 1 \<le> n_maxAttempts nr \<and>
        n_delay nr = (case s of RetryNumber _ \<Rightarrow> None | RetryObject ro \<Rightarrow> r_delay ro) \<and>
        n_retryIf nr = (case s of RetryNumber _ \<Rightarrow> None | RetryObject ro \<Rightarrow> r_retryIf ro))) \<and>
   normalizeRetry (Some s) \<noteq> Inr None"
  by (cases s) (auto simp: normalizeRetry_def Let_def split: jsnum.splits if_splits)

end
