(* ===== verification/Hooks.thy ===== *)
theory Hooks
  imports Retries
begin

text \<open>
  Lifecycle hooks and pending writes. The loops over the live hook arrays are compared
  with runs over a fixed list, the array as it is when the loop has ended.
\<close>

section \<open>Specification\<close>

text \<open>Every hook in turn, whatever each one does.\<close>

fun runAll ::
    "('u, 'd, 'z) env \<Rightarrow> 'u hook list \<Rightarrow> jsv \<Rightarrow> ('u, 'd, 'z) world \<Rightarrow> ('u, 'd, 'z) world option" where
  "runAll env [] arg w = Some w"
| "runAll env (h # hs) arg w =
     (case invoke env h arg w of None \<Rightarrow> None | Some (r, w1) \<Rightarrow> runAll env hs arg w1)"

text \<open>Every hook in turn, until one rejects.\<close>

fun runUntil ::
    "('u, 'd, 'z) env \<Rightarrow> 'u hook list \<Rightarrow> (('u, 'd, 'z) world, unit) comp" where
  "runUntil env [] w = Some (Resolve (), w)"
| "runUntil env (h # hs) w =
     (case invoke env h Undef w of
        None \<Rightarrow> None
      | Some (Reject e, w1) \<Rightarrow> Some (Reject e, w1)
      | Some (Resolve v, w1) \<Rightarrow> runUntil env hs w1)"

section \<open>The loops meet it\<close>

text \<open>A hook array that only grows while transactions stay the same objects.\<close>

definition growing :: "('u hook active_tx \<Rightarrow> 'u hook list) \<Rightarrow> bool" where
  "growing sel \<longleftrightarrow> (\<forall>a b. sameTx a b \<longrightarrow> (\<exists>hs. sel b = sel a @ hs))"

lemma growing_hooks [simp]:
  "growing afterCommitHooks" "growing afterRollbackHooks" "growing beforeCommitHooks"
  by (auto simp: growing_def sameTx_def)

lemma growing_step:
  assumes "growing sel" and "sameTx a b" and "i < length (sel a)"
  shows "drop i (sel b) = (sel a ! i) # drop (Suc i) (sel b)" and "i < length (sel b)"
proof -
  obtain hs where "sel b = sel a @ hs" using assms by (auto simp: growing_def)
  then show "drop i (sel b) = (sel a ! i) # drop (Suc i) (sel b)" "i < length (sel b)"
    using assms(3) by (simp_all add: Cons_nth_drop_Suc[symmetric] nth_append)
qed

context lawful_environment
begin

lemma invoked_framed:
  assumes "invoke env h arg w = Some (r, w1)" and "wf_world w" and "t < fresh w"
  shows "framedAll w w1" "wf_world w1" "t < fresh w1"
proof -
  show f: "framedAll w w1" by (rule keepsD[OF invoke_tame assms(1)])
  note f' = framedAllD[OF f assms(2) order_refl]
  show "wf_world w1" by (rule wf_world_framed[OF f' assms(2)])
  show "t < fresh w1" using framed_fresh[OF f'] assms(3) by simp
qed

lemma framedAll_tx: "framedAll w w' \<Longrightarrow> wf_world w \<Longrightarrow> t < fresh w \<Longrightarrow> sameTx (txs w t) (txs w' t)"
  by (blast intro: framed_tx framedAllD)

lemma runHooks_runs_all:
  assumes "growing sel" and "runHooks env sel t arg i w = Some w'"
    and "wf_world w" and "t < fresh w"
  shows "runAll env (drop i (sel (txs w' t))) arg w = Some w'"
proof -
  have "wf_world w \<and> t < fresh w \<longrightarrow>
      framedAll w w' \<and> runAll env (drop i (sel (txs w' t))) arg w = Some w'"
    using assms(2)
  proof (rule runHooks_induct, goal_cases)
    case (1 i w)
    then show ?case using reflpD[OF reflp_framedAll, of w] by simp
  next
    case (2 i w r w1 x)
    show ?case
    proof
      assume w: "wf_world w \<and> t < fresh w"
      note inv = invoked_framed[OF 2(2), of t]
      have x: "framedAll w1 x" "runAll env (drop (Suc i) (sel (txs x t))) arg w1 = Some x"
        using 2(3) inv w by blast+
      have f: "framedAll w x" using framedAll_trans inv(1) w x(1) by blast
      show "framedAll w x \<and> runAll env (drop i (sel (txs x t))) arg w = Some x"
        using growing_step(1)[OF assms(1) framedAll_tx[OF f] 2(1)] w f x(2) 2(2) by simp
    qed
  qed
  then show ?thesis using assms(3,4) by blast
qed

lemma runBeforeCommit_runs:
  assumes "runBeforeCommit env t i w = Some (r, w')" and "wf_world w" and "t < fresh w"
  shows "\<exists>hs rest. drop i (beforeCommitHooks (txs w' t)) = hs @ rest \<and>
    runUntil env hs w = Some (r, w') \<and> (r = Resolve () \<longrightarrow> rest = [])"
proof -
  define P where "P = (\<lambda>i w x. wf_world w \<and> t < fresh w \<longrightarrow> framedAll w (snd x) \<and>
      (\<exists>hs rest. drop i (beforeCommitHooks (txs (snd x) t)) = hs @ rest \<and>
         runUntil env hs w = Some x \<and> (fst x = Resolve () \<longrightarrow> rest = [])))"
  have "P i w (r, w')"
    using assms(1)
  proof (rule runBeforeCommit_induct, goal_cases)
    case (1 i w)
    then show ?case using reflpD[OF reflp_framedAll, of w] by (simp add: P_def)
  next
    case (2 i w e w1)
    show ?case
      unfolding P_def fst_conv snd_conv
    proof
      assume w: "wf_world w \<and> t < fresh w"
      have f: "framedAll w w1" using invoked_framed[OF 2(2), of t] w by blast
      show "framedAll w w1 \<and> (\<exists>hs rest. drop i (beforeCommitHooks (txs w1 t)) = hs @ rest \<and>
          runUntil env hs w = Some (Reject e, w1) \<and> (Reject e = Resolve () \<longrightarrow> rest = []))"
        using growing_step(1)[OF growing_hooks(3) framedAll_tx[OF f] 2(1)] w f 2(2)
        by (intro conjI exI[of _ "[beforeCommitHooks (txs w t) ! i]"]
            exI[of _ "drop (Suc i) (beforeCommitHooks (txs w1 t))"]) simp_all
    qed
  next
    case (3 i w v w1 x)
    show ?case
      unfolding P_def
    proof
      assume w: "wf_world w \<and> t < fresh w"
      note inv = invoked_framed[OF 3(2), of t]
      obtain hs rest where x: "framedAll w1 (snd x)"
        "drop (Suc i) (beforeCommitHooks (txs (snd x) t)) = hs @ rest"
        "runUntil env hs w1 = Some x" "fst x = Resolve () \<longrightarrow> rest = []"
        using 3(3) inv w unfolding P_def by blast
      have f: "framedAll w (snd x)" using framedAll_trans inv(1) w x(1) by blast
      show "framedAll w (snd x) \<and> (\<exists>hs rest. drop i (beforeCommitHooks (txs (snd x) t)) = hs @ rest \<and>
          runUntil env hs w = Some x \<and> (fst x = Resolve () \<longrightarrow> rest = []))"
        using growing_step(1)[OF growing_hooks(3) framedAll_tx[OF f] 3(1)] w f x 3(2)
        by (intro conjI exI[of _ "(beforeCommitHooks (txs w t) ! i) # hs"] exI[of _ rest]) simp_all
    qed
  qed
  then show ?thesis using assms(2,3) by (auto simp: P_def)
qed

end

section \<open>Properties of hooks\<close>

text \<open>A world with one transaction, with two hooks of each kind.\<close>

definition hookedWorld :: "(in_memory_db, unit) client_world" where
  "hookedWorld =
     updateTx 5 (pushBeforeCommit (UserHook (\<lambda>_. Give Null)) \<circ> pushBeforeCommit (DrainHook 5) \<circ>
       pushAfterCommit (UserHook (\<lambda>_. ThrowNew [''Error''])) \<circ> pushAfterCommit (UserHook Give))
       (sampleWorld\<lparr>pending := [5 \<mapsto> [1, 2]]\<rparr>)"

abbreviation sampleClosed :: "(in_memory_db, unit) client_env" where
  "sampleClosed \<equiv> closing sampleEnv (exec sampleEnv im_work 3)"

lemma sample_environment: "lawful_environment (closing sampleEnv (exec sampleEnv im_work n))"
  unfolding sampleEnv_def by (rule ic.closing_lawful[OF ic.exec_tame])

lemma sample_tame: "tame (exec sampleEnv im_work n p)"
  unfolding sampleEnv_def by (rule ic.exec_tame)

lemma hooked_wf: "wf_world hookedWorld" "5 < fresh hookedWorld"
  by (simp_all add: hookedWorld_def sampleWorld_def wf_world_def updateTx_def)

text \<open>
  C11. After-commit and after-rollback hooks: when the loop ends, every hook that is then in
  the array has run exactly once, in the order of registration, those registered by
  other hooks meanwhile included, and a hook that rejects stops nothing.
\<close>

theorem lifecycle_hooks_all_run:
  assumes "lawful_environment env" and "sel \<in> {afterCommitHooks, afterRollbackHooks}"
    and "wf_world w" and "t < fresh w"
    and "runHooks env sel t arg 0 w = Some w'"
  shows "runAll env (sel (txs w' t)) arg w = Some w'"
proof -
  have "growing sel" using assms(2) by auto
  from lawful_environment.runHooks_runs_all[OF assms(1) this assms(5,3,4)]
  show ?thesis by simp
qed

lemma lifecycle_hooks_all_run_witness:
  "\<exists>w'. runHooks sampleClosed afterCommitHooks 5 Undef 0 hookedWorld = Some w' \<and>
     runAll sampleClosed (afterCommitHooks (txs w' 5)) Undef hookedWorld = Some w'"
proof -
  have "map_option fresh (runHooks sampleClosed afterCommitHooks 5 Undef 0 hookedWorld) = Some 11"
    by code_simp
  then obtain w' where "runHooks sampleClosed afterCommitHooks 5 Undef 0 hookedWorld = Some w'" by auto
  with lifecycle_hooks_all_run[OF sample_environment _ hooked_wf this] show ?thesis by simp
qed

text \<open>
  C10. What commits: a transaction body resolves in exactly these cases. Either the function
  resolved and every before-commit hook, those registered late included, ran after it, in
  order, and resolved; or an error the options exempt from rollback came up, and the body
  settles with it: a hook's, and then the hooks before it ran in order and those after it
  did not run, or the function's own, and then no hook ran at all.
\<close>

theorem body_commits_after_hooks:
  assumes env: "lawful_environment env" and fn: "tame fn" and w: "wf_world w" "t < fresh w"
    and run: "guardedBody env t options fn w = Some (Resolve result, w')"
  shows "\<exists>r0 w1. fn w = Some (r0, w1) \<and>
    (case r0 of
       Resolve v \<Rightarrow>
         \<exists>ran rest. beforeCommitHooks (txs w' t) = ran @ rest \<and>
           (case result of
              IOk v' \<Rightarrow> v' = v \<and> rest = [] \<and> runUntil env ran w1 = Some (Resolve (), w')
            | IErr e \<Rightarrow> \<not> shouldRollback e options \<and> runUntil env ran w1 = Some (Reject e, w'))
     | Reject e \<Rightarrow> result = IErr e \<and> \<not> shouldRollback e options \<and> w' = w1)"
proof -
  obtain r0 w1 where f: "fn w = Some (r0, w1)"
    using run unfolding guardedBody_def
    by (cases "fn w") (auto simp: catching_Some andThen_Some)
  have fr: "framed (fresh w) w w1" by (rule tameD[OF fn f w(1) order_refl])
  have w1: "wf_world w1" "t < fresh w1"
    using wf_world_framed[OF fr w(1)] framed_fresh[OF fr] w(2) by auto
  show ?thesis
  proof (cases r0)
    case (Reject e)
    with f run show ?thesis
      by (auto simp: guardedBody_def catching_def andThen_def split: if_splits)
  next
    case (Resolve v)
    from run f Resolve obtain r1 where h: "runBeforeCommit env t 0 w1 = Some (r1, w')"
      and r1: "case r1 of Resolve _ \<Rightarrow> result = IOk v
        | Reject e \<Rightarrow> result = IErr e \<and> \<not> shouldRollback e options"
      unfolding guardedBody_def
      by (auto simp: catching_def andThen_def split: option.splits outcome.splits if_splits)
    from lawful_environment.runBeforeCommit_runs[OF env h w1] r1 f Resolve show ?thesis
      by (cases r1) auto
  qed
qed

lemma body_commits_after_hooks_witness:
  "\<exists>w' w1. guardedBody sampleClosed 5 no_options (exec sampleEnv im_work 2 (Give Null)) hookedWorld =
       Some (Resolve (IOk Null), w') \<and>
     exec sampleEnv im_work 2 (Give Null) hookedWorld = Some (Resolve Null, w1) \<and>
     runUntil sampleClosed (beforeCommitHooks (txs w' 5)) w1 = Some (Resolve (), w')"
proof -
  have fn: "exec sampleEnv im_work 2 (Give Null) hookedWorld = Some (Resolve Null, hookedWorld)"
    by (simp add: numeral_2_eq_2 ret_def)
  have "map_option fst (guardedBody sampleClosed 5 no_options (exec sampleEnv im_work 2 (Give Null))
      hookedWorld) = Some (Resolve (IOk Null))"
    by code_simp
  then obtain w' where "guardedBody sampleClosed 5 no_options (exec sampleEnv im_work 2 (Give Null))
      hookedWorld = Some (Resolve (IOk Null), w')" by auto
  with body_commits_after_hooks[OF sample_environment sample_tame hooked_wf this] fn
  show ?thesis by auto
qed

text \<open>
  When the function rejects with an error the options exempt from rollback, the body
  goes on to commit in the very world the rejection left: not one before-commit hook runs,
  whatever hooks there are.
\<close>

theorem exempt_error_skips_hooks:
  assumes "fn w = Some (Reject e, w1)" and "\<not> shouldRollback e options"
  shows "guardedBody env t options fn w = Some (Resolve (IErr e), w1)"
  using assms by (simp add: guardedBody_def catching_def andThen_def)

lemma exempt_error_skips_hooks_witness:
  "guardedBody sampleClosed 5 (no_options\<lparr>o_noRollbackFor := Some [''Soft'']\<rparr>)
     (throw (JObj 3 [''Soft'', ''Error''] [])) hookedWorld =
     Some (Resolve (IErr (JObj 3 [''Soft'', ''Error''] [])), hookedWorld)"
  by (rule exempt_error_skips_hooks) (simp_all add: shouldRollback_def)

section \<open>Pending writes\<close>

text \<open>What a \<open>Set\<close> holds after its elements were added one by one.\<close>

lemma fold_setAdd: "set (fold setAdd ps xs) = set xs \<union> set ps" "distinct xs \<longrightarrow> distinct (fold setAdd ps xs)"
  by (induction ps arbitrary: xs) (auto simp: setAdd_def)

lemma fold_trackPending_tracked:
  "pending w t = Some xs \<Longrightarrow>
     fold (trackPending t) ps w = w\<lparr>pending := (pending w)(t \<mapsto> fold setAdd ps xs)\<rparr>"
proof (induction ps arbitrary: w xs)
  case Nil
  then have "(pending w)(t \<mapsto> xs) = pending w" by (simp add: fun_upd_idem)
  then show ?case by simp
next
  case (Cons p ps)
  have p: "trackPending t p w = w\<lparr>pending := (pending w)(t \<mapsto> setAdd p xs)\<rparr>"
    by (simp add: trackPending_def Cons.prems)
  show ?case unfolding fold_simps p by (subst Cons.IH) simp_all
qed

text \<open>
  However many promises are tracked on a transaction, one hook drains them: the first
  call adds a single hook, after those registered before it, and the set then holds
  each promise once.
\<close>

theorem trackPending_single_drain:
  assumes "pending w t = None" and "ps \<noteq> []"
  shows "beforeCommitHooks (txs (fold (trackPending t) ps w) t) =
      beforeCommitHooks (txs w t) @ [DrainHook t] \<and>
    (\<exists>qs. pending (fold (trackPending t) ps w) t = Some qs \<and> distinct qs \<and> set qs = set ps)"
proof -
  obtain p ps' where ps: "ps = p # ps'" using assms(2) by (cases ps) auto
  have p: "pending (trackPending t p w) t = Some [p]"
    using assms(1) by (simp add: trackPending_def updateTx_def)
  show ?thesis
    unfolding ps fold_simps fold_trackPending_tracked[OF p]
    using assms(1) fold_setAdd(1)[of ps' "[p]"] fold_setAdd(2)[of "[p]" ps']
    by (simp add: trackPending_def updateTx_def pushBeforeCommit_def)
qed

lemma trackPending_single_drain_witness:
  "beforeCommitHooks (txs (fold (trackPending 5) [1, 2, 1] sampleWorld) 5) = [DrainHook 5] \<and>
    (\<exists>qs. pending (fold (trackPending 5) [1, 2, 1] sampleWorld) 5 = Some qs \<and> distinct qs \<and>
       set qs = {1, 2})"
  using trackPending_single_drain[of sampleWorld 5 "[1, 2, 1]"]
  by (simp add: sampleWorld_def insert_commute)

text \<open>
  When the drain of a transaction resolves, no tracked promise is left, those tracked
  while earlier ones were awaited included; when it rejects, it rejects with what awaiting
  a batch rejected with.
\<close>

theorem drain_leaves_nothing:
  assumes "drain env t w = Some (r, w')"
  shows "case r of
      Resolve v \<Rightarrow> pending w' t = None \<or> pending w' t = Some []
    | Reject e \<Rightarrow> \<exists>ps w1. ps \<noteq> [] \<and> awaitAll env ps w1 = Some (Reject e, w')"
proof -
  have "case fst x of
      Resolve v \<Rightarrow> pending (snd x) t = None \<or> pending (snd x) t = Some []
    | Reject e \<Rightarrow> \<exists>ps w1. ps \<noteq> [] \<and> awaitAll env ps w1 = Some (Reject e, snd x)"
    if "drain env t w = Some x" for x
    using that by (rule drain_induct) auto
  from this[OF assms] show ?thesis by (simp only: fst_conv snd_conv)
qed

lemma drain_leaves_nothing_witness:
  "\<exists>w'. drain sampleEnv 5 hookedWorld = Some (Resolve Undef, w') \<and>
     (pending w' 5 = None \<or> pending w' 5 = Some [])"
proof -
  have "map_option fst (drain sampleEnv 5 hookedWorld) = Some (Resolve Undef)" by code_simp
  then obtain w' where "drain sampleEnv 5 hookedWorld = Some (Resolve Undef, w')" by auto
  with drain_leaves_nothing[OF this] show ?thesis by simp
qed

end
