(* ===== verification/Context_Typing.thy ===== *)
theory Context_Typing
  imports Client Propagation
begin

text \<open>
  The type of the context (\<open>packages/core/src/context\<close>). In a typed context the current
  store was allocated, its map has each key once, and the transaction under a key was begun
  and is filed under the key of its own adapter and instance. Every operation keeps the
  context typed, so that all client code finds it typed: \<open>execTyped\<close> is \<open>exec\<close> with an
  assertion in front of every program and hook, at any depth, and is the same function.
\<close>

lemma set_delete_subset: "set (AList.delete k m) \<subseteq> set m"
  by (auto simp: AList.delete_eq)

lemma set_update_subset: "set (AList.update k v m) \<subseteq> insert (k, v) (set m)"
  by (induction m) auto

section \<open>Typed contexts\<close>

definition entryTyped :: "('h, 'z) ctx_world_scheme \<Rightarrow> string \<times> nat \<Rightarrow> bool" where
  "entryTyped w e \<longleftrightarrow>
     snd e < fresh w \<and>
     fst e = contextKey (adapterName (txs w (snd e))) (adapterInstanceName (txs w (snd e)))"

definition typedContext :: "('h, 'z) ctx_world_scheme \<Rightarrow> bool" where
  "typedContext w =
     (case als w of
        None \<Rightarrow> True
      | Some s \<Rightarrow>
          s < fresh w \<and> distinct (map fst (activeTransactions (stores w s))) \<and>
          list_all (entryTyped w) (activeTransactions (stores w s)))"

lemma typedContext_wf: "typedContext w \<Longrightarrow> wf_world w"
  by (auto simp: typedContext_def wf_world_def split: option.splits)

lemma typedContext_outside: "als w = None \<Longrightarrow> typedContext w"
  by (simp add: typedContext_def)

lemma entryTyped_framed:
  assumes "framed n w w'" and "snd e < n" and "entryTyped w e"
  shows "entryTyped w' e"
  using framed_tx[OF assms(1,2)] framed_fresh[OF assms(1)] assms(3)
  by (auto simp: entryTyped_def sameTx_def)

text \<open>Whatever keeps the transactional state there was keeps the context typed.\<close>

lemma typedContext_framedAll:
  assumes "framedAll w w'" and "typedContext w"
  shows "typedContext w'"
proof (cases "als w")
  case None
  then show ?thesis
    using framed_als[OF framedAllD[OF assms(1) typedContext_wf[OF assms(2)] order_refl]]
    by (simp add: typedContext_outside)
next
  case (Some s)
  have f: "framed (fresh w) w w'"
    by (rule framedAllD[OF assms(1) typedContext_wf[OF assms(2)] order_refl])
  let ?m = "activeTransactions (stores w s)" and ?m' = "activeTransactions (stores w' s)"
  have s: "s < fresh w" and d: "distinct (map fst ?m)" and ok: "list_all (entryTyped w) ?m"
    using assms(2) Some by (auto simp: typedContext_def)
  have same: "sameStore (stores w s) (stores w' s)" using f s by (simp add: framed_def)
  then have d': "distinct (map fst ?m')" using d by (simp add: sameStore_def)
  have "set ?m' = set ?m" using same d d' by (simp add: sameStore_def map_of_inject_set)
  then have "list_all (entryTyped w') ?m'"
    using ok entryTyped_framed[OF f] by (auto simp: list_all_iff entryTyped_def)
  then show ?thesis
    using d' s framed_fresh[OF f] framed_als[OF f] Some by (simp add: typedContext_def)
qed

lemma typedContext_quiet: "quiet w w' \<Longrightarrow> typedContext w \<Longrightarrow> typedContext w'"
  by (rule typedContext_framedAll[OF quiet_framedAll])

lemma typedContext_tame: "tame f \<Longrightarrow> f w = Some (r, w') \<Longrightarrow> typedContext w \<Longrightarrow> typedContext w'"
  by (blast dest: keepsD intro: typedContext_framedAll)

lemma typedContext_remove:
  "typedContext w \<Longrightarrow> typedContext (removeActiveTransaction key w)"
  by (auto simp: typedContext_def removeActiveTransaction_inside distinct_delete list_all_iff
      entryTyped_def dest: subsetD[OF set_delete_subset] split: option.splits)

section \<open>Computations that keep the context typed\<close>

abbreviation typedStep :: "('h, 'z) ctx_world_scheme \<Rightarrow> ('h, 'z) ctx_world_scheme \<Rightarrow> bool" where
  "typedStep w w' \<equiv> typedContext w \<longrightarrow> typedContext w'"

lemma typedStep_order [simp, keeps_intros]: "reflp typedStep" "transp typedStep"
  by (auto simp: reflp_def transp_def)

lemma tame_typed: "tame f \<Longrightarrow> keeps typedStep f"
  by (rule keepsI) (blast intro: typedContext_tame)

lemma typedStep_remove: "keeps typedStep (modify (removeActiveTransaction key))"
  by (rule keepsI) (auto simp: typedContext_remove)

section \<open>Refinement in typed contexts\<close>

definition refinesTyped ::
    "(('h, 'z) ctx_world_scheme, 'a) comp \<Rightarrow> (('h, 'z) ctx_world_scheme, 'a) comp \<Rightarrow> bool" where
  "refinesTyped f g \<longleftrightarrow> (\<forall>w x. typedContext w \<longrightarrow> f w = Some x \<longrightarrow> g w = Some x)"

lemma refinesTypedI:
  "(\<And>w r w'. typedContext w \<Longrightarrow> f w = Some (r, w') \<Longrightarrow> g w = Some (r, w')) \<Longrightarrow> refinesTyped f g"
  unfolding refinesTyped_def by (metis surj_pair)

lemma refinesTypedD: "refinesTyped f g \<Longrightarrow> f w = Some x \<Longrightarrow> typedContext w \<Longrightarrow> g w = Some x"
  unfolding refinesTyped_def by blast

lemma refinesTyped_refl [simp]: "refinesTyped f f"
  by (simp add: refinesTyped_def)

lemma refinesTyped_assert: "refinesTyped f (assertIn typedContext f)"
  by (simp add: refinesTyped_def assertIn_def)

lemma refinesTyped_andThen:
  "refinesTyped f f' \<Longrightarrow> keeps typedStep f \<Longrightarrow> (\<And>v. refinesTyped (g v) (g' v)) \<Longrightarrow>
     refinesTyped (andThen f g) (andThen f' g')"
  by (rule refinesTypedI) (simp add: andThen_Some, blast dest: refinesTypedD keepsD)

lemma refinesTyped_catching:
  "refinesTyped f f' \<Longrightarrow> keeps typedStep f \<Longrightarrow> (\<And>e. refinesTyped (h e) (h' e)) \<Longrightarrow>
     refinesTyped (catching f h) (catching f' h')"
  by (rule refinesTypedI) (simp add: catching_Some, blast dest: refinesTypedD keepsD)

lemma refinesTyped_finallyDo:
  "refinesTyped f f' \<Longrightarrow> keeps typedStep f \<Longrightarrow> refinesTyped fin fin' \<Longrightarrow>
     refinesTyped (finallyDo f fin) (finallyDo f' fin')"
  by (rule refinesTypedI) (simp add: finallyDo_Some, blast dest: refinesTypedD keepsD)

section \<open>The manager\<close>

text \<open>Hooks that are only defined in typed contexts.\<close>

definition typedHooks :: "('u, 'd, 'z) env \<Rightarrow> ('u, 'd, 'z) env \<Rightarrow> bool" where
  "typedHooks env env' \<longleftrightarrow>
     (\<exists>ch. env' = env\<lparr>callHook := ch\<rparr> \<and> (\<forall>u arg. refinesTyped (callHook env u arg) (ch u arg)))"

lemma typedHooks_fields:
  assumes "typedHooks env env'"
  shows "adapterOf env' = adapterOf env" "awaitAll env' = awaitAll env"
    "observers env' = observers env" "random env' = random env"
    "refinesTyped (callHook env u arg) (callHook env' u arg)"
  using assms by (auto simp: typedHooks_def)

lemma typedHooks_notify:
  assumes env: "typedHooks env env'"
  shows "notifyStart env' = notifyStart env" "notifyCommit env' = notifyCommit env"
    "notifyRollback env' = notifyRollback env"
  by (simp_all add: notifyStart_def notifyCommit_def notifyRollback_def typedHooks_fields[OF env])

lemma invoke_typed:
  assumes env: "typedHooks env env'"
  shows "refinesTyped (invoke env h arg) (invoke env' h arg)"
proof (cases h)
  case (DrainHook t)
  then show ?thesis
    by (auto simp: refinesTyped_def intro: drain_env[OF typedHooks_fields(2)[OF env]])
qed (simp add: typedHooks_fields(5)[OF env])

text \<open>The callback files its transaction under the key of its own names.\<close>

lemma typedContext_begin:
  assumes "typedContext w" and "als w = Some s"
  shows "typedContext (updateStore s (AList.update (contextKey a i) (fresh w))
    (w\<lparr>fresh := Suc (fresh w), txs := (txs w)(fresh w := newActiveTx h a i options n corr), cells := c\<rparr>))"
  using assms
  by (auto simp: typedContext_def entryTyped_def newActiveTx_def list_all_iff distinct_update
      less_Suc_eq updateStore_def dest!: subsetD[OF set_update_subset])

context lawful_adapter
begin

lemma transaction_typed:
  assumes "\<And>h. keeps typedStep (cb h)"
  shows "keeps typedStep (a_runInTransaction ad opts cb)"
proof (rule keepsI)
  fix w r w' assume "a_runInTransaction ad opts cb w = Some (r, w')"
  from in_transaction[OF this] consider "quiet w w'"
    | h w1 r1 w2 where "quiet w w1" "cb h w1 = Some (r1, w2)" "quiet w2 w'"
    unfolding wraps_def by blast
  then show "typedStep w w'"
  proof cases
    case 2
    then show ?thesis using keepsD[OF assms 2(2)] typedContext_quiet by blast
  qed (blast intro: typedContext_quiet)
qed

lemma transaction_refinesTyped:
  assumes cb: "\<And>h. refinesTyped (cb h) (cb' h)"
  shows "refinesTyped (a_runInTransaction ad opts cb) (a_runInTransaction ad opts cb')"
proof (rule refinesTypedI)
  fix w r w' assume w: "typedContext w" and run: "a_runInTransaction ad opts cb w = Some (r, w')"
  define g where "g = (\<lambda>h. assertIn typedContext (cb h))"
  have "a_runInTransaction ad opts cb w = a_runInTransaction ad opts g w"
    by (rule transaction_local) (simp add: g_def assertIn_def typedContext_quiet[OF _ w])
  moreover have "refines_comp (g h) (cb' h)" for h
    using cb[of h] by (auto simp: g_def assertIn_def refines_comp_def refinesTyped_def)
  ultimately show "a_runInTransaction ad opts cb' w = Some (r, w')"
    using run by (metis refines_compD transaction_mono)
qed

lemma savepoint_refinesTyped:
  assumes cb: "\<And>h. refinesTyped (cb h) (cb' h)"
  shows "refinesTyped (a_runInSavepoint ad parent cb) (a_runInSavepoint ad parent cb')"
proof (rule refinesTypedI)
  fix w r w' assume w: "typedContext w" and run: "a_runInSavepoint ad parent cb w = Some (r, w')"
  define g where "g = (\<lambda>h. assertIn typedContext (cb h))"
  have "a_runInSavepoint ad parent cb w = a_runInSavepoint ad parent g w"
    by (rule savepoint_local) (simp add: g_def assertIn_def typedContext_quiet[OF _ w])
  moreover have "refines_comp (g h) (cb' h)" for h
    using cb[of h] by (auto simp: g_def assertIn_def refines_comp_def refinesTyped_def)
  ultimately show "a_runInSavepoint ad parent cb' w = Some (r, w')"
    using run by (metis refines_compD savepoint_mono)
qed

end

context lawful_environment
begin

lemma beforeCommit_typed:
  assumes env: "typedHooks env env'"
  shows "refinesTyped (runBeforeCommit env t i) (runBeforeCommit env' t i)"
proof (rule refinesTypedI)
  fix w r w' assume w: "typedContext w" and run: "runBeforeCommit env t i w = Some (r, w')"
  from run have "typedContext w \<longrightarrow> runBeforeCommit env' t i w = Some (r, w')"
    by (rule runBeforeCommit_induct)
      (auto simp: runBeforeCommit.simps[of env'] dest: refinesTypedD[OF invoke_typed[OF env]]
        typedContext_tame[OF invoke_tame])
  with w show "runBeforeCommit env' t i w = Some (r, w')" by blast
qed

lemma hooks_typed:
  assumes env: "typedHooks env env'" and run: "runHooks env sel t arg i w = Some w'"
  shows "typedContext w \<longrightarrow> runHooks env' sel t arg i w = Some w'"
  using run
  by (rule runHooks_induct)
    (auto simp: runHooks.simps[of env'] dest: refinesTypedD[OF invoke_typed[OF env]]
      typedContext_tame[OF invoke_tame])

lemma guardedBody_typed:
  assumes "typedHooks env env'" and "tame fn" and "refinesTyped fn fn'"
  shows "refinesTyped (guardedBody env t options fn) (guardedBody env' t options fn')"
  unfolding guardedBody_def
  by (intro refinesTyped_catching refinesTyped_andThen beforeCommit_typed refinesTyped_refl assms
      tame_typed keeps_intros beforeCommit_tame)

lemma txCallback_typed:
  assumes env: "typedHooks env env'" and fn: "tame fn" "refinesTyped fn fn'"
  shows "keeps typedStep (txCallback env a i options corr cell fn h)"
    and "refinesTyped (txCallback env a i options corr cell fn h) (txCallback env' a i options corr cell fn' h)"
proof -
  let ?fin = "modify (removeActiveTransaction (contextKey a i))"
  have fin: "refinesTyped (finallyDo (guardedBody env t options fn) ?fin) (finallyDo (guardedBody env' t options fn') ?fin)" for t
    by (intro refinesTyped_finallyDo guardedBody_typed tame_typed guardedBody_tame refinesTyped_refl env fn)
  have keeps: "keeps typedStep (finallyDo (guardedBody env t options fn) ?fin)" for t
    by (intro keeps_finallyDo typedStep_order tame_typed guardedBody_tame fn typedStep_remove)
  have begun: "txCallback env' a i options corr cell fn' h w = Some (r, w') \<and> typedContext w'"
    if w: "typedContext w" and run: "txCallback env a i options corr cell fn h w = Some (r, w')" for w r w'
  proof (cases "als w")
    case None
    obtain cs ps where err: "IllegalTransactionStateError = FwError cs ps"
      by (cases IllegalTransactionStateError)
    from None run show ?thesis
      by (auto simp: txCallback_def Let_def setActiveTransaction_def typedContext_outside err)
  next
    case (Some s)
    define w2 where "w2 = updateStore s (AList.update (contextKey a i) (fresh w))
      (w\<lparr>fresh := Suc (fresh w), txs := (txs w)(fresh w := newActiveTx h a i options (now w) corr),
         cells := (cells w)(cell \<mapsto> fresh w)\<rparr>)"
    have "typedContext w2" unfolding w2_def by (rule typedContext_begin[OF w Some])
    then have started: "typedContext w3" if "notifyStart env (startContext h a i corr options) w2 = Some w3" for w3
      using typedContext_framedAll[OF notify_framed(1)[OF that]] by simp
    from run Some obtain w3 where w3: "notifyStart env (startContext h a i corr options) w2 = Some w3"
      and body: "finallyDo (guardedBody env (fresh w) options fn) ?fin w3 = Some (r, w')"
      unfolding txCallback_def Let_def w2_def by (auto simp: setActiveTransaction_inside split: option.splits)
    have "finallyDo (guardedBody env' (fresh w) options fn') ?fin w3 = Some (r, w')"
      by (rule refinesTypedD[OF fin body started[OF w3]])
    then have "txCallback env' a i options corr cell fn' h w = Some (r, w')"
      using w3 Some unfolding txCallback_def Let_def w2_def
      by (simp add: setActiveTransaction_inside typedHooks_notify[OF env])
    moreover have "typedContext w'" using keepsD[OF keeps body] started[OF w3] by blast
    ultimately show ?thesis by blast
  qed
  show "keeps typedStep (txCallback env a i options corr cell fn h)" by (rule keepsI) (blast dest: begun)
  show "refinesTyped (txCallback env a i options corr cell fn h) (txCallback env' a i options corr cell fn' h)"
    by (rule refinesTypedI) (blast dest: begun)
qed

lemma typedContext_mark: "typedContext w \<Longrightarrow> typedContext (markRolledBack e w)"
  by (rule typedContext_framedAll[of w]) (simp_all add: framedAll_def markRolledBack_framed)

lemma notified_typed:
  "notifyStart env sc w = Some w' \<Longrightarrow> typedContext w \<Longrightarrow> typedContext w'"
  "notifyCommit env cc w = Some w' \<Longrightarrow> typedContext w \<Longrightarrow> typedContext w'"
  "notifyRollback env rc w = Some w' \<Longrightarrow> typedContext w \<Longrightarrow> typedContext w'"
  by (blast intro: typedContext_framedAll notify_framed)+

lemma settled_typed:
  assumes env: "typedHooks env env'"
  shows "keeps typedStep (afterAdapterRejected env a i options corr start cell e)"
    and "refinesTyped (afterAdapterRejected env a i options corr start cell e)
      (afterAdapterRejected env' a i options corr start cell e)"
    and "keeps typedStep (afterAdapterResolved env a i options corr start cell x)"
    and "refinesTyped (afterAdapterResolved env a i options corr start cell x)
      (afterAdapterResolved env' a i options corr start cell x)"
proof -
  note steps = hooks_typed[OF env, THEN mp] notified_typed
    typedContext_framedAll[OF hooks_framed] typedContext_mark
  show "keeps typedStep (afterAdapterRejected env a i options corr start cell e)"
    "keeps typedStep (afterAdapterResolved env a i options corr start cell x)"
    by (rule keepsI, auto simp: afterAdapterRejected_def afterAdapterResolved_def split: option.splits
        dest!: settleResult_world intro: steps)+
  show "refinesTyped (afterAdapterRejected env a i options corr start cell e)
      (afterAdapterRejected env' a i options corr start cell e)"
    "refinesTyped (afterAdapterResolved env a i options corr start cell x)
      (afterAdapterResolved env' a i options corr start cell x)"
    by (rule refinesTypedI, auto simp: afterAdapterRejected_def afterAdapterResolved_def
        typedHooks_notify[OF env] split: option.splits dest: steps)+
qed

lemma startBody_typed:
  assumes env: "typedHooks env env'" and fn: "tame fn" "refinesTyped fn fn'" and ad: "lawful_adapter ad"
  shows "keeps typedStep (startBody env ad a i options corr start cell fn)"
    and "refinesTyped (startBody env ad a i options corr start cell fn)
      (startBody env' ad a i options corr start cell fn')"
proof -
  note call = lawful_adapter.transaction_typed[OF ad txCallback_typed(1)[OF env fn]]
    lawful_adapter.transaction_refinesTyped[OF ad txCallback_typed(2)[OF env fn]]
  note steps = keepsD[OF call(1)] keepsD[OF settled_typed(1)[OF env]] keepsD[OF settled_typed(3)[OF env]]
  have begun: "startBody env' ad a i options corr start cell fn' w = Some (r, w') \<and> typedContext w'"
    if w: "typedContext w" and run: "startBody env ad a i options corr start cell fn w = Some (r, w')" for w r w'
  proof -
    from run obtain r1 w1
      where c: "a_runInTransaction ad options (txCallback env a i options corr cell fn) w = Some (r1, w1)"
        and rest: "(case r1 of Reject e \<Rightarrow> afterAdapterRejected env a i options corr start cell e w1
          | Resolve res \<Rightarrow> afterAdapterResolved env a i options corr start cell res w1) = Some (r, w')"
      unfolding startBody_def by (auto split: option.splits prod.splits outcome.splits)
    have w1: "typedContext w1" using keepsD[OF call(1) c] w by blast
    show ?thesis
    proof (cases r1)
      case (Reject e)
      with rest refinesTypedD[OF call(2) c w] show ?thesis
        using refinesTypedD[OF settled_typed(2)[OF env] _ w1] keepsD[OF settled_typed(1)[OF env]] w1
        by (fastforce simp: startBody_def)
    next
      case (Resolve res)
      with rest refinesTypedD[OF call(2) c w] show ?thesis
        using refinesTypedD[OF settled_typed(4)[OF env] _ w1] keepsD[OF settled_typed(3)[OF env]] w1
        by (fastforce simp: startBody_def)
    qed
  qed
  show "keeps typedStep (startBody env ad a i options corr start cell fn)"
    by (rule keepsI) (blast dest: begun)
  show "refinesTyped (startBody env ad a i options corr start cell fn)
      (startBody env' ad a i options corr start cell fn')"
    by (rule refinesTypedI) (blast dest: begun)
qed

lemma startNew_typed:
  assumes env: "typedHooks env env'" and fn: "tame fn" "refinesTyped fn fn'" and ad: "lawful_adapter ad"
  shows "keeps typedStep (startNew env ad a i options fn)"
    and "refinesTyped (startNew env ad a i options fn) (startNew env' ad a i options fn')"
proof -
  note body = startBody_typed[OF env fn ad]
  have begun: "startNew env' ad a i options fn' w = Some (r, w') \<and> typedContext w'"
    if w: "typedContext w" and run: "startNew env ad a i options fn w = Some (r, w')" for w r w'
  proof (cases "als w")
    case (Some s)
    define w1 where "w1 = w\<lparr>fresh := Suc (Suc (fresh w)), cells := (cells w)(Suc (fresh w) := None)\<rparr>"
    have "typedContext w1"
      by (rule typedContext_framedAll[OF _ w]) (simp add: framedAll_def framed_def w1_def)
    with run Some show ?thesis
      using refinesTypedD[OF body(2), where w = w1] keepsD[OF body(1), where w = w1]
      unfolding startNew_def w1_def by (auto simp: Let_def getStore_def)
  next
    case None
    define w1 where "w1 = w\<lparr>cells := (cells w)(Suc (fresh w) := None),
        als := Some (Suc (Suc (fresh w))),
        stores := (stores w)(Suc (Suc (fresh w)) := newStore (fresh w) (now w)),
        fresh := Suc (Suc (Suc (fresh w)))\<rparr>"
    have "typedContext w1" by (simp add: typedContext_def w1_def newStore_def)
    with run None show ?thesis
      using refinesTypedD[OF body(2), where w = w1]
      unfolding startNew_def contextRun_def w1_def
      by (auto simp: Let_def getStore_def typedContext_outside split: option.splits prod.splits)
  qed
  show "keeps typedStep (startNew env ad a i options fn)" by (rule keepsI) (blast dest: begun)
  show "refinesTyped (startNew env ad a i options fn) (startNew env' ad a i options fn')"
    by (rule refinesTypedI) (blast dest: begun)
qed

lemma retryLoop_typed:
  assumes env: "typedHooks env env'" and once: "keeps typedStep once" "refinesTyped once once'"
  shows "refinesTyped (retryLoop env ad nr once attempt) (retryLoop env' ad nr once' attempt)"
proof -
  have "typedContext w \<Longrightarrow> retryLoop env ad nr once attempt w = Some x \<Longrightarrow>
      retryLoop env' ad nr once' attempt w = Some x" for w x
  proof (induction "n_maxAttempts nr - attempt" arbitrary: attempt w rule: less_induct)
    case less
    then obtain r w1 where o: "once w = Some (r, w1)"
      by (subst (asm) (2) retryLoop.simps) (auto split: option.splits)
    have o': "once' w = Some (r, w1)" by (rule refinesTypedD[OF once(2) o less.prems(1)])
    have "typedContext w1" using keepsD[OF once(1) o] less.prems(1) by blast
    then have next_typed: "typedContext (sleep ms w1)" for ms by (rule typedContext_quiet[OF quiet_sleep])
    show ?case
      using less.prems(2) o o'
      by (subst retryLoop.simps, subst (asm) retryLoop.simps)
        (auto simp: typedHooks_fields[OF env] split: outcome.splits if_splits
          intro: less.hyps[OF _ next_typed])
  qed
  then show ?thesis by (auto simp: refinesTyped_def)
qed

lemma startNewWithRetry_typed:
  assumes env: "typedHooks env env'" and fn: "tame fn" "refinesTyped fn fn'" and ad: "lawful_adapter ad"
  shows "refinesTyped (startNewWithRetry env ad a i options fn) (startNewWithRetry env' ad a i options fn')"
  unfolding startNewWithRetry_def
  by (rule refinesTypedI)
    (auto split: sum.splits option.splits dest: refinesTypedD[OF startNew_typed(2)[OF assms]]
      refinesTypedD[OF retryLoop_typed[OF env startNew_typed[OF assms]]])

lemma runNestedSavepoint_typed:
  assumes fn: "tame fn" "refinesTyped fn fn'" and ad: "lawful_adapter ad"
  shows "refinesTyped (runNestedSavepoint ad t options fn) (runNestedSavepoint ad t options fn')"
proof (rule refinesTypedI)
  fix w r w' assume w: "typedContext w" and run: "runNestedSavepoint ad t options fn w = Some (r, w')"
  let ?body = "\<lambda>fn h. catching (andThen fn (\<lambda>v. ret (IOk v)))
    (\<lambda>err. if shouldRollback err options then throw err else ret (IErr err))"
  have "refinesTyped (?body fn h) (?body fn' h)" for h
    by (intro refinesTyped_catching refinesTyped_andThen refinesTyped_refl fn tame_typed keeps_intros)
  from lawful_adapter.savepoint_refinesTyped[OF ad this]
  have call: "refinesTyped (a_runInSavepoint ad (handle (txs w t)) (?body fn))
    (a_runInSavepoint ad (handle (txs w t)) (?body fn'))" .
  show "runNestedSavepoint ad t options fn' w = Some (r, w')"
    using run refinesTypedD[OF call _ w] unfolding runNestedSavepoint_def
    by (simp add: andThen_Some) blast
qed

lemma suspended_typed:
  assumes "refinesTyped f f'"
  shows "refinesTyped (suspended key t f) (suspended key t f')"
  by (rule refinesTypedI) (auto simp: suspended_def finallyDo_Some
      dest: refinesTypedD[OF assms] typedContext_remove)

theorem run_typed:
  assumes env: "typedHooks env env'" and fn: "tame fn" "refinesTyped fn fn'"
  shows "refinesTyped (run env options fn) (run env' options fn')"
proof (rule refinesTypedI)
  fix w r w' assume w: "typedContext w" and run: "run env options fn w = Some (r, w')"
  note start = startNewWithRetry_typed[OF env fn adapters_lawful]
  note laws = refinesTypedD[OF start _ w] refinesTypedD[OF suspended_typed[OF start] _ w]
    refinesTypedD[OF suspended_typed[OF fn(2)] _ w] refinesTypedD[OF fn(2) _ w]
    refinesTypedD[OF runNestedSavepoint_typed[OF fn adapters_lawful] _ w]
  show "run env' options fn' w = Some (r, w')"
    using run unfolding run_def withAdapter_def Let_def typedHooks_fields(1)[OF env]
    by (auto split: sum.splits prod.splits option.splits propagation_mode.splits dest: laws)
qed

end

section \<open>Client programs\<close>

text \<open>\<open>exec\<close> with an assertion in front of every program and every hook.\<close>

fun execTyped ::
    "('d, 'z) client_env \<Rightarrow> ('d, 'z) work \<Rightarrow> nat \<Rightarrow> client \<Rightarrow> (('d, 'z) client_world, jsv) comp" where
  "execTyped env work 0 p = (\<lambda>w. None)"
| "execTyped env work (Suc n) p = assertIn typedContext (perform env work (execTyped env work n) p)"

context client_setting
begin

lemma perform_typed:
  assumes tame: "\<And>p. tame (rec p)" and rec: "\<And>p. refinesTyped (rec p) (rec' p)"
  shows "refinesTyped (perform env work rec p) (perform env work rec' p)"
proof (cases p)
  case (Run opts q)
  have "typedHooks (closing env rec) (closing env rec')"
    using rec by (auto simp: typedHooks_def closing_def intro!: exI[of _ "\<lambda>u arg. rec' (u arg)"])
  then show ?thesis
    using Run lawful_environment.run_typed[OF closing_lawful[OF tame]] tame rec by simp
next
  case (Bind q1 q2)
  then show ?thesis by (simp add: refinesTyped_andThen tame_typed assms)
next
  case (Catch q1 q2)
  then show ?thesis by (simp add: refinesTyped_catching tame_typed assms)
next
  case (Finally q1 q2)
  then show ?thesis by (simp add: refinesTyped_finallyDo refinesTyped_andThen tame_typed assms)
next
  case (Lookup ds q)
  then show ?thesis using rec by (auto simp: refinesTyped_def)
qed simp_all

lemma exec_typed: "refinesTyped (exec env work n p) (execTyped env work n p)"
proof (induction n arbitrary: p)
  case 0
  then show ?case by simp
next
  case (Suc n)
  have "refinesTyped (perform env work (exec env work n) p) (perform env work (execTyped env work n) p)"
    by (rule perform_typed[OF exec_tame Suc.IH])
  then show ?case by (simp add: refinesTyped_def assertIn_def)
qed

lemma execTyped_refines: "refines_comp (execTyped env work n p) (exec env work n p)"
proof (induction n arbitrary: p)
  case 0
  then show ?case by simp
next
  case (Suc n)
  have "refines_comp (perform env work (execTyped env work n) p) (perform env work (exec env work n) p)"
    by (rule perform_mono[OF Suc.IH])
  then show ?case by (auto simp: refines_comp_def assertIn_def split: if_splits)
qed

theorem execTyped_same:
  assumes "typedContext w"
  shows "execTyped env work n p w = exec env work n p w"
proof (cases "exec env work n p w")
  case None
  then show ?thesis
    using refines_compD[OF execTyped_refines] by (cases "execTyped env work n p w") force+
next
  case (Some x)
  then show ?thesis using refinesTypedD[OF exec_typed Some assms] by simp
qed

end

section \<open>What a lookup finds\<close>

text \<open>
  Keys of different adapters or instances differ when no adapter name holds a colon.
\<close>

lemma contextKey_inject:
  assumes "CHR '':'' \<notin> set a" and "CHR '':'' \<notin> set a'" and "contextKey a i = contextKey a' i'"
  shows "a = a' \<and> i = i'"
proof -
  have "a = takeWhile (\<lambda>c. c \<noteq> CHR '':'') (contextKey a i)"
    "a' = takeWhile (\<lambda>c. c \<noteq> CHR '':'') (contextKey a' i')"
    using assms(1,2) by (simp_all add: contextKey_def takeWhile_until)
  then have "a = a'" using assms(3) by metis
  then show ?thesis using assms(3) by (simp add: contextKey_def)
qed

lemma typed_lookup:
  assumes w: "typedContext w" and found: "getActiveTransaction key w = Some t"
  shows "t < fresh w \<and> key = contextKey (adapterName (txs w t)) (adapterInstanceName (txs w t))"
proof -
  from found obtain s where "als w = Some s"
    by (cases "als w") (auto simp: getActiveTransaction_outside)
  with w found show ?thesis
    by (auto simp: typedContext_def getActiveTransaction_store list_all_iff entryTyped_def
        dest!: map_of_SomeD)
qed

text \<open>The lookup by dataSource and the lookup by key agree.\<close>

lemma typed_dataSource:
  assumes w: "typedContext w" and found: "getActiveTransactionByDataSource ds w = Some t"
  shows "adapterInstanceName (txs w t) = ds \<and>
    getActiveTransaction (contextKey (adapterName (txs w t)) ds) w = Some t"
proof -
  from found obtain s where s: "als w = Some s"
    by (cases "als w") (auto simp: getActiveTransactionByDataSource_def getStore_def)
  with found obtain k where k: "(k, t) \<in> set (activeTransactions (stores w s))"
    and ds: "adapterInstanceName (txs w t) = ds"
    by (auto simp: getActiveTransactionByDataSource_def getStore_def find_Some_iff in_set_conv_nth)
      (metis nth_mem surj_pair snd_conv)+
  from w s k have "k = contextKey (adapterName (txs w t)) ds"
    by (auto simp: typedContext_def list_all_iff entryTyped_def ds dest!: bspec)
  moreover from w s k have "getActiveTransaction k w = Some t"
    by (simp add: typedContext_def getActiveTransaction_store)
  ultimately show ?thesis using ds by simp
qed

end
