(* ===== verification/Manager_Properties.thy ===== *)
theory Manager_Properties
  imports Hooks Context_Typing
begin

text \<open>
  The main properties of the transaction manager, over the library of the theories
  before, each with an instance on the sample application; then what evaluating
  the model on concrete programs shows of the code.
\<close>

section \<open>Sample programs\<close>

definition seqC :: "client \<Rightarrow> client \<Rightarrow> client" where
  "seqC p q = Bind p (\<lambda>_. q)"

definition newTx :: extended_options where
  "newTx = no_options\<lparr>o_propagation := Some REQUIRES_NEW\<rparr>"

definition onDataSource :: "string \<Rightarrow> extended_options \<Rightarrow> extended_options" where
  "onDataSource ds options = options\<lparr>o_dataSource := Some ds\<rparr>"

text \<open>Two pieces of work around an inner transaction of its own.\<close>

definition nestedProgram :: client where
  "nestedProgram = Run no_options (seqC (Work 1) (seqC (Run newTx (Work 2)) (Give (JStr ''done''))))"

text \<open>What a run left behind: its outcome and the ids each in-memory adapter recorded.\<close>

definition records ::
    "nat \<Rightarrow> (jsv outcome \<times> (in_memory_db, unit) client_world) option \<Rightarrow>
     (jsv outcome \<times> nat list \<times> nat list) option" where
  "records self x =
     map_option (\<lambda>(r, w). (r, map ct_id (committedTransactions (im_adapters (db w) self)),
       map ct_id (rolledBackTransactions (im_adapters (db w) self)))) x"

lemma sample_setting: "client_setting sampleEnv im_work"
  unfolding sampleEnv_def by (rule ic.client_setting_axioms)

lemma sample_wf: "wf_world sampleWorld"
  by (simp add: wf_world_def sampleWorld_def)

lemma settlesI: "map_option fst x = Some r \<Longrightarrow> \<exists>w'. x = Some (r, w')"
  by auto

section \<open>The context\<close>

text \<open>
  C3. Every client program, whatever it nests, catches, retries or registers, leaves the
  asynchronous context as it found it: the same store, with the same live transaction
  under every key.
\<close>

theorem client_keeps_context:
  assumes "client_setting env work" and "wf_world w"
    and "exec env work n p w = Some (r, w')"
  shows "als w' = als w \<and> (\<forall>key. getActiveTransaction key w' = getActiveTransaction key w)"
proof -
  have f: "framedAll w w'"
    using keepsD[OF client_setting.exec_tame[OF assms(1)] assms(3)] .
  show ?thesis
    using framed_als[OF framedAllD[OF f assms(2) order_refl]] getActive_framedAll[OF f assms(2)]
    by blast
qed

lemma client_keeps_context_witness:
  "\<exists>w'. sampleRun 9 nestedProgram = Some (Resolve (JStr ''done''), w') \<and> als w' = None \<and>
     (\<forall>key. getActiveTransaction key w' = None)"
proof -
  have "map_option fst (sampleRun 9 nestedProgram) = Some (Resolve (JStr ''done''))" by code_simp
  then obtain w' where "sampleRun 9 nestedProgram = Some (Resolve (JStr ''done''), w')" by auto
  with client_keeps_context[OF sample_setting sample_wf this]
  show ?thesis by (auto simp: sampleWorld_def getActiveTransaction_outside)
qed

text \<open>
  C4. The context is always well typed: the current store was allocated, its map holds each
  key once, and the transaction under a key was begun and is filed under the key of its own
  adapter and instance. A client program started in such a context is the same program with
  an assertion of this in front of every program and every hook it runs, at any depth, and
  leaves such a context.
\<close>

theorem contexts_well_typed:
  assumes "client_setting env work" and "typedContext w"
  shows "exec env work n p w = execTyped env work n p w \<and>
    (case exec env work n p w of None \<Rightarrow> True | Some (r, w') \<Rightarrow> typedContext w')"
  using client_setting.execTyped_same[OF assms] typedContext_tame[OF client_setting.exec_tame[OF assms(1)] _ assms(2)]
  by (auto split: option.splits)

lemma contexts_well_typed_witness:
  "map_option fst (execTyped sampleEnv im_work 9 nestedProgram sampleWorld) = Some (Resolve (JStr ''done''))"
proof -
  have "map_option fst (sampleRun 9 nestedProgram) = Some (Resolve (JStr ''done''))" by code_simp
  moreover have "typedContext sampleWorld" by (simp add: sampleWorld_def typedContext_outside)
  ultimately show ?thesis
    using contexts_well_typed[OF sample_setting, of sampleWorld 9 nestedProgram] by simp
qed

text \<open>
  C1. \<open>run\<close> calls the function it is given only where the propagation mode promises: in
  a transaction begun by this very call, with its adapter, instance and options
  (\<open>REQUIRED\<close> and \<open>NESTED\<close> outside one, \<open>REQUIRES_NEW\<close> always, on every attempt of a
  retry), in the existing one (\<open>REQUIRED\<close>, \<open>NESTED\<close>, \<open>MANDATORY\<close> inside one), in none
  (\<open>NOT_SUPPORTED\<close>, \<open>NEVER\<close>), or in whatever there was (\<open>SUPPORTS\<close>). Asserting this in front
  of the function changes nothing.
\<close>

theorem run_calls_body_in_mode:
  assumes "lawful_environment env" and "tame fn" and "wf_world w"
    and "resolveAdapterIdentifiers options (registry w) = Inr (a, i)"
  shows "run env options fn w =
    run env options
      (assertIn (bodySees (case o_propagation options of None \<Rightarrow> REQUIRED | Some p \<Rightarrow> p)
         (getActiveTransaction (contextKey a i) w) a i options (fresh w)) fn) w"
  by (rule lawful_environment.run_assert[OF assms(1,2,3,4) refl, symmetric])

lemma sample_ids:
  "resolveAdapterIdentifiers (onDataSource ''billing'' no_options) (registry sampleWorld) =
     Inr (''in-memory'', ''billing'')"
  by code_simp

lemma run_calls_body_in_mode_witness:
  "run (closing sampleEnv (exec sampleEnv im_work 3)) (onDataSource ''billing'' no_options)
     (assertIn (bodySees REQUIRED None ''in-memory'' ''billing'' (onDataSource ''billing'' no_options) 10)
        (exec sampleEnv im_work 3 (Work 1))) sampleWorld =
   run (closing sampleEnv (exec sampleEnv im_work 3)) (onDataSource ''billing'' no_options)
     (exec sampleEnv im_work 3 (Work 1)) sampleWorld"
  using run_calls_body_in_mode[OF sample_environment sample_tame sample_wf sample_ids, of 3 3 "Work 1"]
  by (simp add: sampleWorld_def getActiveTransaction_outside onDataSource_def no_options_def)

text \<open>
  Fuel is only a bound: a client program that settles with some fuel settles with
  any more, with the same outcome in the same world.
\<close>

theorem client_more_fuel:
  assumes "client_setting env work" and "n \<le> m" and "exec env work n p w = Some x"
  shows "exec env work m p w = Some x"
  by (rule refines_compD[OF client_setting.exec_mono[OF assms(1,2)] assms(3)])

lemma client_more_fuel_witness:
  "\<exists>x. sampleRun 9 nestedProgram = Some x \<and> sampleRun 50 nestedProgram = Some x"
proof -
  have "map_option fst (sampleRun 9 nestedProgram) = Some (Resolve (JStr ''done''))" by code_simp
  then obtain x where "sampleRun 9 nestedProgram = Some x" by auto
  with client_more_fuel[OF sample_setting _ this, of 50] show ?thesis by simp
qed

section \<open>What evaluation shows\<close>

text \<open>
  An outer transaction commits in spite of a \<open>Conflict\<close>; the error object is one
  an inner transaction rolled back with.
\<close>

definition conflict :: client where
  "conflict = ThrowNew [''Conflict'', ''Error'']"

definition retryTwice :: retry_setting where
  "retryTwice =
     RetryObject \<lparr>r_maxAttempts = JInt 2, r_delay = Some (DelayNumber 0), r_retryIf = Some (\<lambda>_. True)\<rparr>"

definition retriedOptions :: extended_options where
  "retriedOptions = no_options\<lparr>o_noRollbackFor := Some [''Conflict''], o_retry := Some retryTwice\<rparr>"

definition retriedProgram :: client where
  "retriedProgram = Run retriedOptions (Run newTx conflict)"

text \<open>The error object an attempt of that program ends with.\<close>

definition conflictError :: jsv where
  "conflictError = JObj 21 [''Conflict'', ''Error''] []"

text \<open>
  C33. A transaction that has committed is run again. The mark of a rolled-back error is kept
  per error object, whichever transaction was rolled back with it. So whenever an attempt ends
  with an error that the options exempt from rollback, the object of which carries the mark
  (an inner transaction was rolled back with it, say), which \<open>retryIf\<close> accepts and with
  attempts left, then that attempt's transaction is recorded as committed and never as rolled back,
  and another transaction, begun after it had ended, is recorded as well.
\<close>

theorem retry_after_commit:
  fixes w :: "(in_memory_db, 'z) client_world"
  assumes run: "exec (im_env names settled) im_work (Suc n) (Run options p) w = Some (r, w')"
    and outer: "als w = None" "resolveAdapterIdentifiers options (registry w) = Inr (a, i)"
      "registryGet a i (registry w) = Inr self" "opensTransaction options"
    and retry: "normalizeRetry (o_retry options) = Inr (Some nr)" "1 < n_maxAttempts nr"
    and un: "unrecorded self (fresh w) (db w)"
    and first: "startNew (closing (im_env names settled) (exec (im_env names settled) im_work n))
        (InMemoryTransactionAdapter (names self) self) a i options
        (exec (im_env names settled) im_work n p) w = Some (Reject e, w1)"
    and exempt: "\<not> shouldRollback e options" and mark: "wasRolledBack e w1"
    and again: "n_retryIf nr = Some f" "f e"
  shows "timesCommitted self (fresh w + 3) (db w') = 1 \<and>
    timesRolledBack self (fresh w + 3) (db w') = 0 \<and> fresh w + 3 < fresh w1 + 3 \<and>
    timesCommitted self (fresh w1 + 3) (db w') + timesRolledBack self (fresh w1 + 3) (db w') = 1"
proof -
  let ?env = "closing (im_env names settled) (exec (im_env names settled) im_work n)"
  let ?ad = "InMemoryTransactionAdapter (names self) self"
  let ?fn = "exec (im_env names settled) im_work n p"
  let ?once = "startNew ?env ?ad a i options ?fn"
  define s where "s = sleep (retryDelay (random ?env w1) nr 1 e) w1"
  have s: "fresh s = fresh w1" "db s = db w1" "als s = als w1" by (simp_all add: s_def sleep_def)
  note one = startNew_settles[OF refl first outer(1) un]
  have "startNewWithRetry ?env ?ad a i options ?fn w = Some (r, w')"
    using run outer retry
    by (auto simp: adapterOf_closing run_def Let_def withAdapter_def opensTransaction_def getActiveTransaction_outside)
  then have "retryLoop ?env ?ad nr ?once 2 s = Some (r, w')"
    using retry mark again unfolding startNewWithRetry_def
    by (simp add: retryLoop_step[where once = ?once and w = w, OF first] s_def numeral_2_eq_2 retryable_def)
  moreover obtain r2 w2 where second: "?once s = Some (r2, w2)"
    using calculation by (subst (asm) retryLoop.simps) (auto split: option.splits)
  ultimately have rest: "w' = w2 \<or> (\<exists>d. retryLoop ?env ?ad nr ?once 3 (sleep d w2) = Some (r, w'))"
    by (auto simp: retryLoop_step[where once = ?once and w = s, OF second] numeral_3_eq_3 split: outcome.splits if_splits)
  have un1: "unrecorded self (fresh s) (db s)"
    using one(3) un by (simp add: s dbRel_def im_grows_def)
  note two = startNew_settles[OF refl second _ un1, unfolded s, OF one(2)]
  have E: "db_environment im_grows ?env" by (rule ics.closing_db[OF ics.exec_keeps])
  have loop: "keeps (dbRel im_grows) (retryLoop ?env ?ad nr ?once 3)"
    by (rule db_environment.retryLoop_ok[OF E db_environment.startNew_ok[OF E ics.exec_keeps adapterOf_closing[symmetric]]])
  have "dbRel im_grows w2 w'"
    using rest
  proof
    assume "\<exists>d. retryLoop ?env ?ad nr ?once 3 (sleep d w2) = Some (r, w')"
    then obtain d where "dbRel im_grows (sleep d w2) w'" using keepsD[OF loop] by blast
    then show ?thesis by (simp add: dbRel_def sleep_def split: if_splits)
  next
    assume "w' = w2"
    then show ?thesis using ig.alloc[of w2 w2] by simp
  qed
  then have same: "timesCommitted self k (db w') = timesCommitted self k (db w2)"
    "timesRolledBack self k (db w') = timesRolledBack self k (db w2)" if "k < fresh w2" for k
    using that by (simp_all add: dbRel_def im_grows_def)
  have low: "timesCommitted self (fresh w + 3) (db w2) = timesCommitted self (fresh w + 3) (db w1)"
    "timesRolledBack self (fresh w + 3) (db w2) = timesRolledBack self (fresh w + 3) (db w1)"
    using two(3) one(4) by (simp_all add: dbRel_def im_grows_def s)
  have "timesCommitted self (fresh w1 + 3) (db w2) + timesRolledBack self (fresh w1 + 3) (db w2) = 1"
    using two(1) by (simp add: s split: if_splits)
  then show ?thesis
    using one(1,4) two(4) low same exempt by (simp add: rollsBack_def)
qed

lemma retry_after_commit_witness:
  "\<exists>w1 r w'. startNew (closing sampleEnv (exec sampleEnv im_work 8))
       (InMemoryTransactionAdapter ''default'' 0) ''in-memory'' ''default'' retriedOptions
       (exec sampleEnv im_work 8 (Run newTx conflict)) sampleWorld = Some (Reject conflictError, w1) \<and>
     sampleRun 9 retriedProgram = Some (r, w') \<and>
     timesCommitted 0 13 (db w') = 1 \<and> timesRolledBack 0 13 (db w') = 0 \<and>
     timesCommitted 0 (fresh w1 + 3) (db w') + timesRolledBack 0 (fresh w1 + 3) (db w') = 1"
proof -
  have "map_option (\<lambda>(r, w). (r, wasRolledBack conflictError w))
      (startNew (closing sampleEnv (exec sampleEnv im_work 8))
       (InMemoryTransactionAdapter ''default'' 0) ''in-memory'' ''default'' retriedOptions
       (exec sampleEnv im_work 8 (Run newTx conflict)) sampleWorld) = Some (Reject conflictError, True)"
    by code_simp
  then obtain w1 where w1: "startNew (closing sampleEnv (exec sampleEnv im_work 8))
       (InMemoryTransactionAdapter ''default'' 0) ''in-memory'' ''default'' retriedOptions
       (exec sampleEnv im_work 8 (Run newTx conflict)) sampleWorld = Some (Reject conflictError, w1)"
    "wasRolledBack conflictError w1" by auto
  have "map_option (\<lambda>x. True) (sampleRun 9 retriedProgram) = Some True" by code_simp
  then obtain r w' where run: "sampleRun 9 retriedProgram = Some (r, w')" by auto
  have ids: "resolveAdapterIdentifiers retriedOptions (registry sampleWorld) = Inr (''in-memory'', ''default'')"
    "registryGet ''in-memory'' ''default'' (registry sampleWorld) = Inr 0"
    "opensTransaction retriedOptions" "unrecorded 0 (fresh sampleWorld) (db sampleWorld)"
    by (simp_all add: sampleWorld_def sampleRegistry_def register_def newRegistry_def no_options_def
        keyFor_def resolveAdapterIdentifiers_def getDefaultAdapterName_def getDefaultInstanceName_def
        registryGet_def opensTransaction_def unrecorded_def timesCommitted_def timesRolledBack_def
        newInMemoryAdapter_def retriedOptions_def)
  have retry: "normalizeRetry (o_retry retriedOptions) =
      Inr (Some \<lparr>n_maxAttempts = 2, n_delay = Some (DelayNumber 0), n_retryIf = Some (\<lambda>_. True)\<rparr>)"
    by (simp add: normalizeRetry_def retriedOptions_def retryTwice_def)
  have e: "\<not> shouldRollback conflictError retriedOptions"
    by (simp add: shouldRollback_def conflictError_def retriedOptions_def)
  have "exec (im_env (\<lambda>_. ''default'') (\<lambda>_. Resolve Undef)) im_work (Suc 8)
      (Run retriedOptions (Run newTx conflict)) sampleWorld = Some (r, w')"
    using run by (simp add: sampleEnv_def retriedProgram_def)
  from retry_after_commit[OF this _ ids(1,2,3) retry _ ids(4) w1(1)[unfolded sampleEnv_def] e w1(2)]
  show ?thesis using w1 run by (simp add: sampleEnv_def) (simp add: sampleWorld_def)
qed

text \<open>
  A before-commit hook that throws does not always prevent the commit: when the options
  exempt its error, the transaction commits and \<open>run\<close> rejects with the error.
\<close>

theorem throwing_hook_commits:
  "records 0 (sampleRun 9 (Run (no_options\<lparr>o_noRollbackFor := Some [''Conflict'']\<rparr>)
       (OnBeforeCommit (\<lambda>_. conflict)))) =
     Some (Reject (JObj 16 [''Conflict'', ''Error''] []), [13], [])"
  by code_simp

text \<open>
  Two live transactions, the default dataSource's opened first. A hook goes to the first
  one of the map.
\<close>

definition hookProgram :: "client \<Rightarrow> client" where
  "hookProgram inner =
     Run (onDataSource ''default'' no_options) (Run (onDataSource ''billing'' no_options)
       (seqC inner (OnBeforeCommit (\<lambda>_. conflict))))"

text \<open>
  Suspending a transaction moves it to the end of the map, so that after a
  \<open>REQUIRES_NEW\<close> call the current transaction is another one: without the call the
  throwing hook is the default dataSource's and the other one has committed; with it the
  hook is the other dataSource's and both roll back.
\<close>

theorem suspension_changes_current:
  "map_option (\<lambda>(r, c, b). (c, b)) (records 0 (sampleRun 9 (hookProgram (Give Undef)))) = Some ([], [13]) \<and>
   map_option (\<lambda>(r, c, b). (c, b)) (records 1 (sampleRun 9 (hookProgram (Give Undef)))) = Some ([18], []) \<and>
   map_option (\<lambda>(r, c, b). (c, b))
     (records 1 (sampleRun 9 (hookProgram (Run (onDataSource ''default'' newTx) (Give Undef))))) =
     Some ([], [18])"
  by code_simp

end
