(* ===== verification/Typeorm_Properties.thy ===== *)
theory Typeorm_Properties
  imports Typeorm_Patches Manager_Properties
begin

text \<open>
  Properties of the TypeORM integration: the adapter meets the manager's contract, so
  that every client program over it keeps the context; savepoints; which errors are retried;
  and which manager a repository or a DataSource uses.
\<close>

section \<open>The contract, and clients\<close>



text \<open>An application: adapter \<open>a\<close> is that of DataSource \<open>a\<close>, and work \<open>k\<close> is a statement.\<close>

type_synonym client_orm = "(client_hook, sql_log, unit) orm"

definition orm_env :: "(nat \<Rightarrow> string) \<Rightarrow> (client_hook, client_orm) environment" where
  "orm_env names =
     \<lparr>adapterOf = (\<lambda>a. managedAdapter (loggingLib ''postgres'') a (names a)),
      callHook = (\<lambda>u v w. None), awaitAll = promiseAll (\<lambda>p. Resolve Undef), observers = [],
      random = (\<lambda>w. 0)\<rparr>"

definition orm_work :: "nat \<Rightarrow> (client_orm, jsv) comp" where
  "orm_work k w = Some (Resolve Undef, logSql (get_dataSource_manager k w) ''INSERT'' w)"

lemma orm_work_tame: "tame (orm_work k)"
  by (rule keepsI) (auto simp: orm_work_def intro: quiet_framedAll logSql_quiet)

interpretation oc: client_setting "orm_env names" orm_work
  unfolding client_setting_def
  by (simp add: orm_env_def managedAdapter_def orm_work_tame promiseAll_tame logging.typeorm_adapter)

section \<open>Savepoints\<close>

text \<open>
  A savepoint over a driver whose statements succeed: the statements name one savepoint,
  \<open>SAVEPOINT\<close> before the callback, then \<open>RELEASE\<close> when it resolved and \<open>ROLLBACK TO\<close> when it
  rejected, on the manager of the surrounding transaction, and the outcome is the
  callback's.
\<close>

theorem savepoint_protocol:
  assumes support: "tl_transactionSupport lib ds = Some ''nested'' \<or> tl_transactionSupport lib ds = None"
    and em: "entityManagerOf parent = Some em"
    and stmt: "\<And>sql v. tl_query lib em sql v = Some (Resolve Undef, sent sql v)"
  shows "to_runInSavepoint lib ds parent fn w =
    (case fn parent (sent (''SAVEPOINT '' @ savepointName (fresh w)) (w\<lparr>fresh := Suc (fresh w)\<rparr>)) of
       None \<Rightarrow> None
     | Some (Resolve v, w2) \<Rightarrow>
         Some (Resolve v, sent (''RELEASE SAVEPOINT '' @ savepointName (fresh w)) w2)
     | Some (Reject e, w2) \<Rightarrow>
         Some (Reject e, sent (''ROLLBACK TO SAVEPOINT '' @ savepointName (fresh w)) w2))"
proof -
  have "assertSavepointsSupported lib ds = ret ()"
    using support by (auto simp: assertSavepointsSupported_def)
  then show ?thesis
    by (auto simp: to_runInSavepoint_def em inSavepoint_def andThen_def catching_def stmt
        split: option.splits prod.splits outcome.splits)
qed

definition ormWorld :: client_orm where
  "ormWorld =
     \<lparr>als = None, stores = (\<lambda>_. newStore 0 0), txs = txs sampleWorld, fresh = 10, now = 0,
      registry = newRegistry, rolledBack = {}, pending = (\<lambda>_. None), cells = (\<lambda>_. None), db = [],
      managedDataSources = {}, dsName = (\<lambda>_. None), dsPatched = (\<lambda>_. False), dsManager = (\<lambda>ds. ds),
      repoManager = (\<lambda>r. Some 0), repositoryPatches = False, entityManagerPatches = False, \<dots> = ()\<rparr>"

lemma savepoint_protocol_witness:
  "to_runInSavepoint (loggingLib ''postgres'') 0 (entityManagerHandle 1 12) (\<lambda>h. throw Null) ormWorld =
     Some (Reject Null, logSql 12 (''ROLLBACK TO SAVEPOINT '' @ savepointName 10)
       (logSql 12 (''SAVEPOINT '' @ savepointName 10) (ormWorld\<lparr>fresh := 11\<rparr>)))"
  by (subst savepoint_protocol[where em = 12 and sent = "logSql 12"])
    (simp_all add: loggingLib_def entityManagerOf_def entityManagerHandle_def ormWorld_def)

text \<open>
  On a driver that reports another capability than nested transactions, \<open>NESTED\<close> fails
  fast: an \<open>IllegalTransactionStateError\<close>, no statement sent, the callback never called.
\<close>

theorem savepoint_unsupported:
  assumes "tl_transactionSupport lib ds = Some s" and "s \<noteq> ''nested''"
  shows "to_runInSavepoint lib ds parent fn w =
    Some (Reject (JObj (fresh w) (error_classes IllegalTransactionStateError)
        [(''code'', JStr ''ILLEGAL_TRANSACTION_STATE''),
         (''name'', JStr ''IllegalTransactionStateError'')]), w\<lparr>fresh := Suc (fresh w)\<rparr>)"
  using assms
  by (simp add: to_runInSavepoint_def assertSavepointsSupported_def andThen_def
      IllegalTransactionStateError_def TransactionError_def)

lemma savepoint_unsupported_witness:
  "to_runInSavepoint ((loggingLib ''mssql'')\<lparr>tl_transactionSupport := (\<lambda>ds. Some ''simple'')\<rparr>) 0
     (entityManagerHandle 1 12) (\<lambda>h. throw Null) ormWorld =
   Some (Reject (JObj 10 [''IllegalTransactionStateError'', ''TransactionError'', ''Error'']
        [(''code'', JStr ''ILLEGAL_TRANSACTION_STATE''),
         (''name'', JStr ''IllegalTransactionStateError'')]), ormWorld\<lparr>fresh := 11\<rparr>)"
  by (subst savepoint_unsupported[where s = "''simple''"])
    (simp_all add: ormWorld_def IllegalTransactionStateError_def TransactionError_def)

section \<open>Retryable errors\<close>

text \<open>An error object that itself carries one of the codes.\<close>

definition deadlockItself :: "jsv \<Rightarrow> bool" where
  "deadlockItself err \<longleftrightarrow> is_object err \<and>
     (prop_of err ''code'' \<in> {JStr ''40001'', JStr ''40P01'', JStr ''ER_LOCK_DEADLOCK''} \<or>
      prop_of err ''errno'' = JNum (JInt 1213))"

text \<open>Following \<open>driverError\<close> or \<open>cause\<close> from object to object, \<open>k\<close> times.\<close>

fun wrappedAt :: "nat \<Rightarrow> jsv \<Rightarrow> jsv set" where
  "wrappedAt 0 err = {err}"
| "wrappedAt (Suc k) err =
     (if is_object err
      then wrappedAt k (prop_of err ''driverError'') \<union> wrappedAt k (prop_of err ''cause'')
      else {})"

lemma deadlockItself_iff: "is_object err \<Longrightarrow>
    deadlockItself err \<longleftrightarrow> retryableCode (prop_of err ''code'') \<or> retryableErrno (prop_of err ''errno'')"
  by (auto simp: deadlockItself_def retryableCode_def retryableErrno_def RETRYABLE_SQLSTATES_def
      RETRYABLE_MYSQL_ERRNOS_def split: jsv.splits jsnum.splits)

lemma retryable_from:
  "isRetryableDriverError err d \<longleftrightarrow> (\<exists>k. d + k \<le> 3 \<and> (\<exists>x\<in>wrappedAt k err. deadlockItself x))"
proof (induction err d rule: isRetryableDriverError.induct)
  case (1 err d)
  show ?case
  proof (cases "is_object err \<and> d \<le> 3")
    case False
    have "\<not> deadlockItself x" if "\<not> is_object err" "x \<in> wrappedAt k err" for x k
      using that by (cases k) (auto simp: deadlockItself_def)
    with False show ?thesis by (subst isRetryableDriverError.simps) auto
  next
    case True
    have split: "(\<exists>k. d + k \<le> 3 \<and> P k) \<longleftrightarrow> P 0 \<or> (\<exists>k. d + 1 + k \<le> 3 \<and> P (Suc k))" for P
      using True by (metis Suc_eq_plus1 add.assoc add.commute add.right_neutral add_Suc_right not0_implies_Suc)
    show ?thesis
    proof (cases "deadlockItself err")
      case itself: True
      then show ?thesis
        using True by (subst isRetryableDriverError.simps, subst split) (auto simp: deadlockItself_iff)
    next
      case False
      then have n: "\<not> retryableCode (prop_of err ''code'')" "\<not> retryableErrno (prop_of err ''errno'')"
        using True by (auto simp: deadlockItself_iff)
      have "isRetryableDriverError err d \<longleftrightarrow>
          isRetryableDriverError (prop_of err ''driverError'') (d + 1) \<or>
          isRetryableDriverError (prop_of err ''cause'') (d + 1)"
        using True n by (subst isRetryableDriverError.simps) simp
      also have "\<dots> \<longleftrightarrow> (\<exists>k. d + 1 + k \<le> 3 \<and> (\<exists>x\<in>wrappedAt (Suc k) err. deadlockItself x))"
        using "1.IH" True n by (auto simp: not_le)
      finally show ?thesis using False by (subst split) simp
    qed
  qed
qed

text \<open>
  An error is retried exactly when it, or an error it wraps through at most three
  \<open>driverError\<close> or \<open>cause\<close> steps, carries a serialization failure or deadlock code; a
  cyclic chain of causes cannot make the search run on, for it ends at that depth.
\<close>

theorem retryable_iff_wrapped:
  "isRetryableDriverError err 0 \<longleftrightarrow> (\<exists>k\<le>3. \<exists>x\<in>wrappedAt k err. deadlockItself x)"
  by (simp add: retryable_from)

section \<open>Which manager is used\<close>

text \<open>
  The chain has a live TypeORM transaction \<open>t\<close> under the name, with manager \<open>em\<close>, and
  no other live transaction has that instance name.
\<close>

definition liveOn :: "string \<Rightarrow> nat \<Rightarrow> nat \<Rightarrow> ('h, 'z) ctx_world_scheme \<Rightarrow> bool" where
  "liveOn name t em w \<longleftrightarrow>
     getActiveTransaction (typeOrmContextKey name) w = Some t \<and>
     adapterInstanceName (txs w t) = name \<and> entityManagerOf (handle (txs w t)) = Some em \<and>
     (\<forall>st. getStore w = Some st \<longrightarrow>
        (\<forall>t'\<in>set (map snd (activeTransactions st)). adapterInstanceName (txs w t') = name \<longrightarrow> t' = t))"

definition noneOn :: "string \<Rightarrow> ('h, 'z) ctx_world_scheme \<Rightarrow> bool" where
  "noneOn name w \<longleftrightarrow> getActiveTransactionByDataSource name w = None"

lemma liveOn_manager:
  assumes "liveOn name t em w"
  shows "getActiveEntityManager name w = Some em"
proof -
  obtain st where st: "getStore w = Some st" and t: "map_of (activeTransactions st) (typeOrmContextKey name) = Some t"
    using assms by (auto simp: liveOn_def getActiveTransaction_def split: option.splits)
  have mem: "t \<in> set (map snd (activeTransactions st))"
    using map_of_SomeD[OF t] by force
  have "List.find (\<lambda>t. adapterInstanceName (txs w t) = name) (map snd (activeTransactions st)) = Some t"
    by (rule find_unique[OF mem]) (use assms st in \<open>auto simp: liveOn_def\<close>)
  then show ?thesis
    using assms st
    by (simp add: getActiveEntityManager_def getActiveTransactionByDataSource_def liveOn_def)
qed

text \<open>What \<open>registerManagedDataSource\<close> leaves of a DataSource, and of TypeORM's classes.\<close>

definition registered :: "nat \<Rightarrow> string \<Rightarrow> ('u, 'd, 'z) orm \<Rightarrow> bool" where
  "registered ds name w \<longleftrightarrow>
     ds \<in> managedDataSources w \<and> dsName w ds = Some name \<and> dsPatched w ds \<and> repositoryPatches w"

text \<open>
  C30. Everything of a registered DataSource uses the transaction of the running chain:
  \<open>dataSource.manager\<close>, the manager of every repository that came from it, and
  \<open>getCurrentEntityManager\<close> are the transaction's manager, and \<open>query\<close> without an explicit
  query runner gets the transaction's. With no transaction on that name they are what
  they were before the patches. Registering a DataSource is enough for that, whatever was
  registered or patched before.
\<close>

theorem managed_objects_join:
  assumes reg: "registered ds name w"
    and repo: "repoManager w repo = Some original" "getEmDataSource lib original = Inr ds"
  shows "(liveOn name t em w \<longrightarrow>
      get_dataSource_manager ds w = em \<and> get_repository_manager lib repo w = Inr (Some em) \<and>
      getCurrentEntityManager name fallback w = Inr (Some em) \<and>
      (length args < 3 \<longrightarrow> patchedQuery lib qr ds args w =
         (case tl_em_queryRunner lib em of
            Some r \<Rightarrow> [arg args 0, arg args 1, qr r] | None \<Rightarrow> args))) \<and>
    (noneOn name w \<longrightarrow>
      get_dataSource_manager ds w = dsManager w ds \<and>
      get_repository_manager lib repo w = Inr (Some original) \<and> patchedQuery lib qr ds args w = args) \<and>
    (\<forall>isDefault a v. registered ds name (registerManagedDataSource ds name isDefault a v))"
proof (intro conjI impI)
  assume live: "liveOn name t em w"
  note em = liveOn_manager[OF live]
  show "get_dataSource_manager ds w = em" "get_repository_manager lib repo w = Inr (Some em)"
    using assms em
    by (simp_all add: registered_def get_dataSource_manager_def get_repository_manager_def isManaged_def
        getManagedDataSourceName_def)
  show "getCurrentEntityManager name fallback w = Inr (Some em)"
    using live by (simp add: getCurrentEntityManager_def liveOn_def)
  show "patchedQuery lib qr ds args w =
      (case tl_em_queryRunner lib em of Some r \<Rightarrow> [arg args 0, arg args 1, qr r] | None \<Rightarrow> args)"
    if "length args < 3"
    using that reg em
    by (simp add: registered_def patchedQuery_def pickActiveQueryRunner_def getManagedDataSourceName_def)
next
  assume none: "noneOn name w"
  then have em: "getActiveEntityManager name w = None"
    by (simp add: noneOn_def getActiveEntityManager_def)
  show "get_dataSource_manager ds w = dsManager w ds" "get_repository_manager lib repo w = Inr (Some original)"
    "patchedQuery lib qr ds args w = args"
    using assms em
    by (simp_all add: registered_def get_dataSource_manager_def get_repository_manager_def isManaged_def
        getManagedDataSourceName_def patchedQuery_def pickActiveQueryRunner_def)
next
  show "\<forall>isDefault a v. registered ds name (registerManagedDataSource ds name isDefault a v)"
    by (simp add: registered_def registerManagedDataSource_def Let_def patchDataSourceInstance_def
        markAsManaged_def applyAllPatches_def applyRepositoryPatches_def applyEntityManagerPatches_def)
qed

text \<open>A registered DataSource 0 with a transaction whose manager is 12.\<close>

definition joinedWorld :: client_orm where
  "joinedWorld =
     updateStore 3 (\<lambda>_. [(''typeorm:main'', 4)])
       (updateTx 4 (\<lambda>tx. tx\<lparr>handle := entityManagerHandle 1 12, adapterName := ''typeorm'',
          adapterInstanceName := ''main''\<rparr>)
         ((registerManagedDataSource 0 ''main'' True 0 ormWorld)\<lparr>als := Some 3\<rparr>))"

lemma managed_objects_join_witness:
  "get_dataSource_manager 0 joinedWorld = 12 \<and>
   get_repository_manager ((loggingLib ''postgres'')\<lparr>tl_em_connection := (\<lambda>em. Some 0)\<rparr> ::
       client_orm typeorm_lib) 7 joinedWorld =
     Inr (Some 12)"
proof -
  let ?lib = "(loggingLib ''postgres'')\<lparr>tl_em_connection := (\<lambda>em. Some 0)\<rparr> :: client_orm typeorm_lib"
  have live: "liveOn ''main'' 4 12 joinedWorld"
    by (simp add: liveOn_def joinedWorld_def updateTx_def getActiveTransaction_def getStore_def
        typeOrmContextKey_def updateStore_def entityManagerHandle_def entityManagerOf_def)
  have "registered 0 ''main'' joinedWorld" "repoManager joinedWorld 7 = Some 0" "getEmDataSource ?lib 0 = Inr 0"
    by (simp_all add: registered_def joinedWorld_def updateTx_def updateStore_def registerManagedDataSource_def
        Let_def patchDataSourceInstance_def markAsManaged_def applyAllPatches_def
        applyRepositoryPatches_def applyEntityManagerPatches_def ormWorld_def getEmDataSource_def
        loggingLib_def)
  from conjunct1[OF managed_objects_join[OF this], THEN mp, OF live] show ?thesis by simp
qed

text \<open>
  Registering a DataSource twice under one name is registering it once: the patches do not
  stack, the captured manager and every stamp stay, and an assignment to
  \<open>dataSource.manager\<close> in between is still what the property falls back to.
\<close>

theorem registration_idempotent:
  fixes w :: "('u, 'd, 'z) orm"
  shows "registerManagedDataSource ds name d a (registerManagedDataSource ds name d a w) =
      registerManagedDataSource ds name d a w \<and>
    dsManager (registerManagedDataSource ds name d a
      (set_dataSource_manager ds em (registerManagedDataSource ds name d a w))) ds = em"
proof -
  define w1 where "w1 = registerManagedDataSource ds name d a w"
  have w1: "repositoryPatches w1" "entityManagerPatches w1" "ds \<in> managedDataSources w1"
    "dsName w1 ds = Some name" "dsPatched w1 ds"
    "register \<lparr>reg_adapterName = ''typeorm'', reg_instanceName = name, reg_adapter = a\<rparr> d (registry w1) =
      registry w1"
    unfolding w1_def
    by (auto simp: registerManagedDataSource_def Let_def patchDataSourceInstance_def markAsManaged_def
        applyAllPatches_def applyRepositoryPatches_def applyEntityManagerPatches_def register_def)
  have "(dsName w1)(ds \<mapsto> name) = dsName w1" using w1 by (simp add: fun_upd_idem)
  then have "registerManagedDataSource ds name d a w1 = w1"
    using w1 by (simp add: registerManagedDataSource_def Let_def patchDataSourceInstance_def
        markAsManaged_def applyAllPatches_def applyRepositoryPatches_def applyEntityManagerPatches_def
        insert_absorb)
  moreover have "dsManager (registerManagedDataSource ds name d a (set_dataSource_manager ds em w1)) ds = em"
    by (simp add: registerManagedDataSource_def Let_def patchDataSourceInstance_def
        markAsManaged_def applyAllPatches_def applyRepositoryPatches_def applyEntityManagerPatches_def
        set_dataSource_manager_def)
  ultimately show ?thesis unfolding w1_def by blast
qed

end
