(* ===== verification/Drizzle_Properties.thy ===== *)
theory Drizzle_Properties
  imports Drizzle Typeorm_Properties
begin

text \<open>
  Properties of the Drizzle integration: the adapter meets the manager's contract; a patched
  database follows the transaction of the running chain while the adapter always begins on
  the database itself; what registration refuses.
\<close>

section \<open>The contract\<close>

text \<open>
  C27. Over a Drizzle whose \<open>transaction\<close> is a session of its steps \<open>begins\<close>, \<open>commits\<close> and
  \<open>rolls\<close>, the adapter of a database keeps the contract of the interface as the TypeORM one
  does. \<open>runInTransaction\<close> begins with the isolation level and the access mode asked for, and
  with no configuration when neither is; it commits the handle's own \<open>tx\<close> when the callback
  resolved and returns the value, and rolls that \<open>tx\<close> back when the callback, or the commit,
  rejected and rethrows the error. \<open>runInSavepoint\<close> sends SAVEPOINT with a new name on the
  parent's \<open>tx\<close>, then RELEASE SAVEPOINT of that name, or ROLLBACK TO SAVEPOINT of that name,
  rethrowing the error.
\<close>

theorem drizzle_adapter_lawful:
  assumes "settling_drizzle lib begins commits rolls"
  shows "transactional_adapter (DrizzleTransactionAdapter lib base name)
    (dz_enter begins rolls base)
    (\<lambda>opts h. commits (dzTx h)) (\<lambda>opts h e. rolls (dzTx h))
    (dz_mark lib)
    (\<lambda>parent sp. sendTo (dl_execute lib) (dzTx parent) (''RELEASE SAVEPOINT '' @ sp))
    (\<lambda>parent sp e. sendTo (dl_execute lib) (dzTx parent) (''ROLLBACK TO SAVEPOINT '' @ sp))"
  by (rule settling_drizzle.drizzle_transactional[OF assms])

text \<open>A Drizzle that logs, and the methods of its databases.\<close>

definition drizzleLog :: "('u, sql_log, 'z) dzw drizzle_lib" where
  "drizzleLog =
     \<lparr>dl_transaction = (\<lambda>base cfg. log_transaction base (Option.bind cfg isolationLevel)),
      dl_execute = (\<lambda>tx sql w. Some (Resolve Undef, logSql tx sql w)),
      dl_kinds = (\<lambda>base. [''NodePgDatabase'', ''PgDatabase'']),
      dl_protos = (\<lambda>base. [[(''constructor'', True)],
        [(''select'', True), (''execute'', True), (''transaction'', True), (''_'', False)]]),
      dl_ownData = (\<lambda>base. [''dialect'', ''query'', ''$with''])\<rparr>"

definition dz_log_begins :: "nat \<Rightarrow> drizzle_config option \<Rightarrow> (('u, sql_log, 'z) dzw, nat) comp" where
  "dz_log_begins base cfg = log_begins base (Option.bind cfg isolationLevel)"

interpretation drizzled: settling_drizzle drizzleLog dz_log_begins log_commits log_rolls
proof
  show "dl_transaction drizzleLog base cfg f w = Some (r, w') \<longleftrightarrow>
      session (dz_log_begins base cfg) log_commits (\<lambda>m e. log_rolls m) f w r w'"
    for base cfg r and f :: "nat \<Rightarrow> (('a, sql_log, 'b) dzw, internal_result) comp" and w w'
    by (simp add: drizzleLog_def dz_log_begins_def log_transaction_session)
  show "keeps quiet (dz_log_begins base cfg :: (('a, sql_log, 'b) dzw, nat) comp)" for base cfg
    by (simp add: dz_log_begins_def logging.begins_quiet)
  show "keeps quiet (log_commits tx :: (('a, sql_log, 'b) dzw, unit) comp)"
    "keeps quiet (log_rolls tx :: (('a, sql_log, 'b) dzw, unit) comp)" for tx
    by (rule logging.commits_quiet logging.rolls_quiet)+
  show "dl_execute drizzleLog tx sql w = Some (v, w') \<Longrightarrow> quiet w w'"
    for tx sql v and w w' :: "('a, sql_log, 'b) dzw"
    by (auto simp: drizzleLog_def logSql_quiet)
qed

lemma drizzle_adapter_lawful_witness:
  "transactional_adapter (DrizzleTransactionAdapter drizzleLog 0 ''default'')
    (dz_enter dz_log_begins log_rolls 0)
    (\<lambda>opts h. log_commits (dzTx h)) (\<lambda>opts h e. log_rolls (dzTx h))
    (dz_mark drizzleLog)
    (\<lambda>parent sp. sendTo (dl_execute drizzleLog) (dzTx parent) (''RELEASE SAVEPOINT '' @ sp))
    (\<lambda>parent sp e. sendTo (dl_execute drizzleLog) (dzTx parent) (''ROLLBACK TO SAVEPOINT '' @ sp))"
  by (rule drizzle_adapter_lawful[OF drizzled.settling_drizzle_axioms])

section \<open>Registration\<close>

text \<open>
  Registration refuses a database that is no Drizzle PostgreSQL database, and one that
  already is another dataSource, with a \<open>TypeError\<close>, and changes nothing: no patch, no
  dataSource name, no adapter registered.
\<close>

theorem drizzle_registration_refuses:
  assumes "drizzleDialectOf lib base = Inl TypeError \<or>
    (\<exists>other. dz_managed w base = Some other \<and> other \<noteq> name)"
  shows "registerManagedDatabase lib base name d a w =
    Some (Reject (JObj (fresh w) [''TypeError'', ''Error''] [(''name'', JStr ''TypeError'')]),
      w\<lparr>fresh := Suc (fresh w)\<rparr>)"
  using assms
  by (auto simp: registerManagedDatabase_def drizzleDialectOf_def patchDrizzleInstance_def andThen_def
      TypeError_def)

definition drizzleWorld :: "(client_hook, sql_log, unit) dzw" where
  "drizzleWorld =
     \<lparr>als = None, stores = (\<lambda>_. newStore 0 0), txs = txs sampleWorld, fresh = 10, now = 0,
      registry = newRegistry, rolledBack = {}, pending = (\<lambda>_. None), cells = (\<lambda>_. None), db = [],
      dz_managed = [1 \<mapsto> ''billing''], dz_originals = (\<lambda>_. None), dz_accessors = (\<lambda>_. []), \<dots> = ()\<rparr>"

lemma drizzle_registration_refuses_witness:
  "registerManagedDatabase drizzleLog 1 ''default'' True 0 drizzleWorld =
    Some (Reject (JObj 10 [''TypeError'', ''Error''] [(''name'', JStr ''TypeError'')]),
      drizzleWorld\<lparr>fresh := 11\<rparr>)"
  by (subst drizzle_registration_refuses) (simp_all add: drizzleWorld_def)

section \<open>Routing\<close>

lemma wrapMethods_set:
  "set (wrapMethods ps os) = set os \<union>
     {n. (n, True) \<in> set ps \<and> n \<noteq> ''constructor'' \<and> n \<notin> set objectPrototypeNames}"
  by (induction ps os rule: wrapMethods.induct) auto

lemma originalsOf_set:
  "set (originalsOf protos) =
     {n. (\<exists>ps\<in>set protos. (n, True) \<in> set ps) \<and> n \<noteq> ''constructor'' \<and> n \<notin> set objectPrototypeNames}"
proof -
  have "set (fold wrapMethods protos os) = set os \<union>
     {n. (\<exists>ps\<in>set protos. (n, True) \<in> set ps) \<and> n \<noteq> ''constructor'' \<and> n \<notin> set objectPrototypeNames}" for os
    by (induction protos arbitrary: os) (auto simp: wrapMethods_set)
  then show ?thesis by (simp add: originalsOf_def)
qed

text \<open>A world in which the database has been registered and not been reset since.\<close>

definition drizzlePatched :: "'w drizzle_lib \<Rightarrow> nat \<Rightarrow> string \<Rightarrow> ('u, 'd, 'z) dzw \<Rightarrow> bool" where
  "drizzlePatched lib base name w \<longleftrightarrow>
     dz_managed w base = Some name \<and> dz_originals w base = Some (originalsOf (dl_protos lib base)) \<and>
     dz_accessors w base = filter (\<lambda>p. p \<in> set (dl_ownData lib base)) ROUTED_PROPERTIES"

lemma registered_is_patched:
  assumes "registerManagedDatabase lib base name d a w = Some (Resolve a', w')"
    and "dz_originals w base = None"
  shows "drizzlePatched lib base name w'"
  using assms
  by (auto simp: registerManagedDatabase_def patchDrizzleInstance_def andThen_Some drizzlePatched_def
      Let_def split: sum.splits if_splits)

text \<open>
  A registered database follows the transaction of the chain: every method of its classes
  runs on the active transaction's \<open>tx\<close>, and so do the relational query objects it has;
  with no transaction they run on the database. Yet the adapter always begins on the
  database itself, in either case, so that \<open>REQUIRES_NEW\<close> inside a transaction is a
  transaction of its own and no savepoint.
\<close>

theorem drizzle_routes:
  assumes "drizzlePatched lib base name w"
    and "\<exists>ps\<in>set (dl_protos lib base). (m, True) \<in> set ps"
    and "m \<noteq> ''constructor''" and "m \<notin> set objectPrototypeNames"
    and "p \<in> set ROUTED_PROPERTIES" and "p \<in> set (dl_ownData lib base)"
    and "\<exists>ps\<in>set (dl_protos lib base). (''transaction'', True) \<in> set ps"
  shows "methodTarget base m w = (case activeTx name w of Some tx \<Rightarrow> tx | None \<Rightarrow> base) \<and>
    propertyTarget base p w = (case activeTx name w of Some tx \<Rightarrow> tx | None \<Rightarrow> base) \<and>
    dz_beginOn base w = base"
proof -
  have target: "targetOf base w = (case activeTx name w of Some tx \<Rightarrow> tx | None \<Rightarrow> base)"
    using assms(1) by (auto simp: targetOf_def drizzlePatched_def split: option.split)
  have names: "m \<in> set (originalsOf (dl_protos lib base))"
    "''transaction'' \<in> set (originalsOf (dl_protos lib base))"
    using assms unfolding originalsOf_set by (simp_all add: objectPrototypeNames_def)
  show ?thesis
    using assms names target
    by (auto simp: methodTarget_def propertyTarget_def dz_beginOn_def originalTransactionOf_def
        drizzlePatched_def)
qed

text \<open>Database 0 is registered, and a transaction with \<open>tx\<close> 12 is active on it.\<close>

definition drizzleJoined :: "(client_hook, sql_log, unit) dzw" where
  "drizzleJoined =
     updateStore 3 (\<lambda>_. [(''drizzle:default'', 4)])
       (updateTx 4 (\<lambda>tx. tx\<lparr>handle := drizzleHandle 1 12\<rparr>)
         (snd (the (registerManagedDatabase (drizzleLog :: (client_hook, sql_log, unit) dzw drizzle_lib)
            0 ''default'' True 0 drizzleWorld))\<lparr>als := Some 3\<rparr>))"

lemma drizzle_routes_witness:
  "methodTarget 0 ''select'' drizzleJoined = 12 \<and> propertyTarget 0 ''query'' drizzleJoined = 12 \<and>
   dz_beginOn 0 drizzleJoined = 0"
proof -
  have "drizzlePatched (drizzleLog :: (client_hook, sql_log, unit) dzw drizzle_lib) 0 ''default'' drizzleJoined"
    by (simp add: drizzlePatched_def drizzleJoined_def registerManagedDatabase_def drizzleDialectOf_def
        drizzleLog_def patchDrizzleInstance_def andThen_def drizzleWorld_def updateTx_def updateStore_def
        isPgDatabaseKind_def wordChar_def Let_def)
  from drizzle_routes[OF this, of "''select''" "''query''"]
  have "methodTarget 0 ''select'' drizzleJoined = (case activeTx ''default'' drizzleJoined of Some tx \<Rightarrow> tx | None \<Rightarrow> 0) \<and>
    propertyTarget 0 ''query'' drizzleJoined = (case activeTx ''default'' drizzleJoined of Some tx \<Rightarrow> tx | None \<Rightarrow> 0) \<and>
    dz_beginOn 0 drizzleJoined = 0"
    by (simp add: drizzleLog_def objectPrototypeNames_def ROUTED_PROPERTIES_def)
  moreover have "activeTx ''default'' drizzleJoined = Some 12" by code_simp
  ultimately show ?thesis by simp
qed

end
