(* ===== verification/Event_Dispatcher.thy ===== *)
theory Event_Dispatcher
  imports Hooks
begin

text \<open>
  \<open>packages/cqrs/src/event-dispatcher/event-dispatcher.ts\<close>: which listeners hear an event,
  in which phase of which transaction, and what happens when one is invoked.

  The hooks the dispatcher pushes are closures over a listener and an event: constructors of
  a hook type of the manager's world, beside the application's own. The code of a listener is
  a parameter, given a bound method and its two arguments. \<open>queueMicrotask\<close> appends to a
  queue of the world; a task carries the asynchronous context that was current when it was
  queued. Tasks run to completion one after the other here: what happens when they interleave
  is the subject of \<open>Interleaving\<close>.
\<close>

section \<open>Listeners\<close>

datatype transaction_phase = BEFORE_COMMIT | AFTER_COMMIT | AFTER_ROLLBACK | AFTER_COMPLETION

text \<open>An event type is the name of its class: nothing else of it is read.\<close>

record listener_metadata =
  m_eventType :: string
  m_phase :: transaction_phase
  m_fallbackExecution :: bool
  m_async :: bool
  m_dataSource :: "string option"

record 'm registered_listener =
  l_handler :: 'm
  l_instanceLabel :: string
  l_methodName :: string
  l_metadata :: listener_metadata

text \<open>The closures \<open>invoke\<close> and \<open>invokeWithError\<close>, and the application's own hooks.\<close>

datatype ('a, 'm) cqrs_hook =
    Invoke "'m registered_listener" jsv
  | InvokeWithError "'m registered_listener" jsv
  | AppHook 'a

datatype 'm microtask = Microtask "'m registered_listener" jsv jsv "nat option"

record ('a, 'm, 'd) cqrs_world = "(('a, 'm) cqrs_hook, 'd) manager_world" +
  listenersByType :: "(string \<times> 'm registered_listener list) list"
  microtasks :: "'m microtask list"
  scheduled :: "nat set"
  attached :: bool
  allOf :: "(nat \<times> jsv list) list"

type_synonym ('a, 'm, 'd, 'z) cqrs = "('a, 'm, 'd, 'z) cqrs_world_scheme"

text \<open>The code of listeners: a bound method, the event, the error.\<close>

type_synonym ('m, 'w) listener_code = "'m \<Rightarrow> jsv \<Rightarrow> jsv \<Rightarrow> ('w, jsv) comp"

section \<open>Registration\<close>

text \<open>
  The object a scanner passes: the name of its class and the methods it has, its own or of
  its prototypes.
\<close>

record 'm listener_instance =
  i_className :: string
  i_methods :: "(string \<times> 'm) list"

definition pushListener ::
    "string \<Rightarrow> 'm registered_listener \<Rightarrow> ('a, 'm, 'd, 'z) cqrs \<Rightarrow> ('a, 'm, 'd, 'z) cqrs" where
  "pushListener typeName entry w =
     (case map_of (listenersByType w) typeName of
        None \<Rightarrow> w\<lparr>listenersByType := AList.update typeName [entry] (listenersByType w)\<rparr>
      | Some ls \<Rightarrow> w\<lparr>listenersByType := AList.update typeName (ls @ [entry]) (listenersByType w)\<rparr>)"

definition registerListener ::
    "'m listener_instance \<Rightarrow> string \<Rightarrow> listener_metadata \<Rightarrow> (('a, 'm, 'd, 'z) cqrs, unit) comp" where
  "registerListener inst methodName metadata w =
     (case map_of (i_methods inst) methodName of
        None \<Rightarrow> raise TypeError w
      | Some m \<Rightarrow>
          Some (Resolve (),
            pushListener (m_eventType metadata)
              \<lparr>l_handler = m, l_instanceLabel = i_className inst, l_methodName = methodName,
               l_metadata = metadata\<rparr> w))"

section \<open>Dispatch\<close>

text \<open>\<open>event.constructor.name\<close>: events are objects, of a class.\<close>

fun constructorName :: "jsv \<Rightarrow> string option" where
  "constructorName (JObj i (c # cs) ps) = Some c"
| "constructorName v = None"

definition attachHookToTransaction ::
    "'m registered_listener \<Rightarrow> jsv \<Rightarrow> nat \<Rightarrow> ('a, 'm, 'd, 'z) cqrs \<Rightarrow> ('a, 'm, 'd, 'z) cqrs" where
  "attachHookToTransaction l ev t w =
     (case m_phase (l_metadata l) of
        BEFORE_COMMIT \<Rightarrow> updateTx t (pushBeforeCommit (UserHook (Invoke l ev))) w
      | AFTER_COMMIT \<Rightarrow> updateTx t (pushAfterCommit (UserHook (Invoke l ev))) w
      | AFTER_ROLLBACK \<Rightarrow> updateTx t (pushAfterRollback (UserHook (InvokeWithError l ev))) w
      | AFTER_COMPLETION \<Rightarrow>
          updateTx t (pushAfterRollback (UserHook (InvokeWithError l ev)))
            (updateTx t (pushAfterCommit (UserHook (Invoke l ev))) w))"

definition queueMicrotask :: "'m microtask \<Rightarrow> ('a, 'm, 'd, 'z) cqrs \<Rightarrow> ('a, 'm, 'd, 'z) cqrs" where
  "queueMicrotask task w = w\<lparr>microtasks := microtasks w @ [task]\<rparr>"

definition scheduleFallback ::
    "'m registered_listener \<Rightarrow> jsv \<Rightarrow> ('a, 'm, 'd, 'z) cqrs \<Rightarrow> ('a, 'm, 'd, 'z) cqrs" where
  "scheduleFallback l ev w = queueMicrotask (Microtask l ev Undef (als w)) w"

definition dataSourceOf :: "'m registered_listener \<Rightarrow> string" where
  "dataSourceOf l =
     (case m_dataSource (l_metadata l) of None \<Rightarrow> DEFAULT_DATA_SOURCE_NAME | Some d \<Rightarrow> d)"

definition anyTxActive :: "('h, 'z) ctx_world_scheme \<Rightarrow> bool" where
  "anyTxActive w = (case getStore w of None \<Rightarrow> False | Some st \<Rightarrow> activeTransactions st \<noteq> [])"

text \<open>The body of the loop, then the loop.\<close>

definition dispatchTo ::
    "bool \<Rightarrow> jsv \<Rightarrow> 'm registered_listener \<Rightarrow> ('a, 'm, 'd, 'z) cqrs \<Rightarrow> ('a, 'm, 'd, 'z) cqrs" where
  "dispatchTo anyTx ev l w =
     (case getActiveTransactionByDataSource (dataSourceOf l) w of
        None \<Rightarrow>
          if \<not> anyTx \<and> m_fallbackExecution (l_metadata l) then scheduleFallback l ev w else w
      | Some t \<Rightarrow> attachHookToTransaction l ev t w)"

definition listenersFor :: "jsv \<Rightarrow> ('a, 'm, 'd, 'z) cqrs \<Rightarrow> 'm registered_listener list" where
  "listenersFor ev w =
     (case constructorName ev of
        None \<Rightarrow> []
      | Some c \<Rightarrow> (case map_of (listenersByType w) c of None \<Rightarrow> [] | Some ls \<Rightarrow> ls))"

definition scheduleDispatch :: "jsv \<Rightarrow> (('a, 'm, 'd, 'z) cqrs, unit) comp" where
  "scheduleDispatch ev w =
     (if constructorName ev = None then raise TypeError w
      else Some (Resolve (), fold (dispatchTo (anyTxActive w) ev) (listenersFor ev w) w))"

section \<open>Invoking a listener\<close>

text \<open>
  An asynchronous listener is only queued. A synchronous one is called and awaited; its
  failure is logged and thrown on.
\<close>

definition invokeListener ::
    "('m, ('a, 'm, 'd, 'z) cqrs) listener_code \<Rightarrow> 'm registered_listener \<Rightarrow> jsv \<Rightarrow> jsv \<Rightarrow>
     (('a, 'm, 'd, 'z) cqrs, jsv) comp" where
  "invokeListener code l ev err w =
     (if m_async (l_metadata l)
      then Some (Resolve Undef, queueMicrotask (Microtask l ev err (als w)) w)
      else andThen (code (l_handler l) ev err) (\<lambda>_. ret Undef) w)"

fun cqrsCallHook ::
    "('m, ('a, 'm, 'd, 'z) cqrs) listener_code \<Rightarrow> ('a \<Rightarrow> jsv \<Rightarrow> (('a, 'm, 'd, 'z) cqrs, jsv) comp) \<Rightarrow>
     ('a, 'm) cqrs_hook \<Rightarrow> jsv \<Rightarrow> (('a, 'm, 'd, 'z) cqrs, jsv) comp" where
  "cqrsCallHook code app (Invoke l ev) arg = invokeListener code l ev Undef"
| "cqrsCallHook code app (InvokeWithError l ev) arg = invokeListener code l ev arg"
| "cqrsCallHook code app (AppHook a) arg = app a arg"

text \<open>
  A microtask calls the listener in the context it was queued in; what the listener throws
  or rejects with is logged.
\<close>

fun runMicrotask ::
    "('m, ('a, 'm, 'd, 'z) cqrs) listener_code \<Rightarrow> 'm microtask \<Rightarrow> ('a, 'm, 'd, 'z) cqrs \<Rightarrow>
     ('a, 'm, 'd, 'z) cqrs option" where
  "runMicrotask code (Microtask l ev err st) w =
     (case code (l_handler l) ev err (w\<lparr>als := st\<rparr>) of
        None \<Rightarrow> None
      | Some (r, w1) \<Rightarrow> Some (w1\<lparr>als := als w\<rparr>))"

text \<open>Until the queue is empty.\<close>

partial_function (option) runMicrotasks ::
    "('m, ('a, 'm, 'd, 'z) cqrs) listener_code \<Rightarrow> ('a, 'm, 'd, 'z) cqrs \<Rightarrow> ('a, 'm, 'd, 'z) cqrs option" where
  "runMicrotasks code w =
     (case microtasks w of
        [] \<Rightarrow> Some w
      | task # rest \<Rightarrow>
          (case runMicrotask code task (w\<lparr>microtasks := rest\<rparr>) of
             None \<Rightarrow> None
           | Some w1 \<Rightarrow> runMicrotasks code w1))"

declare runMicrotasks.simps [code]

end
