(* ===== verification/Event_Publisher.thy ===== *)
theory Event_Publisher
  imports Event_Dispatcher
begin

text \<open>
  \<open>packages/cqrs/src/event-publisher\<close>: the publisher behind the \<open>EventBus\<close> of
  \<open>@nestjs/cqrs\<close>, and the binding that wraps the bus.

  The collaborators of the publisher, the inner publisher and the outbox, are parameters,
  given once by \<open>attach\<close>; so are the bus's own \<open>publish\<close> and \<open>publishAll\<close>. A promise is an
  object of class \<open>Promise\<close>; \<open>allOf\<close> of the world records which values a promise made by
  \<open>Promise.all\<close> or \<open>Promise.resolve\<close> waits for.
\<close>

section \<open>Values\<close>

text \<open>What a \<open>WeakSet\<close> takes: objects and functions.\<close>

fun weakKey :: "jsv \<Rightarrow> nat option" where
  "weakKey (JObj i cs ps) = Some i"
| "weakKey (JFun i) = Some i"
| "weakKey v = None"

fun isFunction :: "jsv \<Rightarrow> bool" where
  "isFunction (JFun i) = True"
| "isFunction v = False"

definition isThenable :: "jsv \<Rightarrow> bool" where
  "isThenable v = isFunction (prop_of v ''then'')"

definition isAggregate :: "jsv \<Rightarrow> bool" where
  "isAggregate v = isFunction (prop_of v ''getUncommittedEvents'')"

definition promise :: "nat \<Rightarrow> jsv" where
  "promise p = JObj p [''Promise'', ''Object''] [(''then'', JFun 0)]"

text \<open>\<open>Promise.all\<close> makes a new promise; \<open>Promise.resolve\<close> of a promise is that promise.\<close>

definition promiseFor :: "jsv list \<Rightarrow> ('a, 'm, 'd, 'z) cqrs \<Rightarrow> nat \<times> ('a, 'm, 'd, 'z) cqrs" where
  "promiseFor vs w = (fresh w, w\<lparr>fresh := Suc (fresh w), allOf := (fresh w, vs) # allOf w\<rparr>)"

definition promiseResolve :: "jsv \<Rightarrow> ('a, 'm, 'd, 'z) cqrs \<Rightarrow> nat \<times> ('a, 'm, 'd, 'z) cqrs" where
  "promiseResolve v w =
     (case object_id v of
        Some p \<Rightarrow> if instance_of v ''Promise'' then (p, w) else promiseFor [v] w
      | None \<Rightarrow> promiseFor [v] w)"

section \<open>The publisher\<close>

record 'w publisher_dependencies =
  dep_inner :: "jsv \<Rightarrow> jsv \<Rightarrow> jsv \<Rightarrow> ('w, jsv) comp"
  dep_outbox :: "(jsv \<Rightarrow> ('w, unit) comp) option"

text \<open>\<open>publishAll\<close> answers with an array, or with one promise for all of it.\<close>

datatype bus_result = One jsv | Many "jsv list"

definition attach :: "('a, 'm, 'd, 'z) cqrs \<Rightarrow> ('a, 'm, 'd, 'z) cqrs" where
  "attach w = w\<lparr>attached := True\<rparr>"

definition innerPublisher ::
    "('a, 'm, 'd, 'z) cqrs publisher_dependencies \<Rightarrow> ('a, 'm, 'd, 'z) cqrs \<Rightarrow>
     (jsv \<Rightarrow> jsv \<Rightarrow> jsv \<Rightarrow> (('a, 'm, 'd, 'z) cqrs, jsv) comp) option" where
  "innerPublisher deps w = (if attached w then Some (dep_inner deps) else None)"

definition wasScheduled :: "jsv \<Rightarrow> ('a, 'm, 'd, 'z) cqrs \<Rightarrow> bool" where
  "wasScheduled ev w = (case weakKey ev of None \<Rightarrow> False | Some i \<Rightarrow> i \<in> scheduled w)"

definition require :: "(('a, 'm, 'd, 'z) cqrs, unit) comp" where
  "require w = (if attached w then Some (Resolve (), w) else raise PlainError w)"

definition markScheduled :: "jsv \<Rightarrow> (('a, 'm, 'd, 'z) cqrs, unit) comp" where
  "markScheduled ev w =
     (case weakKey ev of
        None \<Rightarrow> raise TypeError w
      | Some i \<Rightarrow> Some (Resolve (), w\<lparr>scheduled := insert i (scheduled w)\<rparr>))"

definition schedule ::
    "('a, 'm, 'd, 'z) cqrs publisher_dependencies \<Rightarrow> jsv \<Rightarrow> (('a, 'm, 'd, 'z) cqrs, unit) comp" where
  "schedule deps ev w =
     (if wasScheduled ev w then Some (Resolve (), w)
      else
        andThen require (\<lambda>_.
          andThen (markScheduled ev) (\<lambda>_.
            andThen (scheduleDispatch ev) (\<lambda>_.
              case dep_outbox deps of None \<Rightarrow> ret () | Some f \<Rightarrow> f ev))) w)"

definition publish ::
    "('a, 'm, 'd, 'z) cqrs publisher_dependencies \<Rightarrow> jsv \<Rightarrow> jsv \<Rightarrow> jsv \<Rightarrow> (('a, 'm, 'd, 'z) cqrs, jsv) comp" where
  "publish deps ev ctx async =
     andThen require (\<lambda>_. andThen (schedule deps ev) (\<lambda>_. dep_inner deps ev ctx async))"

fun publishEach ::
    "('a, 'm, 'd, 'z) cqrs publisher_dependencies \<Rightarrow> jsv list \<Rightarrow> jsv \<Rightarrow> jsv \<Rightarrow>
     (('a, 'm, 'd, 'z) cqrs, jsv list) comp" where
  "publishEach deps [] ctx async = ret []"
| "publishEach deps (ev # evs) ctx async =
     andThen (publish deps ev ctx async)
       (\<lambda>r. andThen (publishEach deps evs ctx async) (\<lambda>rs. ret (r # rs)))"

definition publishAll ::
    "('a, 'm, 'd, 'z) cqrs publisher_dependencies \<Rightarrow> jsv list \<Rightarrow> jsv \<Rightarrow> jsv \<Rightarrow>
     (('a, 'm, 'd, 'z) cqrs, bus_result) comp" where
  "publishAll deps evs ctx async =
     andThen (publishEach deps evs ctx async)
       (\<lambda>rs w. if list_ex isThenable rs
                then (case promiseFor rs w of (p, w1) \<Rightarrow> Some (Resolve (One (promise p)), w1))
                else Some (Resolve (Many rs), w))"

section \<open>The binding\<close>

record 'w event_bus =
  bus_publish :: "jsv \<Rightarrow> jsv \<Rightarrow> jsv \<Rightarrow> ('w, jsv) comp"
  bus_publishAll :: "jsv list \<Rightarrow> jsv \<Rightarrow> jsv \<Rightarrow> ('w, bus_result) comp"
  bus_wrapped :: bool

definition split_contexts :: "jsv \<Rightarrow> jsv \<Rightarrow> jsv \<times> jsv" where
  "split_contexts contextOrAsync asyncContext =
     (if asyncContext = Undef \<and> instance_of contextOrAsync ''AsyncContext''
      then (Undef, contextOrAsync) else (contextOrAsync, asyncContext))"

definition transactionContext :: "nat \<Rightarrow> jsv \<Rightarrow> jsv \<Rightarrow> jsv" where
  "transactionContext i transaction ctx =
     JObj i [''Object'']
       (if isAggregate ctx then [(''transaction'', transaction), (''aggregate'', ctx)]
        else [(''transaction'', transaction)])"

type_synonym ('a, 'm, 'd, 'z) cqrs_env = "(('a, 'm) cqrs_hook, ('a, 'm, 'd, 'z) cqrs) environment"

text \<open>
  The context a caller chose is kept; none, or an aggregate, becomes \<open>{ transaction }\<close>, and
  stays what it was when the adapter has no native transaction to give.
\<close>

definition contextFor ::
    "('a, 'm, 'd, 'z) cqrs_env \<Rightarrow> nat option \<Rightarrow> jsv \<Rightarrow> (('a, 'm, 'd, 'z) cqrs, jsv) comp" where
  "contextFor env active ctx w =
     (case active of
        None \<Rightarrow> Some (Resolve ctx, w)
      | Some t \<Rightarrow>
          if ctx \<noteq> Undef \<and> \<not> isAggregate ctx then Some (Resolve ctx, w)
          else
            (case nativeTransactionOf env t w of
               None \<Rightarrow> None
             | Some (Reject e, w1) \<Rightarrow> Some (Resolve ctx, w1)
             | Some (Resolve transaction, w1) \<Rightarrow>
                 Some (Resolve (transactionContext (fresh w1) transaction ctx),
                   w1\<lparr>fresh := Suc (fresh w1)\<rparr>)))"

definition track :: "nat option \<Rightarrow> jsv \<Rightarrow> (('a, 'm, 'd, 'z) cqrs, jsv) comp" where
  "track active result w =
     (case active of
        None \<Rightarrow> Some (Resolve result, w)
      | Some t \<Rightarrow>
          if isThenable result
          then (case promiseResolve result w of (p, w1) \<Rightarrow> Some (Resolve result, trackPending t p w1))
          else Some (Resolve result, w))"

fun trackAll :: "nat option \<Rightarrow> bus_result \<Rightarrow> (('a, 'm, 'd, 'z) cqrs, bus_result) comp" where
  "trackAll active (One result) w =
     andThen (track active result) (\<lambda>r. ret (One r)) w"
| "trackAll active (Many results) w =
     (case active of
        None \<Rightarrow> Some (Resolve (Many results), w)
      | Some t \<Rightarrow>
          if list_ex isThenable results
          then (case promiseFor results w of (p, w1) \<Rightarrow> Some (Resolve (Many results), trackPending t p w1))
          else Some (Resolve (Many results), w))"

fun scheduleEach ::
    "('a, 'm, 'd, 'z) cqrs publisher_dependencies \<Rightarrow> jsv list \<Rightarrow> (('a, 'm, 'd, 'z) cqrs, unit) comp" where
  "scheduleEach deps [] = ret ()"
| "scheduleEach deps (ev # evs) = andThen (schedule deps ev) (\<lambda>_. scheduleEach deps evs)"

definition wrappedPublish ::
    "('a, 'm, 'd, 'z) cqrs_env \<Rightarrow> ('a, 'm, 'd, 'z) cqrs publisher_dependencies \<Rightarrow> string \<Rightarrow>
     ('a, 'm, 'd, 'z) cqrs event_bus \<Rightarrow> jsv \<Rightarrow> jsv \<Rightarrow> jsv \<Rightarrow> (('a, 'm, 'd, 'z) cqrs, jsv) comp" where
  "wrappedPublish env deps ds bus ev contextOrAsync asyncContext =
     andThen (schedule deps ev)
       (\<lambda>_ w. case split_contexts contextOrAsync asyncContext of (ctx, async) \<Rightarrow>
          let active = getActiveTransactionByDataSource ds w
          in andThen (contextFor env active ctx)
               (\<lambda>ctx'. andThen (bus_publish bus ev ctx' async) (track active)) w)"

definition wrappedPublishAll ::
    "('a, 'm, 'd, 'z) cqrs_env \<Rightarrow> ('a, 'm, 'd, 'z) cqrs publisher_dependencies \<Rightarrow> string \<Rightarrow>
     ('a, 'm, 'd, 'z) cqrs event_bus \<Rightarrow> jsv list \<Rightarrow> jsv \<Rightarrow> jsv \<Rightarrow> (('a, 'm, 'd, 'z) cqrs, bus_result) comp" where
  "wrappedPublishAll env deps ds bus evs contextOrAsync asyncContext =
     andThen (scheduleEach deps evs)
       (\<lambda>_ w. case split_contexts contextOrAsync asyncContext of (ctx, async) \<Rightarrow>
          let active = getActiveTransactionByDataSource ds w
          in andThen (contextFor env active ctx)
               (\<lambda>ctx'. andThen (bus_publishAll bus evs ctx' async) (trackAll active)) w)"

definition wrapBus ::
    "('a, 'm, 'd, 'z) cqrs_env \<Rightarrow> ('a, 'm, 'd, 'z) cqrs publisher_dependencies \<Rightarrow> string \<Rightarrow>
     ('a, 'm, 'd, 'z) cqrs event_bus \<Rightarrow> ('a, 'm, 'd, 'z) cqrs event_bus" where
  "wrapBus env deps ds bus =
     (if bus_wrapped bus then bus
      else \<lparr>bus_publish = wrappedPublish env deps ds bus,
            bus_publishAll = wrappedPublishAll env deps ds bus,
            bus_wrapped = True\<rparr>)"

text \<open>
  What the constructor attaches: the publisher the application configured, else the bus's
  own subject, of which \<open>next\<close> is the operation.
\<close>

definition attachedDependencies ::
    "(jsv \<Rightarrow> jsv \<Rightarrow> jsv \<Rightarrow> ('w, jsv) comp) option \<Rightarrow> (jsv \<Rightarrow> ('w, unit) comp) \<Rightarrow>
     (jsv \<Rightarrow> ('w, unit) comp) option \<Rightarrow> 'w publisher_dependencies" where
  "attachedDependencies delegate next outbox =
     \<lparr>dep_inner = (case delegate of
        Some f \<Rightarrow> f
      | None \<Rightarrow> (\<lambda>ev ctx async. andThen (next ev) (\<lambda>_. ret Undef))),
      dep_outbox = outbox\<rparr>"

text \<open>The constructor: attach the publisher, wrap the bus.\<close>

definition CqrsEventBusBinding ::
    "('a, 'm, 'd, 'z) cqrs_env \<Rightarrow> ('a, 'm, 'd, 'z) cqrs publisher_dependencies \<Rightarrow> string option \<Rightarrow>
     ('a, 'm, 'd, 'z) cqrs event_bus \<Rightarrow> ('a, 'm, 'd, 'z) cqrs \<Rightarrow>
     ('a, 'm, 'd, 'z) cqrs event_bus \<times> ('a, 'm, 'd, 'z) cqrs" where
  "CqrsEventBusBinding env deps eventsDataSource bus w =
     (wrapBus env deps (case eventsDataSource of None \<Rightarrow> ''default'' | Some d \<Rightarrow> d) bus, attach w)"

section \<open>The check at bootstrap\<close>

text \<open>
  Objects as \<open>Object.values\<close> sees them: the addresses its own enumerable properties hold, and
  whether it answers to \<open>publish\<close>.
\<close>

record publisher_object =
  po_values :: "nat list"
  po_publish :: bool

fun reaches :: "(nat \<Rightarrow> publisher_object) \<Rightarrow> nat option \<Rightarrow> nat \<Rightarrow> nat \<Rightarrow> bool" where
  "reaches G publisher target 0 = (publisher = Some target)"
| "reaches G publisher target (Suc depth) =
     (publisher = Some target \<or>
      (case publisher of
         None \<Rightarrow> False
       | Some p \<Rightarrow> list_ex (\<lambda>v. po_publish (G v) \<and> reaches G (Some v) target depth) (po_values (G p))))"

text \<open>
  \<open>instances\<close> are the instances of \<open>EventBus\<close> among the providers, \<open>publisher\<close> what the
  bus publishes to now.
\<close>

definition onApplicationBootstrap ::
    "(nat \<Rightarrow> publisher_object) \<Rightarrow> nat list \<Rightarrow> nat option \<Rightarrow> nat \<Rightarrow> (('h, 'z) ctx_world_scheme, unit) comp" where
  "onApplicationBootstrap G instances publisher target w =
     (if length (remdups instances) > 1 then raise PlainError w
      else if \<not> reaches G publisher target 4 then raise PlainError w
      else Some (Resolve (), w))"

end
