(* ===== verification/Decorators.thy ===== *)
theory Decorators
  imports Tx_Manager
begin

text \<open>
  \<open>packages/core/src/decorators\<close>, \<open>bootstrap\<close> and \<open>interceptor\<close>: the metadata of
  \<open>@Transactional\<close> and two of the three mechanisms that wrap a method in
  \<open>TransactionManager.run\<close>; the third, for CQRS handlers, is in \<open>Cqrs_Handlers\<close>.

  Classes, instances and source functions are addresses. Metadata of a class is looked up
  along its chain of superclasses, that of a function on the function alone. A method is the
  function the source has, or a wrapper around a method, which carries the marker and the
  options it runs with. An option that is explicitly undefined counts as absent.
\<close>

section \<open>The decorators\<close>

definition Transactional :: "extended_options \<Rightarrow> extended_options" where
  "Transactional options =
     options\<lparr>o_propagation := (case o_propagation options of None \<Rightarrow> Some REQUIRED | p \<Rightarrow> p)\<rparr>"

definition ReadOnly :: "extended_options \<Rightarrow> extended_options" where
  "ReadOnly options = Transactional (options\<lparr>o_readOnly := Some True\<rparr>)"

definition TransactionalOn :: "string \<Rightarrow> extended_options \<Rightarrow> extended_options" where
  "TransactionalOn adapterInstance options =
     Transactional (options\<lparr>o_adapterInstance := Some adapterInstance\<rparr>)"

text \<open>
  What \<open>Reflect\<close> holds: the superclass chain of a class, itself first, the options on a class
  and on a source function, and the marks \<open>@nestjs/cqrs\<close> puts on a handler class.
\<close>

record reflect_data =
  rd_chain :: "nat \<Rightarrow> nat list"
  rd_classMeta :: "nat \<Rightarrow> extended_options option"
  rd_methodMeta :: "nat \<Rightarrow> extended_options option"
  rd_command :: "nat \<Rightarrow> bool"
  rd_query :: "nat \<Rightarrow> bool"
  rd_events :: "nat \<Rightarrow> bool"

text \<open>The decorator, applied to a method (its function) or to a class.\<close>

definition applyTransactional ::
    "extended_options \<Rightarrow> nat \<Rightarrow> nat option \<Rightarrow> reflect_data \<Rightarrow> reflect_data" where
  "applyTransactional metadata target methodTarget R =
     (case methodTarget of
        Some f \<Rightarrow> R\<lparr>rd_methodMeta := (rd_methodMeta R)(f \<mapsto> metadata)\<rparr>
      | None \<Rightarrow> R\<lparr>rd_classMeta := (rd_classMeta R)(target \<mapsto> metadata)\<rparr>)"

fun firstSome :: "('a \<Rightarrow> 'b option) \<Rightarrow> 'a list \<Rightarrow> 'b option" where
  "firstSome f [] = None"
| "firstSome f (x # xs) = (case f x of None \<Rightarrow> firstSome f xs | Some y \<Rightarrow> Some y)"

definition classMetadata :: "reflect_data \<Rightarrow> nat \<Rightarrow> extended_options option" where
  "classMetadata R c = firstSome (rd_classMeta R) (rd_chain R c)"

datatype method_fn = Source nat | RunIn extended_options method_fn

fun isWrapped :: "method_fn \<Rightarrow> bool" where
  "isWrapped (Source f) = False"
| "isWrapped (RunIn options m) = True"

fun getTransactionalMetadata :: "reflect_data \<Rightarrow> method_fn \<Rightarrow> extended_options option" where
  "getTransactionalMetadata R (Source f) = rd_methodMeta R f"
| "getTransactionalMetadata R (RunIn options m) = Some options"

text \<open>Calling a method: the source function is the caller's parameter.\<close>

fun callMethod ::
    "('u, 'd, 'z) env \<Rightarrow> (nat \<Rightarrow> (('u, 'd, 'z) world, jsv) comp) \<Rightarrow> method_fn \<Rightarrow> (('u, 'd, 'z) world, jsv) comp" where
  "callMethod env source (Source f) = source f"
| "callMethod env source (RunIn options m) = run env options (callMethod env source m)"

section \<open>Objects\<close>

text \<open>A property that holds something other than a function still hides an inherited one.\<close>

datatype slot = Fn method_fn | NotFn

record method_heap =
  protoOwn :: "nat \<Rightarrow> (string \<times> slot) list"
  instOwn :: "nat \<Rightarrow> (string \<times> slot) list"
  wrappedPrototypes :: "(nat \<times> string \<times> method_fn) list"

definition protoMethod :: "reflect_data \<Rightarrow> method_heap \<Rightarrow> nat \<Rightarrow> string \<Rightarrow> slot option" where
  "protoMethod R H c name = firstSome (\<lambda>k. map_of (protoOwn H k) name) (rd_chain R c)"

definition hostMethod :: "reflect_data \<Rightarrow> method_heap \<Rightarrow> nat \<Rightarrow> nat \<Rightarrow> string \<Rightarrow> slot option" where
  "hostMethod R H i c name =
     (case map_of (instOwn H i) name of None \<Rightarrow> protoMethod R H c name | s \<Rightarrow> s)"

text \<open>
  A provider of the container: its class, when \<open>metatype\<close> is a function, its instance, the
  class of the instance, when its prototype is not null, and the method names the metadata
  scanner finds there.
\<close>

record provider =
  p_metatype :: "nat option"
  p_instance :: "nat option"
  p_prototype :: "nat option"
  p_methodNames :: "string list"

section \<open>Wrapping the methods of plain providers\<close>

definition isCqrsHandler :: "reflect_data \<Rightarrow> nat \<Rightarrow> bool" where
  "isCqrsHandler R c \<longleftrightarrow>
     list_ex (rd_command R) (rd_chain R c) \<or> list_ex (rd_query R) (rd_chain R c) \<or>
     list_ex (rd_events R) (rd_chain R c)"

definition wrapMethod :: "nat \<Rightarrow> string \<Rightarrow> method_fn \<Rightarrow> extended_options \<Rightarrow> method_heap \<Rightarrow> method_heap" where
  "wrapMethod i name current metadata H =
     H\<lparr>instOwn := (instOwn H)(i := AList.update name (Fn (RunIn metadata current)) (instOwn H i))\<rparr>"

text \<open>The body of the loop over method names.\<close>

definition wrapNamed ::
    "reflect_data \<Rightarrow> extended_options option \<Rightarrow> nat \<Rightarrow> nat \<Rightarrow> string \<Rightarrow> method_heap \<Rightarrow> method_heap" where
  "wrapNamed R classMeta i proto name H =
     (case protoMethod R H proto name of
        Some (Fn m) \<Rightarrow>
          (case (case getTransactionalMetadata R m of None \<Rightarrow> classMeta | md \<Rightarrow> md) of
             None \<Rightarrow> H
           | Some metadata \<Rightarrow>
               (case hostMethod R H i proto name of
                  Some (Fn current) \<Rightarrow>
                    if isWrapped current then H else wrapMethod i name current metadata H
                | _ \<Rightarrow> H))
      | _ \<Rightarrow> H)"

definition wrapProvider :: "reflect_data \<Rightarrow> provider \<Rightarrow> method_heap \<Rightarrow> method_heap" where
  "wrapProvider R p H =
     (case (p_instance p, p_metatype p, p_prototype p) of
        (Some i, Some c, Some proto) \<Rightarrow>
          if isCqrsHandler R c then H
          else fold (wrapNamed R (classMetadata R c) i proto) (p_methodNames p) H
      | _ \<Rightarrow> H)"

definition TransactionalMethodsBootstrap ::
    "reflect_data \<Rightarrow> provider list \<Rightarrow> method_heap \<Rightarrow> method_heap" where
  "TransactionalMethodsBootstrap R providers H = fold (wrapProvider R) providers H"

section \<open>Wrapping a request\<close>

text \<open>
  The interceptor: the handler's metadata, else the class's; \<open>next\<close> is the rest of the
  request, of which the first value is awaited.
\<close>

definition intercept ::
    "('u, 'd, 'z) env \<Rightarrow> reflect_data \<Rightarrow> method_fn \<Rightarrow> nat \<Rightarrow> (('u, 'd, 'z) world, jsv) comp \<Rightarrow>
     (('u, 'd, 'z) world, jsv) comp" where
  "intercept env R handler cls next =
     (case (case getTransactionalMetadata R handler of None \<Rightarrow> classMetadata R cls | md \<Rightarrow> md) of
        None \<Rightarrow> next
      | Some metadata \<Rightarrow> run env metadata next)"

end
