(* ===== verification/Cqrs_Handlers.thy ===== *)
theory Cqrs_Handlers
  imports Event_Publisher Decorators
begin

text \<open>
  \<open>packages/cqrs/src/decorators\<close> and \<open>handlers\<close>, and the options of the module: the
  metadata of event handlers, the scanners that register them with the dispatcher, and the
  wrapper that puts command, query and event handlers in a transaction.
\<close>

section \<open>Handler decorators\<close>

record teh_options =
  te_events :: "string list"
  te_phase :: "transaction_phase option"
  te_async :: "bool option"
  te_fallbackExecution :: "bool option"
  te_dataSource :: "string option"

record teh_metadata =
  tm_eventTypes :: "string list"
  tm_phase :: transaction_phase
  tm_async :: bool
  tm_fallbackExecution :: bool
  tm_dataSource :: string

text \<open>The arguments are one options object or a list of event classes.\<close>

datatype 'o decorator_args = OptionsObject 'o | EventTypes "string list"

abbreviation orElse :: "'a option \<Rightarrow> 'a \<Rightarrow> 'a" where
  "orElse v d \<equiv> (case v of None \<Rightarrow> d | Some x \<Rightarrow> x)"

fun tehResolveMetadata :: "teh_options decorator_args \<Rightarrow> teh_metadata" where
  "tehResolveMetadata (OptionsObject options) =
     \<lparr>tm_eventTypes = te_events options, tm_phase = orElse (te_phase options) AFTER_COMMIT,
      tm_async = orElse (te_async options) False,
      tm_fallbackExecution = orElse (te_fallbackExecution options) False,
      tm_dataSource = orElse (te_dataSource options) DEFAULT_DATA_SOURCE_NAME\<rparr>"
| "tehResolveMetadata (EventTypes types) =
     \<lparr>tm_eventTypes = types, tm_phase = AFTER_COMMIT, tm_async = False,
      tm_fallbackExecution = False, tm_dataSource = DEFAULT_DATA_SOURCE_NAME\<rparr>"

definition TransactionalEventsHandler :: "teh_options decorator_args \<Rightarrow> framework_error + teh_metadata" where
  "TransactionalEventsHandler args =
     (let metadata = tehResolveMetadata args
      in if tm_eventTypes metadata = [] then Inl PlainError else Inr metadata)"

record ieh_options =
  ie_events :: "string list"
  ie_dataSource :: "string option"

record ieh_metadata =
  im_eventTypes :: "string list"
  im_dataSource :: string

fun iehResolveMetadata :: "ieh_options decorator_args \<Rightarrow> ieh_metadata" where
  "iehResolveMetadata (OptionsObject options) =
     \<lparr>im_eventTypes = ie_events options,
      im_dataSource = orElse (ie_dataSource options) DEFAULT_DATA_SOURCE_NAME\<rparr>"
| "iehResolveMetadata (EventTypes types) =
     \<lparr>im_eventTypes = types, im_dataSource = DEFAULT_DATA_SOURCE_NAME\<rparr>"

definition IntegrationEventsHandler :: "ieh_options decorator_args \<Rightarrow> framework_error + ieh_metadata" where
  "IntegrationEventsHandler args =
     (let metadata = iehResolveMetadata args
      in if im_eventTypes metadata = [] then Inl PlainError else Inr metadata)"

section \<open>Scanners\<close>

text \<open>
  A provider with an instance: the metadata found on its class, and its \<open>handle\<close> method.
  The listener of an integration handler is a proxy around that method.
\<close>

datatype 'm listener_handle = BoundHandle 'm | ProxyHandle 'm

record 'm scanned_provider =
  sp_isClass :: bool
  sp_hasInstance :: bool
  sp_className :: string
  sp_teh :: "teh_metadata option"
  sp_ieh :: "ieh_metadata option"
  sp_handle :: "'m option"

type_synonym ('a, 'm, 'd, 'z) cqrsw = "('a, 'm listener_handle, 'd, 'z) cqrs"

fun registerTypes ::
    "'m listener_instance \<Rightarrow> (string \<Rightarrow> listener_metadata) \<Rightarrow> string list \<Rightarrow> (('a, 'm, 'd, 'z) cqrs, unit) comp" where
  "registerTypes inst mk [] = ret ()"
| "registerTypes inst mk (ty # types) =
     andThen (registerListener inst ''handle'' (mk ty)) (\<lambda>_. registerTypes inst mk types)"

definition scanListener :: "'m scanned_provider \<Rightarrow> (('a, 'm, 'd, 'z) cqrsw, unit) comp" where
  "scanListener p =
     (if \<not> sp_isClass p \<or> \<not> sp_hasInstance p then ret ()
      else
        (case (sp_teh p, sp_handle p) of
           (Some metadata, Some m) \<Rightarrow>
             registerTypes \<lparr>i_className = sp_className p, i_methods = [(''handle'', BoundHandle m)]\<rparr>
               (\<lambda>ty. \<lparr>m_eventType = ty, m_phase = tm_phase metadata,
                      m_fallbackExecution = tm_fallbackExecution metadata,
                      m_async = tm_async metadata, m_dataSource = Some (tm_dataSource metadata)\<rparr>)
               (tm_eventTypes metadata)
         | _ \<Rightarrow> ret ()))"

fun transactionalListenerScanner :: "'m scanned_provider list \<Rightarrow> (('a, 'm, 'd, 'z) cqrsw, unit) comp" where
  "transactionalListenerScanner [] = ret ()"
| "transactionalListenerScanner (p # ps) =
     andThen (scanListener p) (\<lambda>_. transactionalListenerScanner ps)"

definition registerToDispatcher ::
    "string \<Rightarrow> ieh_metadata \<Rightarrow> 'm \<Rightarrow> (('a, 'm, 'd, 'z) cqrsw, unit) comp" where
  "registerToDispatcher className metadata boundHandle =
     registerTypes \<lparr>i_className = className, i_methods = [(''handle'', ProxyHandle boundHandle)]\<rparr>
       (\<lambda>ty. \<lparr>m_eventType = ty, m_phase = AFTER_COMMIT, m_fallbackExecution = False,
              m_async = True, m_dataSource = Some (im_dataSource metadata)\<rparr>)
       (im_eventTypes metadata)"

definition scanIntegration :: "'m scanned_provider \<Rightarrow> (('a, 'm, 'd, 'z) cqrsw, unit) comp" where
  "scanIntegration p =
     (if \<not> sp_isClass p \<or> \<not> sp_hasInstance p then ret ()
      else
        (case (sp_ieh p, sp_handle p) of
           (Some metadata, Some m) \<Rightarrow> registerToDispatcher (sp_className p) metadata m
         | _ \<Rightarrow> ret ()))"

fun integrationEventsHandlerScanner :: "'m scanned_provider list \<Rightarrow> (('a, 'm, 'd, 'z) cqrsw, unit) comp" where
  "integrationEventsHandlerScanner [] = ret ()"
| "integrationEventsHandlerScanner (p # ps) =
     andThen (scanIntegration p) (\<lambda>_. integrationEventsHandlerScanner ps)"

text \<open>
  The code of a listener: its bound method, or, for an integration handler, the method with
  the event alone inside \<open>manager.run({}, ...)\<close>.
\<close>

fun listenerCode ::
    "(('a, 'm listener_handle) cqrs_hook, ('a, 'm, 'd, 'z) cqrsw) environment \<Rightarrow>
     ('m, ('a, 'm, 'd, 'z) cqrsw) listener_code \<Rightarrow>
     ('m listener_handle, ('a, 'm, 'd, 'z) cqrsw) listener_code" where
  "listenerCode env code (BoundHandle m) ev err = code m ev err"
| "listenerCode env code (ProxyHandle m) ev err =
     andThen (run env no_options (andThen (code m ev Undef) (\<lambda>_. ret Undef))) (\<lambda>_. ret Undef)"

section \<open>The wrapper of command, query and event handlers\<close>

record handler_options =
  ho_wrapCommandHandlers :: "bool option"
  ho_wrapQueryHandlers :: "bool option"
  ho_wrapEventHandlers :: "bool option"
  ho_defaultQueryOptions :: "extended_options option"
  ho_defaultCommandOptions :: "extended_options option"

record cqrs_options = handler_options +
  co_eventsDataSource :: "string option"

text \<open>The module applies the defaults before the wrapper reads its options.\<close>

definition resolveOptions :: "cqrs_options \<Rightarrow> cqrs_options" where
  "resolveOptions options =
     \<lparr>ho_wrapCommandHandlers = Some (orElse (ho_wrapCommandHandlers options) True),
      ho_wrapQueryHandlers = Some (orElse (ho_wrapQueryHandlers options) True),
      ho_wrapEventHandlers = Some (orElse (ho_wrapEventHandlers options) True),
      ho_defaultQueryOptions =
        Some (orElse (ho_defaultQueryOptions options) (no_options\<lparr>o_readOnly := Some True\<rparr>)),
      ho_defaultCommandOptions = ho_defaultCommandOptions options,
      co_eventsDataSource = Some (orElse (co_eventsDataSource options) ''default'')\<rparr>"

datatype handler_kind = CommandKind | QueryKind | EventKind

definition classifyHandler :: "('z) handler_options_scheme \<Rightarrow> reflect_data \<Rightarrow> nat \<Rightarrow> handler_kind option" where
  "classifyHandler options R c =
     (if ho_wrapCommandHandlers options \<noteq> Some False \<and> list_ex (rd_command R) (rd_chain R c)
      then Some CommandKind
      else if ho_wrapQueryHandlers options \<noteq> Some False \<and> list_ex (rd_query R) (rd_chain R c)
      then Some QueryKind
      else if ho_wrapEventHandlers options \<noteq> Some False \<and> list_ex (rd_events R) (rd_chain R c)
      then Some EventKind
      else None)"

fun pickDefaults :: "('z) handler_options_scheme \<Rightarrow> handler_kind \<Rightarrow> extended_options option" where
  "pickDefaults options QueryKind = ho_defaultQueryOptions options"
| "pickDefaults options CommandKind = ho_defaultCommandOptions options"
| "pickDefaults options EventKind = None"

text \<open>The method's own metadata, else the class's, else the default of the kind.\<close>

definition resolveHandlerMetadata ::
    "('z) handler_options_scheme \<Rightarrow> reflect_data \<Rightarrow> method_fn \<Rightarrow> nat \<Rightarrow> handler_kind \<Rightarrow> extended_options option" where
  "resolveHandlerMetadata options R m c kind =
     (case (case getTransactionalMetadata R m of None \<Rightarrow> classMetadata R c | md \<Rightarrow> md) of
        Some explicit \<Rightarrow> Some explicit
      | None \<Rightarrow>
          (case pickDefaults options kind of
             None \<Rightarrow> None
           | Some defaults \<Rightarrow>
               Some (defaults\<lparr>o_propagation :=
                 (case o_propagation defaults of None \<Rightarrow> Some REQUIRED | p \<Rightarrow> p)\<rparr>)))"

definition wrapHandler ::
    "('z) handler_options_scheme \<Rightarrow> reflect_data \<Rightarrow> nat \<Rightarrow> string \<Rightarrow> handler_kind \<Rightarrow> method_heap \<Rightarrow> method_heap" where
  "wrapHandler options R c name kind H =
     (case protoMethod R H c name of
        Some (Fn m) \<Rightarrow>
          if isWrapped m then H
          else
            (case resolveHandlerMetadata options R m c kind of
               None \<Rightarrow> H
             | Some metadata \<Rightarrow>
                 H\<lparr>protoOwn := (protoOwn H)(c := AList.update name (Fn (RunIn metadata m)) (protoOwn H c)),
                   wrappedPrototypes := AList.update c (name, m) (wrappedPrototypes H)\<rparr>)
      | _ \<Rightarrow> H)"

definition handlerMethodName :: "handler_kind \<Rightarrow> string" where
  "handlerMethodName kind = (if kind = EventKind then ''handle'' else ''execute'')"

definition wrapAllStep ::
    "('z) handler_options_scheme \<Rightarrow> reflect_data \<Rightarrow> provider \<Rightarrow> method_heap \<Rightarrow> method_heap" where
  "wrapAllStep options R p H =
     (case p_metatype p of
        None \<Rightarrow> H
      | Some c \<Rightarrow>
          (case classifyHandler options R c of
             None \<Rightarrow> H
           | Some kind \<Rightarrow> wrapHandler options R c (handlerMethodName kind) kind H))"

definition wrapAll ::
    "('z) handler_options_scheme \<Rightarrow> reflect_data \<Rightarrow> provider list \<Rightarrow> method_heap \<Rightarrow> method_heap" where
  "wrapAll options R providers H = fold (wrapAllStep options R) providers H"

text \<open>\<open>resetForTesting\<close>, also what \<open>onModuleDestroy\<close> calls.\<close>

definition restorePrototype :: "nat \<times> string \<times> method_fn \<Rightarrow> method_heap \<Rightarrow> method_heap" where
  "restorePrototype e H =
     (case e of (c, name, original) \<Rightarrow>
        H\<lparr>protoOwn := (protoOwn H)(c := AList.update name (Fn original) (protoOwn H c))\<rparr>)"

definition resetForTesting :: "method_heap \<Rightarrow> method_heap" where
  "resetForTesting H = (fold restorePrototype (wrappedPrototypes H) H)\<lparr>wrappedPrototypes := []\<rparr>"

end
