(* ===== verification/Cqrs_Properties.thy ===== *)
theory Cqrs_Properties
  imports Cqrs_Handlers
begin

text \<open>
  Properties of the CQRS side: what a dispatch attaches, what asynchronous listeners can do
  to a commit, how often an event is scheduled, what the bootstrap check accepts, and how
  methods are wrapped and restored.
\<close>

section \<open>What a dispatch attaches\<close>

text \<open>
  A listener hears an event in a transaction when that is the one active on its dataSource,
  and its phase is among those given.
\<close>

definition hears :: "transaction_phase set \<Rightarrow> nat \<Rightarrow> ('a, 'm, 'd, 'z) cqrs \<Rightarrow> 'm registered_listener \<Rightarrow> bool" where
  "hears ps t w l \<longleftrightarrow>
     getActiveTransactionByDataSource (dataSourceOf l) w = Some t \<and> m_phase (l_metadata l) \<in> ps"

definition fallsBack :: "bool \<Rightarrow> ('a, 'm, 'd, 'z) cqrs \<Rightarrow> 'm registered_listener \<Rightarrow> bool" where
  "fallsBack b w l \<longleftrightarrow>
     getActiveTransactionByDataSource (dataSourceOf l) w = None \<and> \<not> b \<and>
     m_fallbackExecution (l_metadata l)"

definition withListeners ::
    "('a, 'm, 'd, 'z) cqrs \<Rightarrow> 'm registered_listener list \<Rightarrow> jsv \<Rightarrow> nat \<Rightarrow>
     ('a, 'm) cqrs_hook hook active_tx \<Rightarrow> ('a, 'm) cqrs_hook hook active_tx" where
  "withListeners w ls ev t tx =
     tx\<lparr>beforeCommitHooks := beforeCommitHooks tx @
          map (\<lambda>l. UserHook (Invoke l ev)) (filter (hears {BEFORE_COMMIT} t w) ls),
        afterCommitHooks := afterCommitHooks tx @
          map (\<lambda>l. UserHook (Invoke l ev)) (filter (hears {AFTER_COMMIT, AFTER_COMPLETION} t w) ls),
        afterRollbackHooks := afterRollbackHooks tx @
          map (\<lambda>l. UserHook (InvokeWithError l ev)) (filter (hears {AFTER_ROLLBACK, AFTER_COMPLETION} t w) ls)\<rparr>"

lemma active_attach [simp]:
  "getActiveTransactionByDataSource ds (attachHookToTransaction l ev t w) =
     getActiveTransactionByDataSource ds w"
  by (rule active_cong) (simp_all add: attachHookToTransaction_def updateTx_def pushBeforeCommit_def
      pushAfterCommit_def pushAfterRollback_def split: transaction_phase.split)

lemma active_enqueue [simp]:
  "getActiveTransactionByDataSource ds (scheduleFallback l ev w) = getActiveTransactionByDataSource ds w"
  by (rule active_cong) (simp_all add: scheduleFallback_def queueMicrotask_def)

lemma active_dispatchTo [simp]:
  "getActiveTransactionByDataSource ds (dispatchTo b ev l w) = getActiveTransactionByDataSource ds w"
  by (simp add: dispatchTo_def split: option.split)

lemma hears_dispatchTo [simp]: "hears ps t (dispatchTo b ev l w) l' = hears ps t w l'"
  by (simp add: hears_def)

lemma fallsBack_dispatchTo [simp]: "fallsBack b' (dispatchTo b ev l w) l' = fallsBack b' w l'"
  by (simp add: fallsBack_def)

lemma als_dispatchTo [simp]: "als (dispatchTo b ev l w) = als w"
  by (simp add: dispatchTo_def attachHookToTransaction_def scheduleFallback_def queueMicrotask_def
      updateTx_def split: option.split transaction_phase.split)

lemma dispatchTo_eq:
  "dispatchTo b ev l w =
     w\<lparr>txs := (\<lambda>t. withListeners w [l] ev t (txs w t)),
       microtasks := microtasks w @
         map (\<lambda>l. Microtask l ev Undef (als w)) (filter (fallsBack b w) [l])\<rparr>"
  by (auto simp: dispatchTo_def attachHookToTransaction_def scheduleFallback_def queueMicrotask_def
      updateTx_def withListeners_def hears_def fallsBack_def pushBeforeCommit_def pushAfterCommit_def
      pushAfterRollback_def fun_eq_iff
      split: option.split transaction_phase.split)

lemma withListeners_append:
  "withListeners w ls ev t (withListeners w [l] ev t tx) = withListeners w (l # ls) ev t tx"
  by (simp add: withListeners_def)

lemma withListeners_dispatchTo: "withListeners (dispatchTo b ev l w) ls ev' t = withListeners w ls ev' t"
  by (rule ext) (simp add: withListeners_def fun_eq_iff[symmetric] cong: filter_cong)

lemma fold_dispatchTo:
  "fold (dispatchTo b ev) ls w =
     w\<lparr>txs := (\<lambda>t. withListeners w ls ev t (txs w t)),
       microtasks := microtasks w @
         map (\<lambda>l. Microtask l ev Undef (als w)) (filter (fallsBack b w) ls)\<rparr>"
proof (induction ls arbitrary: w)
  case Nil
  show ?case by (simp add: withListeners_def)
next
  case (Cons l ls)
  have "txs (dispatchTo b ev l w) t = withListeners w [l] ev t (txs w t)" for t
    by (simp add: dispatchTo_eq)
  moreover have "microtasks (dispatchTo b ev l w) = microtasks w @
         map (\<lambda>l. Microtask l ev Undef (als w)) (filter (fallsBack b w) [l])"
    by (simp add: dispatchTo_eq)
  moreover have "dispatchTo b ev l w\<lparr>txs := x, microtasks := y\<rparr> = w\<lparr>txs := x, microtasks := y\<rparr>" for x y
    by (simp add: dispatchTo_eq)
  ultimately show ?case
    by (simp add: Cons withListeners_dispatchTo withListeners_append)
qed


text \<open>
  C12. Dispatching an event of a known class pushes, on every transaction, exactly the
  listeners of that class whose dataSource it is active on, in the order of registration and
  on the lists of their phase (both lists for AFTER_COMPLETION); it queues a microtask for
  the listeners with \<open>fallbackExecution\<close> exactly when no transaction is active at all; and
  it changes nothing else.
\<close>

theorem dispatch_attaches:
  assumes "scheduleDispatch ev w = Some (Resolve (), w')"
  shows "w' = w\<lparr>txs := (\<lambda>t. withListeners w (listenersFor ev w) ev t (txs w t)),
    microtasks := microtasks w @
      map (\<lambda>l. Microtask l ev Undef (als w)) (filter (fallsBack (anyTxActive w) w) (listenersFor ev w))\<rparr>"
  using assms by (auto simp: scheduleDispatch_def fold_dispatchTo split: if_splits)

text \<open>A world with a transaction on the default dataSource and one listener in each phase.\<close>

definition sampleListener :: "transaction_phase \<Rightarrow> bool \<Rightarrow> nat \<Rightarrow> nat listener_handle registered_listener" where
  "sampleListener ph asy m =
     \<lparr>l_handler = BoundHandle m, l_instanceLabel = ''Handler'', l_methodName = ''handle'',
      l_metadata = \<lparr>m_eventType = ''OrderPlaced'', m_phase = ph, m_fallbackExecution = False,
        m_async = asy, m_dataSource = None\<rparr>\<rparr>"

definition orderPlaced :: jsv where
  "orderPlaced = JObj 1 [''OrderPlaced'', ''Object''] []"

type_synonym sample_cqrs = "(nat, nat listener_handle, in_memory_db, unit) cqrs"

definition sampleCqrs :: sample_cqrs where
  "sampleCqrs =
     \<lparr>als = Some 4, stores = (\<lambda>_. \<lparr>activeTransactions = [(''in-memory:default'', 5)],
        storeCorrelationId = 3, storeStartedAt = 0\<rparr>),
      txs = (\<lambda>_. newActiveTx \<lparr>h_id = 1, h_adapterName = ''in-memory'', h_native = Undef\<rparr>
        ''in-memory'' ''default'' no_options 0 3),
      fresh = 6, now = 0,
      registry = register \<lparr>reg_adapterName = ''in-memory'', reg_instanceName = ''default'', reg_adapter = 0\<rparr>
        True newRegistry,
      rolledBack = {}, pending = (\<lambda>_. None), cells = (\<lambda>_. None),
      db = \<lparr>im_adapters = (\<lambda>_. newInMemoryAdapter ''default''), im_arrays = (\<lambda>_. [])\<rparr>,
      listenersByType = [(''OrderPlaced'',
        [sampleListener BEFORE_COMMIT True 1, sampleListener AFTER_COMMIT False 2,
         sampleListener AFTER_COMPLETION False 3])],
      microtasks = [], scheduled = {}, attached = True, allOf = []\<rparr>"

lemma dispatch_attaches_witness:
  "\<exists>w'. scheduleDispatch orderPlaced sampleCqrs = Some (Resolve (), w') \<and>
     w' = sampleCqrs\<lparr>txs := (\<lambda>t. withListeners sampleCqrs (listenersFor orderPlaced sampleCqrs)
             orderPlaced t (txs sampleCqrs t)),
           microtasks := microtasks sampleCqrs @
             map (\<lambda>l. Microtask l orderPlaced Undef (als sampleCqrs))
               (filter (fallsBack (anyTxActive sampleCqrs) sampleCqrs) (listenersFor orderPlaced sampleCqrs))\<rparr> \<and>
     length (afterCommitHooks (txs w' 5)) = 2"
proof -
  obtain w' where w': "scheduleDispatch orderPlaced sampleCqrs = Some (Resolve (), w')"
    by (simp add: scheduleDispatch_def orderPlaced_def)
  have "map_option (\<lambda>x. length (afterCommitHooks (txs (snd x) 5))) (scheduleDispatch orderPlaced sampleCqrs) = Some 2"
    by code_simp
  with w' have "length (afterCommitHooks (txs w' 5)) = 2" by simp
  with dispatch_attaches[OF w'] w' show ?thesis by blast
qed







section \<open>Asynchronous listeners\<close>

text \<open>
  Asynchronous listeners cannot stop a commit: when the before-commit hooks of a
  transaction are asynchronous listeners, running them always ends, resolves, calls no
  listener and only queues one microtask for each, in order.
\<close>

theorem async_listeners_only_queue:
  assumes env: "callHook env = cqrsCallHook code app"
    and hooks: "beforeCommitHooks (txs w t) = map (\<lambda>l. UserHook (Invoke l ev)) ls"
    and async: "\<forall>l \<in> set ls. m_async (l_metadata l)"
  shows "runBeforeCommit env t 0 w =
    Some (Resolve (), w\<lparr>microtasks := microtasks w @ map (\<lambda>l. Microtask l ev Undef (als w)) ls\<rparr>)"
proof -
  have "runBeforeCommit env t i w = Some (Resolve (),
      w\<lparr>microtasks := microtasks w @ map (\<lambda>l. Microtask l ev Undef (als w)) (drop i ls)\<rparr>)"
    if "beforeCommitHooks (txs w t) = map (\<lambda>l. UserHook (Invoke l ev)) ls" and "i \<le> length ls" for i w
    using that
  proof (induction "length ls - i" arbitrary: i w)
    case 0
    then show ?case by (subst runBeforeCommit.simps) simp
  next
    case (Suc n)
    then have i: "i < length ls" by simp
    let ?w1 = "w\<lparr>microtasks := microtasks w @ [Microtask (ls ! i) ev Undef (als w)]\<rparr>"
    have inv: "invoke env (beforeCommitHooks (txs w t) ! i) Undef w = Some (Resolve Undef, ?w1)"
      using Suc.prems i async by (simp add: env invokeListener_def queueMicrotask_def)
    have "runBeforeCommit env t i w = runBeforeCommit env t (Suc i) ?w1"
      by (subst runBeforeCommit.simps) (use inv Suc.prems i in simp)
    also have "\<dots> = Some (Resolve (), ?w1\<lparr>microtasks := microtasks ?w1 @
        map (\<lambda>l. Microtask l ev Undef (als ?w1)) (drop (Suc i) ls)\<rparr>)"
      by (rule Suc.hyps(1)) (use Suc i in simp_all)
    finally show ?case using i by (simp add: Cons_nth_drop_Suc[symmetric])
  qed
  from this[OF hooks, of 0] show ?thesis by simp
qed


definition asyncCqrs :: sample_cqrs where
  "asyncCqrs = updateTx 5 (pushBeforeCommit (UserHook (Invoke (sampleListener BEFORE_COMMIT True 2) orderPlaced)) \<circ>
     pushBeforeCommit (UserHook (Invoke (sampleListener BEFORE_COMMIT True 1) orderPlaced))) sampleCqrs"

text \<open>Listeners that record the method called, in the array at address 0, and reject.\<close>

definition sampleCode :: "(nat, sample_cqrs) listener_code" where
  "sampleCode m ev err w = Some (Reject Null, pushOperation 0 (JNum (JInt (int m))) w)"

definition sampleCqrsEnv :: "(nat, nat listener_handle, in_memory_db, unit) cqrs_env" where
  "sampleCqrsEnv =
     \<lparr>adapterOf = (\<lambda>a. InMemoryTransactionAdapter ''default'' a),
      callHook = cqrsCallHook (\<lambda>h. case h of BoundHandle m \<Rightarrow> sampleCode m | ProxyHandle m \<Rightarrow> sampleCode m)
        (\<lambda>a arg. ret Undef),
      awaitAll = (\<lambda>ps. ret Undef), observers = [], random = (\<lambda>w. 0)\<rparr>"

lemma async_listeners_only_queue_witness:
  "runBeforeCommit sampleCqrsEnv 5 0 asyncCqrs =
     Some (Resolve (), asyncCqrs\<lparr>microtasks := microtasks asyncCqrs @
       map (\<lambda>l. Microtask l orderPlaced Undef (als asyncCqrs))
         [sampleListener BEFORE_COMMIT True 1, sampleListener BEFORE_COMMIT True 2]\<rparr>)"
  by (rule async_listeners_only_queue)
    (simp_all add: sampleCqrsEnv_def asyncCqrs_def updateTx_def pushBeforeCommit_def sampleCqrs_def
      newActiveTx_def sampleListener_def)

text \<open>
  The dispatcher's hooks keep the context when the code of the listeners does, so the manager
  is in a lawful environment.
\<close>

lemma enqueue_framed: "framedAll w (queueMicrotask task w)"
  by (auto simp: framedAll_def framed_def queueMicrotask_def sameStore_def)

lemma invokeListener_tame:
  assumes "\<And>m ev err. tame (code m ev err)"
  shows "tame (invokeListener code l ev err)"
proof (rule keepsI)
  fix w r w'
  have called: "tame (andThen (code (l_handler l) ev err) (\<lambda>_. ret Undef))"
    by (simp add: keeps_andThen keeps_ret assms)
  assume "invokeListener code l ev err w = Some (r, w')"
  then show "framedAll w w'"
    by (auto simp: invokeListener_def intro: enqueue_framed keepsD[OF called] split: if_splits)
qed

lemma cqrsCallHook_tame:
  assumes "\<And>m ev err. tame (code m ev err)" and "\<And>a arg. tame (app a arg)"
  shows "tame (cqrsCallHook code app u arg)"
  using assms by (cases u) (auto intro: invokeListener_tame)

lemma sampleCode_tame: "tame (sampleCode m ev err)"
  by (rule keepsI) (auto simp: sampleCode_def pushOperation_def intro: quiet_framedAll quiet_db)

lemma sampleCqrs_lawful: "lawful_environment sampleCqrsEnv"
  unfolding lawful_environment_def sampleCqrsEnv_def
  by (auto intro!: cqrsCallHook_tame sampleCode_tame keeps_ret im.lawful_adapter_axioms
      split: listener_handle.split)





section \<open>How often an event is scheduled\<close>

lemma scheduleDispatch_publisher:
  "scheduleDispatch ev w = Some (r, w') \<Longrightarrow> scheduled w' = scheduled w \<and> attached w' = attached w"
  by (auto simp: scheduleDispatch_def fold_dispatchTo raise_settles split: if_splits)

definition quietOutbox :: "('a, 'm, 'd, 'z) cqrs publisher_dependencies \<Rightarrow> bool" where
  "quietOutbox deps \<longleftrightarrow>
     (\<forall>f ev w r w'. dep_outbox deps = Some f \<and> f ev w = Some (r, w') \<longrightarrow>
        scheduled w \<subseteq> scheduled w' \<and> attached w' = attached w)"

lemma schedule_scheduled:
  assumes "quietOutbox deps" and "schedule deps ev w = Some (Resolve (), w')"
  shows "wasScheduled ev w'" and "attached w \<Longrightarrow> attached w'"
proof -
  have "wasScheduled ev w' \<and> (attached w \<longrightarrow> attached w')"
  proof (cases "wasScheduled ev w")
    case True
    then show ?thesis using assms(2) by (simp add: schedule_def)
  next
    case False
    from assms(2) False obtain i w1 where i: "weakKey ev = Some i" "attached w"
      and d: "scheduleDispatch ev (w\<lparr>scheduled := insert i (scheduled w)\<rparr>) = Some (Resolve (), w1)"
      and o: "(case dep_outbox deps of None \<Rightarrow> ret () | Some f \<Rightarrow> f ev) w1 = Some (Resolve (), w')"
      by (auto simp: schedule_def andThen_Some require_def markScheduled_def split: if_splits option.splits)
    have w1: "scheduled w1 = insert i (scheduled w)" "attached w1"
      using scheduleDispatch_publisher[OF d] i by simp_all
    have "scheduled w1 \<subseteq> scheduled w' \<and> attached w' = attached w1"
      using o assms(1) unfolding quietOutbox_def by (auto split: option.splits)
    with w1 i show ?thesis by (auto simp: wasScheduled_def)
  qed
  then show "wasScheduled ev w'" "attached w \<Longrightarrow> attached w'" by auto
qed

lemma contextFor_publisher:
  "contextFor env active ctx w = Some (r, w') \<Longrightarrow>
     scheduled w' = scheduled w \<and> attached w' = attached w"
  by (auto simp: contextFor_def nativeTransactionOf_def raise_settles
      split: option.splits if_splits sum.splits outcome.splits prod.splits)

lemma publish_scheduled:
  "wasScheduled ev w \<Longrightarrow> attached w \<Longrightarrow> publish deps ev ctx async w = dep_inner deps ev ctx async w"
  by (simp add: publish_def andThen_def require_def schedule_def)

lemma forward_scheduled:
  assumes "wasScheduled ev w" and "attached w"
  shows "andThen (contextFor env active ctx) (\<lambda>ctx'. andThen (publish deps ev ctx' async) g) w =
    andThen (contextFor env active ctx) (\<lambda>ctx'. andThen (dep_inner deps ev ctx' async) g) w"
proof (rule andThen_cong[OF refl])
  fix v w2 assume "contextFor env active ctx w = Some (Resolve v, w2)"
  from contextFor_publisher[OF this] assms have "wasScheduled ev w2" "attached w2"
    by (simp_all add: wasScheduled_def split: option.splits)
  then show "andThen (publish deps ev v async) g w2 = andThen (dep_inner deps ev v async) g w2"
    by (simp add: andThen_def[of "publish deps ev v async"] andThen_def[of "dep_inner deps ev v async"]
        publish_scheduled)
qed

text \<open>
  An event published on the wrapped bus, which hands it to its publisher, meets the
  dispatcher and the outbox exactly once, before anything else happens to it, and the inner
  publisher exactly once, with the context of the active transaction; and an event that was
  scheduled before is never scheduled again.
\<close>

theorem event_scheduled_once:
  assumes outbox: "quietOutbox deps" and bus: "bus_publish bus = publish deps" and att: "attached w"
  shows "wrappedPublish env deps ds bus ev c a w =
      andThen (schedule deps ev)
        (\<lambda>_ w1. case split_contexts c a of (ctx, async) \<Rightarrow>
           let active = getActiveTransactionByDataSource ds w1
           in andThen (contextFor env active ctx)
                (\<lambda>ctx'. andThen (dep_inner deps ev ctx' async) (track active)) w1) w \<and>
    (\<forall>w'. schedule deps ev w = Some (Resolve (), w') \<longrightarrow>
       schedule deps ev w' = Some (Resolve (), w'))" (is "?once \<and> ?never")
proof
  obtain ctx async where sp: "split_contexts c a = (ctx, async)" by fastforce
  show ?once
    unfolding wrappedPublish_def sp prod.case bus Let_def
  proof (rule andThen_cong[OF refl], rule forward_scheduled)
    fix u w1 assume "schedule deps ev w = Some (Resolve u, w1)"
    then have s: "schedule deps ev w = Some (Resolve (), w1)" by simp
    show "wasScheduled ev w1" by (rule schedule_scheduled(1)[OF outbox s])
    show "attached w1" by (rule schedule_scheduled(2)[OF outbox s att])
  qed
  show ?never
  proof (intro allI impI)
    fix w' assume "schedule deps ev w = Some (Resolve (), w')"
    from schedule_scheduled(1)[OF outbox this] show "schedule deps ev w' = Some (Resolve (), w')"
      by (simp add: schedule_def)
  qed
qed

definition sampleDeps :: "sample_cqrs publisher_dependencies" where
  "sampleDeps = \<lparr>dep_inner = (\<lambda>ev ctx a. ret Undef), dep_outbox = None\<rparr>"

definition sampleBus :: "sample_cqrs event_bus" where
  "sampleBus = \<lparr>bus_publish = publish sampleDeps, bus_publishAll = publishAll sampleDeps, bus_wrapped = False\<rparr>"

lemma event_scheduled_once_witness:
  "\<exists>w'. schedule sampleDeps orderPlaced sampleCqrs = Some (Resolve (), w') \<and>
     schedule sampleDeps orderPlaced w' = Some (Resolve (), w') \<and>
     length (afterCommitHooks (txs w' 5)) = 2"
proof -
  have "map_option (\<lambda>x. (fst x, length (afterCommitHooks (txs (snd x) 5)))) (schedule sampleDeps orderPlaced sampleCqrs)
      = Some (Resolve (), 2)"
    by code_simp
  then obtain w' where w': "schedule sampleDeps orderPlaced sampleCqrs = Some (Resolve (), w')"
    "length (afterCommitHooks (txs w' 5)) = 2" by auto
  have "quietOutbox sampleDeps" by (simp add: quietOutbox_def sampleDeps_def)
  moreover have "bus_publish sampleBus = publish sampleDeps" by (simp add: sampleBus_def)
  moreover have "attached sampleCqrs" by (simp add: sampleCqrs_def)
  ultimately show ?thesis
    using event_scheduled_once[of sampleDeps sampleBus sampleCqrs] w' by blast
qed

text \<open>
  The marks of the publisher only grow. Nothing the manager does touches them, so an attempt
  at a transaction keeps them when its function, the hooks and the awaited promises do.
\<close>

definition marksGrow :: "('a, 'm, 'd, 'z) cqrs \<Rightarrow> ('a, 'm, 'd, 'z) cqrs \<Rightarrow> bool" where
  "marksGrow w w' \<longleftrightarrow> scheduled w \<subseteq> scheduled w'"

definition marking :: "('a, 'm, 'd, 'z) cqrs_env \<Rightarrow> bool" where
  "marking env \<longleftrightarrow>
     observers env = [] \<and> (\<forall>u arg. keeps marksGrow (callHook env u arg)) \<and>
     (\<forall>ps. keeps marksGrow (awaitAll env ps))"

lemma marksGrow_order [simp, keeps_intros]: "reflp marksGrow" "transp marksGrow"
  by (auto simp: marksGrow_def intro!: reflpI transpI)

lemma marksGrow_same: "scheduled w' = scheduled w \<Longrightarrow> marksGrow w w'"
  by (simp add: marksGrow_def)

lemma marksGrow_trans: "marksGrow w w1 \<Longrightarrow> marksGrow w1 w2 \<Longrightarrow> marksGrow w w2"
  by (auto simp: marksGrow_def)

lemma wasScheduled_grows: "wasScheduled ev w \<Longrightarrow> marksGrow w w' \<Longrightarrow> wasScheduled ev w'"
  by (auto simp: wasScheduled_def marksGrow_def split: option.splits)

lemma wasScheduled_same: "scheduled w' = scheduled w \<Longrightarrow> wasScheduled ev w' = wasScheduled ev w"
  by (simp add: wasScheduled_def split: option.split)

lemma quiet_marks: "quiet w w' \<Longrightarrow> scheduled w' = scheduled w"
  by (auto simp: quiet_def)

lemma scheduled_same [simp]:
  "scheduled (removeActiveTransaction key w) = scheduled w"
  "scheduled (updateStore s f w) = scheduled w"
  "scheduled (markRolledBack e w) = scheduled w"
  "scheduled (sleep d w) = scheduled w"
  by (simp_all add: removeActiveTransaction_def updateStore_def markRolledBack_def sleep_def split: option.split)

lemma setActive_marks: "setActiveTransaction key t w = Some (r, w') \<Longrightarrow> scheduled w' = scheduled w"
  by (auto simp: setActiveTransaction_def raise_settles split: option.splits)

lemma notify_nobody:
  assumes "marking env"
  shows "notifyStart env sc w = Some w" "notifyCommit env cc w = Some w" "notifyRollback env rc w = Some w"
  using assms by (simp_all add: marking_def notifyStart_def notifyCommit_def notifyRollback_def)

lemma invoke_marks: "marking env \<Longrightarrow> keeps marksGrow (invoke env h arg)"
  by (cases h) (auto simp: marking_def intro!: drain_keeps marksGrow_same)

lemma guardedBody_marks:
  assumes "marking env" and "keeps marksGrow fn"
  shows "keeps marksGrow (finallyDo (guardedBody env t options fn) (modify (removeActiveTransaction key)))"
proof -
  have remove: "keeps marksGrow (modify (removeActiveTransaction key))"
    by (simp add: keeps_def marksGrow_same)
  have hooks: "keeps marksGrow (runBeforeCommit env t 0)"
    by (rule runBeforeCommit_keeps) (simp_all add: invoke_marks[OF assms(1)])
  show ?thesis
    unfolding guardedBody_def by (auto intro!: keeps_intros remove hooks assms(2))
qed

lemma txCallback_marks:
  assumes "marking env" and "keeps marksGrow fn"
  shows "keeps marksGrow (txCallback env a i options corr cell fn h)"
proof (rule keepsI)
  fix w r w' assume run: "txCallback env a i options corr cell fn h w = Some (r, w')"
  define v where "v = w\<lparr>fresh := Suc (fresh w),
      txs := (txs w)(fresh w := newActiveTx h a i options (now w) corr),
      cells := (cells w)(cell \<mapsto> fresh w)\<rparr>"
  have v: "marksGrow w v" by (rule marksGrow_same) (simp add: v_def)
  obtain r2 v2 where set: "setActiveTransaction (contextKey a i) (fresh w) v = Some (r2, v2)"
    and rest: "case r2 of Reject e \<Rightarrow> w' = v2
      | Resolve _ \<Rightarrow> finallyDo (guardedBody env (fresh w) options fn)
          (modify (removeActiveTransaction (contextKey a i))) v2 = Some (r, w')"
    using run unfolding txCallback_def Let_def v_def[symmetric]
    by (auto simp: notify_nobody[OF assms(1)] split: option.splits outcome.splits)
  have v2: "marksGrow v v2" by (rule marksGrow_same[OF setActive_marks[OF set]])
  have "marksGrow v2 w'"
    using rest keepsD[OF guardedBody_marks[OF assms]] by (cases r2) (auto intro: marksGrow_same)
  with v v2 show "marksGrow w w'" by (blast intro: marksGrow_trans)
qed

lemma after_marks:
  assumes "marking env"
    and "(case r1 of Reject e \<Rightarrow> afterAdapterRejected env a i options corr start cell e v
      | Resolve x \<Rightarrow> afterAdapterResolved env a i options corr start cell x v) = Some (r, w')"
  shows "marksGrow v w'"
proof -
  have hooks: "marksGrow v v'" if "runHooks env sel t arg j v = Some v'" for sel t arg j v'
    by (rule runHooks_keeps[OF _ _ invoke_marks[OF assms(1)] that]) simp_all
  have settle: "settleResult x v' = Some (r, w') \<Longrightarrow> w' = v'" for x v'
    by (cases x) auto
  show ?thesis
  proof (cases r1)
    case (Reject e)
    then have "w' = markRolledBack e v \<or> (\<exists>t v'. runHooks env afterRollbackHooks t e 0 v = Some v' \<and>
        w' = markRolledBack e v')"
      using assms(2) by (auto simp: afterAdapterRejected_def notify_nobody[OF assms(1)] split: option.splits)
    then show ?thesis by (auto simp: marksGrow_def dest: hooks[unfolded marksGrow_def, THEN subsetD])
  next
    case (Resolve x)
    then have "w' = v \<or> (\<exists>t. runHooks env afterCommitHooks t Undef 0 v = Some w')"
      using assms(2) by (auto simp: afterAdapterResolved_def notify_nobody[OF assms(1)]
          split: option.splits dest!: settle)
    then show ?thesis by (auto simp: marksGrow_def dest: hooks[unfolded marksGrow_def, THEN subsetD])
  qed
qed

lemma startNew_marks:
  assumes "lawful_adapter ad" and "marking env" and "keeps marksGrow fn"
  shows "keeps marksGrow (startNew env ad a i options fn)"
proof (rule keepsI)
  fix w r w' assume run: "startNew env ad a i options fn w = Some (r, w')"
  have body: "marksGrow v v'" if b: "startBody env ad a i options corr start cell fn v = Some (x, v')" for corr start cell v x v'
  proof -
    from b obtain r1 v1 where call: "a_runInTransaction ad options
        (txCallback env a i options corr cell fn) v = Some (r1, v1)"
      and rest: "(case r1 of Reject e \<Rightarrow> afterAdapterRejected env a i options corr start cell e v1
        | Resolve y \<Rightarrow> afterAdapterResolved env a i options corr start cell y v1) = Some (x, v')"
      unfolding startBody_def by (auto split: option.splits prod.splits outcome.splits)
    have "marksGrow v v1"
      using lawful_adapter.in_transaction[OF assms(1) call] unfolding wraps_def
      by (auto dest!: keepsD[OF txCallback_marks[OF assms(2,3)]] quiet_marks simp: marksGrow_def)
    with after_marks[OF assms(2) rest] show ?thesis by (rule marksGrow_trans[rotated])
  qed
  show "marksGrow w w'"
  proof (cases "getStore w = None")
    case True
    then have "als w = None" by (simp add: getStore_def split: option.splits)
    with run True show ?thesis
      unfolding startNew_def contextRun_def Let_def
      by (auto split: option.splits prod.splits dest!: body simp: marksGrow_def)
  next
    case False
    with run show ?thesis
      unfolding startNew_def Let_def by (auto dest!: body simp: marksGrow_def)
  qed
qed

text \<open>
  Where the event carries its mark, a function that schedules it first is the function that
  does not: so is the attempt, and so is every attempt of a retry.
\<close>

lemma txCallback_republished:
  assumes "marking env" and "wasScheduled ev w"
  shows "txCallback env a i options corr cell (andThen (schedule deps ev) (\<lambda>_. rest)) h w =
    txCallback env a i options corr cell rest h w"
proof -
  have "andThen (schedule deps ev) (\<lambda>_. rest) v = rest v" if "scheduled v = scheduled w" for v
    using assms(2) wasScheduled_same[OF that] by (simp add: andThen_def schedule_def)
  then have "finallyDo (guardedBody env t options (andThen (schedule deps ev) (\<lambda>_. rest))) fin v =
      finallyDo (guardedBody env t options rest) fin v" if "scheduled v = scheduled w" for t fin v
    using that unfolding finallyDo_def guardedBody_def catching_def andThen_def[of "andThen _ _"]
    by (simp add: andThen_def[of rest])
  then show ?thesis
    unfolding txCallback_def Let_def
    by (auto simp: notify_nobody[OF assms(1)] split: option.splits outcome.splits dest!: setActive_marks)
qed

lemma startNew_republished:
  assumes "lawful_adapter ad" and "marking env" and "wasScheduled ev w"
  shows "startNew env ad a i options (andThen (schedule deps ev) (\<lambda>_. rest)) w =
    startNew env ad a i options rest w"
proof -
  have "startBody env ad a i options corr start cell (andThen (schedule deps ev) (\<lambda>_. rest)) v =
      startBody env ad a i options corr start cell rest v" if "scheduled v = scheduled w" for corr start cell v
  proof -
    have "a_runInTransaction ad options
        (txCallback env a i options corr cell (andThen (schedule deps ev) (\<lambda>_. rest))) v =
      a_runInTransaction ad options (txCallback env a i options corr cell rest) v"
      by (rule lawful_adapter.transaction_local[OF assms(1)], rule txCallback_republished[OF assms(2)])
        (use assms(3) that wasScheduled_same quiet_marks in \<open>metis\<close>)
    then show ?thesis by (simp add: startBody_def)
  qed
  then show ?thesis by (simp add: startNew_def contextRun_def Let_def)
qed

lemma retryLoop_republished:
  assumes "lawful_adapter ad" and "marking env" and "keeps marksGrow rest" and "wasScheduled ev w"
  shows "retryLoop env ad nr (startNew env ad a i options (andThen (schedule deps ev) (\<lambda>_. rest))) attempt w =
    retryLoop env ad nr (startNew env ad a i options rest) attempt w"
  using assms(4)
proof (induction "n_maxAttempts nr - attempt" arbitrary: attempt w rule: less_induct)
  case less
  note same = startNew_republished[OF assms(1,2) less.prems]
  show ?case
  proof (cases "startNew env ad a i options rest w")
    case None
    then show ?thesis by (subst (1 2) retryLoop.simps) (simp add: same)
  next
    case (Some x)
    then obtain r1 w1 where x: "startNew env ad a i options rest w = Some (r1, w1)" by (cases x) auto
    have "wasScheduled ev w1"
      by (rule wasScheduled_grows[OF less.prems keepsD[OF startNew_marks[OF assms(1-3)] x]])
    then have m: "wasScheduled ev (sleep d w1)" for d by (metis scheduled_same(4) wasScheduled_same)
    show ?thesis
      by (subst (1 2) retryLoop.simps) (auto simp: same x less.hyps[OF _ m] split: outcome.split)
  qed
qed

text \<open>
  C35. Because of that, an event object that is published again when a transaction is retried
  is lost. Whatever the event, the listeners, the outbox and the rest of the function, once an
  attempt has left the event's mark behind, has rolled back and is to be retried, the call
  goes on exactly as if its function did not publish the event at all: no later attempt, the
  one that commits included, attaches a listener to its transaction or hands the event to
  the outbox.
\<close>

theorem retried_event_lost:
  assumes lawful: "lawful_adapter (adapterOf env k)" and env: "marking env"
    and rest: "keeps marksGrow rest"
    and retry: "normalizeRetry (o_retry options) = Inr (Some nr)" "1 < n_maxAttempts nr"
    and first: "startNew env (adapterOf env k) a i options (andThen (schedule deps ev) (\<lambda>_. rest)) w =
      Some (Reject e, w1)"
    and left: "wasScheduled ev w1" and rolled: "wasRolledBack e w1"
    and again: "retryable (adapterOf env k) nr e"
  shows "startNewWithRetry env (adapterOf env k) a i options (andThen (schedule deps ev) (\<lambda>_. rest)) w =
    retryLoop env (adapterOf env k) nr (startNew env (adapterOf env k) a i options rest) 2
      (sleep (retryDelay (random env w1) nr 1 e) w1)"
proof -
  let ?once = "startNew env (adapterOf env k) a i options (andThen (schedule deps ev) (\<lambda>_. rest))"
  have "wasScheduled ev (sleep (retryDelay (random env w1) nr 1 e) w1)"
    using left by (metis scheduled_same(4) wasScheduled_same)
  from retryLoop_republished[OF lawful env rest this] show ?thesis
    using retry rolled again
    by (simp add: startNewWithRetry_def numeral_2_eq_2
        retryLoop_step[where once = ?once and w = w, OF first])
qed

text \<open>
  The first attempt publishes the event and rolls back, the second publishes the same object
  and commits: the AFTER_COMPLETION listener hears of the rollback, and neither it nor the
  AFTER_COMMIT listener ever hears of the commit.
\<close>

definition retriedRest :: "(sample_cqrs, jsv) comp" where
  "retriedRest w =
     (if rolledBackTransactions (im_adapters (db w) 0) = []
      then Some (Reject (JObj 2 [''Error''] []), w) else Some (Resolve Null, w))"

definition retriedBody :: "(sample_cqrs, jsv) comp" where
  "retriedBody = andThen (schedule sampleDeps orderPlaced) (\<lambda>_. retriedRest)"

definition twiceRetried :: extended_options where
  "twiceRetried = no_options\<lparr>o_retry := Some (RetryObject
     \<lparr>r_maxAttempts = JInt 2, r_delay = Some (DelayNumber 0), r_retryIf = Some (\<lambda>e. True)\<rparr>)\<rparr>"

definition outsideCqrs :: sample_cqrs where
  "outsideCqrs = sampleCqrs\<lparr>als := None\<rparr>"

lemma sampleCqrs_marking: "marking sampleCqrsEnv"
proof -
  have called: "keeps marksGrow (andThen (sampleCode m ev err) (\<lambda>_. ret Undef))" for m ev err
    by (auto simp: keeps_def marksGrow_def andThen_Some sampleCode_def pushOperation_def)
  have "keeps marksGrow (callHook sampleCqrsEnv u arg)" for u arg
    by (cases u; rule keepsI)
      (auto simp: sampleCqrsEnv_def invokeListener_def marksGrow_same queueMicrotask_def
        dest!: keepsD[OF called] split: if_splits listener_handle.splits)
  then show ?thesis
    by (simp add: marking_def) (simp add: sampleCqrsEnv_def keeps_def marksGrow_def)
qed

lemma retried_event_lost_witness:
  "\<exists>w1 x. startNew sampleCqrsEnv (adapterOf sampleCqrsEnv 0) ''in-memory'' ''default'' twiceRetried
       retriedBody outsideCqrs = Some (Reject (JObj 2 [''Error''] []), w1) \<and>
     startNewWithRetry sampleCqrsEnv (adapterOf sampleCqrsEnv 0) ''in-memory'' ''default'' twiceRetried
       retriedBody outsideCqrs = Some x \<and>
     retryLoop sampleCqrsEnv (adapterOf sampleCqrsEnv 0)
       \<lparr>n_maxAttempts = 2, n_delay = Some (DelayNumber 0), n_retryIf = Some (\<lambda>e. True)\<rparr>
       (startNew sampleCqrsEnv (adapterOf sampleCqrsEnv 0) ''in-memory'' ''default'' twiceRetried retriedRest)
       2 w1 = Some x \<and>
     fst x = Resolve Null \<and> im_arrays (db (snd x)) 0 = [JNum (JInt 3)]"
proof -
  let ?start = "startNew sampleCqrsEnv (adapterOf sampleCqrsEnv 0) ''in-memory'' ''default'' twiceRetried
      retriedBody outsideCqrs"
  have "map_option (\<lambda>(r, w). (r, wasScheduled orderPlaced w, wasRolledBack (JObj 2 [''Error''] []) w)) ?start =
      Some (Reject (JObj 2 [''Error''] []), True, True)"
    by code_simp
  then obtain w1 where w1: "?start = Some (Reject (JObj 2 [''Error''] []), w1)"
    "wasScheduled orderPlaced w1" "wasRolledBack (JObj 2 [''Error''] []) w1" by auto
  have "map_option (\<lambda>x. (fst x, im_arrays (db (snd x)) 0))
      (startNewWithRetry sampleCqrsEnv (adapterOf sampleCqrsEnv 0) ''in-memory'' ''default'' twiceRetried
         retriedBody outsideCqrs) = Some (Resolve Null, [JNum (JInt 3)])"
    by code_simp
  then obtain x where x: "startNewWithRetry sampleCqrsEnv (adapterOf sampleCqrsEnv 0) ''in-memory''
      ''default'' twiceRetried retriedBody outsideCqrs = Some x"
    "fst x = Resolve Null" "im_arrays (db (snd x)) 0 = [JNum (JInt 3)]" by auto
  have rest: "keeps marksGrow retriedRest"
    by (auto simp: keeps_def retriedRest_def marksGrow_def split: if_splits)
  have ad: "lawful_adapter (adapterOf sampleCqrsEnv 0)"
    by (rule lawful_environment.adapters_lawful[OF sampleCqrs_lawful])
  have nr: "normalizeRetry (o_retry twiceRetried) =
      Inr (Some \<lparr>n_maxAttempts = 2, n_delay = Some (DelayNumber 0), n_retryIf = Some (\<lambda>e. True)\<rparr>)"
    by (simp add: twiceRetried_def normalizeRetry_def)
  from retried_event_lost[OF ad sampleCqrs_marking rest nr _ w1(1)[unfolded retriedBody_def] w1(2,3)] x w1(1)
  show ?thesis by (simp add: retriedBody_def retryable_def retryDelay_def sleep_def)
qed

end
