(* ===== verification/Handler_Properties.thy ===== *)
theory Handler_Properties
  imports Cqrs_Handlers
begin

text \<open>
  Properties of the wrapping of methods: whatever the order and number of bootstraps, a
  method opens at most one transaction; the CQRS wrapper leaves no transactional handler
  unwrapped, a second pass changes nothing, and a reset gives every class back the methods
  it had.
\<close>

section \<open>At most one wrapper\<close>

fun onceWrapped :: "method_fn \<Rightarrow> bool" where
  "onceWrapped (Source f) = True"
| "onceWrapped (RunIn options m) = (\<not> isWrapped m)"

lemma unwrapped_once [simp]: "\<not> isWrapped m \<Longrightarrow> onceWrapped m"
  by (cases m) auto

fun slotOk :: "(method_fn \<Rightarrow> bool) \<Rightarrow> slot option \<Rightarrow> bool" where
  "slotOk P (Some (Fn m)) = P m"
| "slotOk P s = True"

definition heapOnce :: "method_heap \<Rightarrow> bool" where
  "heapOnce H \<longleftrightarrow>
     (\<forall>c n. slotOk onceWrapped (map_of (protoOwn H c) n)) \<and>
     (\<forall>i n. slotOk onceWrapped (map_of (instOwn H i) n)) \<and>
     (\<forall>(c, n, m) \<in> set (wrappedPrototypes H). \<not> isWrapped m)"

text \<open>The three things that change methods, and a sequence of them.\<close>

datatype mechanism =
    MethodsBootstrap "provider list"
  | HandlerWrapper handler_options "provider list"
  | ResetWrapper

fun applyMechanism :: "reflect_data \<Rightarrow> mechanism \<Rightarrow> method_heap \<Rightarrow> method_heap" where
  "applyMechanism R (MethodsBootstrap ps) H = TransactionalMethodsBootstrap R ps H"
| "applyMechanism R (HandlerWrapper options ps) H = wrapAll options R ps H"
| "applyMechanism R ResetWrapper H = resetForTesting H"

lemma fold_invariant: "(\<And>x s. x \<in> set xs \<Longrightarrow> P s \<Longrightarrow> P (f x s)) \<Longrightarrow> P s \<Longrightarrow> P (fold f xs s)"
  by (induction xs arbitrary: s) auto

lemma firstSome_slotOk: "(\<And>k. slotOk P (f k)) \<Longrightarrow> slotOk P (firstSome f ks)"
proof (induction ks)
  case (Cons k ks)
  then show ?case by (cases "f k") (simp_all, metis)
qed simp

lemma set_AList_update: "set (AList.update k v al) \<subseteq> insert (k, v) (set al)"
  by (induction al) auto

lemma proto_once: "heapOnce H \<Longrightarrow> slotOk onceWrapped (protoMethod R H c n)"
  unfolding protoMethod_def by (rule firstSome_slotOk) (simp add: heapOnce_def)

lemma host_once: "heapOnce H \<Longrightarrow> slotOk onceWrapped (hostMethod R H i c n)"
  using proto_once[of H R c n] unfolding heapOnce_def
  by (cases "map_of (instOwn H i) n") (simp_all add: hostMethod_def, metis)

lemma wrapNamed_once: "heapOnce H \<Longrightarrow> heapOnce (wrapNamed R cm i proto n H)"
  using host_once[of H R i proto n]
  by (auto simp: wrapNamed_def wrapMethod_def heapOnce_def update_conv
      split: option.split slot.split)

lemma wrapProvider_once: "heapOnce H \<Longrightarrow> heapOnce (wrapProvider R p H)"
  by (auto simp: wrapProvider_def split: option.split intro: fold_invariant wrapNamed_once)

lemma wrapHandler_once: "heapOnce H \<Longrightarrow> heapOnce (wrapHandler options R c n k H)"
proof -
  assume H: "heapOnce H"
  then show ?thesis
    using set_AList_update[of c _ "wrappedPrototypes H"]
    unfolding wrapHandler_def heapOnce_def
    by (auto simp: update_conv split: option.split slot.split) blast+
qed

lemma wrapAllStep_once: "heapOnce H \<Longrightarrow> heapOnce (wrapAllStep options R p H)"
  by (auto simp: wrapAllStep_def wrapHandler_once split: option.split)

lemma restore_once: "heapOnce H \<Longrightarrow> \<not> isWrapped (snd (snd e)) \<Longrightarrow> heapOnce (restorePrototype e H)"
  by (auto simp: restorePrototype_def heapOnce_def update_conv split: prod.split)

lemma reset_once: "heapOnce H \<Longrightarrow> heapOnce (resetForTesting H)"
proof -
  assume H: "heapOnce H"
  have "heapOnce (fold restorePrototype (wrappedPrototypes H) H)"
  proof (rule fold_invariant[where P = heapOnce, OF _ H], rule restore_once)
    fix e K assume "e \<in> set (wrappedPrototypes H)"
    then show "\<not> isWrapped (snd (snd e))" using H by (cases e) (auto simp: heapOnce_def)
  qed
  then show ?thesis by (simp add: resetForTesting_def heapOnce_def)
qed

lemma mechanism_once: "heapOnce H \<Longrightarrow> heapOnce (applyMechanism R b H)"
  by (cases b) (auto simp: TransactionalMethodsBootstrap_def wrapAll_def reset_once
      intro: fold_invariant wrapProvider_once wrapAllStep_once)

text \<open>
  C28. From objects whose methods carry at most one wrapper, any sequence of method
  bootstraps, handler wrappers with any options and resets, in any order, leaves at most one
  wrapper on every method a call can reach, inherited or own.
\<close>

theorem methods_wrapped_once:
  assumes "heapOnce H" and "hostMethod R (fold (applyMechanism R) bs H) i c n = Some (Fn m)"
  shows "onceWrapped m"
proof -
  have "heapOnce (fold (applyMechanism R) bs H)"
    by (rule fold_invariant[where P = heapOnce, OF _ assms(1)]) (rule mechanism_once)
  from host_once[OF this, of R i c n] assms(2) show ?thesis by simp
qed

text \<open>
  A query handler class 2 that extends class 1, the method in class 1; instance 7 is of
  class 2, and both classes are providers.
\<close>

definition sampleReflect :: reflect_data where
  "sampleReflect =
     \<lparr>rd_chain = (\<lambda>c. if c = 2 then [2, 1] else [c]), rd_classMeta = (\<lambda>_. None),
      rd_methodMeta = (\<lambda>_. None), rd_command = (\<lambda>_. False), rd_query = (\<lambda>c. c = 1), rd_events = (\<lambda>_. False)\<rparr>"

definition sampleHeap :: method_heap where
  "sampleHeap =
     \<lparr>protoOwn = (\<lambda>c. if c = 1 then [(''execute'', Fn (Source 9))] else []), instOwn = (\<lambda>_. []),
      wrappedPrototypes = []\<rparr>"

definition sampleHandlerOptions :: handler_options where
  "sampleHandlerOptions =
     \<lparr>ho_wrapCommandHandlers = None, ho_wrapQueryHandlers = None, ho_wrapEventHandlers = None,
      ho_defaultQueryOptions = Some (no_options\<lparr>o_readOnly := Some True\<rparr>), ho_defaultCommandOptions = None\<rparr>"

definition sampleProviders :: "provider list" where
  "sampleProviders =
     map (\<lambda>c. \<lparr>p_metatype = Some c, p_instance = Some 7, p_prototype = Some c, p_methodNames = [''execute'']\<rparr>) [2, 1]"

lemma sampleHeap_once: "heapOnce sampleHeap"
  by (simp add: heapOnce_def sampleHeap_def)

abbreviation sampleMechanisms :: "mechanism list" where
  "sampleMechanisms \<equiv>
     [MethodsBootstrap sampleProviders, HandlerWrapper sampleHandlerOptions sampleProviders,
      HandlerWrapper sampleHandlerOptions sampleProviders]"

lemma methods_wrapped_once_witness:
  "\<exists>m. hostMethod sampleReflect (fold (applyMechanism sampleReflect) sampleMechanisms sampleHeap) 7 2 ''execute'' = Some (Fn m) \<and>
     isWrapped m \<and> onceWrapped m"
proof -
  have "hostMethod sampleReflect (fold (applyMechanism sampleReflect) sampleMechanisms sampleHeap) 7 2 ''execute''
      = Some (Fn (RunIn (no_options\<lparr>o_readOnly := Some True, o_propagation := Some REQUIRED\<rparr>) (Source 9)))"
    by (simp add: sampleProviders_def sampleHandlerOptions_def sampleHeap_def sampleReflect_def
        TransactionalMethodsBootstrap_def wrapProvider_def isCqrsHandler_def wrapAll_def wrapAllStep_def
        classifyHandler_def wrapHandler_def protoMethod_def hostMethod_def handlerMethodName_def
        resolveHandlerMetadata_def classMetadata_def no_options_def)
  from methods_wrapped_once[OF sampleHeap_once this] this show ?thesis by auto
qed

section \<open>A second pass, and a reset\<close>

text \<open>Superclass chains: a class is first in its own, and the rest is the chain of its parent.\<close>

definition classChains :: "reflect_data \<Rightarrow> bool" where
  "classChains R \<longleftrightarrow>
     (\<forall>c. \<exists>parents. rd_chain R c = c # parents \<and> (parents = [] \<or> parents = rd_chain R (hd parents)))"

lemma classChains_head: "classChains R \<Longrightarrow> \<exists>parents. rd_chain R c = c # parents"
  by (auto simp: classChains_def)

text \<open>A lookup changes only to a wrapper.\<close>

lemma wrapHandler_lookup:
  assumes "protoMethod R (wrapHandler options R c n k H) d n' = Some (Fn m)" and "\<not> isWrapped m"
  shows "protoMethod R H d n' = Some (Fn m)"
proof -
  have "firstSome (\<lambda>k'. map_of (protoOwn (wrapHandler options R c n k H) k') n') ks = Some (Fn m) \<Longrightarrow>
      firstSome (\<lambda>k'. map_of (protoOwn H k') n') ks = Some (Fn m)" for ks
    using assms(2)
    by (induction ks)
      (auto simp: wrapHandler_def update_conv split: option.splits slot.splits if_splits)
  with assms(1) show ?thesis unfolding protoMethod_def by blast
qed

lemma wrapHandler_done:
  assumes "classChains R" and "protoMethod R (wrapHandler options R c n k H) c n = Some (Fn m)"
    and "\<not> isWrapped m"
  shows "resolveHandlerMetadata options R m c k = None"
proof -
  from wrapHandler_lookup[OF assms(2,3)] have l: "protoMethod R H c n = Some (Fn m)" .
  show ?thesis
  proof (rule ccontr)
    assume "resolveHandlerMetadata options R m c k \<noteq> None"
    then obtain md where "resolveHandlerMetadata options R m c k = Some md" by blast
    with l assms classChains_head[OF assms(1), of c] show False
      by (auto simp: wrapHandler_def protoMethod_def update_conv)
  qed
qed

text \<open>A class that a pass has nothing left to do for.\<close>

definition settledClass :: "('z) handler_options_scheme \<Rightarrow> reflect_data \<Rightarrow> provider \<Rightarrow> method_heap \<Rightarrow> bool" where
  "settledClass options R p H \<longleftrightarrow>
     (\<forall>c k m. p_metatype p = Some c \<longrightarrow> classifyHandler options R c = Some k \<longrightarrow>
        protoMethod R H c (handlerMethodName k) = Some (Fn m) \<longrightarrow>
        isWrapped m \<or> resolveHandlerMetadata options R m c k = None)"

lemma wrapAllStep_lookup:
  "protoMethod R (wrapAllStep options R q H) c n = Some (Fn m) \<Longrightarrow> \<not> isWrapped m \<Longrightarrow>
     protoMethod R H c n = Some (Fn m)"
  by (auto simp: wrapAllStep_def split: option.splits intro: wrapHandler_lookup)

lemma settled_step: "settledClass options R p H \<Longrightarrow> settledClass options R p (wrapAllStep options R q H)"
  unfolding settledClass_def
proof (intro allI impI)
  fix c k m
  assume settled: "\<forall>c k m. p_metatype p = Some c \<longrightarrow> classifyHandler options R c = Some k \<longrightarrow>
      protoMethod R H c (handlerMethodName k) = Some (Fn m) \<longrightarrow>
      isWrapped m \<or> resolveHandlerMetadata options R m c k = None"
    and c: "p_metatype p = Some c" "classifyHandler options R c = Some k"
    and l: "protoMethod R (wrapAllStep options R q H) c (handlerMethodName k) = Some (Fn m)"
  show "isWrapped m \<or> resolveHandlerMetadata options R m c k = None"
  proof (rule disjCI)
    assume "resolveHandlerMetadata options R m c k \<noteq> None"
    show "isWrapped m"
    proof (rule ccontr)
      assume u: "\<not> isWrapped m"
      note settled[rule_format, OF c wrapAllStep_lookup[OF l u]]
      with u \<open>resolveHandlerMetadata options R m c k \<noteq> None\<close> show False by simp
    qed
  qed
qed

lemma step_settles: "classChains R \<Longrightarrow> settledClass options R p (wrapAllStep options R p H)"
  unfolding settledClass_def wrapAllStep_def
  by (auto split: option.splits dest: wrapHandler_done)

lemma settled_unchanged: "settledClass options R p H \<Longrightarrow> wrapAllStep options R p H = H"
  by (auto simp: settledClass_def wrapAllStep_def wrapHandler_def split: option.split slot.split)

lemma pass_settles:
  "classChains R \<Longrightarrow> p \<in> set ps \<or> settledClass options R p H \<Longrightarrow>
     settledClass options R p (wrapAll options R ps H)"
  unfolding wrapAll_def
  by (induction ps arbitrary: H) (auto intro: settled_step step_settles)

text \<open>
  After the handler wrapper has gone over the providers, the method the bus calls on a
  handler class is wrapped or has no transactional metadata to run with; and a second pass,
  over the same providers in the same order, changes nothing.
\<close>

theorem wrapAll_complete:
  assumes "classChains R"
  shows "(\<forall>p \<in> set ps. settledClass options R p (wrapAll options R ps H)) \<and>
    wrapAll options R ps (wrapAll options R ps H) = wrapAll options R ps H"
proof -
  let ?K = "wrapAll options R ps H"
  have settled: "\<forall>p \<in> set ps. settledClass options R p ?K"
    using pass_settles[OF assms] by blast
  then have "fold (wrapAllStep options R) ps' ?K = ?K" if "set ps' \<subseteq> set ps" for ps'
    using that by (induction ps') (simp_all add: settled_unchanged)
  then have "wrapAll options R ps ?K = ?K" by (simp add: wrapAll_def[of options R ps ?K])
  with settled show ?thesis by blast
qed

lemma sampleReflect_chains: "classChains sampleReflect"
  by (simp add: classChains_def sampleReflect_def)

lemma wrapAll_complete_witness:
  "list_all (\<lambda>p. settledClass sampleHandlerOptions sampleReflect p
      (wrapAll sampleHandlerOptions sampleReflect sampleProviders sampleHeap)) sampleProviders"
  unfolding list_all_iff by (rule wrapAll_complete[OF sampleReflect_chains, THEN conjunct1])

section \<open>Restoring the prototypes\<close>

text \<open>
  What the tracker knows while a pass runs, compared with the heap \<open>H0\<close> before it: an entry
  holds what a lookup gave before, under the name of the class's kind, and hides a wrapper;
  every other own property is as it was.
\<close>

definition tracked :: "('z) handler_options_scheme \<Rightarrow> reflect_data \<Rightarrow> method_heap \<Rightarrow> method_heap \<Rightarrow> bool" where
  "tracked options R H0 H \<longleftrightarrow>
     (\<forall>c n. case map_of (wrappedPrototypes H) c of
        Some (n', m) \<Rightarrow>
          (\<exists>k. classifyHandler options R c = Some k \<and> n' = handlerMethodName k) \<and>
          protoMethod R H0 c n' = Some (Fn m) \<and>
          (if n = n' then \<exists>md. map_of (protoOwn H c) n = Some (Fn (RunIn md m))
           else map_of (protoOwn H c) n = map_of (protoOwn H0 c) n)
      | None \<Rightarrow> map_of (protoOwn H c) n = map_of (protoOwn H0 c) n) \<and>
     distinct (map fst (wrappedPrototypes H))"

lemma tracked_at: "tracked options R H0 H \<Longrightarrow>
    (case map_of (wrappedPrototypes H) c of
        Some (n', m) \<Rightarrow>
          (\<exists>k. classifyHandler options R c = Some k \<and> n' = handlerMethodName k) \<and>
          protoMethod R H0 c n' = Some (Fn m) \<and>
          (if n = n' then \<exists>md. map_of (protoOwn H c) n = Some (Fn (RunIn md m))
           else map_of (protoOwn H c) n = map_of (protoOwn H0 c) n)
      | None \<Rightarrow> map_of (protoOwn H c) n = map_of (protoOwn H0 c) n)"
  unfolding tracked_def by blast

lemma tracked_lookup:
  assumes "tracked options R H0 H" and "protoMethod R H c n = Some (Fn m)" and "\<not> isWrapped m"
  shows "protoMethod R H0 c n = Some (Fn m)"
proof -
  have own: "map_of (protoOwn H k) n = map_of (protoOwn H0 k) n \<or>
      (\<exists>md m'. map_of (protoOwn H k) n = Some (Fn (RunIn md m')))" for k
  proof (cases "map_of (wrappedPrototypes H) k")
    case None
    then show ?thesis using tracked_at[OF assms(1), of k n] by simp
  next
    case (Some e)
    then show ?thesis using tracked_at[OF assms(1), of k n] by (cases e) (auto split: if_splits)
  qed
  have "firstSome (\<lambda>k. map_of (protoOwn H k) n) ks = Some (Fn m) \<Longrightarrow>
      firstSome (\<lambda>k. map_of (protoOwn H0 k) n) ks = Some (Fn m)" for ks
  proof (induction ks)
    case (Cons k ks)
    with own[of k] assms(3) show ?case by (auto split: option.splits)
  qed simp
  with assms(2) show ?thesis unfolding protoMethod_def by blast
qed

lemma trackedI:
  assumes "distinct (map fst (wrappedPrototypes H))"
    and "\<And>c n. map_of (wrappedPrototypes H) c = None \<Longrightarrow> map_of (protoOwn H c) n = map_of (protoOwn H0 c) n"
    and "\<And>c n n' m. map_of (wrappedPrototypes H) c = Some (n', m) \<Longrightarrow>
      (\<exists>k. classifyHandler options R c = Some k \<and> n' = handlerMethodName k) \<and>
      protoMethod R H0 c n' = Some (Fn m) \<and>
      (if n = n' then \<exists>md. map_of (protoOwn H c) n = Some (Fn (RunIn md m))
       else map_of (protoOwn H c) n = map_of (protoOwn H0 c) n)"
  shows "tracked options R H0 H"
  unfolding tracked_def
proof (intro conjI allI)
  fix c n
  show "case map_of (wrappedPrototypes H) c of
        Some (n', m) \<Rightarrow>
          (\<exists>k. classifyHandler options R c = Some k \<and> n' = handlerMethodName k) \<and>
          protoMethod R H0 c n' = Some (Fn m) \<and>
          (if n = n' then \<exists>md. map_of (protoOwn H c) n = Some (Fn (RunIn md m))
           else map_of (protoOwn H c) n = map_of (protoOwn H0 c) n)
      | None \<Rightarrow> map_of (protoOwn H c) n = map_of (protoOwn H0 c) n"
  proof (cases "map_of (wrappedPrototypes H) c")
    case None
    then show ?thesis using assms(2)[OF None, of n] by simp
  next
    case (Some e)
    obtain n' m where e: "e = (n', m)" by (cases e)
    show ?thesis unfolding Some e option.case prod.case by (rule assms(3)[OF Some[unfolded e]])
  qed
qed (rule assms(1))

lemma tracked_step:
  assumes "classChains R" and T: "tracked options R H0 H"
  shows "tracked options R H0 (wrapAllStep options R p H)"
proof (cases "wrapAllStep options R p H = H")
  case True
  then show ?thesis using T by simp
next
  case False
  obtain c where c: "p_metatype p = Some c"
    using False by (cases "p_metatype p") (simp_all add: wrapAllStep_def)
  obtain k where k: "classifyHandler options R c = Some k"
    using False c by (cases "classifyHandler options R c") (simp_all add: wrapAllStep_def)
  define n where "n = handlerMethodName k"
  obtain m where m: "protoMethod R H c n = Some (Fn m)" "\<not> isWrapped m"
    using False c k
    by (auto simp: wrapAllStep_def wrapHandler_def n_def split: option.splits slot.splits if_splits)
  obtain md where md: "resolveHandlerMetadata options R m c k = Some md"
    using False c k m by (cases "resolveHandlerMetadata options R m c k") (simp_all add: wrapAllStep_def wrapHandler_def n_def)
  have H': "wrapAllStep options R p H =
      H\<lparr>protoOwn := (protoOwn H)(c := AList.update n (Fn (RunIn md m)) (protoOwn H c)),
        wrappedPrototypes := AList.update c (n, m) (wrappedPrototypes H)\<rparr>"
    using c k m md by (simp add: wrapAllStep_def wrapHandler_def n_def)
  have fresh_c: "map_of (wrappedPrototypes H) c = None"
  proof (cases "map_of (wrappedPrototypes H) c")
    case (Some e)
    obtain n' m' where e: "e = (n', m')" by (cases e)
    with tracked_at[OF T, of c n] Some k have "n' = n" by (auto simp: n_def)
    with tracked_at[OF T, of c n] Some e obtain md' where
      "map_of (protoOwn H c) n = Some (Fn (RunIn md' m'))" by auto
    with m classChains_head[OF assms(1), of c] show ?thesis by (auto simp: protoMethod_def)
  qed simp
  have before: "protoMethod R H0 c n = Some (Fn m)" by (rule tracked_lookup[OF T m])
  show ?thesis
    unfolding H'
  proof (rule trackedI)
    show "distinct (map fst (wrappedPrototypes (H\<lparr>protoOwn := (protoOwn H)(c := AList.update n (Fn (RunIn md m)) (protoOwn H c)),
        wrappedPrototypes := AList.update c (n, m) (wrappedPrototypes H)\<rparr>)))"
      using T by (simp add: tracked_def distinct_update)
  next
    fix d n0
    assume "map_of (wrappedPrototypes (H\<lparr>protoOwn := (protoOwn H)(c := AList.update n (Fn (RunIn md m)) (protoOwn H c)),
        wrappedPrototypes := AList.update c (n, m) (wrappedPrototypes H)\<rparr>)) d = None"
    then show "map_of (protoOwn (H\<lparr>protoOwn := (protoOwn H)(c := AList.update n (Fn (RunIn md m)) (protoOwn H c)),
        wrappedPrototypes := AList.update c (n, m) (wrappedPrototypes H)\<rparr>) d) n0 = map_of (protoOwn H0 d) n0"
      using tracked_at[OF T, of d n0] by (auto simp: update_conv split: if_splits)
  next
    fix d n0 n' m'
    assume "map_of (wrappedPrototypes (H\<lparr>protoOwn := (protoOwn H)(c := AList.update n (Fn (RunIn md m)) (protoOwn H c)),
        wrappedPrototypes := AList.update c (n, m) (wrappedPrototypes H)\<rparr>)) d = Some (n', m')"
    then have "d = c \<and> n' = n \<and> m' = m \<or> d \<noteq> c \<and> map_of (wrappedPrototypes H) d = Some (n', m')"
      by (auto simp: update_conv split: if_splits)
    then show "(\<exists>k. classifyHandler options R d = Some k \<and> n' = handlerMethodName k) \<and>
      protoMethod R H0 d n' = Some (Fn m') \<and>
      (if n0 = n' then \<exists>md'. map_of (protoOwn (H\<lparr>protoOwn := (protoOwn H)(c := AList.update n (Fn (RunIn md m)) (protoOwn H c)),
        wrappedPrototypes := AList.update c (n, m) (wrappedPrototypes H)\<rparr>) d) n0 = Some (Fn (RunIn md' m'))
       else map_of (protoOwn (H\<lparr>protoOwn := (protoOwn H)(c := AList.update n (Fn (RunIn md m)) (protoOwn H c)),
        wrappedPrototypes := AList.update c (n, m) (wrappedPrototypes H)\<rparr>) d) n0 = map_of (protoOwn H0 d) n0)"
      using tracked_at[OF T, of d n0] fresh_c before k by (auto simp: update_conv n_def)
  qed
qed

lemma restored_own:
  "distinct (map fst es) \<Longrightarrow>
     map_of (protoOwn (fold restorePrototype es H) c) n =
       (case map_of es c of
          Some (n', m) \<Rightarrow> if n = n' then Some (Fn m) else map_of (protoOwn H c) n
        | None \<Rightarrow> map_of (protoOwn H c) n)"
proof (induction es arbitrary: H)
  case (Cons e es)
  obtain a n' m where e: "e = (a, n', m)" by (cases e)
  have IH: "map_of (protoOwn (fold restorePrototype (e # es) H) c) n =
      (case map_of es c of
          Some (n', m) \<Rightarrow> if n = n' then Some (Fn m) else map_of (protoOwn (restorePrototype e H) c) n
        | None \<Rightarrow> map_of (protoOwn (restorePrototype e H) c) n)"
    using Cons by simp
  show ?case
  proof (cases "a = c")
    case True
    then have "map_of es c = None" using Cons.prems e by (auto simp: map_of_eq_None_iff)
    then show ?thesis unfolding IH using True e by (simp add: restorePrototype_def update_conv)
  next
    case False
    then show ?thesis unfolding IH using e by (simp add: restorePrototype_def split: option.split)
  qed
qed simp

lemma reset_lookup:
  assumes R: "classChains R" and T: "tracked options R H0 H"
  shows "protoMethod R (resetForTesting H) c n = protoMethod R H0 c n"
proof (induction "length (rd_chain R c)" arbitrary: c rule: less_induct)
  case less
  obtain parents where ch: "rd_chain R c = c # parents"
    and up: "parents = [] \<or> parents = rd_chain R (hd parents)"
    using R unfolding classChains_def by blast
  have rest: "firstSome (\<lambda>k. map_of (protoOwn (resetForTesting H) k) n) parents =
      firstSome (\<lambda>k. map_of (protoOwn H0 k) n) parents"
  proof (cases "parents = []")
    case False
    with up have p: "parents = rd_chain R (hd parents)" by blast
    then have "length (rd_chain R (hd parents)) < length (rd_chain R c)" using ch by simp
    from less[OF this] show ?thesis unfolding protoMethod_def p[symmetric] .
  qed simp
  have own: "map_of (protoOwn (resetForTesting H) c) n =
      (case map_of (wrappedPrototypes H) c of
          Some (n', m) \<Rightarrow> if n = n' then Some (Fn m) else map_of (protoOwn H c) n
        | None \<Rightarrow> map_of (protoOwn H c) n)"
    using T by (simp add: resetForTesting_def restored_own tracked_def)
  show ?case
  proof (cases "map_of (wrappedPrototypes H) c")
    case None
    with own tracked_at[OF T, of c n] have "map_of (protoOwn (resetForTesting H) c) n = map_of (protoOwn H0 c) n"
      by simp
    then show ?thesis using rest unfolding protoMethod_def ch by (simp split: option.split)
  next
    case (Some e)
    obtain n' m where e: "e = (n', m)" by (cases e)
    show ?thesis
    proof (cases "n = n'")
      case True
      with tracked_at[OF T, of c n] Some e have "protoMethod R H0 c n = Some (Fn m)" by simp
      moreover have "protoMethod R (resetForTesting H) c n = Some (Fn m)"
        using own Some e True unfolding protoMethod_def ch by simp
      ultimately show ?thesis by simp
    next
      case False
      with own tracked_at[OF T, of c n] Some e have
        "map_of (protoOwn (resetForTesting H) c) n = map_of (protoOwn H0 c) n" by simp
      then show ?thesis using rest unfolding protoMethod_def ch by (simp split: option.split)
    qed
  qed
qed

text \<open>
  C39. Wrapping and then resetting is the identity on what calls find: from a state with
  nothing tracked, every method of every class resolves after \<open>resetForTesting\<close> to what it
  resolved to before the pass, and nothing is tracked.
\<close>

theorem wrapAll_reset_roundtrip:
  assumes "classChains R" and "wrappedPrototypes H = []"
  shows "protoMethod R (resetForTesting (wrapAll options R ps H)) c n = protoMethod R H c n \<and>
    wrappedPrototypes (resetForTesting (wrapAll options R ps H)) = []"
proof -
  have "tracked options R H H" using assms(2) by (simp add: tracked_def)
  then have "tracked options R H (wrapAll options R ps H)"
    unfolding wrapAll_def
    by (rule fold_invariant[where P = "tracked options R H", rotated]) (rule tracked_step[OF assms(1)])
  from reset_lookup[OF assms(1) this] show ?thesis by (simp add: resetForTesting_def)
qed

lemma wrapAll_reset_roundtrip_witness:
  "protoMethod sampleReflect (wrapAll sampleHandlerOptions sampleReflect sampleProviders sampleHeap) 2 ''execute'' \<noteq>
     protoMethod sampleReflect sampleHeap 2 ''execute'' \<and>
   protoMethod sampleReflect (resetForTesting (wrapAll sampleHandlerOptions sampleReflect sampleProviders sampleHeap)) 2 ''execute'' =
     protoMethod sampleReflect sampleHeap 2 ''execute''"
proof
  show "protoMethod sampleReflect (wrapAll sampleHandlerOptions sampleReflect sampleProviders sampleHeap) 2 ''execute'' \<noteq>
     protoMethod sampleReflect sampleHeap 2 ''execute''"
    by (simp add: sampleProviders_def sampleHandlerOptions_def sampleHeap_def sampleReflect_def
        wrapAll_def wrapAllStep_def classifyHandler_def wrapHandler_def protoMethod_def
        handlerMethodName_def resolveHandlerMetadata_def classMetadata_def)
  have "wrappedPrototypes sampleHeap = []" by (simp add: sampleHeap_def)
  from wrapAll_reset_roundtrip[OF sampleReflect_chains this]
  show "protoMethod sampleReflect (resetForTesting (wrapAll sampleHandlerOptions sampleReflect sampleProviders sampleHeap)) 2 ''execute'' =
     protoMethod sampleReflect sampleHeap 2 ''execute''" by blast
qed

end
