(* ===== verification/Outbox.thy ===== *)
theory Outbox
  imports Event_Publisher
begin

text \<open>
  \<open>packages/outbox/src\<close>: the \<open>@Externalized\<close> declarations and the routes they make, and the
  publisher that adds events to \<open>@nestjs/outbox\<close> inside the active transaction.

  The outbox itself is a parameter, \<open>add\<close> and \<open>notify\<close>. The package schedules events for
  the event bus of \<open>packages/cqrs\<close>, so its world is the world of that package with the two
  maps of the publisher; the hooks it pushes are constructors of the application's hooks
  there, beside the application's own. The class of an event is its prototype chain, which
  \<open>Reflect.getMetadata\<close> walks.
\<close>

section \<open>Declarations\<close>

datatype event_headers = StaticHeaders "(string \<times> string) list" | DerivedHeaders "jsv \<Rightarrow> (string \<times> string) list"

record externalized_options =
  xo_target :: jsv
  xo_client :: "string option"
  xo_routingKey :: "(jsv \<Rightarrow> string) option"
  xo_headers :: "event_headers option"

record externalized_metadata =
  x_target :: string
  x_client :: "string option"
  x_routingKey :: "(jsv \<Rightarrow> string) option"
  x_headers :: "event_headers option"

text \<open>The module's map of routes, and the metadata put on classes.\<close>

record externalized_registry =
  routes :: "(string \<times> string option) list"
  x_meta :: "string \<Rightarrow> externalized_metadata option"

definition noExternalized :: externalized_registry where
  "noExternalized = \<lparr>routes = [], x_meta = (\<lambda>_. None)\<rparr>"

definition ExternalizedRouteConflictError :: "string \<Rightarrow> string option \<Rightarrow> string option \<Rightarrow> framework_error" where
  "ExternalizedRouteConflictError target existing attempted =
     FwError [''ExternalizedRouteConflictError'', ''Error'']
       [(''name'', JStr ''ExternalizedRouteConflictError''), (''target'', JStr target),
        (''existing'', case existing of None \<Rightarrow> Undef | Some c \<Rightarrow> JStr c),
        (''attempted'', case attempted of None \<Rightarrow> Undef | Some c \<Rightarrow> JStr c)]"

text \<open>Evaluating the decorator's arguments, then applying it to a class.\<close>

definition Externalized :: "externalized_options \<Rightarrow> framework_error + externalized_metadata" where
  "Externalized options =
     (case xo_target options of
        JStr target \<Rightarrow>
          if target = [] then Inl PlainError
          else Inr \<lparr>x_target = target, x_client = xo_client options,
                    x_routingKey = xo_routingKey options, x_headers = xo_headers options\<rparr>
      | _ \<Rightarrow> Inl PlainError)"

definition applyExternalized ::
    "externalized_metadata \<Rightarrow> string \<Rightarrow> externalized_registry \<Rightarrow> framework_error + externalized_registry" where
  "applyExternalized metadata cls reg =
     (let target = x_target metadata;
          declared = reg\<lparr>routes := AList.update target (x_client metadata) (routes reg),
                         x_meta := (x_meta reg)(cls \<mapsto> metadata)\<rparr>
      in (case map_of (routes reg) target of
            Some existing \<Rightarrow>
              if existing \<noteq> x_client metadata
              then Inl (ExternalizedRouteConflictError target existing (x_client metadata))
              else Inr declared
          | None \<Rightarrow> Inr declared))"

fun ownOrInherited :: "(string \<Rightarrow> 'a option) \<Rightarrow> string list \<Rightarrow> 'a option" where
  "ownOrInherited f [] = None"
| "ownOrInherited f (c # cs) = (case f c of None \<Rightarrow> ownOrInherited f cs | Some x \<Rightarrow> Some x)"

fun getExternalizedMetadata :: "externalized_registry \<Rightarrow> jsv \<Rightarrow> externalized_metadata option" where
  "getExternalizedMetadata reg (JObj i cs ps) = ownOrInherited (x_meta reg) cs"
| "getExternalizedMetadata reg v = None"

section \<open>Messages and routes\<close>

record outbox_message =
  topic :: string
  payload :: jsv
  msgKey :: "string option"
  headers :: "(string \<times> string) list"

definition EVENT_TYPE_HEADER :: string where
  "EVENT_TYPE_HEADER = ''x-event-type''"

fun className :: "jsv \<Rightarrow> string" where
  "className (JObj i (c # cs) ps) = c"
| "className v = []"

definition toMessage :: "externalized_registry \<Rightarrow> jsv \<Rightarrow> outbox_message" where
  "toMessage reg event =
     (let eventType = className event;
          meta = getExternalizedMetadata reg event;
          hs = (case meta of
                  None \<Rightarrow> []
                | Some m \<Rightarrow> (case x_headers m of
                      None \<Rightarrow> [] | Some (StaticHeaders h) \<Rightarrow> h | Some (DerivedHeaders f) \<Rightarrow> f event))
      in \<lparr>topic = (case meta of None \<Rightarrow> eventType | Some m \<Rightarrow> x_target m), payload = event,
          msgKey = (case meta of None \<Rightarrow> None | Some m \<Rightarrow> map_option (\<lambda>f. f event) (x_routingKey m)),
          headers = AList.update EVENT_TYPE_HEADER eventType hs\<rparr>)"

record route_options =
  ro_defaultTransport :: "string option"
  ro_fallback :: "string option"

definition externalizedRoute ::
    "route_options \<Rightarrow> externalized_registry \<Rightarrow> outbox_message \<Rightarrow> framework_error + string" where
  "externalizedRoute options reg message =
     (case map_of (routes reg) (topic message) of
        None \<Rightarrow> Inr (case ro_fallback options of None \<Rightarrow> ''local'' | Some f \<Rightarrow> f)
      | Some (Some client) \<Rightarrow> Inr client
      | Some None \<Rightarrow>
          (case ro_defaultTransport options of None \<Rightarrow> Inl PlainError | Some t \<Rightarrow> Inr t))"

record outbox_envelope =
  e_id :: string
  e_key :: "string option"
  e_headers :: "(string \<times> string) list"

record kafka_packet =
  k_pattern :: string
  k_key :: "string option"
  k_value :: outbox_envelope
  k_headers :: "(string \<times> string) list"

definition toKafkaPacket :: "outbox_message \<Rightarrow> outbox_envelope \<Rightarrow> kafka_packet" where
  "toKafkaPacket message envelope =
     \<lparr>k_pattern = topic message, k_key = e_key envelope, k_value = envelope,
      k_headers = AList.update ''x-outbox-id'' (e_id envelope) (e_headers envelope)\<rparr>"

section \<open>The publisher\<close>

datatype 'a outbox_hook = FlushHook nat | NotifyHook | OwnHook 'a

record ('a, 'm, 'd) outbox_world = "('a outbox_hook, 'm, 'd) cqrs_world" +
  outboxPending :: "nat \<Rightarrow> jsv list option"
  notifying :: "nat set"

type_synonym ('a, 'm, 'd, 'z) obw = "('a, 'm, 'd, 'z) outbox_world_scheme"
type_synonym ('a, 'm, 'd, 'z) obw_env = "(('a outbox_hook, 'm) cqrs_hook, ('a, 'm, 'd, 'z) obw) environment"

record 'w outbox_lib =
  outbox_add :: "jsv \<Rightarrow> outbox_message \<Rightarrow> ('w, unit) comp"
  outbox_notify :: "('w, unit) comp"

record 'w outbox_settings =
  os_dataSource :: string
  os_resolve :: "nat \<Rightarrow> ('w, jsv) comp"
  os_externalized :: externalized_registry

text \<open>The constructor: the defaults of the options.\<close>

definition OutboxEventPublisher ::
    "('a, 'm, 'd, 'z) obw_env \<Rightarrow> string option \<Rightarrow> (nat \<Rightarrow> (('a, 'm, 'd, 'z) obw, jsv) comp) option \<Rightarrow>
     externalized_registry \<Rightarrow> ('a, 'm, 'd, 'z) obw outbox_settings" where
  "OutboxEventPublisher env dataSource resolver reg =
     \<lparr>os_dataSource = (case dataSource of None \<Rightarrow> ''default'' | Some d \<Rightarrow> d),
      os_resolve = (case resolver of None \<Rightarrow> nativeTransactionOf env | Some f \<Rightarrow> f),
      os_externalized = reg\<rparr>"

definition requireTransaction :: "string \<Rightarrow> (('a, 'm, 'd, 'z) obw, nat) comp" where
  "requireTransaction ds w =
     (case getActiveTransactionByDataSource ds w of
        None \<Rightarrow> raise IllegalTransactionStateError w
      | Some t \<Rightarrow> Some (Resolve t, w))"

definition notifyAfterCommit :: "nat \<Rightarrow> ('a, 'm, 'd, 'z) obw \<Rightarrow> ('a, 'm, 'd, 'z) obw" where
  "notifyAfterCommit t w =
     (if t \<in> notifying w then w
      else updateTx t (pushAfterCommit (UserHook (AppHook NotifyHook))) (w\<lparr>notifying := insert t (notifying w)\<rparr>))"

definition publishEvent ::
    "('a, 'm, 'd, 'z) obw outbox_lib \<Rightarrow> ('a, 'm, 'd, 'z) obw outbox_settings \<Rightarrow> jsv \<Rightarrow> (('a, 'm, 'd, 'z) obw, unit) comp" where
  "publishEvent lib st event =
     andThen (requireTransaction (os_dataSource st))
       (\<lambda>t. andThen (os_resolve st t)
          (\<lambda>tx. andThen (outbox_add lib tx (toMessage (os_externalized st) event))
             (\<lambda>_. modify (notifyAfterCommit t))))"

fun publishEvents ::
    "('a, 'm, 'd, 'z) obw outbox_lib \<Rightarrow> ('a, 'm, 'd, 'z) obw outbox_settings \<Rightarrow> jsv list \<Rightarrow> (('a, 'm, 'd, 'z) obw, unit) comp" where
  "publishEvents lib st [] = ret ()"
| "publishEvents lib st (ev # evs) =
     andThen (publishEvent lib st ev) (\<lambda>_. publishEvents lib st evs)"

text \<open>The synchronous path: buffer the event, and let one before-commit hook flush the buffer.\<close>

definition scheduleForPublication ::
    "('a, 'm, 'd, 'z) obw outbox_settings \<Rightarrow> jsv \<Rightarrow> ('a, 'm, 'd, 'z) obw \<Rightarrow> ('a, 'm, 'd, 'z) obw" where
  "scheduleForPublication st event w =
     (if getExternalizedMetadata (os_externalized st) event = None then w
      else
        (case getActiveTransactionByDataSource (os_dataSource st) w of
           None \<Rightarrow> w
         | Some t \<Rightarrow>
             (case outboxPending w t of
                None \<Rightarrow>
                  updateTx t (pushBeforeCommit (UserHook (AppHook (FlushHook t))))
                    (w\<lparr>outboxPending := (outboxPending w)(t \<mapsto> [event])\<rparr>)
              | Some buffer \<Rightarrow> w\<lparr>outboxPending := (outboxPending w)(t \<mapsto> buffer @ [event])\<rparr>)))"

definition flushHook ::
    "('a, 'm, 'd, 'z) obw outbox_lib \<Rightarrow> ('a, 'm, 'd, 'z) obw outbox_settings \<Rightarrow> nat \<Rightarrow> (('a, 'm, 'd, 'z) obw, unit) comp" where
  "flushHook lib st t w =
     publishEvents lib st (case outboxPending w t of None \<Rightarrow> [] | Some es \<Rightarrow> es)
       (w\<lparr>outboxPending := (outboxPending w)(t := None)\<rparr>)"

fun outboxCallHook ::
    "('a, 'm, 'd, 'z) obw outbox_lib \<Rightarrow> ('a, 'm, 'd, 'z) obw outbox_settings \<Rightarrow>
     ('a \<Rightarrow> jsv \<Rightarrow> (('a, 'm, 'd, 'z) obw, jsv) comp) \<Rightarrow>
     'a outbox_hook \<Rightarrow> jsv \<Rightarrow> (('a, 'm, 'd, 'z) obw, jsv) comp" where
  "outboxCallHook lib st own (FlushHook t) arg = andThen (flushHook lib st t) (\<lambda>_. ret Undef)"
| "outboxCallHook lib st own NotifyHook arg = andThen (outbox_notify lib) (\<lambda>_. ret Undef)"
| "outboxCallHook lib st own (OwnHook a) arg = own a arg"

end
