(* ===== verification/Outbox_Properties.thy ===== *)
theory Outbox_Properties
  imports Outbox
begin

text \<open>
  Properties of the outbox: every event of a class with a declared target is routed to the
  client the class names, and the events scheduled in a transaction are added through it, in
  order, by one hook that runs before the commit.
\<close>

section \<open>Routes follow declarations\<close>

fun declareAll ::
    "(string \<times> externalized_metadata) list \<Rightarrow> externalized_registry \<Rightarrow> framework_error + externalized_registry" where
  "declareAll [] reg = Inr reg"
| "declareAll ((cls, m) # ds) reg =
     (case applyExternalized m cls reg of Inl e \<Rightarrow> Inl e | Inr reg1 \<Rightarrow> declareAll ds reg1)"

text \<open>Every declared class has the route of its target.\<close>

definition routed :: "externalized_registry \<Rightarrow> bool" where
  "routed reg \<longleftrightarrow> (\<forall>c m. x_meta reg c = Some m \<longrightarrow> map_of (routes reg) (x_target m) = Some (x_client m))"

lemma applyExternalized_routed:
  "routed reg \<Longrightarrow> applyExternalized m c reg = Inr reg1 \<Longrightarrow> routed reg1"
proof -
  assume R: "routed reg" and ap: "applyExternalized m c reg = Inr reg1"
  have reg1: "reg1 = reg\<lparr>routes := AList.update (x_target m) (x_client m) (routes reg),
      x_meta := (x_meta reg)(c \<mapsto> m)\<rparr>"
    and same: "map_of (routes reg) (x_target m) \<in> {None, Some (x_client m)}"
    using ap by (auto simp: applyExternalized_def Let_def split: option.splits if_splits)
  show "routed reg1"
    unfolding routed_def
  proof (intro allI impI)
    fix d n assume d: "x_meta reg1 d = Some n"
    show "map_of (routes reg1) (x_target n) = Some (x_client n)"
    proof (cases "d = c")
      case True
      then show ?thesis using d by (simp add: reg1 update_conv)
    next
      case False
      then have "map_of (routes reg) (x_target n) = Some (x_client n)"
        using R d by (simp add: reg1 routed_def)
      then show ?thesis using same by (auto simp: reg1 update_conv)
    qed
  qed
qed

lemma declareAll_routed: "routed reg \<Longrightarrow> declareAll ds reg = Inr reg1 \<Longrightarrow> routed reg1"
proof (induction ds arbitrary: reg)
  case (Cons d ds)
  obtain c m where d: "d = (c, m)" by (cases d)
  with Cons.prems(2) obtain reg2 where "applyExternalized m c reg = Inr reg2"
    "declareAll ds reg2 = Inr reg1"
    by (auto split: sum.splits)
  with Cons.IH applyExternalized_routed[OF Cons.prems(1)] show ?case by blast
qed simp

lemma ownOrInherited_Some: "ownOrInherited f cs = Some m \<Longrightarrow> \<exists>c. f c = Some m"
  by (induction cs) (auto split: option.splits)

text \<open>
  When all declarations were accepted, the message made of an externalized event is
  routed as its own class declares, whatever other classes declare: to the client the class
  names, and to the default transport when it names none, an error without one.
\<close>

theorem externalized_event_routed:
  assumes "declareAll ds noExternalized = Inr reg" and "getExternalizedMetadata reg ev = Some m"
  shows "externalizedRoute options reg (toMessage reg ev) =
    (case x_client m of
       Some client \<Rightarrow> Inr client
     | None \<Rightarrow> (case ro_defaultTransport options of None \<Rightarrow> Inl PlainError | Some t \<Rightarrow> Inr t))"
proof -
  have "routed reg"
    by (rule declareAll_routed[OF _ assms(1)]) (simp add: routed_def noExternalized_def)
  moreover obtain c where "x_meta reg c = Some m"
    using assms(2) by (cases ev) (auto dest: ownOrInherited_Some)
  ultimately have "map_of (routes reg) (x_target m) = Some (x_client m)" by (simp add: routed_def)
  then show ?thesis
    using assms(2) by (simp add: externalizedRoute_def toMessage_def Let_def split: option.split)
qed

definition sampleDeclaration :: externalized_metadata where
  "sampleDeclaration =
     \<lparr>x_target = ''orders.placed'', x_client = Some ''KAFKA'', x_routingKey = None, x_headers = None\<rparr>"

definition sampleExternalized :: externalized_registry where
  "sampleExternalized =
     \<lparr>routes = [(''orders.placed'', Some ''KAFKA'')], x_meta = [''OrderPlaced'' \<mapsto> sampleDeclaration]\<rparr>"

definition orderEvent :: jsv where
  "orderEvent = JObj 1 [''OrderPlaced'', ''Object''] []"

lemma externalized_event_routed_witness:
  "externalizedRoute \<lparr>ro_defaultTransport = None, ro_fallback = None\<rparr> sampleExternalized
     (toMessage sampleExternalized orderEvent) = Inr ''KAFKA''"
proof -
  have "declareAll [(''OrderPlaced'', sampleDeclaration)] noExternalized = Inr sampleExternalized"
    by (simp add: applyExternalized_def noExternalized_def sampleDeclaration_def sampleExternalized_def)
  moreover have "getExternalizedMetadata sampleExternalized orderEvent = Some sampleDeclaration"
    by (simp add: sampleExternalized_def orderEvent_def)
  ultimately show ?thesis
    using externalized_event_routed[of "[(''OrderPlaced'', sampleDeclaration)]" sampleExternalized orderEvent
        sampleDeclaration "\<lparr>ro_defaultTransport = None, ro_fallback = None\<rparr>"]
    by (simp add: sampleDeclaration_def)
qed

section \<open>Messages join the transaction\<close>

text \<open>An outbox that stores a message in the database, through the transaction it is given.\<close>

definition storesIn ::
    "(jsv \<Rightarrow> outbox_message \<Rightarrow> 'd \<Rightarrow> 'd) \<Rightarrow> ('a, 'm, 'd, 'z) obw outbox_lib \<Rightarrow> bool" where
  "storesIn store lib \<longleftrightarrow>
     (\<forall>tx msg w. outbox_add lib tx msg w = Some (Resolve (), w\<lparr>db := store tx msg (db w)\<rparr>))"

text \<open>The transaction active on the outbox's dataSource, and its native transaction.\<close>

definition nativeOn ::
    "('a, 'm, 'd, 'z) obw_env \<Rightarrow> string \<Rightarrow> nat \<Rightarrow> jsv \<Rightarrow> ('a, 'm, 'd, 'z) obw \<Rightarrow> bool" where
  "nativeOn env ds t tx w \<longleftrightarrow>
     getActiveTransactionByDataSource ds w = Some t \<and>
     nativeTransactionOf env t w = Some (Resolve tx, w)"

lemma active_notify [simp]:
  "getActiveTransactionByDataSource ds (notifyAfterCommit t w) = getActiveTransactionByDataSource ds w"
  by (rule active_cong) (simp_all add: notifyAfterCommit_def updateTx_def pushAfterCommit_def)

lemma nativeOn_moved:
  assumes "nativeOn env ds t tx w" and "als w' = als w" "stores w' = stores w" "registry w' = registry w"
    and "\<And>u. handle (txs w' u) = handle (txs w u) \<and> adapterName (txs w' u) = adapterName (txs w u) \<and>
      adapterInstanceName (txs w' u) = adapterInstanceName (txs w u)"
  shows "nativeOn env ds t tx w'"
proof -
  have "getActiveTransactionByDataSource ds w' = getActiveTransactionByDataSource ds w"
    by (rule active_cong) (use assms in simp_all)
  with assms show ?thesis
    by (auto simp: nativeOn_def nativeTransactionOf_def raise_settles split: sum.splits option.splits)
qed

lemma notify_idem: "notifyAfterCommit t ((notifyAfterCommit t w)\<lparr>db := d\<rparr>) = notifyAfterCommit t (w\<lparr>db := d\<rparr>)"
  by (simp add: notifyAfterCommit_def updateTx_def)

lemma publishEvents_stores:
  assumes lib: "storesIn store lib" and n: "nativeOn env ds t tx w"
    and st: "os_dataSource st = ds" "os_resolve st = nativeTransactionOf env"
  shows "publishEvents lib st es w = Some (Resolve (),
    if es = [] then w
    else notifyAfterCommit t
      (w\<lparr>db := fold (\<lambda>ev. store tx (toMessage (os_externalized st) ev)) es (db w)\<rparr>))"
  using n
proof (induction es arbitrary: w)
  case (Cons ev es)
  let ?w1 = "notifyAfterCommit t (w\<lparr>db := store tx (toMessage (os_externalized st) ev) (db w)\<rparr>)"
  have first: "publishEvent lib st ev w = Some (Resolve (), ?w1)"
    using Cons.prems lib
    by (simp add: publishEvent_def andThen_def requireTransaction_def nativeOn_def st storesIn_def)
  have "nativeOn env ds t tx ?w1"
    by (rule nativeOn_moved[OF Cons.prems])
      (simp_all add: notifyAfterCommit_def updateTx_def pushAfterCommit_def)
  from Cons.IH[OF this] first show ?case
    by (simp add: andThen_def notify_idem) (simp add: notifyAfterCommit_def updateTx_def)
qed simp

lemma schedule_buffered:
  assumes "getActiveTransactionByDataSource (os_dataSource st) w = Some t"
    and "outboxPending w t = Some buffer"
  shows "fold (scheduleForPublication st) evs w =
    w\<lparr>outboxPending := (outboxPending w)(t \<mapsto>
      buffer @ filter (\<lambda>ev. getExternalizedMetadata (os_externalized st) ev \<noteq> None) evs)\<rparr>"
  using assms
proof (induction evs arbitrary: w buffer)
  case (Cons ev evs)
  show ?case
  proof (cases "getExternalizedMetadata (os_externalized st) ev")
    case None
    then show ?thesis using Cons by (simp add: scheduleForPublication_def)
  next
    case (Some m)
    let ?w1 = "w\<lparr>outboxPending := (outboxPending w)(t \<mapsto> buffer @ [ev])\<rparr>"
    have "scheduleForPublication st ev w = ?w1" using Some Cons.prems by (simp add: scheduleForPublication_def)
    moreover have "getActiveTransactionByDataSource (os_dataSource st) ?w1 = Some t"
      using Cons.prems(1) active_cong[of ?w1 w] by simp
    ultimately show ?thesis using Some Cons.IH[of ?w1 "buffer @ [ev]"]
      by (simp cong: if_cong)
  qed
qed (simp add: fun_upd_idem)

lemma schedule_first:
  assumes "getActiveTransactionByDataSource (os_dataSource st) w = Some t" and "outboxPending w t = None"
    and es: "es = filter (\<lambda>ev. getExternalizedMetadata (os_externalized st) ev \<noteq> None) evs"
  shows "fold (scheduleForPublication st) evs w =
    (if es = [] then w
     else updateTx t (pushBeforeCommit (UserHook (AppHook (FlushHook t))))
       (w\<lparr>outboxPending := (outboxPending w)(t \<mapsto> es)\<rparr>))"
  using es
proof (induction evs arbitrary: es)
  case (Cons ev evs)
  show ?case
  proof (cases "getExternalizedMetadata (os_externalized st) ev")
    case None
    then show ?thesis using Cons by (simp add: scheduleForPublication_def)
  next
    case (Some m)
    let ?w1 = "updateTx t (pushBeforeCommit (UserHook (AppHook (FlushHook t))))
       (w\<lparr>outboxPending := (outboxPending w)(t \<mapsto> [ev])\<rparr>)"
    have "scheduleForPublication st ev w = ?w1"
      using Some assms(1,2) by (simp add: scheduleForPublication_def)
    moreover have "getActiveTransactionByDataSource (os_dataSource st) ?w1 = Some t"
      using assms(1) active_cong[of ?w1 w] by (simp add: updateTx_def pushBeforeCommit_def)
    moreover have "outboxPending ?w1 t = Some [ev]" by (simp add: updateTx_def)
    ultimately show ?thesis using Some Cons.prems schedule_buffered[of st ?w1 t "[ev]" evs]
      by (simp add: updateTx_def)
  qed
qed simp

text \<open>
  The \<open>@Externalized\<close> events among those committed in a transaction leave one before-commit
  hook behind, which adds each of them to the outbox exactly once, in order, through that
  transaction's native object, empties the buffer, and asks for one notification after the
  commit; the other events leave no trace.
\<close>

theorem externalized_events_flushed:
  assumes lib: "storesIn store lib" and n: "nativeOn env (os_dataSource st) t tx w"
    and resolve: "os_resolve st = nativeTransactionOf env"
    and empty: "outboxPending w t = None"
    and es: "es = filter (\<lambda>ev. getExternalizedMetadata (os_externalized st) ev \<noteq> None) evs"
    and some: "es \<noteq> []"
  shows "fold (scheduleForPublication st) evs w =
      updateTx t (pushBeforeCommit (UserHook (AppHook (FlushHook t)))) (w\<lparr>outboxPending := (outboxPending w)(t \<mapsto> es)\<rparr>) \<and>
    outboxCallHook lib st own (FlushHook t) arg (fold (scheduleForPublication st) evs w) =
      Some (Resolve Undef,
        notifyAfterCommit t (updateTx t (pushBeforeCommit (UserHook (AppHook (FlushHook t))))
          (w\<lparr>db := fold (\<lambda>ev. store tx (toMessage (os_externalized st) ev)) es (db w)\<rparr>)))"
proof -
  let ?push = "updateTx t (pushBeforeCommit (UserHook (AppHook (FlushHook t))))"
  have active: "getActiveTransactionByDataSource (os_dataSource st) w = Some t"
    using n by (simp add: nativeOn_def)
  have sched: "fold (scheduleForPublication st) evs w =
      ?push (w\<lparr>outboxPending := (outboxPending w)(t \<mapsto> es)\<rparr>)"
    using schedule_first[OF active empty es] some by simp
  have upd: "(outboxPending w)(t := None) = outboxPending w"
    using empty by (simp add: fun_upd_idem)
  have cleared: "(?push (w\<lparr>outboxPending := (outboxPending w)(t \<mapsto> es)\<rparr>))
      \<lparr>outboxPending := (outboxPending (?push (w\<lparr>outboxPending := (outboxPending w)(t \<mapsto> es)\<rparr>)))(t := None)\<rparr> = ?push w"
    by (simp add: updateTx_def upd)
  have "nativeOn env (os_dataSource st) t tx (?push w)"
    by (rule nativeOn_moved[OF n]) (simp_all add: updateTx_def pushBeforeCommit_def)
  from publishEvents_stores[OF lib this refl resolve, of es] some
  have "publishEvents lib st es (?push w) = Some (Resolve (), notifyAfterCommit t
      ((?push w)\<lparr>db := fold (\<lambda>ev. store tx (toMessage (os_externalized st) ev)) es (db w)\<rparr>))"
    by (simp add: updateTx_def)
  then have "flushHook lib st t (?push (w\<lparr>outboxPending := (outboxPending w)(t \<mapsto> es)\<rparr>)) =
      Some (Resolve (), notifyAfterCommit t
        (?push (w\<lparr>db := fold (\<lambda>ev. store tx (toMessage (os_externalized st) ev)) es (db w)\<rparr>)))"
    unfolding flushHook_def cleared
    by (simp add: updateTx_def) (rule arg_cong[of _ _ "notifyAfterCommit t"], simp)
  then show ?thesis
    unfolding sched outboxCallHook.simps by (simp add: andThen_def)
qed

text \<open>A store with a transaction of an adapter that has native transactions.\<close>

type_synonym sample_outbox = "(nat, nat, (jsv \<times> outbox_message) list, unit) obw"

definition logOutbox :: "sample_outbox outbox_lib" where
  "logOutbox =
     \<lparr>outbox_add = (\<lambda>tx msg. modify (\<lambda>w. w\<lparr>db := db w @ [(tx, msg)]\<rparr>)), outbox_notify = ret ()\<rparr>"

definition sampleOutbox :: sample_outbox where
  "sampleOutbox =
     \<lparr>als = Some 4, stores = (\<lambda>_. \<lparr>activeTransactions = [(''typeorm:default'', 5)],
        storeCorrelationId = 3, storeStartedAt = 0\<rparr>),
      txs = (\<lambda>_. newActiveTx \<lparr>h_id = 1, h_adapterName = ''typeorm'', h_native = JObj 2 [''EntityManager''] []\<rparr>
        ''typeorm'' ''default'' no_options 0 3),
      fresh = 6, now = 0,
      registry = register \<lparr>reg_adapterName = ''typeorm'', reg_instanceName = ''default'', reg_adapter = 0\<rparr>
        True newRegistry,
      rolledBack = {}, pending = (\<lambda>_. None), cells = (\<lambda>_. None), db = [],
      listenersByType = [], microtasks = [], scheduled = {}, attached = True, allOf = [],
      outboxPending = (\<lambda>_. None), notifying = {}\<rparr>"

definition sampleOutboxEnv :: "(nat, nat, (jsv \<times> outbox_message) list, unit) obw_env" where
  "sampleOutboxEnv =
     \<lparr>adapterOf = (\<lambda>a. \<lparr>a_name = ''typeorm'', a_dataSourceName = ''default'',
        a_runInTransaction = (\<lambda>opts cb. cb \<lparr>h_id = 1, h_adapterName = ''typeorm'', h_native = Undef\<rparr>),
        a_runInSavepoint = (\<lambda>h cb. cb h), a_nativeTransaction = Some h_native, a_dialect = None,
        a_isRetryableError = None\<rparr>),
      callHook = (\<lambda>h arg. ret Undef), awaitAll = (\<lambda>ps. ret Undef), observers = [], random = (\<lambda>w. 0)\<rparr>"

lemma sampleOutbox_native:
  "nativeOn sampleOutboxEnv ''default'' 5 (JObj 2 [''EntityManager''] []) sampleOutbox"
  by (simp add: nativeOn_def sampleOutbox_def sampleOutboxEnv_def getActiveTransactionByDataSource_def
      getStore_def newActiveTx_def nativeTransactionOf_def registryGet_def register_def newRegistry_def)

lemma externalized_events_flushed_witness:
  "map_option (\<lambda>(r, w). (r, map fst (db w), map (payload \<circ> snd) (db w), outboxPending w 5))
     (outboxCallHook logOutbox (OutboxEventPublisher sampleOutboxEnv None None sampleExternalized)
        (\<lambda>a arg. ret Undef) (FlushHook 5) Undef
        (fold (scheduleForPublication (OutboxEventPublisher sampleOutboxEnv None None sampleExternalized))
           [orderEvent, JObj 3 [''Internal''] [], orderEvent] sampleOutbox)) =
   Some (Resolve Undef, [JObj 2 [''EntityManager''] [], JObj 2 [''EntityManager''] []],
     [orderEvent, orderEvent], None)"
proof -
  let ?st = "OutboxEventPublisher sampleOutboxEnv None None sampleExternalized"
  have "storesIn (\<lambda>tx msg d. d @ [(tx, msg)]) logOutbox" by (simp add: storesIn_def logOutbox_def)
  moreover have "nativeOn sampleOutboxEnv (os_dataSource ?st) 5 (JObj 2 [''EntityManager''] []) sampleOutbox"
    by (simp add: OutboxEventPublisher_def sampleOutbox_native)
  moreover have "os_resolve ?st = nativeTransactionOf sampleOutboxEnv" by (simp add: OutboxEventPublisher_def)
  moreover have "outboxPending sampleOutbox 5 = None" by (simp add: sampleOutbox_def)
  moreover have es: "[orderEvent, orderEvent] =
      filter (\<lambda>ev. getExternalizedMetadata (os_externalized ?st) ev \<noteq> None)
        [orderEvent, JObj 3 [''Internal''] [], orderEvent]"
    by (simp add: OutboxEventPublisher_def sampleExternalized_def orderEvent_def)
  ultimately have "outboxCallHook logOutbox ?st (\<lambda>a arg. ret Undef) (FlushHook 5) Undef
      (fold (scheduleForPublication ?st) [orderEvent, JObj 3 [''Internal''] [], orderEvent] sampleOutbox) =
    Some (Resolve Undef, notifyAfterCommit 5 (updateTx 5 (pushBeforeCommit (UserHook (AppHook (FlushHook 5))))
      (sampleOutbox\<lparr>db := fold (\<lambda>ev d. d @ [(JObj 2 [''EntityManager''] [], toMessage (os_externalized ?st) ev)])
         [orderEvent, orderEvent] (db sampleOutbox)\<rparr>)))"
    using externalized_events_flushed[of "\<lambda>tx msg d. d @ [(tx, msg)]" logOutbox sampleOutboxEnv ?st 5
        "JObj 2 [''EntityManager''] []" sampleOutbox "[orderEvent, orderEvent]"
        "[orderEvent, JObj 3 [''Internal''] [], orderEvent]" "\<lambda>a arg. ret Undef" Undef]
    by blast
  then show ?thesis
    by (simp add: notifyAfterCommit_def updateTx_def sampleOutbox_def toMessage_def Let_def)
qed

end
