(* ===== verification/Workflows.thy ===== *)
theory Workflows
  imports Hooks
begin

text \<open>
  \<open>packages/workflows/src\<close>: the binding that makes the \<open>WorkflowClient\<close> of
  \<open>@nestjs/workflows\<close> join the active transaction.

  The client's methods are a parameter: given the arguments and the options they settle,
  synchronously, to the address of the promise they return. \<open>detached\<close> is the store of the
  binding's own \<open>AsyncLocalStorage\<close>, on the running chain.
\<close>

section \<open>State\<close>

record ('u, 'd) workflow_world = "('u, 'd) manager_world" +
  detached :: bool

type_synonym ('u, 'd, 'z) wfw = "('u, 'd, 'z) workflow_world_scheme"
type_synonym ('u, 'd, 'z) wfw_env = "('u, ('u, 'd, 'z) wfw) environment"

text \<open>The options of a call: the \<open>transaction\<close> property and the others.\<close>

record workflow_options =
  wo_transaction :: jsv
  wo_rest :: "(string \<times> jsv) list"

type_synonym 'w client_method = "jsv list \<Rightarrow> workflow_options option \<Rightarrow> ('w, nat) comp"

record 'w workflow_client =
  wc_start :: "'w client_method"
  wc_signal :: "'w client_method"
  wc_startAndWait :: "'w client_method"
  wc_wrapped :: bool

record 'w workflow_settings =
  ws_dataSource :: string
  ws_resolve :: "nat \<Rightarrow> ('w, jsv) comp"

definition READ_COMMITTED_SIGNAL_DIALECTS :: "string list" where
  "READ_COMMITTED_SIGNAL_DIALECTS = [''postgres'', ''aurora-postgres'']"

fun isolationName :: "isolation_level \<Rightarrow> string" where
  "isolationName READ_UNCOMMITTED = ''READ_UNCOMMITTED''"
| "isolationName READ_COMMITTED = ''READ_COMMITTED''"
| "isolationName REPEATABLE_READ = ''REPEATABLE_READ''"
| "isolationName SERIALIZABLE = ''SERIALIZABLE''"

definition WorkflowIsolationError :: "string \<Rightarrow> isolation_level \<Rightarrow> framework_error" where
  "WorkflowIsolationError dataSource isolation =
     TransactionError ''ILLEGAL_TRANSACTION_STATE''
       [''WorkflowIsolationError'', ''IllegalTransactionStateError'']
       [(''dataSource'', JStr dataSource), (''isolation'', JStr (isolationName isolation))]"

section \<open>Calls\<close>

definition assertSignalIsolation :: "('u, 'd, 'z) wfw_env \<Rightarrow> nat \<Rightarrow> (('u, 'd, 'z) wfw, unit) comp" where
  "assertSignalIsolation env t w =
     (case o_isolation (txOptions (txs w t)) of
        None \<Rightarrow> Some (Resolve (), w)
      | Some isolation \<Rightarrow>
          if isolation = READ_COMMITTED \<or> isolation = READ_UNCOMMITTED then Some (Resolve (), w)
          else
            andThen (dialectOf env t)
              (\<lambda>dialect w1.
                 (case dialect of
                    None \<Rightarrow> Some (Resolve (), w1)
                  | Some d \<Rightarrow>
                      if d \<in> set READ_COMMITTED_SIGNAL_DIALECTS
                      then raise (WorkflowIsolationError (adapterInstanceName (txs w1 t)) isolation) w1
                      else Some (Resolve (), w1))) w)"

datatype call_kind = StartCall | SignalCall

definition givenTransaction :: "workflow_options option \<Rightarrow> jsv" where
  "givenTransaction options = (case options of None \<Rightarrow> Undef | Some o' \<Rightarrow> wo_transaction o')"

definition withTransaction :: "jsv \<Rightarrow> workflow_options option \<Rightarrow> workflow_options option" where
  "withTransaction tx options =
     Some \<lparr>wo_transaction = tx, wo_rest = (case options of None \<Rightarrow> [] | Some o' \<Rightarrow> wo_rest o')\<rparr>"

definition callClient ::
    "('u, 'd, 'z) wfw_env \<Rightarrow> ('u, 'd, 'z) wfw workflow_settings \<Rightarrow> ('u, 'd, 'z) wfw client_method \<Rightarrow>
     call_kind \<Rightarrow> jsv list \<Rightarrow> workflow_options option \<Rightarrow> (('u, 'd, 'z) wfw, nat) comp" where
  "callClient env st method kind args options w =
     (case (if givenTransaction options = Undef \<and> \<not> detached w
            then getActiveTransactionByDataSource (ws_dataSource st) w else None) of
        None \<Rightarrow> method args options w
      | Some t \<Rightarrow>
          andThen (if kind = SignalCall then assertSignalIsolation env t else ret ())
            (\<lambda>_. andThen (ws_resolve st t)
               (\<lambda>tx. andThen (method args (withTransaction tx options))
                  (\<lambda>p. andThen (modify (trackPending t p)) (\<lambda>_. ret p)))) w)"

definition runDetached :: "(('u, 'd, 'z) wfw, 'a) comp \<Rightarrow> (('u, 'd, 'z) wfw, 'a) comp" where
  "runDetached f w =
     (case f (w\<lparr>detached := True\<rparr>) of
        None \<Rightarrow> None
      | Some (r, w1) \<Rightarrow> Some (r, w1\<lparr>detached := detached w\<rparr>))"

text \<open>
  \<open>wrap\<close>. The client's own \<open>startAndWait\<close> goes through its \<open>start\<close>, which is the wrapped one
  afterwards, so it is a function of the method it calls.
\<close>

definition wrapClient ::
    "('u, 'd, 'z) wfw_env \<Rightarrow> ('u, 'd, 'z) wfw workflow_settings \<Rightarrow>
     (('u, 'd, 'z) wfw client_method \<Rightarrow> ('u, 'd, 'z) wfw client_method) \<Rightarrow>
     ('u, 'd, 'z) wfw workflow_client \<Rightarrow> ('u, 'd, 'z) wfw workflow_client" where
  "wrapClient env st startAndWait client =
     (if wc_wrapped client then client
      else
        (let start = callClient env st (wc_start client) StartCall
         in \<lparr>wc_start = start,
             wc_signal = callClient env st (wc_signal client) SignalCall,
             wc_startAndWait = (\<lambda>args options. runDetached (startAndWait start args options)),
             wc_wrapped = True\<rparr>))"

text \<open>The constructor: the defaults of the options, then the wrap.\<close>

definition WorkflowClientBinding ::
    "('u, 'd, 'z) wfw_env \<Rightarrow> string option \<Rightarrow> (nat \<Rightarrow> (('u, 'd, 'z) wfw, jsv) comp) option \<Rightarrow>
     (('u, 'd, 'z) wfw client_method \<Rightarrow> ('u, 'd, 'z) wfw client_method) \<Rightarrow>
     ('u, 'd, 'z) wfw workflow_client \<Rightarrow> ('u, 'd, 'z) wfw workflow_client" where
  "WorkflowClientBinding env dataSource resolver startAndWait =
     wrapClient env
       \<lparr>ws_dataSource = (case dataSource of None \<Rightarrow> ''default'' | Some d \<Rightarrow> d),
        ws_resolve = (case resolver of None \<Rightarrow> nativeTransactionOf env | Some f \<Rightarrow> f)\<rparr>
       startAndWait"

end
