(* ===== verification/Workflow_Properties.thy ===== *)
theory Workflow_Properties
  imports Workflows
begin

text \<open>
  Properties of the workflow client binding: which calls join the active transaction, that
  the write they start lands before the commit, and which signals are refused.
\<close>

text \<open>The transaction a call joins.\<close>

definition joins :: "('u, 'd, 'z) wfw workflow_settings \<Rightarrow> workflow_options option \<Rightarrow> nat \<Rightarrow> ('u, 'd, 'z) wfw \<Rightarrow> bool" where
  "joins st options t w \<longleftrightarrow>
     givenTransaction options = Undef \<and> \<not> detached w \<and>
     getActiveTransactionByDataSource (ws_dataSource st) w = Some t"

lemma joins_target:
  "joins st options t w \<Longrightarrow>
     (if givenTransaction options = Undef \<and> \<not> detached w
      then getActiveTransactionByDataSource (ws_dataSource st) w else None) = Some t"
  by (simp add: joins_def)

section \<open>Tracked promises\<close>

text \<open>
  Promise \<open>p\<close> is among those transaction \<open>t\<close> has still to await; and a transaction with a set
  of pending promises has the hook that drains it.
\<close>

definition tracked :: "nat \<Rightarrow> nat \<Rightarrow> ('u, 'd, 'z) world \<Rightarrow> bool" where
  "tracked p t w \<longleftrightarrow> (\<exists>ps. pending w t = Some ps \<and> p \<in> set ps)"

definition drainRegistered :: "nat \<Rightarrow> ('u, 'd, 'z) world \<Rightarrow> bool" where
  "drainRegistered t w \<longleftrightarrow> (pending w t \<noteq> None \<longrightarrow> DrainHook t \<in> set (beforeCommitHooks (txs w t)))"

text \<open>Code that never takes a promise out of the pending ones: only the drain does.\<close>

definition keepsTracked :: "('u, 'd, 'z) world \<Rightarrow> ('u, 'd, 'z) world \<Rightarrow> bool" where
  "keepsTracked w w' \<longleftrightarrow> (\<forall>p t. tracked p t w \<longrightarrow> tracked p t w')"

definition tracking :: "('u, 'd, 'z) env \<Rightarrow> bool" where
  "tracking env \<longleftrightarrow> (\<forall>u arg. keeps keepsTracked (callHook env u arg)) \<and> (\<forall>ps. keeps keepsTracked (awaitAll env ps))"

lemma trackPending_tracked: "tracked p t (trackPending t p w)"
  by (auto simp: tracked_def trackPending_def setAdd_def updateTx_def split: option.split)

lemma trackPending_drain:
  "drainRegistered t w \<Longrightarrow> DrainHook t \<in> set (beforeCommitHooks (txs (trackPending t p w) t))"
  by (auto simp: drainRegistered_def trackPending_def updateTx_def pushBeforeCommit_def split: option.split)

text \<open>A hook that is not the drain of \<open>t\<close> leaves the promises of \<open>t\<close> to it.\<close>

lemma invoke_tracked:
  assumes "tracking env" and "invoke env h Undef w = Some (r, w')" and "h \<noteq> DrainHook t" and "tracked p t w"
  shows "tracked p t w'"
proof (cases h)
  case (UserHook u)
  have "keepsTracked w w'"
    by (rule keepsD[of _ "callHook env u Undef"]) (use assms UserHook in \<open>simp_all add: tracking_def\<close>)
  then show ?thesis using assms(4) by (simp add: keepsTracked_def)
next
  case (DrainHook t')
  have "keeps (\<lambda>w w'. tracked p t w \<longrightarrow> tracked p t w') (drain env t')"
  proof (rule drain_keeps)
    show "tracked p t w \<longrightarrow> tracked p t (w\<lparr>pending := (pending w)(t' \<mapsto> [])\<rparr>)" for w :: "('a, 'b, 'c) world"
      using assms(3) DrainHook by (auto simp: tracked_def)
    show "keeps (\<lambda>w w'. tracked p t w \<longrightarrow> tracked p t w') (awaitAll env ps)" for ps
      using assms(1) by (auto simp: tracking_def keepsTracked_def keeps_def)
  qed (auto intro: reflpI transpI)
  from keepsD[OF this] assms DrainHook show ?thesis by simp
qed

lemma drain_awaits:
  assumes "lawful_environment env" and "drain env t w = Some (Resolve v, w')" and "tracked p t w"
  shows "\<exists>ps wa u wb. p \<in> set ps \<and> awaitAll env ps wa = Some (Resolve u, wb) \<and> framedAll w wa \<and> framedAll wb w'"
proof -
  obtain ps where ps: "pending w t = Some ps" "p \<in> set ps" using assms(3) by (auto simp: tracked_def)
  then have "ps \<noteq> []" by auto
  with assms(2) ps(1) obtain u wb where
    await: "awaitAll env ps (w\<lparr>pending := (pending w)(t \<mapsto> [])\<rparr>) = Some (Resolve u, wb)"
    and rest: "drain env t wb = Some (Resolve v, w')"
    by (subst (asm) drain.simps) (auto split: option.splits outcome.splits)
  have "framedAll w (w\<lparr>pending := (pending w)(t \<mapsto> [])\<rparr>)" by (simp add: framedAll_def framed_def)
  with ps(2) await keepsD[OF lawful_environment.drain_tame[OF assms(1)] rest] show ?thesis by blast
qed

text \<open>Before-commit hooks that all resolve have awaited every promise that was tracked.\<close>

lemma runBeforeCommit_awaits:
  assumes env: "lawful_environment env" "tracking env"
    and run: "runBeforeCommit env t i w = Some (Resolve (), w')"
    and p: "tracked p t w" and hook: "DrainHook t \<in> set (drop i (beforeCommitHooks (txs w t)))"
    and w: "wf_world w" "t < fresh w"
  shows "\<exists>ps wa u wb. p \<in> set ps \<and> awaitAll env ps wa = Some (Resolve u, wb) \<and> framedAll w wa \<and> framedAll wb w'"
proof -
  define P where "P = (\<lambda>i w x. fst x = Resolve () \<longrightarrow> tracked p t w \<longrightarrow>
      DrainHook t \<in> set (drop i (beforeCommitHooks (txs w t))) \<longrightarrow> wf_world w \<and> t < fresh w \<longrightarrow>
      (\<exists>ps wa u wb. p \<in> set ps \<and> awaitAll env ps wa = Some (Resolve u, wb) \<and> framedAll w wa \<and> framedAll wb (snd x)))"
  have "framedAll w (snd x) \<and> P i w x" if "runBeforeCommit env t i w = Some x" for i w x
    using that
  proof (rule runBeforeCommit_induct, goal_cases)
    case (1 i w)
    then show ?case using reflpD[OF reflp_framedAll, of w] by (simp add: P_def)
  next
    case (2 i w e w1)
    then show ?case using keepsD[OF lawful_environment.invoke_tame[OF env(1)] 2(2)] by (simp add: P_def)
  next
    case (3 i w v w1 x)
    let ?h = "beforeCommitHooks (txs w t) ! i"
    have f: "framedAll w w1" by (rule keepsD[OF lawful_environment.invoke_tame[OF env(1)] 3(2)])
    have "P i w x"
      unfolding P_def
    proof (intro impI)
      assume ok: "fst x = Resolve ()" and p: "tracked p t w"
        and hook: "DrainHook t \<in> set (drop i (beforeCommitHooks (txs w t)))" and w: "wf_world w \<and> t < fresh w"
      show "\<exists>ps wa u wb. p \<in> set ps \<and> awaitAll env ps wa = Some (Resolve u, wb) \<and> framedAll w wa \<and> framedAll wb (snd x)"
      proof (cases "?h = DrainHook t")
        case True
        with 3(2) have "drain env t w = Some (Resolve v, w1)" by simp
        from drain_awaits[OF env(1) this p] 3(3) show ?thesis by (blast intro: framedAll_trans)
      next
        case False
        have w1: "wf_world w1" "t < fresh w1"
          using lawful_environment.invoked_framed[OF env(1) 3(2)] w by auto
        have p1: "tracked p t w1" by (rule invoke_tracked[OF env(2) 3(2) False p])
        have "sameTx (txs w t) (txs w1 t)"
          using framed_tx[OF framedAllD[OF f _ order_refl]] w by blast
        then obtain hs where "beforeCommitHooks (txs w1 t) = beforeCommitHooks (txs w t) @ hs"
          by (auto simp: sameTx_def)
        moreover have "DrainHook t \<in> set (drop (Suc i) (beforeCommitHooks (txs w t)))"
          using hook False 3(1) by (simp add: Cons_nth_drop_Suc[symmetric])
        ultimately have "DrainHook t \<in> set (drop (Suc i) (beforeCommitHooks (txs w1 t)))"
          by simp
        with 3(3) ok p1 w1 f show ?thesis unfolding P_def by (blast intro: framedAll_trans)
      qed
    qed
    with f 3(3) show ?case by (blast intro: framedAll_trans)
  qed
  from this[OF run] p hook w show ?thesis by (simp add: P_def)
qed

section \<open>Joining calls\<close>

text \<open>
  C31. A \<open>start\<close> call that names no transaction, made on the chain of an active transaction \<open>t\<close>,
  passes that transaction's native object to the client; when it returns, its promise is pending
  on \<open>t\<close> and the hook that drains them is among the before-commit hooks of \<open>t\<close>. Whatever runs
  between this call and the end of the transaction's function, if the body then resolves with
  the function's value, so that \<open>t\<close> commits, the promise has been awaited after the function,
  in a batch that resolved: a promise that rejects or never settles lets no such body
  resolve. (A body that settles with an error exempted from rollback runs no hook or stops
  at the one that failed, and commits without this; see C10.) A call that names a transaction,
  runs detached or outside every transaction reaches the client unchanged.
\<close>

theorem workflow_start_joins:
  fixes w :: "('u, 'd, 'z) wfw"
  assumes env: "lawful_environment env" "tracking env"
    and native: "ws_resolve st t w = Some (Resolve tx, w)"
    and client: "keeps (\<lambda>w w'. framedAll w w' \<and> pending w' = pending w) (method args (withTransaction tx options))"
    and w: "wf_world w" "t < fresh w" "drainRegistered t w"
    and joins: "joins st options t w"
    and call: "callClient env st method StartCall args options w = Some (Resolve p, w')"
    and later: "framedAll w' wv" "keepsTracked w' wv"
    and body: "fn w0 = Some (Resolve v, wv)"
      "guardedBody env t opts fn w0 = Some (Resolve (IOk v), w2)"
  shows "(\<exists>w1. method args (withTransaction tx options) w = Some (Resolve p, w1) \<and> w' = trackPending t p w1) \<and>
    tracked p t w' \<and> DrainHook t \<in> set (beforeCommitHooks (txs w' t)) \<and>
    (\<exists>ps wa u wb. p \<in> set ps \<and> awaitAll env ps wa = Some (Resolve u, wb) \<and>
       framedAll wv wa \<and> framedAll wb w2) \<and>
    (\<forall>w. (\<forall>t. \<not> joins st options t w) \<longrightarrow>
       callClient env st method kind args options w = method args options w)"
proof -
  obtain w1 where m: "method args (withTransaction tx options) w = Some (Resolve p, w1)"
    and w': "w' = trackPending t p w1"
    using call native unfolding callClient_def joins_target[OF joins] by (auto simp: andThen_Some)
  have f1: "framed (fresh w) w w1" and same: "pending w1 = pending w"
    using keepsD[OF client m] framedAllD[OF _ w(1) order_refl] by auto
  have "\<exists>hs. beforeCommitHooks (txs w1 t) = beforeCommitHooks (txs w t) @ hs"
    using framed_tx[OF f1 w(2)] by (auto simp: sameTx_def)
  with w(3) same have "drainRegistered t w1" by (auto simp: drainRegistered_def)
  then have hook: "DrainHook t \<in> set (beforeCommitHooks (txs w' t))" by (simp add: w' trackPending_drain)
  have w1: "wf_world w1" "t < fresh w1"
    using wf_world_framed[OF f1 w(1)] framed_fresh[OF f1] w(2) by auto
  have wf': "wf_world w'" "t < fresh w'"
    using w1 by (auto simp: w' trackPending_def updateTx_def wf_world_def split: option.split)
  note fv = framedAllD[OF later(1) wf'(1) order_refl]
  have wv: "wf_world wv" "t < fresh wv" "DrainHook t \<in> set (beforeCommitHooks (txs wv t))"
    using wf_world_framed[OF fv wf'(1)] framed_fresh[OF fv] framed_tx[OF fv wf'(2)] wf'(2) hook
    by (auto simp: sameTx_def)
  have "runBeforeCommit env t 0 wv = Some (Resolve (), w2)"
    using body unfolding guardedBody_def
    by (auto simp: catching_def andThen_def split: option.splits outcome.splits if_splits)
  moreover have "tracked p t w'" by (simp add: w' trackPending_tracked)
  moreover have "callClient env st method kind args options w = method args options w"
    if "\<forall>t. \<not> joins st options t w" for w
  proof -
    have "(if givenTransaction options = Undef \<and> \<not> detached w
        then getActiveTransactionByDataSource (ws_dataSource st) w else None) = None"
      using that by (auto simp: joins_def)
    then show ?thesis by (simp add: callClient_def)
  qed
  ultimately show ?thesis
    using runBeforeCommit_awaits[OF env, of t 0 wv w2 p] later(2) wv hook m w'
    unfolding keepsTracked_def by auto
qed

text \<open>
  A world with a serializable transaction of a PostgreSQL adapter, and a client whose calls
  return the next address as their promise.
\<close>

type_synonym sample_wf = "(nat, nat, unit) wfw"

definition sampleWorkflow :: sample_wf where
  "sampleWorkflow =
     \<lparr>als = Some 4, stores = (\<lambda>_. \<lparr>activeTransactions = [(''typeorm:default'', 5)],
        storeCorrelationId = 3, storeStartedAt = 0\<rparr>),
      txs = (\<lambda>_. newActiveTx \<lparr>h_id = 1, h_adapterName = ''typeorm'', h_native = JObj 2 [''EntityManager''] []\<rparr>
        ''typeorm'' ''default'' (no_options\<lparr>o_isolation := Some SERIALIZABLE\<rparr>) 0 3),
      fresh = 6, now = 0,
      registry = register \<lparr>reg_adapterName = ''typeorm'', reg_instanceName = ''default'', reg_adapter = 0\<rparr>
        True newRegistry,
      rolledBack = {}, pending = (\<lambda>_. None), cells = (\<lambda>_. None), db = 0, detached = False\<rparr>"

definition sampleWfEnv :: "(nat, nat, unit) wfw_env" where
  "sampleWfEnv =
     \<lparr>adapterOf = (\<lambda>a. \<lparr>a_name = ''typeorm'', a_dataSourceName = ''default'',
        a_runInTransaction = (\<lambda>opts cb. cb \<lparr>h_id = 1, h_adapterName = ''typeorm'', h_native = Undef\<rparr>),
        a_runInSavepoint = (\<lambda>h cb. cb h), a_nativeTransaction = Some h_native,
        a_dialect = Some ''postgres'', a_isRetryableError = None\<rparr>),
      callHook = (\<lambda>h arg. ret Undef), awaitAll = (\<lambda>ps. ret Undef), observers = [], random = (\<lambda>w. 0)\<rparr>"

definition sampleStart :: "sample_wf client_method" where
  "sampleStart args options w = Some (Resolve (fresh w), w\<lparr>fresh := Suc (fresh w)\<rparr>)"

definition sampleWfSettings :: "sample_wf workflow_settings" where
  "sampleWfSettings = \<lparr>ws_dataSource = ''default'', ws_resolve = (\<lambda>t. ret (JObj 2 [''EntityManager''] []))\<rparr>"

lemma sampleWf_joins: "joins sampleWfSettings None 5 sampleWorkflow"
  by (simp add: joins_def givenTransaction_def sampleWorkflow_def sampleWfSettings_def
      getActiveTransactionByDataSource_def getStore_def newActiveTx_def)

text \<open>A transaction body that starts a workflow and returns.\<close>

definition startingBody :: "(sample_wf, jsv) comp" where
  "startingBody = andThen (callClient sampleWfEnv sampleWfSettings sampleStart StartCall [] None) (\<lambda>p. ret Null)"

lemma sampleWfEnv_tracking: "tracking sampleWfEnv"
  by (simp add: tracking_def sampleWfEnv_def keeps_def keepsTracked_def)

lemma sampleWfEnv_lawful: "lawful_environment sampleWfEnv"
  unfolding lawful_environment_def lawful_adapter_def sampleWfEnv_def
  by (auto simp: keeps_ret intro: wrapsI[OF quiet_refl _ quiet_refl])

lemma workflow_start_joins_witness:
  "\<exists>w' w2 ps wa u wb. callClient sampleWfEnv sampleWfSettings sampleStart StartCall [] None sampleWorkflow =
       Some (Resolve 6, w') \<and>
     DrainHook 5 \<in> set (beforeCommitHooks (txs w' 5)) \<and>
     guardedBody sampleWfEnv 5 no_options startingBody sampleWorkflow = Some (Resolve (IOk Null), w2) \<and>
     6 \<in> set ps \<and> awaitAll sampleWfEnv ps wa = Some (Resolve u, wb)"
proof -
  let ?w' = "trackPending 5 6 (sampleWorkflow\<lparr>fresh := 7\<rparr>)"
  have c: "callClient sampleWfEnv sampleWfSettings sampleStart StartCall [] None sampleWorkflow = Some (Resolve 6, ?w')"
    unfolding callClient_def joins_target[OF sampleWf_joins]
    by (simp add: andThen_def sampleWfSettings_def sampleStart_def sampleWorkflow_def)
  have native: "ws_resolve sampleWfSettings 5 sampleWorkflow = Some (Resolve (JObj 2 [''EntityManager''] []), sampleWorkflow)"
    by (simp add: sampleWfSettings_def)
  have client: "keeps (\<lambda>w w'. framedAll w w' \<and> pending w' = pending w)
      (sampleStart [] (withTransaction (JObj 2 [''EntityManager''] []) None))"
    by (rule keepsI) (auto simp: sampleStart_def intro: quiet_framedAll quiet_alloc)
  have w: "wf_world sampleWorkflow" "5 < fresh sampleWorkflow" "drainRegistered 5 sampleWorkflow"
    by (simp_all add: sampleWorkflow_def wf_world_def drainRegistered_def)
  have later: "framedAll ?w' ?w'" "keepsTracked ?w' ?w'"
    by (simp_all add: reflpD[OF reflp_framedAll] keepsTracked_def)
  have fn: "startingBody sampleWorkflow = Some (Resolve Null, ?w')"
    by (simp add: startingBody_def andThen_def c)
  have "map_option fst (guardedBody sampleWfEnv 5 no_options startingBody sampleWorkflow) = Some (Resolve (IOk Null))"
    by code_simp
  then obtain w2 where "guardedBody sampleWfEnv 5 no_options startingBody sampleWorkflow = Some (Resolve (IOk Null), w2)"
    by auto
  with workflow_start_joins[where fn = startingBody and ?w0.0 = sampleWorkflow,
      OF sampleWfEnv_lawful sampleWfEnv_tracking native client w sampleWf_joins c later fn] c
  show ?thesis by blast
qed

text \<open>
  A signal that would join a transaction is refused exactly when that transaction asked
  for an isolation stricter than READ COMMITTED on a PostgreSQL dialect, with a
  WorkflowIsolationError and before the client is called; otherwise it is a call like
  \<open>start\<close>.
\<close>

theorem signal_isolation_checked:
  assumes j: "joins st options t w"
    and dialect: "dialectOf env t w = Some (Resolve d, w)"
  shows "callClient env st method SignalCall args options w =
    (case o_isolation (txOptions (txs w t)) of
       Some isolation \<Rightarrow>
         if isolation \<in> {REPEATABLE_READ, SERIALIZABLE} \<and> d \<in> {Some ''postgres'', Some ''aurora-postgres''}
         then raise (WorkflowIsolationError (adapterInstanceName (txs w t)) isolation) w
         else callClient env st method StartCall args options w
     | None \<Rightarrow> callClient env st method StartCall args options w)"
proof -
  have check: "assertSignalIsolation env t w =
    (case o_isolation (txOptions (txs w t)) of
       Some isolation \<Rightarrow>
         if isolation \<in> {REPEATABLE_READ, SERIALIZABLE} \<and> d \<in> {Some ''postgres'', Some ''aurora-postgres''}
         then raise (WorkflowIsolationError (adapterInstanceName (txs w t)) isolation) w
         else Some (Resolve (), w)
     | None \<Rightarrow> Some (Resolve (), w))"
    using dialect isolation_level.exhaust
    by (auto simp: assertSignalIsolation_def andThen_def READ_COMMITTED_SIGNAL_DIALECTS_def
        split: option.split isolation_level.split)
  show ?thesis
    unfolding callClient_def joins_target[OF j] option.case
    by (cases "WorkflowIsolationError (adapterInstanceName (txs w t)) (the (o_isolation (txOptions (txs w t))))")
      (auto simp: andThen_def check split: option.split)
qed

lemma signal_isolation_checked_witness:
  "callClient sampleWfEnv sampleWfSettings sampleStart SignalCall [] None sampleWorkflow =
     raise (WorkflowIsolationError ''default'' SERIALIZABLE) sampleWorkflow"
proof -
  have "dialectOf sampleWfEnv 5 sampleWorkflow = Some (Resolve (Some ''postgres''), sampleWorkflow)"
    by (simp add: dialectOf_def sampleWorkflow_def sampleWfEnv_def registryGet_def register_def
        newRegistry_def newActiveTx_def)
  from signal_isolation_checked[OF sampleWf_joins this, of sampleStart "[]"] show ?thesis
    by (simp add: sampleWorkflow_def newActiveTx_def no_options_def)
qed

end
