(* ===== verification/Core_Module.thy ===== *)
theory Core_Module
  imports Adapter_Registry
begin

text \<open>
  \<open>packages/core/src/tokens\<close> and \<open>module/transactional.module.ts\<close>: the names of injection
  tokens, and what every \<open>forRoot\<close> and \<open>forRootAsync\<close> call hands to the container, with the
  static storage the calls share.

  A dynamic module is data: the providers, with their factories named by constructors, and
  the exported tokens. The functions below the section \<open>Factories\<close> are what those
  factories compute when the container calls them. A call that throws keeps what it has
  already stored, so a call answers with an error or a module, and the storage after it.
\<close>

section \<open>Tokens\<close>

definition dataSourceArgument :: "string option \<Rightarrow> string" where
  "dataSourceArgument d = (case d of None \<Rightarrow> DEFAULT_DATA_SOURCE_NAME | Some ds \<Rightarrow> ds)"

definition getTransactionManagerToken :: "string option \<Rightarrow> string" where
  "getTransactionManagerToken d = dataSourceArgument d @ ''TransactionManager''"

definition getTransactionContextToken :: "string option \<Rightarrow> string" where
  "getTransactionContextToken d = dataSourceArgument d @ ''TransactionContext''"

definition getTransactionalAdapterToken :: "string option \<Rightarrow> string" where
  "getTransactionalAdapterToken d = dataSourceArgument d @ ''TransactionalAdapter''"

definition getTransactionContextRegistryToken :: string where
  "getTransactionContextRegistryToken = ''TransactionContextRegistry''"

section \<open>Dynamic modules\<close>

text \<open>A token is a string, a symbol (a description and what tells symbols with it apart) or a class.\<close>

datatype di_token = NamedToken string | SymbolToken string nat | ClassToken string

datatype ('v, 'f) nest_provider =
    UseValue di_token 'v
  | UseFactory di_token 'f "di_token list"
  | UseExisting di_token di_token
  | UseClass di_token string
  | ClassProvider string

text \<open>
  \<open>packages/core/src/decorators/inject-decorators.ts\<close>. \<open>Inject\<close> asks the container for a token, and a
  parameter decorator is the token it asks for.
\<close>

definition InjectTransactionManager :: "string option \<Rightarrow> di_token" where
  "InjectTransactionManager dataSource =
     NamedToken (getTransactionManagerToken (Some (dataSourceArgument dataSource)))"

definition InjectTransactionContext :: "string option \<Rightarrow> di_token" where
  "InjectTransactionContext dataSource =
     NamedToken (getTransactionContextToken (Some (dataSourceArgument dataSource)))"

definition InjectTransactionalAdapter :: "string option \<Rightarrow> di_token" where
  "InjectTransactionalAdapter dataSource =
     NamedToken (getTransactionalAdapterToken (Some (dataSourceArgument dataSource)))"

fun provides :: "('v, 'f) nest_provider \<Rightarrow> di_token" where
  "provides (UseValue t v) = t"
| "provides (UseFactory t f ds) = t"
| "provides (UseExisting t u) = t"
| "provides (UseClass t c) = t"
| "provides (ClassProvider c) = ClassToken c"

record ('v, 'f) dynamic_module =
  dm_module :: string
  dm_global :: bool
  dm_imports :: "string list"
  dm_providers :: "('v, 'f) nest_provider list"
  dm_exports :: "di_token list"

definition ADAPTER_REGISTRY :: di_token where
  "ADAPTER_REGISTRY = SymbolToken ''ADAPTER_REGISTRY'' 0"

definition TRANSACTION_OBSERVERS :: di_token where
  "TRANSACTION_OBSERVERS = SymbolToken ''TRANSACTION_OBSERVERS'' 0"

definition APP_INTERCEPTOR :: di_token where
  "APP_INTERCEPTOR = NamedToken ''APP_INTERCEPTOR''"

section \<open>Static storage and options\<close>

record module_storage =
  registrations :: "(string \<times> adapter_registration) list"
  infrastructureRegistered :: bool
  asyncCounter :: nat

definition newStorage :: module_storage where
  "newStorage = \<lparr>registrations = [], infrastructureRegistered = False, asyncCounter = 0\<rparr>"

definition resetModuleForTesting :: "module_storage \<Rightarrow> module_storage" where
  "resetModuleForTesting s = s\<lparr>registrations := [], infrastructureRegistered := False, asyncCounter := 0\<rparr>"

text \<open>An adapter object: its address, and the two names it exposes.\<close>

record given_adapter =
  ga_name :: string
  ga_dataSourceName :: string
  ga_address :: nat

record module_options =
  mo_adapter :: "given_adapter option"
  mo_isGlobal :: "bool option"
  mo_registerInterceptor :: "bool option"
  mo_registerMethodsBootstrap :: "bool option"
  mo_observers :: "nat list option"

record module_async_options =
  mao_isGlobal :: "bool option"
  mao_registerInterceptor :: "bool option"
  mao_registerMethodsBootstrap :: "bool option"
  mao_imports :: "string list option"
  mao_useFactory :: nat
  mao_inject :: "di_token list option"

record module_factory_result =
  mfr_adapter :: "given_adapter option"
  mfr_observers :: "nat list option"

datatype core_value = AdapterValue nat | ContextView string | ObserversValue "nat list"

datatype core_factory =
    RegistryFromStaticStorage
  | NewAdapterRegistry
  | AsyncFactory nat
  | EagerRegistration
  | ResultObservers

type_synonym core_provider = "(core_value, core_factory) nest_provider"
type_synonym core_dynamic_module = "(core_value, core_factory) dynamic_module"

section \<open>Factories\<close>

definition registrationOf :: "given_adapter \<Rightarrow> adapter_registration" where
  "registrationOf a =
     \<lparr>reg_adapterName = ga_name a, reg_instanceName = ga_dataSourceName a, reg_adapter = ga_address a\<rparr>"

definition buildRegistryFromStaticStorage :: "module_storage \<Rightarrow> adapter_registry" where
  "buildRegistryFromStaticStorage s =
     fold (\<lambda>r. register r False) (map snd (registrations s)) newRegistry"

definition eagerRegistration :: "module_factory_result \<Rightarrow> adapter_registry \<Rightarrow> adapter_registry" where
  "eagerRegistration opts reg =
     (case mfr_adapter opts of None \<Rightarrow> reg | Some a \<Rightarrow> register (registrationOf a) False reg)"

definition resultObservers :: "module_factory_result \<Rightarrow> nat list" where
  "resultObservers opts = (case mfr_observers opts of None \<Rightarrow> [] | Some os \<Rightarrow> os)"

section \<open>Calls\<close>

definition buildPerDataSourceProviders :: "given_adapter \<Rightarrow> core_provider list" where
  "buildPerDataSourceProviders a =
     (let ds = Some (ga_dataSourceName a)
      in [UseValue (NamedToken (getTransactionalAdapterToken ds)) (AdapterValue (ga_address a)),
          UseValue (NamedToken (getTransactionContextToken ds)) (ContextView (ga_dataSourceName a)),
          UseExisting (NamedToken (getTransactionManagerToken ds)) (ClassToken ''TransactionManager'')])"

definition buildPerDataSourceExports :: "string \<Rightarrow> di_token list" where
  "buildPerDataSourceExports ds =
     [NamedToken (getTransactionalAdapterToken (Some ds)),
      NamedToken (getTransactionContextToken (Some ds)),
      NamedToken (getTransactionManagerToken (Some ds))]"

definition infrastructureExports :: "di_token list" where
  "infrastructureExports = [ClassToken ''TransactionManager'', ADAPTER_REGISTRY, ClassToken ''AdapterRegistry'']"

text \<open>The interceptor and the methods bootstrap, unless the option is \<open>false\<close>.\<close>

definition wrappingProviders :: "bool option \<Rightarrow> bool option \<Rightarrow> core_provider list" where
  "wrappingProviders registerInterceptor registerMethodsBootstrap =
     (if registerInterceptor \<noteq> Some False
      then [UseClass APP_INTERCEPTOR ''TransactionalInterceptor''] else []) @
     (if registerMethodsBootstrap \<noteq> Some False
      then [ClassProvider ''TransactionalMethodsBootstrap''] else [])"

definition firstCallProviders :: "module_options \<Rightarrow> core_provider list" where
  "firstCallProviders options =
     [UseFactory ADAPTER_REGISTRY RegistryFromStaticStorage [],
      UseExisting (ClassToken ''AdapterRegistry'') ADAPTER_REGISTRY,
      ClassProvider ''TransactionManager''] @
     (case mo_observers options of
        None \<Rightarrow> [] | Some os \<Rightarrow> [UseValue TRANSACTION_OBSERVERS (ObserversValue os)]) @
     wrappingProviders (mo_registerInterceptor options) (mo_registerMethodsBootstrap options)"

text \<open>The checks of \<open>forRoot\<close>, in order; a new dataSource is stored before the second one.\<close>

definition checkForRoot :: "module_options \<Rightarrow> module_storage \<Rightarrow> framework_error option \<times> module_storage" where
  "checkForRoot options s =
     (let isFirst = \<not> infrastructureRegistered s;
          stored =
            (case mo_adapter options of
               Some a \<Rightarrow>
                 if map_of (registrations s) (ga_dataSourceName a) \<noteq> None then (Some PlainError, s)
                 else (None, s\<lparr>registrations :=
                        AList.update (ga_dataSourceName a) (registrationOf a) (registrations s)\<rparr>)
             | None \<Rightarrow> if \<not> isFirst then (Some PlainError, s) else (None, s))
      in (case stored of
            (Some e, s1) \<Rightarrow> (Some e, s1)
          | (None, s1) \<Rightarrow>
              if \<not> isFirst \<and> mo_observers options \<noteq> None then (Some PlainError, s1) else (None, s1)))"

definition forRoot ::
    "module_options \<Rightarrow> module_storage \<Rightarrow> (framework_error + core_dynamic_module) \<times> module_storage" where
  "forRoot options s =
     (case checkForRoot options s of
        (Some e, s1) \<Rightarrow> (Inl e, s1)
      | (None, s1) \<Rightarrow>
          (let isFirst = \<not> infrastructureRegistered s;
               perDataSource = (case mo_adapter options of None \<Rightarrow> [] | Some a \<Rightarrow> buildPerDataSourceProviders a);
               dsExports = (case mo_adapter options of
                  None \<Rightarrow> [] | Some a \<Rightarrow> buildPerDataSourceExports (ga_dataSourceName a))
           in (Inr \<lparr>dm_module = ''TransactionalModule'',
                    dm_global = (case mo_isGlobal options of None \<Rightarrow> True | Some g \<Rightarrow> g),
                    dm_imports = [''DiscoveryModule''],
                    dm_providers = perDataSource @ (if isFirst then firstCallProviders options else []),
                    dm_exports = dsExports @ (if isFirst then infrastructureExports else [])\<rparr>,
               if isFirst then s1\<lparr>infrastructureRegistered := True\<rparr> else s1)))"

definition firstAsyncProviders :: "di_token \<Rightarrow> module_async_options \<Rightarrow> core_provider list" where
  "firstAsyncProviders asyncToken options =
     [UseFactory ADAPTER_REGISTRY NewAdapterRegistry [],
      UseExisting (ClassToken ''AdapterRegistry'') ADAPTER_REGISTRY,
      ClassProvider ''TransactionManager'',
      UseFactory TRANSACTION_OBSERVERS ResultObservers [asyncToken]] @
     wrappingProviders (mao_registerInterceptor options) (mao_registerMethodsBootstrap options)"

definition forRootAsync ::
    "module_async_options \<Rightarrow> module_storage \<Rightarrow> core_dynamic_module \<times> module_storage" where
  "forRootAsync options s =
     (let isFirst = \<not> infrastructureRegistered s;
          i = asyncCounter s;
          asyncToken = SymbolToken ''TRANSACTIONAL_ASYNC_OPTIONS'' i;
          registrationToken = SymbolToken ''TRANSACTIONAL_ASYNC_REGISTRATION'' i
      in (\<lparr>dm_module = ''TransactionalModule'',
           dm_global = (case mao_isGlobal options of None \<Rightarrow> True | Some g \<Rightarrow> g),
           dm_imports = ''DiscoveryModule'' # (case mao_imports options of None \<Rightarrow> [] | Some ms \<Rightarrow> ms),
           dm_providers =
             [UseFactory asyncToken (AsyncFactory (mao_useFactory options))
                (case mao_inject options of None \<Rightarrow> [] | Some ts \<Rightarrow> ts),
              UseFactory registrationToken EagerRegistration [asyncToken, ADAPTER_REGISTRY]] @
             (if isFirst then firstAsyncProviders asyncToken options else []),
           dm_exports = (if isFirst then infrastructureExports else [])\<rparr>,
          s\<lparr>asyncCounter := Suc i, infrastructureRegistered := True\<rparr>))"

end
