(* ===== verification/Library_Modules.thy ===== *)
theory Library_Modules
  imports Core_Module Typeorm_Patches Drizzle Cqrs_Handlers Outbox Workflows
begin

text \<open>
  The modules of the other packages: \<open>TransactionalTypeOrmModule\<close>,
  \<open>TransactionalDrizzleModule\<close>, \<open>TransactionalCqrsModule\<close>, \<open>TransactionalOutboxModule\<close> and
  \<open>TransactionalWorkflowsModule\<close>. As in \<open>Core_Module\<close> a dynamic module is data, and what its
  factories and \<open>onModuleInit\<close> hooks do is the function after it. The token
  \<open>@nestjs/typeorm\<close> gives a DataSource, and what \<open>ModuleRef\<close> finds under a token, are
  parameters.
\<close>

section \<open>TypeORM\<close>

record typeorm_module_options =
  tmo_dataSource :: "string option"
  tmo_isDefault :: "bool option"

datatype typeorm_factory = RegisterDataSource string bool | TypeormAsyncFactory nat

type_synonym typeorm_dynamic_module = "(unit, typeorm_factory) dynamic_module"

definition typeormForRoot ::
    "(string \<Rightarrow> di_token) \<Rightarrow> typeorm_module_options \<Rightarrow> typeorm_dynamic_module" where
  "typeormForRoot getDataSourceToken options =
     (let dataSourceName = dataSourceArgument (tmo_dataSource options);
          adapterToken = NamedToken (getTransactionalAdapterToken (Some dataSourceName))
      in \<lparr>dm_module = ''TransactionalTypeOrmModule'', dm_global = False, dm_imports = [],
          dm_providers =
            [UseFactory adapterToken
               (RegisterDataSource dataSourceName (orElse (tmo_isDefault options) False))
               [getDataSourceToken dataSourceName, ADAPTER_REGISTRY]],
          dm_exports = [adapterToken]\<rparr>)"

text \<open>The registration class one asynchronous call makes, named after the call's number.\<close>

fun decimal :: "nat \<Rightarrow> string" where
  "decimal n =
     (if n < 10 then [char_of (48 + n)] else decimal (n div 10) @ [char_of (48 + n mod 10)])"

declare decimal.simps [simp del]

definition typeormRegistrationClass :: "nat \<Rightarrow> string" where
  "typeormRegistrationClass i = ''TransactionalTypeOrmAsyncRegistration_'' @ decimal i"

text \<open>\<open>forRootAsync\<close>, on the counter of the class.\<close>

definition typeormForRootAsync ::
    "string list option \<Rightarrow> nat \<Rightarrow> di_token list option \<Rightarrow> nat \<Rightarrow> typeorm_dynamic_module \<times> nat" where
  "typeormForRootAsync imports useFactory inject i =
     (\<lparr>dm_module = ''TransactionalTypeOrmModule'', dm_global = False,
       dm_imports = orElse imports [],
       dm_providers =
         [UseFactory (SymbolToken ''TRANSACTIONAL_TYPEORM_ASYNC_OPTIONS'' i) (TypeormAsyncFactory useFactory)
            (orElse inject []),
          ClassProvider (typeormRegistrationClass i)],
       dm_exports = [ClassToken (typeormRegistrationClass i)]\<rparr>, Suc i)"

text \<open>
  \<open>onModuleInit\<close> of that class, with the options the factory resolved to; \<open>find\<close> is
  \<open>moduleRef.get\<close>, \<open>a\<close> the address of the adapter created.
\<close>

definition typeormOnModuleInit ::
    "(string \<Rightarrow> di_token) \<Rightarrow> (di_token \<Rightarrow> nat) \<Rightarrow> typeorm_module_options \<Rightarrow> nat \<Rightarrow>
     ('u, 'd, 'z) orm \<Rightarrow> ('u, 'd, 'z) orm" where
  "typeormOnModuleInit getDataSourceToken lookup resolved a =
     (let dataSourceName = dataSourceArgument (tmo_dataSource resolved)
      in registerManagedDataSource (lookup (getDataSourceToken dataSourceName)) dataSourceName
           (orElse (tmo_isDefault resolved) False) a)"

text \<open>The factory of the synchronous call, given the DataSource the container injects.\<close>

definition runTypeormFactory ::
    "typeorm_factory \<Rightarrow> nat \<Rightarrow> nat \<Rightarrow> ('u, 'd, 'z) orm \<Rightarrow> ('u, 'd, 'z) orm" where
  "runTypeormFactory f ds a w =
     (case f of
        RegisterDataSource name isDefault \<Rightarrow> registerManagedDataSource ds name isDefault a w
      | TypeormAsyncFactory g \<Rightarrow> w)"

definition typeormResetForTesting :: "('u, 'd, 'z) orm \<times> nat \<Rightarrow> ('u, 'd, 'z) orm \<times> nat" where
  "typeormResetForTesting s = (resetPatchingForTesting (fst s), 0)"

section \<open>Drizzle\<close>

record drizzle_module_options =
  dmo_db :: di_token
  dmo_dataSource :: "string option"
  dmo_isDefault :: "bool option"

datatype drizzle_factory = RegisterDatabase string bool | DrizzleAsyncFactory nat

type_synonym drizzle_dynamic_module = "(unit, drizzle_factory) dynamic_module"

definition drizzleForRoot :: "drizzle_module_options \<Rightarrow> drizzle_dynamic_module" where
  "drizzleForRoot options =
     (let dataSourceName = dataSourceArgument (dmo_dataSource options);
          adapterToken = NamedToken (getTransactionalAdapterToken (Some dataSourceName))
      in \<lparr>dm_module = ''TransactionalDrizzleModule'', dm_global = False, dm_imports = [],
          dm_providers =
            [UseFactory adapterToken
               (RegisterDatabase dataSourceName (orElse (dmo_isDefault options) False))
               [dmo_db options, ADAPTER_REGISTRY]],
          dm_exports = [adapterToken]\<rparr>)"

definition drizzleRegistrationClass :: "nat \<Rightarrow> string" where
  "drizzleRegistrationClass i = ''TransactionalDrizzleAsyncRegistration_'' @ decimal i"

definition drizzleForRootAsync ::
    "string list option \<Rightarrow> nat \<Rightarrow> di_token list option \<Rightarrow> nat \<Rightarrow> drizzle_dynamic_module \<times> nat" where
  "drizzleForRootAsync imports useFactory inject i =
     (\<lparr>dm_module = ''TransactionalDrizzleModule'', dm_global = False,
       dm_imports = orElse imports [],
       dm_providers =
         [UseFactory (SymbolToken ''TRANSACTIONAL_DRIZZLE_ASYNC_OPTIONS'' i) (DrizzleAsyncFactory useFactory)
            (orElse inject []),
          ClassProvider (drizzleRegistrationClass i)],
       dm_exports = [ClassToken (drizzleRegistrationClass i)]\<rparr>, Suc i)"

definition drizzleOnModuleInit ::
    "('u, 'd, 'z) dzw drizzle_lib \<Rightarrow> (di_token \<Rightarrow> nat) \<Rightarrow> drizzle_module_options \<Rightarrow> nat \<Rightarrow>
     (('u, 'd, 'z) dzw, nat) comp" where
  "drizzleOnModuleInit lib lookup resolved a =
     registerManagedDatabase lib (lookup (dmo_db resolved)) (dataSourceArgument (dmo_dataSource resolved))
       (orElse (dmo_isDefault resolved) False) a"

definition runDrizzleFactory ::
    "('u, 'd, 'z) dzw drizzle_lib \<Rightarrow> drizzle_factory \<Rightarrow> nat \<Rightarrow> nat \<Rightarrow> (('u, 'd, 'z) dzw, nat) comp" where
  "runDrizzleFactory lib f base a =
     (case f of
        RegisterDatabase name isDefault \<Rightarrow> registerManagedDatabase lib base name isDefault a
      | DrizzleAsyncFactory g \<Rightarrow> ret a)"

definition drizzleResetForTesting :: "('u, 'd, 'z) dzw \<times> nat \<Rightarrow> ('u, 'd, 'z) dzw \<times> nat" where
  "drizzleResetForTesting s = (resetDrizzlePatchingForTesting (fst s), 0)"

section \<open>CQRS\<close>

text \<open>
  The event publisher an application passes is an address; the publisher of the module is
  built around it. Options are resolved at once, or by the asynchronous factory. The imports
  are named; the options handed on to \<open>CqrsModule\<close> are left out.
\<close>

datatype cqrs_value = CqrsOptions cqrs_options | PublisherAround "nat option"

datatype cqrs_factory = ResolveOptionsOf nat

type_synonym cqrs_dynamic_module = "(cqrs_value, cqrs_factory) dynamic_module"

definition TRANSACTIONAL_CQRS_OPTIONS :: di_token where
  "TRANSACTIONAL_CQRS_OPTIONS = NamedToken ''TRANSACTIONAL_CQRS_OPTIONS''"

definition CQRS_HANDLER_WRAPPER_OPTIONS :: di_token where
  "CQRS_HANDLER_WRAPPER_OPTIONS = SymbolToken ''CQRS_HANDLER_WRAPPER_OPTIONS'' 0"

definition buildModule ::
    "(cqrs_value, cqrs_factory) nest_provider \<Rightarrow> nat option \<Rightarrow> string list option \<Rightarrow> cqrs_dynamic_module" where
  "buildModule optionsProvider eventPublisher imports =
     \<lparr>dm_module = ''TransactionalCqrsModule'', dm_global = False,
      dm_imports = [''DiscoveryModule'', ''CqrsModule''] @ orElse imports [],
      dm_providers =
        [optionsProvider,
         UseExisting CQRS_HANDLER_WRAPPER_OPTIONS TRANSACTIONAL_CQRS_OPTIONS,
         UseValue (ClassToken ''TransactionalEventBusPublisher'') (PublisherAround eventPublisher),
         ClassProvider ''TransactionalEventDispatcher'',
         ClassProvider ''TransactionalListenerScanner'',
         ClassProvider ''IntegrationEventsHandlerScanner'',
         ClassProvider ''CqrsHandlerWrapper'',
         ClassProvider ''TransactionalCqrsBootstrap'',
         ClassProvider ''CqrsEventBusBinding''],
      dm_exports = [ClassToken ''TransactionalEventDispatcher'', ClassToken ''TransactionalEventBusPublisher'']\<rparr>"

definition cqrsForRoot :: "cqrs_options \<Rightarrow> nat option \<Rightarrow> cqrs_dynamic_module" where
  "cqrsForRoot options eventPublisher =
     buildModule (UseValue TRANSACTIONAL_CQRS_OPTIONS (CqrsOptions (resolveOptions options))) eventPublisher None"

definition cqrsForRootAsync ::
    "nat \<Rightarrow> di_token list option \<Rightarrow> nat option \<Rightarrow> string list option \<Rightarrow> cqrs_dynamic_module" where
  "cqrsForRootAsync useFactory inject eventPublisher imports =
     buildModule (UseFactory TRANSACTIONAL_CQRS_OPTIONS (ResolveOptionsOf useFactory) (orElse inject []))
       eventPublisher imports"

text \<open>What the asynchronous factory resolves to, given what the application's factory did.\<close>

definition runCqrsFactory :: "(nat \<Rightarrow> ('w, cqrs_options) comp) \<Rightarrow> cqrs_factory \<Rightarrow> ('w, cqrs_options) comp" where
  "runCqrsFactory app f =
     (case f of ResolveOptionsOf g \<Rightarrow> andThen (app g) (\<lambda>options. ret (resolveOptions options)))"

text \<open>\<open>TransactionalCqrsBootstrap.onApplicationBootstrap\<close>.\<close>

definition cqrsBootstrap ::
    "('z) handler_options_scheme \<Rightarrow> reflect_data \<Rightarrow> provider list \<Rightarrow> method_heap \<Rightarrow> method_heap" where
  "cqrsBootstrap options R providers H = wrapAll options R providers H"

section \<open>Outbox and workflows\<close>

text \<open>
  The options of these two are injected as they are. \<open>Symbol.for\<close> gives every package the
  same symbol for the description.
\<close>

definition OUTBOX_PUBLICATION_SCHEDULER :: di_token where
  "OUTBOX_PUBLICATION_SCHEDULER =
     SymbolToken ''@nestjs-transactional/cqrs/outbox-publication-scheduler'' 0"

definition outboxForRoot :: "'o \<Rightarrow> ('o, unit) dynamic_module" where
  "outboxForRoot options =
     \<lparr>dm_module = ''TransactionalOutboxModule'', dm_global = True, dm_imports = [],
      dm_providers =
        [UseValue (SymbolToken ''TRANSACTIONAL_OUTBOX_OPTIONS'' 0) options,
         ClassProvider ''OutboxEventPublisher'',
         UseExisting OUTBOX_PUBLICATION_SCHEDULER (ClassToken ''OutboxEventPublisher'')],
      dm_exports = [ClassToken ''OutboxEventPublisher'', OUTBOX_PUBLICATION_SCHEDULER]\<rparr>"

definition workflowsForRoot :: "'o \<Rightarrow> ('o, unit) dynamic_module" where
  "workflowsForRoot options =
     \<lparr>dm_module = ''TransactionalWorkflowsModule'', dm_global = True, dm_imports = [],
      dm_providers =
        [UseValue (SymbolToken ''TRANSACTIONAL_WORKFLOWS_OPTIONS'' 0) options,
         ClassProvider ''WorkflowClientBinding''],
      dm_exports = [ClassToken ''WorkflowClientBinding'']\<rparr>"

end
