(* ===== verification/Module_Properties.thy ===== *)
theory Module_Properties
  imports Core_Module Registry_Properties
begin

text \<open>
  Properties of the module's calls: what a sequence of \<open>forRoot\<close> and \<open>forRootAsync\<close> calls
  hands to the container, and the registry the container builds from it.
\<close>

section \<open>Sequences of calls\<close>

datatype module_call = SyncCall module_options | AsyncCall module_async_options

text \<open>A call answers with an error or a module.\<close>

fun moduleCall ::
    "module_call \<Rightarrow> module_storage \<Rightarrow> (framework_error + core_dynamic_module) \<times> module_storage" where
  "moduleCall (SyncCall options) s = forRoot options s"
| "moduleCall (AsyncCall options) s = (case forRootAsync options s of (m, s') \<Rightarrow> (Inr m, s'))"

text \<open>The modules a sequence of calls returns; a call that throws does not end it.\<close>

primrec returned :: "module_call list \<Rightarrow> module_storage \<Rightarrow> core_dynamic_module list" where
  "returned [] s = []"
| "returned (c # cs) s =
     (case moduleCall c s of
        (Inl e, s1) \<Rightarrow> returned cs s1
      | (Inr m, s1) \<Rightarrow> m # returned cs s1)"

abbreviation tokensOf :: "core_dynamic_module \<Rightarrow> di_token list" where
  "tokensOf m \<equiv> map provides (dm_providers m)"

section \<open>The tokens of one call\<close>

text \<open>The last letters of a token tell which of the three kinds it is.\<close>

lemma token_kinds [simp]:
  "take 3 (rev (getTransactionalAdapterToken d)) = ''ret''"
  "take 3 (rev (getTransactionContextToken d)) = ''txe''"
  "take 3 (rev (getTransactionManagerToken d)) = ''reg''"
  by (simp_all add: getTransactionalAdapterToken_def getTransactionContextToken_def
      getTransactionManagerToken_def)

lemma tokens_differ: "take 3 (rev x) \<noteq> take 3 (rev y) \<Longrightarrow> x \<noteq> y"
  by auto

lemma dataSource_tokens_distinct [simp]:
  "getTransactionalAdapterToken d \<noteq> getTransactionContextToken e"
  "getTransactionalAdapterToken d \<noteq> getTransactionManagerToken e"
  "getTransactionContextToken d \<noteq> getTransactionManagerToken e"
  "getTransactionContextToken e \<noteq> getTransactionalAdapterToken d"
  "getTransactionManagerToken e \<noteq> getTransactionalAdapterToken d"
  "getTransactionManagerToken e \<noteq> getTransactionContextToken d"
  by (rule tokens_differ, simp)+

lemma interceptor_token [simp]:
  "''APP_INTERCEPTOR'' \<noteq> getTransactionalAdapterToken d"
  "''APP_INTERCEPTOR'' \<noteq> getTransactionContextToken d"
  "''APP_INTERCEPTOR'' \<noteq> getTransactionManagerToken d"
  by (rule tokens_differ, simp)+

lemma dataSource_tokens_inj [simp]:
  "getTransactionalAdapterToken (Some d) = getTransactionalAdapterToken (Some e) \<longleftrightarrow> d = e"
  "getTransactionContextToken (Some d) = getTransactionContextToken (Some e) \<longleftrightarrow> d = e"
  "getTransactionManagerToken (Some d) = getTransactionManagerToken (Some e) \<longleftrightarrow> d = e"
  by (simp_all add: getTransactionalAdapterToken_def getTransactionContextToken_def
      getTransactionManagerToken_def dataSourceArgument_def)

text \<open>The tokens of the infrastructure, of a dataSource and of the asynchronous calls so far.\<close>

definition infrastructureTokens :: "di_token set" where
  "infrastructureTokens =
     {ADAPTER_REGISTRY, ClassToken ''AdapterRegistry'', ClassToken ''TransactionManager'',
      TRANSACTION_OBSERVERS, APP_INTERCEPTOR, ClassToken ''TransactionalMethodsBootstrap''}"

definition dataSourceTokens :: "string \<Rightarrow> di_token set" where
  "dataSourceTokens ds = set (buildPerDataSourceExports ds)"

definition asyncTokens :: "nat \<Rightarrow> di_token set" where
  "asyncTokens n =
     {SymbolToken ''TRANSACTIONAL_ASYNC_OPTIONS'' n, SymbolToken ''TRANSACTIONAL_ASYNC_REGISTRATION'' n}"

definition storageTokens :: "module_storage \<Rightarrow> di_token set" where
  "storageTokens s =
     (if infrastructureRegistered s then infrastructureTokens else {}) \<union>
     (\<Union>ds \<in> dom (map_of (registrations s)). dataSourceTokens ds) \<union>
     (\<Union>n \<in> {..<asyncCounter s}. asyncTokens n)"

lemmas tokens_defs = infrastructureTokens_def dataSourceTokens_def asyncTokens_def
  buildPerDataSourceExports_def ADAPTER_REGISTRY_def TRANSACTION_OBSERVERS_def APP_INTERCEPTOR_def

lemma tokens_disjoint:
  "infrastructureTokens \<inter> dataSourceTokens ds = {}"
  "infrastructureTokens \<inter> asyncTokens n = {}"
  "dataSourceTokens ds \<inter> asyncTokens n = {}"
  "ds \<noteq> ds' \<Longrightarrow> dataSourceTokens ds \<inter> dataSourceTokens ds' = {}"
  "n \<noteq> k \<Longrightarrow> asyncTokens n \<inter> asyncTokens k = {}"
  by (auto simp: tokens_defs)

lemma wrapping_tokens:
  "distinct (map provides (wrappingProviders i b))"
  "set (map provides (wrappingProviders i b)) \<subseteq>
     {APP_INTERCEPTOR, ClassToken ''TransactionalMethodsBootstrap''}"
  by (auto simp: wrappingProviders_def APP_INTERCEPTOR_def)

lemma first_tokens:
  "distinct (map provides (firstCallProviders options))"
  "set (map provides (firstCallProviders options)) \<subseteq> infrastructureTokens"
  using wrapping_tokens[of "mo_registerInterceptor options" "mo_registerMethodsBootstrap options"]
  by (auto simp: firstCallProviders_def tokens_defs split: option.split)

lemma perDataSource_tokens [simp]:
  "map provides (buildPerDataSourceProviders a) = buildPerDataSourceExports (ga_dataSourceName a)"
  by (simp add: buildPerDataSourceProviders_def buildPerDataSourceExports_def Let_def)

lemma perDataSource_distinct [simp]: "distinct (buildPerDataSourceExports ds)"
  by (simp add: buildPerDataSourceExports_def)

lemma first_async_tokens:
  "distinct (map provides (firstAsyncProviders t options))"
  "set (map provides (firstAsyncProviders t options)) \<subseteq> infrastructureTokens"
  using wrapping_tokens[of "mao_registerInterceptor options" "mao_registerMethodsBootstrap options"]
  by (auto simp: firstAsyncProviders_def tokens_defs)

section \<open>Every token once\<close>

lemma storageTokens_update [simp]:
  "storageTokens (s\<lparr>registrations := AList.update ds r (registrations s)\<rparr>) =
     storageTokens s \<union> dataSourceTokens ds"
  by (simp add: storageTokens_def update_conv' dom_fun_upd Un_ac)

lemma storageTokens_infrastructure [simp]:
  "storageTokens (s\<lparr>infrastructureRegistered := True\<rparr>) = storageTokens s \<union> infrastructureTokens"
  by (auto simp: storageTokens_def)

lemma storageTokens_counter [simp]:
  "storageTokens (s\<lparr>asyncCounter := Suc (asyncCounter s)\<rparr>) =
     storageTokens s \<union> asyncTokens (asyncCounter s)"
  by (auto simp: storageTokens_def less_Suc_eq)

lemma new_tokens:
  "ds \<notin> dom (map_of (registrations s)) \<Longrightarrow> dataSourceTokens ds \<inter> storageTokens s = {}"
  "\<not> infrastructureRegistered s \<Longrightarrow> infrastructureTokens \<inter> storageTokens s = {}"
  "asyncTokens (asyncCounter s) \<inter> storageTokens s = {}"
proof -
  assume "ds \<notin> dom (map_of (registrations s))"
  then have "dataSourceTokens ds \<inter> dataSourceTokens ds' = {}"
    if "ds' \<in> dom (map_of (registrations s))" for ds'
    using tokens_disjoint(4)[of ds ds'] that by auto
  with tokens_disjoint(1)[of ds] tokens_disjoint(3)[of ds]
  show "dataSourceTokens ds \<inter> storageTokens s = {}"
    unfolding storageTokens_def Int_Un_distrib Int_UN_distrib by (simp add: Int_commute)
next
  assume "\<not> infrastructureRegistered s"
  then show "infrastructureTokens \<inter> storageTokens s = {}"
    unfolding storageTokens_def Int_Un_distrib Int_UN_distrib by (simp add: tokens_disjoint(1,2))
next
  have "asyncTokens (asyncCounter s) \<inter> asyncTokens n = {}" if "n \<in> {..<asyncCounter s}" for n
    using tokens_disjoint(5)[of "asyncCounter s" n] that by simp
  with tokens_disjoint(2)[of "asyncCounter s"] tokens_disjoint(3)[of _ "asyncCounter s"]
  show "asyncTokens (asyncCounter s) \<inter> storageTokens s = {}"
    unfolding storageTokens_def Int_Un_distrib Int_UN_distrib by (simp add: Int_commute)
qed

text \<open>What a call that returns or throws does to the storage.\<close>

lemma checkForRoot_storage:
  assumes "checkForRoot options s = (r, s')"
  shows "s' = s \<or> (\<exists>a. mo_adapter options = Some a \<and> ga_dataSourceName a \<notin> dom (map_of (registrations s)) \<and>
    s' = s\<lparr>registrations := AList.update (ga_dataSourceName a) (registrationOf a) (registrations s)\<rparr>)"
  using assms by (auto simp: checkForRoot_def Let_def domIff split: option.splits if_splits prod.splits)

lemma checkForRoot_ok:
  assumes "checkForRoot options s = (None, s')"
  shows "case mo_adapter options of
      None \<Rightarrow> s' = s
    | Some a \<Rightarrow> ga_dataSourceName a \<notin> dom (map_of (registrations s)) \<and>
        s' = s\<lparr>registrations :=
          AList.update (ga_dataSourceName a) (registrationOf a) (registrations s)\<rparr>"
  using assms
  by (auto simp: checkForRoot_def Let_def domIff split: option.splits if_splits prod.splits)

definition addsTokens :: "core_dynamic_module \<Rightarrow> module_storage \<Rightarrow> module_storage \<Rightarrow> bool" where
  "addsTokens m s s' \<longleftrightarrow> distinct (tokensOf m) \<and> set (tokensOf m) \<inter> storageTokens s = {} \<and>
     storageTokens s \<union> set (tokensOf m) \<subseteq> storageTokens s'"

lemma checkForRoot_adds:
  assumes "checkForRoot options s = (None, s1)"
  defines "ts \<equiv> (case mo_adapter options of None \<Rightarrow> [] | Some a \<Rightarrow> buildPerDataSourceExports (ga_dataSourceName a))"
  shows "distinct ts" "set ts \<inter> (storageTokens s \<union> infrastructureTokens) = {}"
    "storageTokens s1 = storageTokens s \<union> set ts"
    "infrastructureRegistered s1 = infrastructureRegistered s"
  using checkForRoot_ok[OF assms(1)] new_tokens(1)[of _ s] tokens_disjoint(1)
  by (auto simp: ts_def dataSourceTokens_def split: option.splits)

lemma forRoot_adds:
  assumes "forRoot options s = (Inr m, s')"
  shows "addsTokens m s s'"
proof -
  let ?ts = "case mo_adapter options of None \<Rightarrow> [] | Some a \<Rightarrow> buildPerDataSourceExports (ga_dataSourceName a)"
  obtain s1 where ok: "checkForRoot options s = (None, s1)"
    and s': "s' = (if infrastructureRegistered s then s1 else s1\<lparr>infrastructureRegistered := True\<rparr>)"
    and m: "tokensOf m = ?ts @
        (if infrastructureRegistered s then [] else map provides (firstCallProviders options))"
    using assms by (auto simp: forRoot_def Let_def split: prod.splits option.splits if_splits)
  show ?thesis
    using checkForRoot_adds[OF ok] first_tokens[of options] new_tokens(2)[of s]
    unfolding addsTokens_def m s' distinct_append set_append
    by (cases "infrastructureRegistered s") auto
qed

lemma forRoot_throws:
  "forRoot options s = (Inl e, s') \<Longrightarrow> storageTokens s \<subseteq> storageTokens s'"
  using checkForRoot_storage[of options s _ s']
  by (auto simp: forRoot_def Let_def split: prod.splits option.splits if_splits)

lemma forRootAsync_adds:
  assumes "forRootAsync options s = (m, s')"
  shows "addsTokens m s s'"
proof -
  let ?i = "asyncCounter s"
  have s': "storageTokens s' = storageTokens s \<union> asyncTokens ?i \<union> infrastructureTokens"
    and m: "tokensOf m =
        [SymbolToken ''TRANSACTIONAL_ASYNC_OPTIONS'' ?i, SymbolToken ''TRANSACTIONAL_ASYNC_REGISTRATION'' ?i] @
        (if infrastructureRegistered s then []
         else map provides (firstAsyncProviders (SymbolToken ''TRANSACTIONAL_ASYNC_OPTIONS'' ?i) options))"
    using assms by (auto simp: forRootAsync_def Let_def)
  show ?thesis
    using first_async_tokens[of "SymbolToken ''TRANSACTIONAL_ASYNC_OPTIONS'' ?i" options] new_tokens(2,3)[of s] tokens_disjoint(2)[of ?i]
    unfolding addsTokens_def m s' distinct_append set_append
    by (cases "infrastructureRegistered s") (auto simp: asyncTokens_def)
qed

lemma forRoot_exports:
  assumes "forRoot options s = (Inr m, s')"
  shows "dm_exports m =
      (case mo_adapter options of None \<Rightarrow> [] | Some a \<Rightarrow> buildPerDataSourceExports (ga_dataSourceName a)) @
      (if infrastructureRegistered s then [] else infrastructureExports)"
    and "set (dm_exports m) \<subseteq> set (tokensOf m)"
proof -
  show ex: "dm_exports m =
      (case mo_adapter options of None \<Rightarrow> [] | Some a \<Rightarrow> buildPerDataSourceExports (ga_dataSourceName a)) @
      (if infrastructureRegistered s then [] else infrastructureExports)"
    using assms by (auto simp: forRoot_def Let_def split: prod.splits option.splits if_splits)
  have "tokensOf m =
      (case mo_adapter options of None \<Rightarrow> [] | Some a \<Rightarrow> buildPerDataSourceExports (ga_dataSourceName a)) @
      (if infrastructureRegistered s then [] else map provides (firstCallProviders options))"
    using assms by (auto simp: forRoot_def Let_def split: prod.splits option.splits if_splits)
  moreover have "set infrastructureExports \<subseteq> set (map provides (firstCallProviders options))"
    by (simp add: infrastructureExports_def firstCallProviders_def)
  ultimately show "set (dm_exports m) \<subseteq> set (tokensOf m)" unfolding ex by auto
qed

lemma forRootAsync_exports:
  assumes "forRootAsync options s = (m, s')"
  shows "dm_exports m = (if infrastructureRegistered s then [] else infrastructureExports)"
    and "set (dm_exports m) \<subseteq> set (tokensOf m)"
  using assms
  by (auto simp: forRootAsync_def Let_def infrastructureExports_def firstAsyncProviders_def)

lemma moduleCall_returns:
  assumes "moduleCall c s = (Inr m, s')"
  shows "addsTokens m s s'" (is ?a)
    and "\<not> infrastructureRegistered s \<Longrightarrow> set infrastructureExports \<subseteq> set (dm_exports m)" (is "?n \<Longrightarrow> ?e")
    and "set (dm_exports m) \<subseteq> set (tokensOf m)" (is ?t)
proof -
  show ?a ?t and "?n \<Longrightarrow> ?e"
    using assms forRoot_adds[of _ s m s'] forRoot_exports[of _ s m s']
      forRootAsync_adds[of _ s m s'] forRootAsync_exports[of _ s m s']
    by (cases c; auto split: prod.splits)+
qed

lemma moduleCall_throws:
  assumes "moduleCall c s = (Inl e, s')"
  shows "storageTokens s \<subseteq> storageTokens s'"
    and "infrastructureRegistered s' = infrastructureRegistered s"
proof -
  obtain options where c: "c = SyncCall options" "forRoot options s = (Inl e, s')"
    using assms by (cases c) (auto split: prod.splits)
  then show "storageTokens s \<subseteq> storageTokens s'" by (simp add: forRoot_throws)
  from c obtain e' where "checkForRoot options s = (Some e', s')"
    by (auto simp: forRoot_def Let_def split: prod.splits option.splits if_splits)
  from checkForRoot_storage[OF this]
  show "infrastructureRegistered s' = infrastructureRegistered s" by auto
qed

lemma disjoint_step:
  assumes "distinct xs" and "set xs \<inter> A = {}" and "A \<union> set xs \<subseteq> B"
    and "distinct ys \<and> set ys \<inter> B = {}"
  shows "distinct (xs @ ys) \<and> set (xs @ ys) \<inter> A = {}"
  using assms by auto

lemma returned_tokens:
  "distinct (concat (map tokensOf (returned cs s))) \<and>
   set (concat (map tokensOf (returned cs s))) \<inter> storageTokens s = {}"
proof (induction cs arbitrary: s)
  case (Cons c cs)
  obtain r s1 where c: "moduleCall c s = (r, s1)" by (cases "moduleCall c s")
  show ?case
  proof (cases r)
    case (Inl e)
    then have sub: "storageTokens s \<subseteq> storageTokens s1" and ms: "returned (c # cs) s = returned cs s1"
      using moduleCall_throws(1)[of c s e s1] c by simp_all
    show ?thesis
      using disjoint_step[OF _ _ _ Cons[of s1], where xs = "[]" and A = "storageTokens s"] sub
      unfolding ms by simp
  next
    case (Inr m)
    then have m: "addsTokens m s s1" and ms: "returned (c # cs) s = m # returned cs s1"
      using moduleCall_returns(1)[of c s m s1] c by simp_all
    show ?thesis
      using disjoint_step[OF _ _ _ Cons[of s1], where xs = "tokensOf m" and A = "storageTokens s"] m
      unfolding ms addsTokens_def by simp
  qed
qed simp

lemma returned_first:
  "\<not> infrastructureRegistered s \<Longrightarrow>
   (case returned cs s of [] \<Rightarrow> True | m # ms \<Rightarrow> set infrastructureExports \<subseteq> set (dm_exports m))"
proof (induction cs arbitrary: s)
  case (Cons c cs)
  obtain r s1 where c: "moduleCall c s = (r, s1)" by fastforce
  show ?case
    using c Cons.prems Cons.IH[of s1] moduleCall_throws(2)[of c s _ s1] moduleCall_returns(2)[of c s _ s1]
    by (cases r) auto
qed simp

lemma returned_exports: "list_all (\<lambda>m. set (dm_exports m) \<subseteq> set (tokensOf m)) (returned cs s)"
proof (induction cs arbitrary: s)
  case (Cons c cs)
  obtain r s1 where c: "moduleCall c s = (r, s1)" by fastforce
  show ?case using c Cons[of s1] moduleCall_returns(3)[of c s _ s1] by (cases r) auto
qed simp

text \<open>
  C32. Whatever sequence of \<open>forRoot\<close> and \<open>forRootAsync\<close> calls an application makes after a
  reset, calls that throw included, no two providers of the modules they return have the same
  token; every module provides what it exports, and the first module returned exports the
  manager and the registry, so it and no other provides them.
\<close>

theorem tokens_provided_once:
  "let ms = returned cs (resetModuleForTesting s)
   in distinct (concat (map tokensOf ms)) \<and>
     list_all (\<lambda>m. set (dm_exports m) \<subseteq> set (tokensOf m)) ms \<and>
     (case ms of [] \<Rightarrow> True | m # _ \<Rightarrow> set infrastructureExports \<subseteq> set (dm_exports m))"
  unfolding Let_def
  by (intro conjI returned_tokens[THEN conjunct1] returned_exports returned_first)
     (simp add: resetModuleForTesting_def)


text \<open>
  What the injection decorators ask for is there: a \<open>forRoot\<close> call that returns a module with an
  adapter exports the three tokens of that adapter's dataSource, and under them the module
  provides that very adapter, the view of that dataSource, and the manager.
\<close>

theorem injections_provided:
  assumes "forRoot options s = (Inr m, s1)" and "mo_adapter options = Some a"
  shows "let ds = Some (ga_dataSourceName a)
    in {InjectTransactionalAdapter ds, InjectTransactionContext ds, InjectTransactionManager ds} \<subseteq> set (dm_exports m) \<and>
      {UseValue (InjectTransactionalAdapter ds) (AdapterValue (ga_address a)),
       UseValue (InjectTransactionContext ds) (ContextView (ga_dataSourceName a)),
       UseExisting (InjectTransactionManager ds) (ClassToken ''TransactionManager'')} \<subseteq> set (dm_providers m)"
  using assms
  by (auto simp: forRoot_def Let_def buildPerDataSourceProviders_def buildPerDataSourceExports_def
      InjectTransactionalAdapter_def InjectTransactionContext_def InjectTransactionManager_def dataSourceArgument_def
      split: option.splits prod.splits)

lemma injections_provided_witness:
  "\<exists>m s1. forRoot \<lparr>mo_adapter = Some \<lparr>ga_name = ''typeorm'', ga_dataSourceName = ''default'', ga_address = 7\<rparr>,
       mo_isGlobal = None, mo_registerInterceptor = None, mo_registerMethodsBootstrap = None, mo_observers = None\<rparr>
       newStorage = (Inr m, s1) \<and>
     UseValue (InjectTransactionalAdapter (Some ''default'')) (AdapterValue 7) \<in> set (dm_providers m)"
proof -
  let ?o = "\<lparr>mo_adapter = Some \<lparr>ga_name = ''typeorm'', ga_dataSourceName = ''default'', ga_address = 7\<rparr>,
    mo_isGlobal = None, mo_registerInterceptor = None, mo_registerMethodsBootstrap = None, mo_observers = None\<rparr>"
  obtain m s1 where m: "forRoot ?o newStorage = (Inr m, s1)"
    by (simp add: forRoot_def checkForRoot_def newStorage_def Let_def)
  show ?thesis
    using injections_provided[OF m, of "\<lparr>ga_name = ''typeorm'', ga_dataSourceName = ''default'', ga_address = 7\<rparr>"] m
    by (auto simp: Let_def)
qed

section \<open>The registry of synchronous calls\<close>

text \<open>An application's \<open>forRoot\<close> calls, in order, up to the first that throws.\<close>

primrec forRoots ::
    "module_options list \<Rightarrow> module_storage \<Rightarrow> (framework_error + core_dynamic_module list) \<times> module_storage" where
  "forRoots [] s = (Inr [], s)"
| "forRoots (options # os) s =
     (case forRoot options s of
        (Inl e, s1) \<Rightarrow> (Inl e, s1)
      | (Inr m, s1) \<Rightarrow>
          (case forRoots os s1 of
             (Inl e, s2) \<Rightarrow> (Inl e, s2)
           | (Inr ms, s2) \<Rightarrow> (Inr (m # ms), s2)))"

abbreviation adaptersOf :: "module_options list \<Rightarrow> given_adapter list" where
  "adaptersOf os \<equiv> List.map_filter mo_adapter os"

abbreviation registrationEntries :: "given_adapter list \<Rightarrow> (string \<times> adapter_registration) list" where
  "registrationEntries as \<equiv> map (\<lambda>a. (ga_dataSourceName a, registrationOf a)) as"

lemma update_new: "k \<notin> dom (map_of al) \<Longrightarrow> AList.update k v al = al @ [(k, v)]"
  by (metis delete_id domIff map_of_eq_None_iff update_delete_at_end)

lemma forRoot_registrations:
  assumes "forRoot options s = (Inr m, s')" and "distinct (map fst (registrations s))"
  shows "registrations s' = registrations s @ registrationEntries (adaptersOf [options])"
    and "distinct (map fst (registrations s'))"
proof -
  obtain s1 where ok: "checkForRoot options s = (None, s1)" and s': "registrations s' = registrations s1"
    using assms(1) by (auto simp: forRoot_def Let_def split: prod.splits option.splits if_splits)
  show "registrations s' = registrations s @ registrationEntries (adaptersOf [options])"
    using checkForRoot_ok[OF ok] s'
    by (auto simp: map_filter_simps update_new split: option.splits)
  show "distinct (map fst (registrations s'))"
    using checkForRoot_ok[OF ok] s' assms(2)
    by (auto simp: distinct_update split: option.splits)
qed

lemma forRoots_registrations:
  assumes "forRoots os s = (Inr ms, s')" and "distinct (map fst (registrations s))"
  shows "registrations s' = registrations s @ registrationEntries (adaptersOf os) \<and>
    distinct (map fst (registrations s'))"
  using assms
proof (induction os arbitrary: s ms)
  case (Cons options os)
  obtain m s1 ms1 where c: "forRoot options s = (Inr m, s1)" "forRoots os s1 = (Inr ms1, s')"
    using Cons.prems(1) by (auto split: prod.splits sum.splits)
  note IH = Cons.IH[OF c(2) forRoot_registrations(2)[OF c(1) Cons.prems(2)]]
  have "registrations s' = registrations s @ registrationEntries (adaptersOf (options # os))"
    using IH[THEN conjunct1] forRoot_registrations(1)[OF c(1) Cons.prems(2)]
    by (cases "mo_adapter options") (simp_all add: map_filter_simps)
  with IH[THEN conjunct2] show ?case by simp
qed (simp add: map_filter_simps)

definition keyOf :: "given_adapter \<Rightarrow> string" where
  "keyOf a = keyFor (ga_name a) (ga_dataSourceName a)"

lemma fold_register_entries:
  assumes "distinct (map fst (adapters reg @ map (\<lambda>a. (keyOf a, ga_address a)) as))"
  shows "adapters (fold (\<lambda>r. register r False) (map registrationOf as) reg) =
    adapters reg @ map (\<lambda>a. (keyOf a, ga_address a)) as"
  using assms
proof (induction as arbitrary: reg)
  case (Cons a as)
  then have "keyOf a \<notin> dom (map_of (adapters reg))"
    by (auto simp: dom_map_of_conv_image_fst)
  with Cons show ?case by (simp add: registrationOf_def keyOf_def update_new)
qed simp


lemma buildRegistry_adapters:
  assumes "forRoots os newStorage = (Inr ms, s)" and "list_all (colon_free \<circ> ga_name) (adaptersOf os)"
  shows "adapters (buildRegistryFromStaticStorage s) =
    map (\<lambda>a. (keyOf a, ga_address a)) (adaptersOf os)"
    and "distinct (map ga_dataSourceName (adaptersOf os))"
proof -
  have new: "distinct (map fst (registrations newStorage))" by (simp add: newStorage_def)
  note r = forRoots_registrations[OF assms(1) new]
  have regs: "registrations s = registrationEntries (adaptersOf os)"
    using r by (simp add: newStorage_def)
  have "distinct (map fst (registrationEntries (adaptersOf os)))"
    using r[THEN conjunct2] unfolding regs .
  then have dist: "distinct (map ga_dataSourceName (adaptersOf os))"
    by (simp add: comp_def)
  show "distinct (map ga_dataSourceName (adaptersOf os))" by (rule dist)
  have "inj_on keyOf (set (adaptersOf os))"
    using dist assms(2)
    by (auto simp: inj_on_def keyOf_def list_all_iff keyFor_inj distinct_map)
  moreover have "distinct (adaptersOf os)" using dist by (simp add: distinct_map)
  ultimately have "distinct (map keyOf (adaptersOf os))" by (simp add: distinct_map)
  then show "adapters (buildRegistryFromStaticStorage s) =
      map (\<lambda>a. (keyOf a, ga_address a)) (adaptersOf os)"
    using fold_register_entries[of newRegistry "adaptersOf os"]
    by (simp add: buildRegistryFromStaticStorage_def regs comp_def newRegistry_def)
qed

lemma filter_dataSource:
  "distinct (map ga_dataSourceName as) \<Longrightarrow> a \<in> set as \<Longrightarrow>
     filter (\<lambda>b. ga_dataSourceName b = ga_dataSourceName a) as = [a]"
proof (induction as)
  case (Cons b as)
  show ?case
  proof (cases "ga_dataSourceName b = ga_dataSourceName a")
    case True
    with Cons.prems have "a \<notin> set as" by auto
    with Cons.prems True show ?thesis by (auto simp: filter_empty_conv) (metis image_eqI)
  next
    case False
    with Cons show ?thesis by auto
  qed
qed simp

lemma buildRegistry_default:
  assumes "forRoots os newStorage = (Inr ms, s)" and "adaptersOf os = a # as"
  shows "getDefaultAdapterName (buildRegistryFromStaticStorage s) = Inr (ga_name a)"
    and "getDefaultInstanceName (buildRegistryFromStaticStorage s) = ga_dataSourceName a"
proof -
  have keep: "defaultAdapterName reg \<noteq> None \<Longrightarrow>
      defaultAdapterName (fold (\<lambda>r. register r False) rs reg) = defaultAdapterName reg \<and>
      defaultInstanceName (fold (\<lambda>r. register r False) rs reg) = defaultInstanceName reg" for rs reg
    by (induction rs arbitrary: reg) (simp_all add: register_def Let_def)
  have "registrations s = registrationEntries (a # as)"
    using forRoots_registrations[OF assms(1)] assms(2) by (simp add: newStorage_def)
  then have R: "buildRegistryFromStaticStorage s = fold (\<lambda>r. register r False) (map registrationOf as)
      (register (registrationOf a) False newRegistry)"
    by (simp add: buildRegistryFromStaticStorage_def comp_def)
  show "getDefaultAdapterName (buildRegistryFromStaticStorage s) = Inr (ga_name a)"
    "getDefaultInstanceName (buildRegistryFromStaticStorage s) = ga_dataSourceName a"
    using keep[of "register (registrationOf a) False newRegistry" "map registrationOf as"]
    by (simp_all add: R register_def newRegistry_def registrationOf_def getDefaultAdapterName_def
        getDefaultInstanceName_def)
qed

text \<open>
  When every \<open>forRoot\<close> call of an application returned, the registry that the factory of
  the first call builds answers for the dataSource of every adapter that was passed to any of
  them with that adapter and its type name, and its default is the first adapter passed.
\<close>

theorem sync_registry_complete:
  assumes "forRoots os newStorage = (Inr ms, s)" and "list_all (colon_free \<circ> ga_name) (adaptersOf os)"
    and "a \<in> set (adaptersOf os)"
  shows "getByDataSource (ga_dataSourceName a) (buildRegistryFromStaticStorage s) = Inr (ga_address a) \<and>
    getAdapterNameByDataSource (ga_dataSourceName a) (buildRegistryFromStaticStorage s) = Inr (ga_name a) \<and>
    getDefaultInstanceName (buildRegistryFromStaticStorage s) = ga_dataSourceName (hd (adaptersOf os))"
proof -
  note all = assms(2)[unfolded list_all_iff]
  have split: "splitKey (keyOf b) = (ga_name b, ga_dataSourceName b)" if "b \<in> set (adaptersOf os)" for b
    using all that by (simp add: keyOf_def splitKey_keyFor)
  have "filter ((\<lambda>(k, v). snd (splitKey k) = ga_dataSourceName a) \<circ> (\<lambda>b. (keyOf b, ga_address b)))
      (adaptersOf os) = filter (\<lambda>b. ga_dataSourceName b = ga_dataSourceName a) (adaptersOf os)"
    by (rule filter_cong) (simp_all add: split)
  also have "\<dots> = [a]" by (rule filter_dataSource[OF buildRegistry_adapters(2)[OF assms(1,2)] assms(3)])
  finally have "dataSourceMatches (ga_dataSourceName a) (buildRegistryFromStaticStorage s) =
      [(ga_name a, ga_address a)]"
    using split[OF assms(3)]
    by (simp add: dataSourceMatches_def buildRegistry_adapters(1)[OF assms(1,2)] filter_map)
  moreover obtain b as where "adaptersOf os = b # as" using assms(3) by (cases "adaptersOf os") auto
  ultimately show ?thesis
    using buildRegistry_default(2)[OF assms(1)]
    by (simp add: getByDataSource_def getAdapterNameByDataSource_def)
qed


abbreviation adapterOnly :: "given_adapter \<Rightarrow> module_options" where
  "adapterOnly a \<equiv> \<lparr>mo_adapter = Some a, mo_isGlobal = None, mo_registerInterceptor = None,
     mo_registerMethodsBootstrap = None, mo_observers = None\<rparr>"

abbreviation typeormMain :: given_adapter where
  "typeormMain \<equiv> \<lparr>ga_name = ''typeorm'', ga_dataSourceName = ''default'', ga_address = 3\<rparr>"

abbreviation drizzleBilling :: given_adapter where
  "drizzleBilling \<equiv> \<lparr>ga_name = ''drizzle'', ga_dataSourceName = ''billing:eu'', ga_address = 7\<rparr>"

lemma sync_registry_complete_witness:
  "getByDataSource ''billing:eu'' (buildRegistryFromStaticStorage
     (snd (forRoots [adapterOnly typeormMain, adapterOnly drizzleBilling] newStorage))) = Inr 7"
proof -
  let ?os = "[adapterOnly typeormMain, adapterOnly drizzleBilling]"
  have "\<not> isl (fst (forRoots ?os newStorage))" by code_simp
  then obtain ms where ms: "forRoots ?os newStorage = (Inr ms, snd (forRoots ?os newStorage))"
    by (metis prod.collapse sum.collapse(2))
  show ?thesis
    using sync_registry_complete[OF ms, of drizzleBilling]
    by (simp add: map_filter_simps colon_free_def)
qed

section \<open>Mixing the two kinds of calls\<close>

text \<open>
  The registry the container ends with: the one factory that provides it, then the eager
  registration of every asynchronous call, each with what its options factory resolved to.
\<close>

definition eagerOptions :: "core_dynamic_module \<Rightarrow> nat list" where
  "eagerOptions m = List.map_filter (\<lambda>p. case p of UseFactory t (AsyncFactory f) ds \<Rightarrow> Some f | _ \<Rightarrow> None)
     (dm_providers m)"

definition registryFactories :: "core_dynamic_module list \<Rightarrow> core_factory list" where
  "registryFactories ms = List.map_filter
     (\<lambda>p. case p of UseFactory t f ds \<Rightarrow> if t = ADAPTER_REGISTRY then Some f else None | _ \<Rightarrow> None)
     (concat (map dm_providers ms))"

definition containerRegistry ::
    "(nat \<Rightarrow> module_factory_result) \<Rightarrow> core_dynamic_module list \<Rightarrow> module_storage \<Rightarrow> adapter_registry option" where
  "containerRegistry resolve ms s =
     (case registryFactories ms of
        [f] \<Rightarrow> Some (fold (\<lambda>k. eagerRegistration (resolve k)) (concat (map eagerOptions ms))
            (if f = RegistryFromStaticStorage then buildRegistryFromStaticStorage s else newRegistry))
      | _ \<Rightarrow> None)"

definition asyncOnly :: "nat \<Rightarrow> module_async_options" where
  "asyncOnly f = \<lparr>mao_isGlobal = None, mao_registerInterceptor = None, mao_registerMethodsBootstrap = None,
     mao_imports = None, mao_useFactory = f, mao_inject = None\<rparr>"

abbreviation resolvesTo :: "given_adapter \<Rightarrow> nat \<Rightarrow> module_factory_result" where
  "resolvesTo a f \<equiv> \<lparr>mfr_adapter = Some a, mfr_observers = None\<rparr>"

text \<open>
  The order of the two kinds of calls matters. A synchronous call before an asynchronous
  one gives a registry with both adapters. After an asynchronous call the same synchronous
  call returns as well, and its module provides the adapter's token, but the registry never
  hears of its adapter, and no call names an error.
\<close>

theorem async_drops_sync_adapter:
  "let sync = SyncCall (adapterOnly drizzleBilling);
       async = AsyncCall (asyncOnly 0);
       registry = (\<lambda>cs. containerRegistry (resolvesTo typeormMain) (returned cs newStorage)
         (fold (\<lambda>c s. snd (moduleCall c s)) cs newStorage));
       lookup = (\<lambda>cs ds. map_option (getByDataSource ds) (registry cs))
   in map (lookup [sync, async]) [''default'', ''billing:eu''] = [Some (Inr 3), Some (Inr 7)] \<and>
     map (lookup [async, sync]) [''default'', ''billing:eu''] =
       [Some (Inr 3), Some (Inl (TransactionAdapterNotFoundError ''*'' ''billing:eu''))] \<and>
     length (returned [async, sync] newStorage) = 2 \<and>
     dm_exports (returned [async, sync] newStorage ! 1) = buildPerDataSourceExports ''billing:eu''"
  by code_simp

text \<open>
  A call that throws because it passes observers, which only the first call may, has
  already stored its adapter: the same call without them is then refused as a duplicate,
  and the registry has an adapter that no module provides.
\<close>

theorem failed_forRoot_registers:
  "let bad = (adapterOnly drizzleBilling)\<lparr>mo_observers := Some []\<rparr>;
       s1 = snd (forRoot (adapterOnly typeormMain) newStorage);
       (r2, s2) = forRoot bad s1;
       (r3, s3) = forRoot (adapterOnly drizzleBilling) s2
   in r2 = Inl PlainError \<and> r3 = Inl PlainError \<and>
     getByDataSource ''billing:eu'' (buildRegistryFromStaticStorage s2) = Inr 7"
  by code_simp

end
