(* ===== verification/Outbox_Port.thy ===== *)
theory Outbox_Port
  imports Cqrs_Properties Outbox_Properties
begin

text \<open>
  Where the event bus of \<open>packages/cqrs\<close> meets the publisher of \<open>packages/outbox\<close>: the
  interface \<open>OutboxPublicationScheduler\<close>
  (\<open>packages/cqrs/src/event-publisher/outbox-publication-scheduler.ts\<close>), which the bus calls for
  every event it schedules, its laws, and what the bus makes of it.

  \<open>sidestep w w'\<close> says that what publishing depends on is as it was: the transactional state,
  the buffers of the outbox, which events were scheduled; \<open>bystander\<close> adds the database.
\<close>

section \<open>Steps\<close>

definition sidestep :: "('a, 'm, 'd, 'z) obw \<Rightarrow> ('a, 'm, 'd, 'z) obw \<Rightarrow> bool" where
  "sidestep w w' \<longleftrightarrow>
     framedAll w w' \<and> registry w' = registry w \<and> outboxPending w' = outboxPending w \<and>
     scheduled w' = scheduled w \<and> attached w' = attached w"

definition bystander :: "('a, 'm, 'd, 'z) obw \<Rightarrow> ('a, 'm, 'd, 'z) obw \<Rightarrow> bool" where
  "bystander w w' \<longleftrightarrow> sidestep w w' \<and> db w' = db w"

lemma sidestep_order [simp, keeps_intros]: "reflp sidestep" "transp sidestep"
  unfolding sidestep_def by (auto intro!: reflpI transpI intro: framedAll_trans reflpD[OF reflp_framedAll])

lemma bystander_order [simp, keeps_intros]: "reflp bystander" "transp bystander"
  unfolding bystander_def by (auto intro!: reflpI transpI reflpD[OF sidestep_order(1)] intro: transpD[OF sidestep_order(2)])

lemma sidestep_refl [simp]: "sidestep w w"
  by (rule reflpD[OF sidestep_order(1)])

lemma sidestep_trans: "sidestep w w1 \<Longrightarrow> sidestep w1 w2 \<Longrightarrow> sidestep w w2"
  by (rule transpD[OF sidestep_order(2)])

lemma sidestepD:
  assumes "sidestep w w'"
  shows "framedAll w w'" "registry w' = registry w" "outboxPending w' = outboxPending w"
    "scheduled w' = scheduled w" "attached w' = attached w"
  using assms by (simp_all add: sidestep_def)

lemma bystander_side: "bystander w w' \<Longrightarrow> sidestep w w'"
  by (simp add: bystander_def)

lemma keeps_side: "keeps bystander f \<Longrightarrow> keeps sidestep f"
  by (auto simp: keeps_def bystander_def)

section \<open>The interface\<close>

locale outbox_port =
  fixes sched :: "jsv \<Rightarrow> ('a, 'm, 'd, 'z) obw \<Rightarrow> ('a, 'm, 'd, 'z) obw"
  assumes port_framed: "framedAll w (sched ev w)"
    and port_publisher: "scheduled (sched ev w) = scheduled w" "attached (sched ev w) = attached w"
    and port_world: "db (sched ev w) = db w" "registry (sched ev w) = registry w"
begin

text \<open>The dependency the bus is given.\<close>

abbreviation port :: "jsv \<Rightarrow> (('a, 'm, 'd, 'z) obw, unit) comp" where
  "port ev \<equiv> modify (sched ev)"

lemma port_quiet: "dep_outbox deps = Some port \<Longrightarrow> quietOutbox deps"
  by (auto simp: quietOutbox_def port_publisher)

text \<open>A new event of a class is dispatched, then handed to the outbox.\<close>

lemma schedule_new:
  assumes "dep_outbox deps = Some port" and "attached w" and "ev = JObj i (c # cs) ps" and "i \<notin> scheduled w"
  shows "schedule deps ev w = Some (Resolve (),
    sched ev (fold (dispatchTo (anyTxActive w) ev) (listenersFor ev w) (w\<lparr>scheduled := insert i (scheduled w)\<rparr>)))"
proof -
  have same: "anyTxActive (w\<lparr>scheduled := x\<rparr>) = anyTxActive w" "listenersFor ev (w\<lparr>scheduled := x\<rparr>) = listenersFor ev w" for x
    by (simp_all add: anyTxActive_def getStore_def listenersFor_def split: option.split)
  show ?thesis
    using assms same
    by (simp add: schedule_def wasScheduled_def andThen_def require_def markScheduled_def scheduleDispatch_def)
qed

end

lemma schedule_framedAll: "framedAll w (scheduleForPublication st ev w)"
  by (auto simp: scheduleForPublication_def framedAll_def framed_def updateTx_def split: option.splits)

interpretation outbox: outbox_port "scheduleForPublication st"
proof
  fix ev and w :: "('a, 'b, 'c, 'd) obw"
  show "framedAll w (scheduleForPublication st ev w)" by (rule schedule_framedAll)
qed (auto simp: scheduleForPublication_def updateTx_def split: option.splits)

end
