(* ===== verification/Outbox_Publishing.thy ===== *)
theory Outbox_Publishing
  imports Outbox_Port
begin

text \<open>
  What publishing a batch of new events on the wrapped bus does in a transaction on the outbox's
  dataSource: every event is scheduled, the externalized ones are in the transaction's buffer, in
  order, behind one flush hook, and nothing is written.
\<close>

section \<open>Scheduling a batch\<close>

abbreviation flushOf :: "nat \<Rightarrow> ('a outbox_hook, 'm) cqrs_hook hook" where
  "flushOf t \<equiv> UserHook (AppHook (FlushHook t))"

definition externalizedOf :: "'w outbox_settings \<Rightarrow> jsv list \<Rightarrow> jsv list" where
  "externalizedOf st = filter (\<lambda>ev. getExternalizedMetadata (os_externalized st) ev \<noteq> None)"

text \<open>The buffer of transaction \<open>t\<close>, the only one, and the hook that will flush it.\<close>

definition buffers :: "nat \<Rightarrow> jsv list \<Rightarrow> ('a, 'm, 'd, 'z) obw \<Rightarrow> bool" where
  "buffers t es w \<longleftrightarrow>
     outboxPending w = (if es = [] then Map.empty else [t \<mapsto> es]) \<and>
     (es \<noteq> [] \<longrightarrow> flushOf t \<in> set (beforeCommitHooks (txs w t)))"

fun newEvent :: "nat set \<Rightarrow> jsv \<Rightarrow> bool" where
  "newEvent done (JObj i (c # cs) ps) = (i \<notin> done)"
| "newEvent done v = False"

lemma newEventE:
  assumes "newEvent s ev"
  obtains i c cs ps where "ev = JObj i (c # cs) ps" and "i \<notin> s"
  using assms by (cases "(s, ev)" rule: newEvent.cases) auto

lemma dispatched_framed: "framedAll w (fold (dispatchTo b ev) ls w)"
  by (rule framedAllI) (auto simp: fold_dispatchTo framed_def withListeners_def sameTx_def)

lemma dispatched_active:
  "getActiveTransactionByDataSource ds (fold (dispatchTo b ev) ls w) = getActiveTransactionByDataSource ds w"
  by (induction ls arbitrary: w) simp_all

lemma buffers_framed:
  assumes "buffers t es w" and "outboxPending w' = outboxPending w" and "sameTx (txs w t) (txs w' t)"
  shows "buffers t es w'"
  using assms by (auto simp: buffers_def sameTx_def)

lemma buffers_schedule:
  assumes "buffers t es w" and "getActiveTransactionByDataSource (os_dataSource st) w = Some t"
  shows "buffers t (es @ externalizedOf st [ev]) (scheduleForPublication st ev w)"
  using assms by (auto simp: buffers_def externalizedOf_def scheduleForPublication_def updateTx_def
      pushBeforeCommit_def split: option.splits)

lemma scheduled_active:
  "getActiveTransactionByDataSource ds (scheduleForPublication st ev w) = getActiveTransactionByDataSource ds w"
  by (rule active_cong) (auto simp: scheduleForPublication_def updateTx_def pushBeforeCommit_def split: option.splits)

lemma schedule_one:
  assumes dep: "dep_outbox deps = Some (outbox.port st)" and att: "attached w" and new: "newEvent (scheduled w) ev"
    and act: "getActiveTransactionByDataSource (os_dataSource st) w = Some t"
    and wf: "wf_world w" "t < fresh w" and buf: "buffers t es w"
  obtains w' i where "schedule deps ev w = Some (Resolve (), w')" and "framedAll w w'"
    and "db w' = db w" "registry w' = registry w" "attached w'" "scheduled w' = insert i (scheduled w)" "weakKey ev = Some i"
    and "getActiveTransactionByDataSource (os_dataSource st) w' = Some t"
    and "buffers t (es @ externalizedOf st [ev]) w'"
proof -
  from new obtain i c cs ps where ev: "ev = JObj i (c # cs) ps" "i \<notin> scheduled w" by (rule newEventE)
  define w1 where "w1 = w\<lparr>scheduled := insert i (scheduled w)\<rparr>"
  define w2 where "w2 = fold (dispatchTo (anyTxActive w) ev) (listenersFor ev w) w1"
  have f1: "framedAll w w1" by (simp add: framedAll_def framed_def w1_def)
  have f2: "framedAll w1 w2" unfolding w2_def by (rule dispatched_framed)
  have fields: "db w2 = db w" "registry w2 = registry w" "attached w2" "scheduled w2 = insert i (scheduled w)"
    "outboxPending w2 = outboxPending w"
    using att by (simp_all add: w2_def fold_dispatchTo w1_def)
  have a1: "getActiveTransactionByDataSource ds w1 = getActiveTransactionByDataSource ds w" for ds
    by (rule active_cong) (simp_all add: w1_def)
  have a2: "getActiveTransactionByDataSource (os_dataSource st) w2 = Some t"
    unfolding w2_def dispatched_active a1 by (rule act)
  have f: "framedAll w w2" by (rule framedAll_trans[OF f1 f2])
  have b2: "buffers t es w2"
    by (rule buffers_framed[OF buf fields(5) framed_tx[OF framedAllD[OF f wf(1) order_refl] wf(2)]])
  show ?thesis
  proof (rule that[of "scheduleForPublication st ev w2" i])
    show "schedule deps ev w = Some (Resolve (), scheduleForPublication st ev w2)"
      using outbox.schedule_new[OF dep att ev] by (simp add: w2_def w1_def)
    show "framedAll w (scheduleForPublication st ev w2)"
      by (rule framedAll_trans[OF f schedule_framedAll])
    show "buffers t (es @ externalizedOf st [ev]) (scheduleForPublication st ev w2)"
      by (rule buffers_schedule[OF b2 a2])
  qed (simp_all add: outbox.port_world outbox.port_publisher fields ev scheduled_active a2)
qed

definition newEvents :: "jsv list \<Rightarrow> nat set \<Rightarrow> bool" where
  "newEvents evs s \<longleftrightarrow> distinct (map weakKey evs) \<and> list_all (newEvent s) evs"

lemma newEvents_Cons:
  assumes "newEvents (ev # evs) s" and "weakKey ev = Some i"
  shows "newEvents evs (insert i s)"
proof -
  have "newEvent (insert i s) ev'" if ev': "ev' \<in> set evs" for ev'
  proof -
    have "newEvent s ev'" "weakKey ev' \<noteq> Some i"
      using assms ev' by (auto simp: newEvents_def list_all_iff image_iff dest: spec)
    then show ?thesis by (elim newEventE) auto
  qed
  then show ?thesis using assms(1) by (simp add: newEvents_def list_all_iff)
qed

lemma scheduleEach_all:
  assumes dep: "dep_outbox deps = Some (outbox.port st)" and "attached w" and "newEvents evs (scheduled w)"
    and "getActiveTransactionByDataSource (os_dataSource st) w = Some t"
    and "wf_world w" "t < fresh w" and "buffers t es w"
  obtains w' where "scheduleEach deps evs w = Some (Resolve (), w')" and "framedAll w w'"
    and "db w' = db w" "registry w' = registry w" "attached w'" "scheduled w \<subseteq> scheduled w'"
    and "list_all (\<lambda>ev. wasScheduled ev w') evs"
    and "buffers t (es @ externalizedOf st evs) w'"
  using assms(2-)
proof (induction evs arbitrary: w es thesis)
  case Nil
  show ?case
    by (rule Nil.prems(1)[of w])
      (use Nil.prems in \<open>simp_all add: externalizedOf_def reflpD[OF reflp_framedAll]\<close>)
next
  case (Cons ev evs)
  have "newEvent (scheduled w) ev" using Cons.prems(3) by (simp add: newEvents_def)
  from schedule_one[OF dep Cons.prems(2) this Cons.prems(4-7)] obtain w1 i
    where w1: "schedule deps ev w = Some (Resolve (), w1)" "framedAll w w1"
      "db w1 = db w" "registry w1 = registry w" "attached w1" "scheduled w1 = insert i (scheduled w)" "weakKey ev = Some i"
      "getActiveTransactionByDataSource (os_dataSource st) w1 = Some t"
      "buffers t (es @ externalizedOf st [ev]) w1" by blast
  have f: "framed (fresh w) w w1" by (rule framedAllD[OF w1(2) Cons.prems(5) order_refl])
  have new: "newEvents evs (scheduled w1)" using newEvents_Cons[OF Cons.prems(3) w1(7)] by (simp add: w1(6))
  have wf1: "wf_world w1" "t < fresh w1"
    using wf_world_framed[OF f Cons.prems(5)] framed_fresh[OF f] Cons.prems(6) by auto
  from Cons.IH[OF _ w1(5) new w1(8) wf1 w1(9)] obtain w2
    where w2: "scheduleEach deps evs w1 = Some (Resolve (), w2)" "framedAll w1 w2"
      "db w2 = db w1" "registry w2 = registry w1" "attached w2" "scheduled w1 \<subseteq> scheduled w2"
      "list_all (\<lambda>ev. wasScheduled ev w2) evs"
      "buffers t ((es @ externalizedOf st [ev]) @ externalizedOf st evs) w2" by blast
  show ?case
  proof (rule Cons.prems(1))
    show "scheduleEach deps (ev # evs) w = Some (Resolve (), w2)" using w1(1) w2(1) by (simp add: andThen_def)
    show "framedAll w w2" by (rule framedAll_trans[OF w1(2) w2(2)])
    show "buffers t (es @ externalizedOf st (ev # evs)) w2"
      using w2(8) by (auto simp: externalizedOf_def)
    show "list_all (\<lambda>ev. wasScheduled ev w2) (ev # evs)"
      using w2(6,7) w1(6,7) by (auto simp: wasScheduled_def)
    show "scheduled w \<subseteq> scheduled w2" using w1(6) w2(6) by auto
  qed (simp_all add: w1 w2)
qed

section \<open>Publishing on the wrapped bus\<close>

lemma bystanderI:
  assumes "\<And>n. framed n w w'" and "registry w' = registry w" "outboxPending w' = outboxPending w"
    "scheduled w' = scheduled w" "attached w' = attached w" "db w' = db w"
  shows "bystander w w'"
  using assms by (simp add: bystander_def sidestep_def framedAll_def)

lemma fresh_bystander: "bystander w (w\<lparr>fresh := Suc (fresh w)\<rparr>)"
  by (rule bystanderI) (simp_all add: framed_def)

lemma raise_bystander: "keeps bystander (raise e)"
  by (rule keepsI) (auto simp: raise_settles fresh_bystander)

lemma native_world: "nativeTransactionOf env t w = Some (Resolve v, w') \<Longrightarrow> w' = w"
  by (auto simp: nativeTransactionOf_def split: sum.splits option.splits)

lemma native_bystander: "keeps bystander (nativeTransactionOf env t)"
  by (rule keepsI) (auto simp: nativeTransactionOf_def raise_settles fresh_bystander
      reflpD[OF bystander_order(1)] split: sum.splits option.splits)

lemma contextFor_bystander: "keeps bystander (contextFor env active ctx)"
proof (rule keepsI)
  fix w r w' assume "contextFor env active ctx w = Some (r, w')"
  then show "bystander w w'"
    by (auto simp: contextFor_def reflpD[OF bystander_order(1)] fresh_bystander
        split: option.splits if_splits outcome.splits prod.splits
        dest: keepsD[OF native_bystander] native_world)
qed

lemma trackPending_bystander: "bystander w (trackPending t p w)"
  by (rule bystanderI[OF trackPending_framed])
    (auto simp: trackPending_def updateTx_def split: option.splits)

lemma promiseFor_bystander: "promiseFor vs w = (p, w') \<Longrightarrow> bystander w w'"
  by (rule bystanderI) (auto simp: promiseFor_def framed_def)

lemma tracked_bystander: "promiseFor vs w = (p, w') \<Longrightarrow> bystander w (trackPending t q w')"
  by (rule transpD[OF bystander_order(2) promiseFor_bystander trackPending_bystander])

lemma track_bystander: "keeps bystander (track active v)"
  by (rule keepsI) (auto simp: track_def promiseResolve_def reflpD[OF bystander_order(1)]
      trackPending_bystander tracked_bystander split: option.splits if_splits prod.splits)

lemma trackAll_bystander: "keeps bystander (trackAll active res)"
proof (cases res)
  case (One v)
  have "keeps bystander (andThen (track active v) (\<lambda>r. ret (One r)))"
    by (simp add: keeps_andThen keeps_ret track_bystander)
  then show ?thesis by (auto simp: One keeps_def)
next
  case (Many vs)
  then show ?thesis
    by (auto simp: reflpD[OF bystander_order(1)] tracked_bystander
        intro!: keepsI split: option.splits if_splits prod.splits)
qed

lemma wasScheduled_side: "sidestep w w' \<Longrightarrow> wasScheduled ev w' = wasScheduled ev w"
  by (simp add: wasScheduled_def sidestepD split: option.split)

text \<open>Events that are scheduled reach the inner publisher only.\<close>

lemma publishEach_bystander:
  assumes inner: "\<And>ev ctx async. keeps bystander (dep_inner deps ev ctx async)"
    and "list_all (\<lambda>ev. wasScheduled ev w) evs" and "attached w"
    and "publishEach deps evs ctx async w = Some (r, w')"
  shows "bystander w w'"
  using assms(2-)
proof (induction evs arbitrary: w r w')
  case Nil
  then show ?case by (simp add: reflpD[OF bystander_order(1)])
next
  case (Cons ev evs)
  have p: "publish deps ev ctx async w = dep_inner deps ev ctx async w"
    using Cons.prems by (simp add: publish_scheduled)
  from Cons.prems(3) p consider e where "dep_inner deps ev ctx async w = Some (Reject e, w')"
    | v r1 w1 where "dep_inner deps ev ctx async w = Some (Resolve v, w1)" "publishEach deps evs ctx async w1 = Some (r1, w')"
    by (auto simp: andThen_def[of "publish deps ev ctx async"] andThen_Some
        split: option.splits prod.splits outcome.splits)
  then show ?case
  proof cases
    case 1
    then show ?thesis by (rule keepsD[OF inner])
  next
    case 2
    have b: "bystander w w1" by (rule keepsD[OF inner 2(1)])
    have "bystander w1 w'"
      using Cons.IH[OF _ _ 2(2)] Cons.prems(1,2) sidestepD(5)[OF bystander_side[OF b]]
        wasScheduled_side[OF bystander_side[OF b]]
      by (simp add: list_all_iff)
    then show ?thesis by (rule transpD[OF bystander_order(2) b])
  qed
qed

lemma publishAll_bystander:
  assumes "\<And>ev ctx async. keeps bystander (dep_inner deps ev ctx async)"
    and "list_all (\<lambda>ev. wasScheduled ev w) evs" and "attached w"
    and "publishAll deps evs ctx async w = Some (r, w')"
  shows "bystander w w'"
proof -
  from assms(4) obtain r1 w1 where w1: "publishEach deps evs ctx async w = Some (r1, w1)"
    and "w' = w1 \<or> (\<exists>p vs. promiseFor vs w1 = (p, w'))"
    unfolding publishAll_def
    by (fastforce simp: andThen_Some split: if_splits prod.splits)
  then show ?thesis
    using publishEach_bystander[OF assms(1-3) w1] transpD[OF bystander_order(2) _ promiseFor_bystander] by blast
qed

text \<open>The whole operation: the events are buffered, and nothing else is written.\<close>

lemma wrappedPublishAll_buffers:
  assumes dep: "dep_outbox deps = Some (outbox.port st)" and bus: "bus_publishAll bus = publishAll deps"
    and inner: "\<And>ev ctx async. keeps bystander (dep_inner deps ev ctx async)"
    and w: "attached w" "newEvents evs (scheduled w)"
      "getActiveTransactionByDataSource (os_dataSource st) w = Some t" "wf_world w" "t < fresh w" "buffers t es w"
    and run: "wrappedPublishAll env deps ds bus evs c a w = Some (r, w')"
  shows "framedAll w w' \<and> db w' = db w \<and> registry w' = registry w \<and>
    buffers t (es @ externalizedOf st evs) w'"
proof -
  from scheduleEach_all[OF dep w] obtain w1
    where w1: "scheduleEach deps evs w = Some (Resolve (), w1)" "framedAll w w1"
      "db w1 = db w" "registry w1 = registry w" "attached w1" "list_all (\<lambda>ev. wasScheduled ev w1) evs"
      "buffers t (es @ externalizedOf st evs) w1" by metis
  obtain ctx async where sp: "split_contexts c a = (ctx, async)" by fastforce
  let ?act = "getActiveTransactionByDataSource ds w1"
  from run w1(1) sp bus have rest: "andThen (contextFor env ?act ctx)
      (\<lambda>ctx'. andThen (publishAll deps evs ctx' async) (trackAll ?act)) w1 = Some (r, w')"
    by (simp add: wrappedPublishAll_def andThen_def[of "scheduleEach deps evs"] Let_def)
  have pub: "bystander w2 w'" if "bystander w1 w2"
    "andThen (publishAll deps evs ctx' async) (trackAll ?act) w2 = Some (r, w')" for w2 ctx'
  proof -
    have s: "list_all (\<lambda>ev. wasScheduled ev w2) evs" "attached w2"
      using w1(5,6) bystander_side[OF that(1)] by (simp_all add: wasScheduled_side sidestepD)
    from that(2) show ?thesis
      unfolding andThen_Some
      by (auto intro: publishAll_bystander[OF inner s]
          transpD[OF bystander_order(2) publishAll_bystander[OF inner s] keepsD[OF trackAll_bystander]])
  qed
  have b: "bystander w1 w'"
    using rest unfolding andThen_Some[of "contextFor env ?act ctx"]
    by (auto intro: keepsD[OF contextFor_bystander] transpD[OF bystander_order(2) _ pub]
        dest: keepsD[OF contextFor_bystander])
  have f: "framedAll w w'" by (rule framedAll_trans[OF w1(2) sidestepD(1)[OF bystander_side[OF b]]])
  note side = sidestepD[OF bystander_side[OF b]]
  have wf1: "wf_world w1" "t < fresh w1"
    using framedAllD[OF w1(2) w(4) order_refl] wf_world_framed w(4,5) framed_fresh by fastforce+
  have "buffers t (es @ externalizedOf st evs) w'"
    by (rule buffers_framed[OF w1(7) side(3) framed_tx[OF framedAllD[OF side(1) wf1(1) order_refl] wf1(2)]])
  then show ?thesis using f b w1 side by (simp add: bystander_def)
qed

end
