(* ===== verification/Commit_Contract.thy ===== *)
theory Commit_Contract
  imports Typeorm_Adapter
begin

text \<open>
  What an adapter's transactions do to the database: a transaction that rejects leaves no trace,
  one that resolves commits what its callback wrote. The TypeORM adapter keeps this over every
  TypeORM that does.
\<close>

section \<open>Adapters that commit\<close>

text \<open>
  \<open>seal d0 d\<close> is the database after the commit of a transaction that found \<open>d0\<close> and wrote \<open>d\<close>.
\<close>

locale committing_adapter = lawful_adapter ad
  for ad :: "('u, 'd, 'z) world transaction_adapter" +
  fixes seal :: "'d \<Rightarrow> 'd \<Rightarrow> 'd"
  assumes resolved_sealed:
      "a_runInTransaction ad opts cb w = Some (Resolve v, w') \<Longrightarrow>
         \<exists>h w1 w2. quiet w w1 \<and> db w1 = db w \<and> cb h w1 = Some (Resolve v, w2) \<and>
           quiet w2 w' \<and> db w' = seal (db w) (db w2)"
    and rejected_undone:
      "a_runInTransaction ad opts cb w = Some (Reject e, w') \<Longrightarrow> db w' = db w"

section \<open>TypeORM transactions\<close>

locale committing_typeorm = typeorm_library lib
  for lib :: "('u, 'd, 'z) world typeorm_lib" +
  fixes seal :: "'d \<Rightarrow> 'd \<Rightarrow> 'd"
  assumes resolved_sealed:
      "tl_transaction lib em0 level f w = Some (Resolve v, w') \<Longrightarrow>
         \<exists>em w1 w2. quiet w w1 \<and> db w1 = db w \<and> f em w1 = Some (Resolve v, w2) \<and> quiet w2 w' \<and>
           db w' = seal (db w) (db w2)"
    and rejected_undone: "tl_transaction lib em0 level f w = Some (Reject e, w') \<Longrightarrow> db w' = db w"
    and readOnly_writes_nothing: "tl_query lib em ''SET TRANSACTION READ ONLY'' w = Some (x, w') \<Longrightarrow> db w' = db w"
begin

lemma runner_kept:
  assumes "to_runner lib ds opts cb em w = Some (Resolve v, w')"
  shows "\<exists>h w1. quiet w w1 \<and> db w1 = db w \<and> cb h w1 = Some (Resolve v, w')"
proof -
  let ?pre = "if o_readOnly opts = Some True then applyReadOnly lib em (tl_type lib ds) else ret ()"
  from assms obtain w1 where pre: "?pre w = Some (Resolve (), w1)"
    and cb: "cb (entityManagerHandle (fresh w1) em) (w1\<lparr>fresh := Suc (fresh w1)\<rparr>) = Some (Resolve v, w')"
    by (auto simp: to_runner_def andThen_Some allocHandle_def)
  have "quiet w (w1\<lparr>fresh := Suc (fresh w1)\<rparr>)" by (rule quiet_trans[OF keepsD[OF readOnly_quiet pre] quiet_alloc])
  moreover have "db w1 = db w"
    using pre readOnly_writes_nothing by (auto simp: applyReadOnly_def andThen_Some split: if_splits)
  ultimately show ?thesis using cb by (intro exI conjI) auto
qed

end

sublocale committing_typeorm \<subseteq> committing: committing_adapter "TypeOrmTransactionAdapter lib ds manager name" seal
  for ds manager name
proof (rule committing_adapter.intro[OF typeorm_adapter], unfold_locales)
  fix opts cb w v w'
  assume "a_runInTransaction (TypeOrmTransactionAdapter lib ds manager name) opts cb w = Some (Resolve v, w')"
  then have "tl_transaction lib (manager w) (mapIsolation (o_isolation opts)) (to_runner lib ds opts cb) w = Some (Resolve v, w')"
    by (simp add: TypeOrmTransactionAdapter_def to_runInTransaction_def)
  from resolved_sealed[OF this] obtain em w1 w2 where w: "quiet w w1" "db w1 = db w"
    "to_runner lib ds opts cb em w1 = Some (Resolve v, w2)" "quiet w2 w'" "db w' = seal (db w) (db w2)" by blast
  from runner_kept[OF w(3)] obtain h w3 where "quiet w1 w3" "db w3 = db w1" "cb h w3 = Some (Resolve v, w2)" by blast
  with w show "\<exists>h w1 w2. quiet w w1 \<and> db w1 = db w \<and> cb h w1 = Some (Resolve v, w2) \<and> quiet w2 w' \<and> db w' = seal (db w) (db w2)"
    using quiet_trans[of w w1 w3] by (intro exI[of _ h] exI[of _ w3] exI[of _ w2]) simp
next
  fix opts cb w e w'
  assume "a_runInTransaction (TypeOrmTransactionAdapter lib ds manager name) opts cb w = Some (Reject e, w')"
  then show "db w' = db w"
    by (intro rejected_undone) (simp add: TypeOrmTransactionAdapter_def to_runInTransaction_def)
qed

text \<open>A TypeORM whose transactions commit by a function.\<close>

definition sealing_transaction ::
    "('d \<Rightarrow> 'd \<Rightarrow> 'd) \<Rightarrow> nat \<Rightarrow> string option \<Rightarrow> (nat \<Rightarrow> (('u, 'd, 'z) world, internal_result) comp) \<Rightarrow>
     (('u, 'd, 'z) world, internal_result) comp" where
  "sealing_transaction seal em0 level f w =
     (case f (fresh w) (w\<lparr>fresh := Suc (fresh w)\<rparr>) of
        None \<Rightarrow> None
      | Some (Resolve v, w2) \<Rightarrow> Some (Resolve v, w2\<lparr>db := seal (db w) (db w2)\<rparr>)
      | Some (Reject e, w2) \<Rightarrow> Some (Reject e, w2\<lparr>db := db w\<rparr>))"

definition sealingLib :: "('d \<Rightarrow> 'd \<Rightarrow> 'd) \<Rightarrow> string \<Rightarrow> ('u, 'd, 'z) world typeorm_lib" where
  "sealingLib seal dialect =
     \<lparr>tl_transaction = sealing_transaction seal, tl_query = (\<lambda>em sql. ret Undef),
      tl_type = (\<lambda>ds. dialect), tl_transactionSupport = (\<lambda>ds. Some ''nested''),
      tl_em_dataSource = (\<lambda>em. None), tl_em_connection = Some, tl_em_queryRunner = Some\<rparr>"

lemmas sealing_defs = sealingLib_def sealing_transaction_def

interpretation sealing: committing_typeorm "sealingLib seal dialect" seal
proof
  fix em0 level and f f' :: "nat \<Rightarrow> (('b, 'a, 'c) world, internal_result) comp" and w w' :: "('b, 'a, 'c) world" and r
  show "wrapsManager f w r w'" if "tl_transaction (sealingLib seal dialect) em0 level f w = Some (r, w')"
  proof -
    from that obtain r1 w2 where "f (fresh w) (w\<lparr>fresh := Suc (fresh w)\<rparr>) = Some (r1, w2)" "quiet w2 w'" "answers r1 r"
      by (auto simp: sealing_defs quiet_db split: option.splits prod.splits outcome.splits)
    then show ?thesis unfolding wrapsManager_def using quiet_alloc[of w] by blast
  qed
  show "refines_comp (tl_transaction (sealingLib seal dialect) em0 level f)
      (tl_transaction (sealingLib seal dialect) em0 level f')" if "\<And>em. refines_comp (f em) (f' em)"
    by (rule refines_compI) (auto simp: sealing_defs
        split: option.splits prod.splits outcome.splits dest!: refines_compD[OF that])
  show "tl_transaction (sealingLib seal dialect) em0 level f w =
      tl_transaction (sealingLib seal dialect) em0 level f' w" if "\<And>em w1. quiet w w1 \<Longrightarrow> f em w1 = f' em w1"
    by (simp add: sealing_defs that[OF quiet_alloc])
  fix v e
  show "\<exists>em w1 w2. quiet w w1 \<and> db w1 = db w \<and> f em w1 = Some (Resolve v, w2) \<and> quiet w2 w' \<and> db w' = seal (db w) (db w2)"
    if "tl_transaction (sealingLib seal dialect) em0 level f w = Some (Resolve v, w')"
  proof -
    from that obtain w2 where "f (fresh w) (w\<lparr>fresh := Suc (fresh w)\<rparr>) = Some (Resolve v, w2)" "w' = w2\<lparr>db := seal (db w) (db w2)\<rparr>"
      by (auto simp: sealing_defs split: option.splits prod.splits outcome.splits)
    then show ?thesis
      by (intro exI[of _ "fresh w"] exI[of _ "w\<lparr>fresh := Suc (fresh w)\<rparr>"] exI[of _ w2]) (simp add: quiet_alloc quiet_db)
  qed
  show "db w' = db w" if "tl_transaction (sealingLib seal dialect) em0 level f w = Some (Reject e, w')"
    using that by (auto simp: sealing_defs split: option.splits prod.splits outcome.splits)
qed (auto simp: sealingLib_def)

end
