(* ===== verification/Transactional_Outbox.thy ===== *)
theory Transactional_Outbox
  imports Outbox_Publishing Commit_Contract
begin

text \<open>
  The promise of the outbox. A transaction whose function does some work and publishes events on
  the wrapped bus either resolves, and then the outbox holds the externalized events, each once and
  in order, beside the work, or it rejects, and then it leaves neither, unless the options exempt
  the error from rollback.

  The bus, the dispatcher, the publisher, the hooks, the manager and the adapter all take part.
  What is assumed of the code around them is the locale \<open>outbox_application\<close>: listeners,
  observers and hooks of the application do not themselves publish or write, the outbox library adds a
  message or rejects, and a transaction that rejects leaves no trace in the database. The call is
  one that starts a transaction outside any other and is not retried: the events of a body that
  joins are the transaction's it joins, and a retry of a body that publishes the same event object
  loses it (\<open>retried_event_lost\<close> in \<open>Cqrs_Properties\<close>).
\<close>

section \<open>Transactions that leave no trace\<close>

abbreviation atomic_adapter :: "('u, 'd, 'z) world transaction_adapter \<Rightarrow> bool" where
  "atomic_adapter ad \<equiv> committing_adapter ad (\<lambda>d0 d. d)"

section \<open>The application\<close>

locale outbox_application =
  fixes env :: "('a, 'm, 'd, 'z) obw_env"
    and lib :: "('a, 'm, 'd, 'z) obw outbox_lib"
    and st :: "('a, 'm, 'd, 'z) obw outbox_settings"
    and code :: "('m, ('a, 'm, 'd, 'z) obw) listener_code"
    and own :: "'a \<Rightarrow> jsv \<Rightarrow> (('a, 'm, 'd, 'z) obw, jsv) comp"
    and store :: "jsv \<Rightarrow> outbox_message \<Rightarrow> 'd \<Rightarrow> 'd"
  assumes adapters: "atomic_adapter (adapterOf env k)"
    and hooks: "callHook env = cqrsCallHook code (outboxCallHook lib st own)"
    and starts: "ob \<in> set (observers env) \<Longrightarrow> onTransactionStart ob = Some f \<Longrightarrow> keeps bystander (f sc)"
    and commits: "ob \<in> set (observers env) \<Longrightarrow> onTransactionCommit ob = Some g \<Longrightarrow> keeps bystander (g cc)"
    and rollbacks: "ob \<in> set (observers env) \<Longrightarrow> onTransactionRollback ob = Some f' \<Longrightarrow> keeps bystander (f' rc)"
    and resolver: "os_resolve st = nativeTransactionOf env"
    and listeners: "keeps bystander (code m ev err)"
    and own_hooks: "keeps bystander (own a arg)"
    and notified: "keeps bystander (outbox_notify lib)"
    and promises: "keeps bystander (awaitAll env ps)"
    and added: "outbox_add lib tx msg w = Some (Resolve u, w') \<Longrightarrow> w' = w\<lparr>db := store tx msg (db w)\<rparr>"
    and not_added: "outbox_add lib tx msg w = Some (Reject e, w') \<Longrightarrow> quiet w w' \<and> db w' = db w"

section \<open>Places\<close>

text \<open>Inside the only transaction of the store, and in the store when it has none.\<close>

definition insideTx :: "nat \<Rightarrow> string \<Rightarrow> string \<Rightarrow> nat \<Rightarrow> tx_handle \<Rightarrow> adapter_registry \<Rightarrow> ('u, 'd, 'z) world \<Rightarrow> bool" where
  "insideTx s a i t h R w \<longleftrightarrow>
     als w = Some s \<and> s < fresh w \<and> t < fresh w \<and> registry w = R \<and>
     activeTransactions (stores w s) = [(contextKey a i, t)] \<and>
     adapterName (txs w t) = a \<and> adapterInstanceName (txs w t) = i \<and> handle (txs w t) = h"

definition vacant :: "nat \<Rightarrow> ('u, 'd, 'z) world \<Rightarrow> bool" where
  "vacant s w \<longleftrightarrow> als w = Some s \<and> s < fresh w \<and> activeTransactions (stores w s) = []"

lemma single_entry:
  assumes "distinct (map fst m)" and "map_of m = map_of [(k, t)]"
  shows "m = [(k, t)]"
proof -
  have "set m = {(k, t)}" using assms map_of_inject_set[of m "[(k, t)]"] by simp
  then obtain p m' where m: "m = p # m'" "p = (k, t)" "set m' \<subseteq> {(k, t)}" by (cases m) auto
  then have "m' = []" using assms(1) by (cases m') auto
  with m show ?thesis by simp
qed

lemma wf_als: "als w = Some s \<Longrightarrow> s < fresh w \<Longrightarrow> wf_world w"
  by (simp add: wf_world_def)

lemma insideTx_framedAll:
  assumes f: "framedAll w w'" and w: "insideTx s a i t h R w"
  shows "insideTx s a i t h (registry w') w'"
proof -
  have g: "framed (fresh w) w w'"
    by (rule framedAllD[OF f _ order_refl]) (use w in \<open>auto simp: insideTx_def intro: wf_als\<close>)
  have "sameStore (stores w s) (stores w' s)" using g w by (simp add: framed_def insideTx_def)
  then have "activeTransactions (stores w' s) = [(contextKey a i, t)]"
    using w by (intro single_entry) (auto simp: sameStore_def insideTx_def)
  then show ?thesis
    using w framed_als[OF g] framed_fresh[OF g] framed_tx[OF g, of t]
    by (auto simp: insideTx_def sameTx_def)
qed

lemma insideTx_framed:
  "framedAll w w' \<Longrightarrow> registry w' = registry w \<Longrightarrow> insideTx s a i t h R w \<Longrightarrow> insideTx s a i t h R w'"
  using insideTx_framedAll[of w w' s a i t h R] by (simp add: insideTx_def)

lemma insideTx_remove:
  "insideTx s a i t h R w \<Longrightarrow> vacant s (removeActiveTransaction (contextKey a i) w)"
  by (simp add: insideTx_def vacant_def removeActiveTransaction_inside)

lemma vacant_framed:
  assumes f: "framedAll w w'" and w: "vacant s w"
  shows "vacant s w'"
proof -
  have g: "framed (fresh w) w w'"
    by (rule framedAllD[OF f _ order_refl]) (use w in \<open>auto simp: vacant_def intro: wf_als\<close>)
  have "sameStore (stores w s) (stores w' s)" using g w by (simp add: framed_def vacant_def)
  then have "map_of (activeTransactions (stores w' s)) = Map.empty" using w by (simp add: sameStore_def vacant_def)
  then show ?thesis
    using w framed_als[OF g] framed_fresh[OF g] by (simp add: vacant_def)
qed

lemma insideTx_active:
  "insideTx s a i t h R w \<Longrightarrow> getActiveTransactionByDataSource i w = Some t"
  by (simp add: insideTx_def getActiveTransactionByDataSource_def getStore_def)

lemma vacant_active: "vacant s w \<Longrightarrow> getActiveTransactionByDataSource ds w = None"
  by (simp add: vacant_def getActiveTransactionByDataSource_def getStore_def)

text \<open>The native transaction is always the same.\<close>

definition nativeAs :: "('u, 'd, 'z) env \<Rightarrow> string \<Rightarrow> string \<Rightarrow> tx_handle \<Rightarrow> adapter_registry \<Rightarrow> jsv" where
  "nativeAs env a i h R =
     (case registryGet a i R of
        Inl e \<Rightarrow> Undef
      | Inr k \<Rightarrow> (case a_nativeTransaction (adapterOf env k) of None \<Rightarrow> Undef | Some f \<Rightarrow> f h))"

lemma insideTx_native:
  "insideTx s a i t h R w \<Longrightarrow> nativeTransactionOf env t w = Some (Resolve tx, w') \<Longrightarrow>
     tx = nativeAs env a i h R \<and> w' = w"
  by (auto simp: insideTx_def nativeTransactionOf_def nativeAs_def split: sum.splits option.splits)

section \<open>What hooks do\<close>

text \<open>Steps that keep the transactional state and the outbox's buffers.\<close>

definition addStep :: "('a, 'm, 'd, 'z) obw \<Rightarrow> ('a, 'm, 'd, 'z) obw \<Rightarrow> bool" where
  "addStep w w' \<longleftrightarrow> framedAll w w' \<and> registry w' = registry w \<and> outboxPending w' = outboxPending w"

lemma addStep_order [simp, keeps_intros]: "reflp addStep" "transp addStep"
  unfolding addStep_def by (auto intro!: reflpI transpI intro: framedAll_trans reflpD[OF reflp_framedAll])

lemma addStep_trans: "addStep w w1 \<Longrightarrow> addStep w1 w2 \<Longrightarrow> addStep w w2"
  by (rule transpD[OF addStep_order(2)])

lemma addStepI:
  "(\<And>n. framed n w w') \<Longrightarrow> registry w' = registry w \<Longrightarrow> outboxPending w' = outboxPending w \<Longrightarrow> addStep w w'"
  by (simp add: addStep_def framedAll_def)

lemma quiet_obw:
  "quiet w w' \<Longrightarrow> outboxPending w' = outboxPending w \<and> scheduled w' = scheduled w \<and> attached w' = attached w"
  by (auto simp: quiet_def)

lemma quiet_addStep: "quiet w w' \<Longrightarrow> addStep w w'"
  by (rule addStepI) (simp_all add: quiet_framed quiet_fields quiet_obw)

lemma bystander_addStep: "bystander w w' \<Longrightarrow> addStep w w'"
  by (simp add: bystander_def sidestep_def addStep_def)

lemma insideTx_addStep: "addStep w w' \<Longrightarrow> insideTx s a i t h R w \<Longrightarrow> insideTx s a i t h R w'"
  by (auto simp: addStep_def intro: insideTx_framed)

lemma notifyAfterCommit_addStep: "addStep w (notifyAfterCommit t w)"
  by (rule addStepI) (auto simp: notifyAfterCommit_def updateTx_def framed_def)

lemma clear_framed: "framedAll w (w\<lparr>outboxPending := x\<rparr>)"
  by (simp add: framedAll_def framed_def)

lemma requireTransaction_cases:
  "requireTransaction ds w = Some (r, w') \<Longrightarrow>
     (\<exists>e. r = Reject e \<and> bystander w w') \<or>
     (\<exists>t. r = Resolve t \<and> w' = w \<and> getActiveTransactionByDataSource ds w = Some t)"
  by (auto simp: requireTransaction_def raise_settles fresh_bystander split: option.splits)

text \<open>The database with the messages of \<open>es\<close>.\<close>

definition outboxed ::
    "jsv \<Rightarrow> externalized_registry \<Rightarrow> (jsv \<Rightarrow> outbox_message \<Rightarrow> 'd \<Rightarrow> 'd) \<Rightarrow> jsv list \<Rightarrow> 'd \<Rightarrow> 'd" where
  "outboxed tx reg store es d = fold (\<lambda>ev. store tx (toMessage reg ev)) es d"

lemma outboxed_simps [simp]:
  "outboxed tx reg store [] d = d"
  "outboxed tx reg store (ev # es) d = outboxed tx reg store es (store tx (toMessage reg ev) d)"
  by (simp_all add: outboxed_def)

context outbox_application
begin

text \<open>The messages, added through the native object of the transaction with handle \<open>h\<close>.\<close>

abbreviation added_by :: "string \<Rightarrow> tx_handle \<Rightarrow> adapter_registry \<Rightarrow> jsv list \<Rightarrow> 'd \<Rightarrow> 'd" where
  "added_by a h R \<equiv> outboxed (nativeAs env a (os_dataSource st) h R) (os_externalized st) store"

text \<open>The first of the messages, and all of them when the flush resolves.\<close>

definition addedUpTo :: "string \<Rightarrow> tx_handle \<Rightarrow> adapter_registry \<Rightarrow> jsv list \<Rightarrow> unit outcome \<Rightarrow> 'd \<Rightarrow> 'd \<Rightarrow> bool" where
  "addedUpTo a h R es r d d' \<longleftrightarrow> (\<exists>n. d' = added_by a h R (take n es) d \<and> (r = Resolve () \<longrightarrow> length es \<le> n))"

lemma addedUpTo_none: "addedUpTo a h R es (Reject e) d d"
  by (auto simp: addedUpTo_def intro: exI[of _ 0])

lemma addedUpTo_Cons:
  "addedUpTo a h R es r (store (nativeAs env a (os_dataSource st) h R) (toMessage (os_externalized st) ev) d) d' \<Longrightarrow>
     addedUpTo a h R (ev # es) r d d'"
  unfolding addedUpTo_def by (elim exE, rule_tac x = "Suc n" in exI) simp

lemma add_addStep: "keeps addStep (outbox_add lib tx msg)"
proof (rule keepsI)
  fix w r w' assume run: "outbox_add lib tx msg w = Some (r, w')"
  show "addStep w w'"
  proof (cases r)
    case (Resolve u)
    then have "w' = w\<lparr>db := store tx msg (db w)\<rparr>" using added run by simp
    then show ?thesis by (simp add: quiet_addStep quiet_db)
  next
    case (Reject e)
    then show ?thesis using not_added run quiet_addStep by blast
  qed
qed

lemma publishEvent_cases:
  assumes "publishEvent lib st ev w = Some (r, w')"
  shows "addStep w w' \<and> (getActiveTransactionByDataSource (os_dataSource st) w = None \<longrightarrow> (\<exists>e. r = Reject e) \<and> db w' = db w)"
    and "insideTx s a (os_dataSource st) t h R w \<Longrightarrow> r = Resolve () \<Longrightarrow>
      db w' = store (nativeAs env a (os_dataSource st) h R) (toMessage (os_externalized st) ev) (db w)"
    and "r = Reject e \<Longrightarrow> db w' = db w"
proof -
  let ?ds = "os_dataSource st"
  from assms consider e where "r = Reject e" "bystander w w'"
    | u e where "r = Reject e" "getActiveTransactionByDataSource ?ds w = Some u" "bystander w w'"
    | u tx w1 e where "r = Reject e" "getActiveTransactionByDataSource ?ds w = Some u"
        "nativeTransactionOf env u w = Some (Resolve tx, w)"
        "outbox_add lib tx (toMessage (os_externalized st) ev) w = Some (Reject e, w')"
    | u tx w1 where "r = Resolve ()" "getActiveTransactionByDataSource ?ds w = Some u"
        "nativeTransactionOf env u w = Some (Resolve tx, w)"
        "outbox_add lib tx (toMessage (os_externalized st) ev) w = Some (Resolve (), w1)"
        "w' = notifyAfterCommit u w1"
    unfolding publishEvent_def andThen_Some resolver
    by (fastforce dest: requireTransaction_cases keepsD[OF native_bystander] native_world)
  note cases = this
  from cases show "addStep w w' \<and> (getActiveTransactionByDataSource ?ds w = None \<longrightarrow> (\<exists>e. r = Reject e) \<and> db w' = db w)"
  proof cases
    case 4
    then show ?thesis using addStep_trans[OF keepsD[OF add_addStep] notifyAfterCommit_addStep] by simp
  qed (auto intro: bystander_addStep keepsD[OF add_addStep] simp: bystander_def[of w w'])
  show "db w' = db w" if "r = Reject e"
    using cases that by cases (auto simp: bystander_def[of w w'] dest: not_added)
  assume "insideTx s a ?ds t h R w" "r = Resolve ()"
  with cases show "db w' = store (nativeAs env a ?ds h R) (toMessage (os_externalized st) ev) (db w)"
    using insideTx_active insideTx_native added
    by cases (fastforce simp: notifyAfterCommit_def updateTx_def)+
qed

lemma publishEvents_cases:
  assumes "publishEvents lib st es w = Some (r, w')"
  shows "addStep w w' \<and> (getActiveTransactionByDataSource (os_dataSource st) w = None \<longrightarrow> db w' = db w) \<and>
    (es = [] \<longrightarrow> w' = w) \<and>
    (insideTx s a (os_dataSource st) t h R w \<longrightarrow> addedUpTo a h R es r (db w) (db w'))"
  using assms
proof (induction es arbitrary: w r w')
  case Nil
  then show ?case by (simp add: reflpD[OF addStep_order(1)] addedUpTo_def)
next
  case (Cons ev es)
  from Cons.prems consider e where "publishEvent lib st ev w = Some (Reject e, w')" "r = Reject e"
    | w1 where "publishEvent lib st ev w = Some (Resolve (), w1)" "publishEvents lib st es w1 = Some (r, w')"
    by (auto simp: andThen_Some)
  then show ?case
  proof cases
    case 1
    then show ?thesis
      using publishEvent_cases(1)[OF 1(1)] publishEvent_cases(3)[OF 1(1) refl] by (auto intro: addedUpTo_none)
  next
    case 2
    note first = publishEvent_cases[OF 2(1)] and rest = Cons.IH[OF 2(2)]
    have "addedUpTo a h R (ev # es) r (db w) (db w')" if "insideTx s a (os_dataSource st) t h R w"
      using insideTx_addStep[of w w1] first(1) first(2)[OF that refl] rest that by (intro addedUpTo_Cons) simp
    then show ?thesis
      using first(1) rest addStep_trans[of w w1 w'] by auto
  qed
qed

lemma flushHook_cases:
  assumes "flushHook lib st u w = Some (r, w')"
  shows "framedAll w w' \<and> registry w' = registry w \<and> outboxPending w' = (outboxPending w)(u := None) \<and>
    (getActiveTransactionByDataSource (os_dataSource st) w = None \<longrightarrow> db w' = db w) \<and>
    (outboxPending w u = None \<longrightarrow> w' = w) \<and>
    (insideTx s a (os_dataSource st) t h R w \<longrightarrow> outboxPending w u = Some es \<longrightarrow> addedUpTo a h R es r (db w) (db w'))"
proof -
  let ?w1 = "w\<lparr>outboxPending := (outboxPending w)(u := None)\<rparr>"
  have act: "getActiveTransactionByDataSource ds ?w1 = getActiveTransactionByDataSource ds w" for ds
    by (rule active_cong) simp_all
  have ins: "insideTx s a i t h R ?w1 = insideTx s a i t h R w" for i by (simp add: insideTx_def)
  have none: "?w1 = w" if "outboxPending w u = None" using that by (simp add: fun_upd_idem)
  show ?thesis
    using publishEvents_cases[OF assms[unfolded flushHook_def], of s a t h R] none
      framedAll_trans[OF clear_framed[of w "(outboxPending w)(u := None)"]]
    by (auto simp: act ins addStep_def)
qed

lemma drain_bystander: "keeps bystander (drain env t)"
  by (rule drain_keeps)
    (auto intro: promises bystanderI pending_framed)

text \<open>Every hook is a bystander, except the flush of a buffer that is there.\<close>

lemma invoke_bystander:
  assumes "\<forall>u. h = flushOf u \<longrightarrow> outboxPending w u = None"
    and "invoke env h arg w = Some (r, w')"
  shows "bystander w w'"
proof (cases h)
  case (DrainHook t)
  then show ?thesis using assms(2) keepsD[OF drain_bystander] by auto
next
  case (UserHook x)
  have listen: "keeps bystander (invokeListener code l ev err)" for l ev err
  proof (rule keepsI)
    fix v r v' assume "invokeListener code l ev err v = Some (r, v')"
    moreover have "bystander v (v\<lparr>microtasks := ms\<rparr>)" for ms
      by (rule bystanderI) (simp_all add: framed_def)
    moreover have "keeps bystander (andThen (code (l_handler l) ev err) (\<lambda>_. ret Undef))"
      by (simp add: keeps_andThen keeps_ret listeners)
    ultimately show "bystander v v'"
      by (auto simp: invokeListener_def queueMicrotask_def dest: keepsD split: if_splits)
  qed
  have undef: "keeps bystander (andThen f (\<lambda>_. ret Undef))" if "keeps bystander f"
    for f :: "(('a, 'm, 'd, 'z) obw, unit) comp"
    by (simp add: keeps_andThen keeps_ret that)
  show ?thesis
  proof (cases x)
    case (AppHook b)
    show ?thesis
    proof (cases b)
      case (FlushHook u)
      then obtain r1 where "flushHook lib st u w = Some (r1, w')"
        using assms(2) unfolding UserHook AppHook by (auto simp: hooks andThen_Some)
      then have "w' = w" using flushHook_cases assms(1) UserHook AppHook FlushHook by blast
      then show ?thesis by (simp add: reflpD[OF bystander_order(1)])
    next
      case NotifyHook
      then show ?thesis using assms(2) keepsD[OF undef[OF notified]]
        unfolding UserHook AppHook by (simp add: hooks)
    next
      case (OwnHook c)
      then show ?thesis using assms(2) keepsD[OF own_hooks] unfolding UserHook AppHook by (simp add: hooks)
    qed
  qed (use assms(2) keepsD[OF listen] UserHook in \<open>auto simp: hooks\<close>)
qed

lemma flush_runs:
  assumes "invoke env (flushOf u) arg w = Some (r, w')"
  obtains r1 where "flushHook lib st u w = Some (r1, w')" "\<forall>v. r = Resolve v \<longrightarrow> r1 = Resolve ()"
  using assms that by (fastforce simp: hooks andThen_Some)

lemma invoke_cases:
  assumes "invoke env hk arg w = Some (r, w')"
  shows "framedAll w w'" and "registry w' = registry w"
    and "getActiveTransactionByDataSource (os_dataSource st) w = None \<Longrightarrow> db w' = db w"
proof -
  have "framedAll w w' \<and> registry w' = registry w \<and>
    (getActiveTransactionByDataSource (os_dataSource st) w = None \<longrightarrow> db w' = db w)"
  proof (cases "\<forall>u. hk = flushOf u \<longrightarrow> outboxPending w u = None")
    case True
    then show ?thesis using invoke_bystander[OF True assms] by (simp add: bystander_def sidestep_def)
  next
    case False
    then obtain u where "hk = flushOf u" by blast
    with assms flush_runs obtain r1 where "flushHook lib st u w = Some (r1, w')" by metis
    then show ?thesis using flushHook_cases by blast
  qed
  then show "framedAll w w'" "registry w' = registry w"
    "getActiveTransactionByDataSource (os_dataSource st) w = None \<Longrightarrow> db w' = db w" by auto
qed

end

lemma tame_bystander: "keeps bystander f \<Longrightarrow> tame f"
  by (auto simp: keeps_def bystander_def sidestep_def)

sublocale outbox_application \<subseteq> lawful_environment env
proof (rule lawful_environment.intro)
  show "lawful_adapter (adapterOf env a)" for a
    using adapters[of a] by (rule committing_adapter.axioms)
  show "tame (callHook env u arg)" for u arg
    by (rule keepsI, rule invoke_cases(1)[of "UserHook u" arg]) simp
  show "tame (awaitAll env ps)" for ps by (rule tame_bystander[OF promises])
qed (auto intro: tame_bystander starts commits rollbacks)

section \<open>The end of the function\<close>

context outbox_application
begin

text \<open>Observers write nothing.\<close>

lemma notified_bystander:
  "notifyStart env sc w = Some w' \<Longrightarrow> bystander w w'"
  "notifyCommit env cc w = Some w' \<Longrightarrow> bystander w w'"
  "notifyRollback env rc w = Some w' \<Longrightarrow> bystander w w'"
  unfolding notifyStart_def notifyCommit_def notifyRollback_def
  by (erule notify_keeps[rotated 3], auto intro: starts commits rollbacks)+

text \<open>
  What the before-commit hooks find: the messages are there, or their buffer is and the hook that
  flushes it is still ahead.
\<close>

definition flushing ::
    "nat \<Rightarrow> string \<Rightarrow> nat \<Rightarrow> tx_handle \<Rightarrow> adapter_registry \<Rightarrow> jsv list \<Rightarrow> 'd \<Rightarrow> nat \<Rightarrow> ('a, 'm, 'd, 'z) obw \<Rightarrow> bool" where
  "flushing s a t h R es d i w \<longleftrightarrow> insideTx s a (os_dataSource st) t h R w \<and>
    ((outboxPending w = Map.empty \<and> db w = added_by a h R es d) \<or>
     (outboxPending w = [t \<mapsto> es] \<and> db w = d \<and>
      (\<exists>j\<ge>i. j < length (beforeCommitHooks (txs w t)) \<and> beforeCommitHooks (txs w t) ! j = flushOf t)))"

definition partlyFlushed ::
    "nat \<Rightarrow> string \<Rightarrow> nat \<Rightarrow> tx_handle \<Rightarrow> adapter_registry \<Rightarrow> jsv list \<Rightarrow> 'd \<Rightarrow> ('a, 'm, 'd, 'z) obw \<Rightarrow> bool" where
  "partlyFlushed s a t h R es d w \<longleftrightarrow> insideTx s a (os_dataSource st) t h R w \<and> (\<exists>n. db w = added_by a h R (take n es) d)"

lemma flushing_step:
  assumes w: "flushing s a t h R es d i w" and i: "i < length (beforeCommitHooks (txs w t))"
    and run: "invoke env (beforeCommitHooks (txs w t) ! i) Undef w = Some (r, w1)"
  shows "case r of Resolve v \<Rightarrow> flushing s a t h R es d (Suc i) w1 | Reject e \<Rightarrow> partlyFlushed s a t h R es d w1"
proof -
  let ?hk = "beforeCommitHooks (txs w t) ! i"
  have ins: "insideTx s a (os_dataSource st) t h R w" using w by (simp add: flushing_def)
  have ins1: "insideTx s a (os_dataSource st) t h R w1"
    by (rule insideTx_framed[OF invoke_cases(1,2)[OF run] ins])
  have "wf_world w" "t < fresh w" using ins by (auto simp: insideTx_def intro: wf_als)
  from framed_tx[OF framedAllD[OF invoke_cases(1)[OF run] this(1) order_refl] this(2)]
  obtain hs where hs: "beforeCommitHooks (txs w1 t) = beforeCommitHooks (txs w t) @ hs"
    by (auto simp: sameTx_def)
  show ?thesis
  proof (cases "\<forall>u. ?hk = flushOf u \<longrightarrow> outboxPending w u = None")
    case True
    have same: "db w1 = db w" "outboxPending w1 = outboxPending w"
      using invoke_bystander[OF True run] by (simp_all add: bystander_def sidestep_def)
    from w consider "outboxPending w = Map.empty" "db w = added_by a h R es d"
      | j where "outboxPending w = [t \<mapsto> es]" "db w = d" "i \<le> j"
        "j < length (beforeCommitHooks (txs w t))" "beforeCommitHooks (txs w t) ! j = flushOf t"
      unfolding flushing_def by blast
    then show ?thesis
    proof cases
      case 1
      have "\<exists>n. db w1 = added_by a h R (take n es) d" using 1 same by (intro exI[of _ "length es"]) simp
      then show ?thesis using ins1 same 1 by (simp add: flushing_def partlyFlushed_def split: outcome.split)
    next
      case 2
      have "i \<noteq> j" using True 2(1,5) by auto
      with 2 have "Suc i \<le> j" "j < length (beforeCommitHooks (txs w1 t))" "beforeCommitHooks (txs w1 t) ! j = flushOf t"
        by (simp_all add: hs nth_append)
      moreover have "\<exists>n. db w1 = added_by a h R (take n es) d" using 2 same by (intro exI[of _ 0]) simp
      ultimately show ?thesis
        using ins1 same 2(1,2) unfolding flushing_def partlyFlushed_def by (auto split: outcome.split)
    qed
  next
    case False
    then obtain u where u: "?hk = flushOf u" "outboxPending w u \<noteq> None" by blast
    with w have t: "u = t" "outboxPending w = [t \<mapsto> es]" "db w = d"
      by (auto simp: flushing_def split: if_splits)
    from run have "invoke env (flushOf t) Undef w = Some (r, w1)" unfolding u(1) t(1) .
    then obtain r1 where fl: "flushHook lib st t w = Some (r1, w1)" "\<forall>v. r = Resolve v \<longrightarrow> r1 = Resolve ()"
      by (elim flush_runs) blast
    have "outboxPending w1 = Map.empty" "addedUpTo a h R es r1 d (db w1)"
      using flushHook_cases[OF fl(1), of s a t h R es] ins t(2,3) by auto
    then obtain n where n: "outboxPending w1 = Map.empty" "db w1 = added_by a h R (take n es) d" "r1 = Resolve () \<longrightarrow> length es \<le> n"
      by (auto simp: addedUpTo_def)
    show ?thesis
    proof (cases r)
      case (Resolve v)
      then have "length es \<le> n" using fl(2) n(3) by simp
      then show ?thesis using Resolve n(1,2) ins1 by (simp add: flushing_def)
    next
      case (Reject e)
      then show ?thesis using n(2) ins1 by (auto simp: partlyFlushed_def)
    qed
  qed
qed

text \<open>A buffer with a hook ahead that flushes it is flushed before the loop ends.\<close>

lemma beforeCommit_flushes:
  assumes "runBeforeCommit env t i w = Some (r, w')" and "flushing s a t h R es d i w"
  shows "partlyFlushed s a t h R es d w' \<and> (r = Resolve () \<longrightarrow> db w' = added_by a h R es d)"
proof -
  have "flushing s a t h R es d i w \<longrightarrow>
      partlyFlushed s a t h R es d (snd (r, w')) \<and> (fst (r, w') = Resolve () \<longrightarrow> db (snd (r, w')) = added_by a h R es d)"
    using assms(1)
  proof (rule runBeforeCommit_induct, goal_cases)
    case (1 i w)
    have "db w = added_by a h R es d \<Longrightarrow> \<exists>n. db w = added_by a h R (take n es) d"
      by (intro exI[of _ "length es"]) simp
    then show ?case using 1 by (auto simp: flushing_def partlyFlushed_def)
  next
    case (2 i w e w1)
    then show ?case using flushing_step[OF _ 2] by fastforce
  next
    case (3 i w v w1 x)
    then show ?case using flushing_step[OF _ 3(1,2)] by fastforce
  qed
  with assms(2) show ?thesis by simp
qed

text \<open>Once the transaction is out of the store, hooks write nothing.\<close>

lemma lateHooks_write_nothing:
  assumes "runHooks env sel t arg i w = Some w'" and "vacant s w"
  shows "db w' = db w"
proof -
  define late where "late = (\<lambda>(v :: ('a, 'm, 'd, 'z) obw) (v' :: ('a, 'm, 'd, 'z) obw). vacant s v \<longrightarrow> vacant s v' \<and> db v' = db v)"
  have "reflp late" "transp late" by (auto simp: late_def reflp_def transp_def)
  moreover have "keeps late (invoke env hk arg)" for hk
    by (rule keepsI) (auto simp: late_def vacant_active intro: vacant_framed invoke_cases)
  ultimately have "late w w'" by (rule runHooks_keeps[OF _ _ _ assms(1)])
  with assms(2) show ?thesis by (simp add: late_def)
qed

end

section \<open>A transaction that works and publishes\<close>

text \<open>The function: some work, the events on the bus, and what comes after.\<close>

definition publishingBody ::
    "('a, 'm, 'd, 'z) obw_env \<Rightarrow> ('a, 'm, 'd, 'z) obw publisher_dependencies \<Rightarrow> string \<Rightarrow>
     ('a, 'm, 'd, 'z) obw event_bus \<Rightarrow> (('a, 'm, 'd, 'z) obw, jsv) comp \<Rightarrow> jsv list \<Rightarrow>
     (('a, 'm, 'd, 'z) obw, jsv) comp \<Rightarrow> (('a, 'm, 'd, 'z) obw, jsv) comp" where
  "publishingBody env deps ds bus work evs fin =
     andThen work (\<lambda>_. andThen (wrappedPublishAll env deps ds bus evs Undef Undef) (\<lambda>_. fin))"

text \<open>
  What a committed transaction leaves in the database: the work, done in it from the database
  as it was, and the messages, added through its native object.
\<close>

definition committedWith ::
    "('a, 'm, 'd, 'z) obw_env \<Rightarrow> ('a, 'm, 'd, 'z) obw outbox_settings \<Rightarrow>
     (jsv \<Rightarrow> outbox_message \<Rightarrow> 'd \<Rightarrow> 'd) \<Rightarrow> (('a, 'm, 'd, 'z) obw, jsv) comp \<Rightarrow> jsv list \<Rightarrow> 'd \<Rightarrow> 'd \<Rightarrow> bool" where
  "committedWith env st store work evs d d' \<longleftrightarrow>
     (\<exists>t w1 u w2. db w1 = d \<and> getActiveTransactionByDataSource (os_dataSource st) w1 = Some t \<and>
        work w1 = Some (Resolve u, w2) \<and>
        d' = outboxed (nativeAs env (adapterName (txs w1 t)) (os_dataSource st) (handle (txs w1 t)) (registry w1))
          (os_externalized st) store (externalizedOf st evs) (db w2))"

text \<open>
  What a transaction leaves that commits although an error came up, one its options exempt from
  rollback: what the work wrote, and the first \<open>n\<close> of the messages, none when the work rejected.
\<close>

definition exemptedWith ::
    "('a, 'm, 'd, 'z) obw_env \<Rightarrow> ('a, 'm, 'd, 'z) obw outbox_settings \<Rightarrow>
     (jsv \<Rightarrow> outbox_message \<Rightarrow> 'd \<Rightarrow> 'd) \<Rightarrow> (('a, 'm, 'd, 'z) obw, jsv) comp \<Rightarrow> jsv list \<Rightarrow> 'd \<Rightarrow> 'd \<Rightarrow> bool" where
  "exemptedWith env st store work evs d d' \<longleftrightarrow>
     (\<exists>t w1 r w2 n. db w1 = d \<and> getActiveTransactionByDataSource (os_dataSource st) w1 = Some t \<and>
        work w1 = Some (r, w2) \<and> (n = 0 \<or> (\<exists>u. r = Resolve u)) \<and>
        d' = outboxed (nativeAs env (adapterName (txs w1 t)) (os_dataSource st) (handle (txs w1 t)) (registry w1))
          (os_externalized st) store (take n (externalizedOf st evs)) (db w2))"

text \<open>Nothing is buffered yet, and the events are new.\<close>

definition clear :: "jsv list \<Rightarrow> ('a, 'm, 'd, 'z) obw \<Rightarrow> bool" where
  "clear evs w \<longleftrightarrow> attached w \<and> outboxPending w = Map.empty \<and> newEvents evs (scheduled w)"

locale publishing = outbox_application +
  fixes deps :: "('a, 'b, 'c, 'd) obw publisher_dependencies" 
    and bus :: "('a, 'b, 'c, 'd) obw event_bus" and eds :: string
    and work fin :: "(('a, 'b, 'c, 'd) obw, jsv) comp"
  assumes port: "dep_outbox deps = Some (outbox.port st)"
    and bus_all: "bus_publishAll bus = publishAll deps"
    and inner: "keeps bystander (dep_inner deps ev ctx async)"
    and work_side: "keeps sidestep work"
    and fin_bystander: "keeps bystander fin"
begin

lemma body_cases:
  assumes ins: "insideTx s a (os_dataSource st) t h R w" and clear: "clear evs w"
    and run: "publishingBody env deps eds bus work evs fin w = Some (r, w')"
  shows "framedAll w w' \<and> registry w' = registry w \<and>
    (\<exists>r2 w2. work w = Some (r2, w2) \<and> db w' = db w2) \<and>
    (\<forall>v. r = Resolve v \<longrightarrow> (\<exists>u w2. work w = Some (Resolve u, w2) \<and> db w' = db w2 \<and> buffers t (externalizedOf st evs) w'))"
proof -
  from run consider e where "work w = Some (Reject e, w')" "r = Reject e"
    | u w2 where "work w = Some (Resolve u, w2)"
        "andThen (wrappedPublishAll env deps eds bus evs Undef Undef) (\<lambda>_. fin) w2 = Some (r, w')"
    unfolding publishingBody_def andThen_Some[of work] by blast
  then show ?thesis
  proof cases
    case 1
    then show ?thesis using sidestepD[OF keepsD[OF work_side 1(1)]] by simp
  next
    case 2
    note side = sidestepD[OF keepsD[OF work_side 2(1)]]
    have ins2: "insideTx s a (os_dataSource st) t h R w2" by (rule insideTx_framed[OF side(1,2) ins])
    have w2: "attached w2" "newEvents evs (scheduled w2)" "wf_world w2" "t < fresh w2" "buffers t [] w2"
      using clear side ins2 by (auto simp: clear_def buffers_def insideTx_def intro: wf_als)
    note pub = wrappedPublishAll_buffers[OF port bus_all inner w2(1,2) insideTx_active[OF ins2] w2(3-5)]
    from 2(2) consider e where "wrappedPublishAll env deps eds bus evs Undef Undef w2 = Some (Reject e, w')" "r = Reject e"
      | x w3 where "wrappedPublishAll env deps eds bus evs Undef Undef w2 = Some (Resolve x, w3)" "fin w3 = Some (r, w')"
      unfolding andThen_Some by blast
    then show ?thesis
    proof cases
      case 1
      then show ?thesis using pub[OF 1(1)] side framedAll_trans 2(1) by auto
    next
      case 3: 2
      have b: "bystander w3 w'" by (rule keepsD[OF fin_bystander 3(2)])
      note p = pub[OF 3(1)] and late = sidestepD[OF bystander_side[OF b]]
      have f3: "framedAll w2 w3" using p by blast
      have wf3: "wf_world w3" "t < fresh w3"
        using wf_world_framed[OF framedAllD[OF f3 w2(3) order_refl] w2(3)]
          framed_fresh[OF framedAllD[OF f3 w2(3) order_refl]] w2(4) by auto
      have "buffers t (externalizedOf st evs) w3" using p by simp
      then have "buffers t (externalizedOf st evs) w'"
        by (rule buffers_framed[OF _ late(3) framed_tx[OF framedAllD[OF late(1) wf3(1) order_refl] wf3(2)]])
      then show ?thesis
        using 2(1) p b late side framedAll_trans[OF side(1) framedAll_trans[OF f3 late(1)]]
        by (auto simp: bystander_def)
    qed
  qed
qed

definition bodyLeft :: "extended_options \<Rightarrow> jsv list \<Rightarrow> internal_result \<Rightarrow> 'c \<Rightarrow> 'c \<Rightarrow> bool" where
  "bodyLeft options evs result d d' =
     (case result of
        IOk v \<Rightarrow> committedWith env st store work evs d d'
      | IErr e \<Rightarrow> \<not> shouldRollback e options \<and> exemptedWith env st store work evs d d')"

lemma left_committed:
  assumes "insideTx s a (os_dataSource st) t h R w" and "work w = Some (Resolve u, w2)"
    and "d = added_by a h R (externalizedOf st evs) (db w2)"
  shows "committedWith env st store work evs (db w) d"
  using assms insideTx_active[OF assms(1)] unfolding committedWith_def insideTx_def
  by (intro exI[of _ t] exI[of _ w] exI[of _ u] exI[of _ w2]) simp

lemma left_exempted:
  assumes "insideTx s a (os_dataSource st) t h R w" and "work w = Some (r, w2)" and "n = 0 \<or> (\<exists>u. r = Resolve u)"
    and "d = added_by a h R (take n (externalizedOf st evs)) (db w2)"
  shows "exemptedWith env st store work evs (db w) d"
  using assms insideTx_active[OF assms(1)] unfolding exemptedWith_def insideTx_def
  by (intro exI[of _ t] exI[of _ w] exI[of _ r] exI[of _ w2] exI[of _ n]) simp

lemma body_flushing:
  assumes ins: "insideTx s a (os_dataSource st) t h R w" and clear: "clear evs w"
    and run: "publishingBody env deps eds bus work evs fin w = Some (Resolve v, w3)"
  obtains u w2 where "work w = Some (Resolve u, w2)" and "flushing s a t h R (externalizedOf st evs) (db w2) 0 w3"
proof -
  let ?es = "externalizedOf st evs"
  from body_cases[OF ins clear run] obtain u w2
    where f: "framedAll w w3" "registry w3 = registry w" and w2: "work w = Some (Resolve u, w2)" "db w3 = db w2"
      and buf: "buffers t ?es w3" by auto
  have "insideTx s a (os_dataSource st) t h R w3" by (rule insideTx_framed[OF f ins])
  then have "flushing s a t h R ?es (db w2) 0 w3"
    using buf w2(2) by (cases "?es = []") (auto simp: flushing_def buffers_def in_set_conv_nth)
  with w2(1) show ?thesis by (rule that)
qed

lemma guardedBody_outboxed:
  assumes ins: "insideTx s a (os_dataSource st) t h R w" and clear: "clear evs w"
    and run: "guardedBody env t options (publishingBody env deps eds bus work evs fin) w = Some (r, w')"
  shows "insideTx s a (os_dataSource st) t h (registry w') w' \<and> (\<forall>x. r = Resolve x \<longrightarrow> bodyLeft options evs x (db w) (db w'))"
proof -
  let ?body = "publishingBody env deps eds bus work evs fin"
  from run consider e where "?body w = Some (Reject e, w')" "r = Reject e \<or> r = Resolve (IErr e) \<and> \<not> shouldRollback e options"
    | v w3 e where "?body w = Some (Resolve v, w3)" "runBeforeCommit env t 0 w3 = Some (Reject e, w')"
        "r = Reject e \<or> r = Resolve (IErr e) \<and> \<not> shouldRollback e options"
    | v w3 where "?body w = Some (Resolve v, w3)" "runBeforeCommit env t 0 w3 = Some (Resolve (), w')" "r = Resolve (IOk v)"
    unfolding guardedBody_def by (auto simp: catching_Some andThen_Some split: if_splits)
  then show ?thesis
  proof cases
    case 1
    note b = body_cases[OF ins clear 1(1)]
    then obtain r2 w2 where "work w = Some (r2, w2)" "db w' = db w2" by blast
    then have "exemptedWith env st store work evs (db w) (db w')"
      by (intro left_exempted[OF ins, where n = 0]) simp_all
    moreover have "insideTx s a (os_dataSource st) t h (registry w') w'" using insideTx_framedAll[OF _ ins] b by blast
    ultimately show ?thesis using 1(2) by (auto simp: bodyLeft_def)
  next
    case 2
    from body_flushing[OF ins clear 2(1)] obtain u w2
      where w2: "work w = Some (Resolve u, w2)" and fl: "flushing s a t h R (externalizedOf st evs) (db w2) 0 w3" .
    from beforeCommit_flushes[OF 2(2) fl] obtain n
      where n: "insideTx s a (os_dataSource st) t h R w'" "db w' = added_by a h R (take n (externalizedOf st evs)) (db w2)"
      by (auto simp: partlyFlushed_def)
    have "exemptedWith env st store work evs (db w) (db w')" by (rule left_exempted[OF ins w2 _ n(2)]) simp
    then show ?thesis using n(1) 2(3) by (auto simp: bodyLeft_def insideTx_def)
  next
    case 3
    from body_flushing[OF ins clear 3(1)] obtain u w2
      where w2: "work w = Some (Resolve u, w2)" and fl: "flushing s a t h R (externalizedOf st evs) (db w2) 0 w3" .
    from beforeCommit_flushes[OF 3(2) fl]
    have n: "insideTx s a (os_dataSource st) t h R w'" "db w' = added_by a h R (externalizedOf st evs) (db w2)"
      by (auto simp: partlyFlushed_def)
    have "committedWith env st store work evs (db w) (db w')" by (rule left_committed[OF ins w2 n(2)])
    then show ?thesis using n(1) 3(3) by (auto simp: bodyLeft_def insideTx_def)
  qed
qed

lemma bystander_clear: "bystander w w' \<Longrightarrow> clear evs w \<Longrightarrow> clear evs w'"
  by (simp add: clear_def bystander_def sidestep_def)

lemma txCallback_outboxed:
  assumes vac: "vacant s w" and clear: "clear evs w"
    and run: "txCallback env a (os_dataSource st) options corr cell
      (publishingBody env deps eds bus work evs fin) h w = Some (r, w')"
  shows "vacant s w' \<and> (\<forall>x. r = Resolve x \<longrightarrow> bodyLeft options evs x (db w) (db w'))"
proof -
  let ?key = "contextKey a (os_dataSource st)"
  define w2 where "w2 = updateStore s (AList.update ?key (fresh w)) (w\<lparr>fresh := Suc (fresh w),
      txs := (txs w)(fresh w := newActiveTx h a (os_dataSource st) options (now w) corr),
      cells := (cells w)(cell \<mapsto> fresh w)\<rparr>)"
  have ins: "insideTx s a (os_dataSource st) (fresh w) h (registry w) w2"
    using vac by (auto simp: insideTx_def vacant_def w2_def newActiveTx_def updateStore_def)
  have clear2: "clear evs w2" using clear by (simp add: clear_def w2_def updateStore_def)
  have db2: "db w2 = db w" by (simp add: w2_def updateStore_def)
  from run vac obtain w3 w4
    where start: "notifyStart env (startContext h a (os_dataSource st) corr options) w2 = Some w3"
      and body: "guardedBody env (fresh w) options (publishingBody env deps eds bus work evs fin) w3 = Some (r, w4)"
      and w': "w' = removeActiveTransaction ?key w4"
    unfolding txCallback_def Let_def w2_def
    by (auto simp: setActiveTransaction_inside vacant_def finallyDo_Some split: option.splits)
  note told = notified_bystander(1)[OF start]
  have ins3: "insideTx s a (os_dataSource st) (fresh w) h (registry w) w3"
    by (rule insideTx_addStep[OF bystander_addStep[OF told] ins])
  note b = guardedBody_outboxed[OF ins3 bystander_clear[OF told clear2] body]
  have "db w3 = db w" using told db2 by (simp add: bystander_def)
  moreover have "vacant s w'" unfolding w' by (rule insideTx_remove) (use b in blast)
  moreover have "db w' = db w4" unfolding w' by (simp add: removeActiveTransaction_def updateStore_def split: option.split)
  ultimately show ?thesis using b by simp
qed

text \<open>How a call ends, and what it leaves in the database.\<close>

definition settledAs :: "extended_options \<Rightarrow> jsv list \<Rightarrow> jsv outcome \<Rightarrow> 'c \<Rightarrow> 'c \<Rightarrow> bool" where
  "settledAs options evs r d d' =
     (case r of
        Resolve v \<Rightarrow> committedWith env st store work evs d d'
      | Reject e \<Rightarrow> d' = d \<or> \<not> shouldRollback e options \<and> exemptedWith env st store work evs d d')"

text \<open>After the adapter: observers and hooks that write nothing, and the outcome.\<close>

lemma late_world:
  assumes "vacant s w"
  shows "afterAdapterRejected env a ds options corr start cell e w = Some (r, w') \<Longrightarrow> r = Reject e \<and> db w' = db w"
    and "afterAdapterResolved env a ds options corr start cell x w = Some (r, w') \<Longrightarrow>
      settleResult x w' = Some (r, w') \<and> db w' = db w"
proof -
  have told: "db w1 = db w \<and> vacant s w1" if "bystander w w1" for w1
    using that vacant_framed[OF _ assms] by (simp add: bystander_def sidestep_def)
  have ran: "db w2 = db w" if "bystander w w1" "runHooks env sel t arg 0 w1 = Some w2" for w1 w2 sel t arg
    using told[OF that(1)] lateHooks_write_nothing[OF that(2), where s = s] by simp
  show "r = Reject e \<and> db w' = db w" if "afterAdapterRejected env a ds options corr start cell e w = Some (r, w')"
    using that ran[OF notified_bystander(3)]
    by (auto simp: afterAdapterRejected_def markRolledBack_def split: option.splits)
  show "settleResult x w' = Some (r, w') \<and> db w' = db w"
    if "afterAdapterResolved env a ds options corr start cell x w = Some (r, w')"
    using that ran[OF notified_bystander(2)]
    by (cases x) (auto simp: afterAdapterResolved_def split: option.splits)
qed

lemma quiet_vacant: "quiet w w' \<Longrightarrow> vacant s w \<Longrightarrow> vacant s w'"
  by (rule vacant_framed[OF quiet_framedAll])

lemma quiet_clear: "quiet w w' \<Longrightarrow> clear evs w \<Longrightarrow> clear evs w'"
  by (simp add: clear_def quiet_obw)

lemma startBody_outboxed:
  assumes vac: "vacant s w" and clear: "clear evs w"
    and run: "startBody env (adapterOf env k) a (os_dataSource st) options corr start cell
      (publishingBody env deps eds bus work evs fin) w = Some (r, w')"
  shows "settledAs options evs r (db w) (db w')"
proof -
  let ?cb = "txCallback env a (os_dataSource st) options corr cell (publishingBody env deps eds bus work evs fin)"
  obtain r1 w1 where call: "a_runInTransaction (adapterOf env k) options ?cb w = Some (r1, w1)"
    and rest: "(case r1 of Reject e \<Rightarrow> afterAdapterRejected env a (os_dataSource st) options corr start cell e w1
        | Resolve x \<Rightarrow> afterAdapterResolved env a (os_dataSource st) options corr start cell x w1) = Some (r, w')"
    using run unfolding startBody_def by (auto split: option.splits prod.splits outcome.splits)
  have cb: "vacant s w3 \<and> (\<forall>x. r2 = Resolve x \<longrightarrow> bodyLeft options evs x (db w2) (db w3))"
    if "quiet w w2" "?cb h w2 = Some (r2, w3)" for h w2 r2 w3
    by (rule txCallback_outboxed[OF quiet_vacant[OF that(1) vac] quiet_clear[OF that(1) clear] that(2)])
  have vac1: "vacant s w1"
    using lawful_adapter.in_transaction[OF adapters_lawful call] cb quiet_vacant vac unfolding wraps_def by blast
  show ?thesis
  proof (cases r1)
    case (Reject e)
    have "db w1 = db w" using committing_adapter.rejected_undone[OF adapters] call Reject by blast
    moreover have "r = Reject e \<and> db w' = db w1"
      using rest Reject late_world(1)[OF vac1] by simp
    ultimately show ?thesis by (simp add: settledAs_def)
  next
    case (Resolve x)
    obtain h w2 w3 where in_tx: "quiet w w2" "db w2 = db w" "?cb h w2 = Some (Resolve x, w3)" "db w1 = db w3"
      using committing_adapter.resolved_sealed[OF adapters] call Resolve by blast
    then have kept: "bodyLeft options evs x (db w) (db w1)" using cb[OF in_tx(1,3)] by simp
    have "settleResult x w' = Some (r, w') \<and> db w' = db w1"
      using rest Resolve late_world(2)[OF vac1] by simp
    then show ?thesis using kept by (cases x) (auto simp: settledAs_def bodyLeft_def)
  qed
qed

lemma startNew_outboxed:
  assumes out: "als w = None" and clear: "clear evs w"
    and run: "startNew env (adapterOf env k) a (os_dataSource st) options
      (publishingBody env deps eds bus work evs fin) w = Some (r, w')"
  shows "settledAs options evs r (db w) (db w')"
proof -
  define w1 where "w1 = w\<lparr>cells := (cells w)(Suc (fresh w) := None),
      als := Some (Suc (Suc (fresh w))),
      stores := (stores w)(Suc (Suc (fresh w)) := newStore (fresh w) (now w)),
      fresh := Suc (Suc (Suc (fresh w)))\<rparr>"
  from run out obtain w2
    where w2: "startBody env (adapterOf env k) a (os_dataSource st) options (fresh w) (now w) (Suc (fresh w))
      (publishingBody env deps eds bus work evs fin) w1 = Some (r, w2)"
      and w': "w' = w2\<lparr>als := None\<rparr>"
    unfolding startNew_def contextRun_def w1_def
    by (auto simp: Let_def getStore_def split: option.splits prod.splits)
  have vac: "vacant (Suc (Suc (fresh w))) w1" by (simp add: vacant_def w1_def newStore_def)
  have clear1: "clear evs w1" using clear by (simp add: clear_def w1_def)
  have "db w1 = db w" by (simp add: w1_def)
  then show ?thesis
    using startBody_outboxed[OF vac clear1 w2] unfolding w' by simp
qed

lemma run_outboxed:
  assumes "als w = None" and "clear evs w"
    and "resolveAdapterIdentifiers options (registry w) = Inr (a, os_dataSource st)"
    and mode: "o_propagation options \<in> {None, Some REQUIRED, Some REQUIRES_NEW, Some NESTED}"
    and "o_retry options = None"
    and run: "run env options (publishingBody env deps eds bus work evs fin) w = Some (r, w')"
  shows "settledAs options evs r (db w) (db w')"
proof -
  let ?body = "publishingBody env deps eds bus work evs fin"
  have "withAdapter env a (os_dataSource st)
      (\<lambda>ad. startNewWithRetry env ad a (os_dataSource st) options ?body) w = Some (r, w')"
    using run mode assms(1,3)
    by (auto simp: run_def Let_def getActiveTransaction_outside)
  then consider e where "raise e w = Some (r, w')"
    | k where "startNew env (adapterOf env k) a (os_dataSource st) options ?body w = Some (r, w')"
    using assms(5) by (auto simp: withAdapter_def startNewWithRetry_def normalizeRetry_def split: sum.splits)
  then show ?thesis
  proof cases
    case 1
    then show ?thesis by (auto simp: raise_settles settledAs_def)
  next
    case 2
    from startNew_outboxed[OF assms(1,2) this] show ?thesis .
  qed
qed

end

section \<open>The property\<close>

text \<open>
  C5. The transactional outbox. A call of \<open>run\<close> outside any transaction, without retries, on the
  dataSource of the outbox, whose function works, publishes new events on the wrapped bus and goes
  on. When it resolves, the database holds what the work wrote in that transaction, and, added
  through the transaction's native object, one message for each externalized event, in order. When
  it rejects, whatever rejected, a listener, the outbox, the commit, the database is as before,
  unless the error is one that the options exempt from rollback: then the transaction has
  committed what the work wrote, and of the messages none, some or all, the first of them in order.
\<close>

theorem outbox_follows_transaction:
  assumes "publishing env lib st code own store deps bus work fin"
    and "als w = None" and "clear evs w"
    and "resolveAdapterIdentifiers options (registry w) = Inr (a, os_dataSource st)"
    and "o_propagation options \<in> {None, Some REQUIRED, Some REQUIRES_NEW, Some NESTED}"
    and "o_retry options = None"
    and "run env options (publishingBody env deps eds bus work evs fin) w = Some (r, w')"
  shows "case r of
      Resolve v \<Rightarrow> committedWith env st store work evs (db w) (db w')
    | Reject e \<Rightarrow> db w' = db w \<or> \<not> shouldRollback e options \<and> exemptedWith env st store work evs (db w) (db w')"
  using publishing.run_outboxed[OF assms] by (simp add: publishing.settledAs_def[OF assms(1)])

text \<open>A TypeORM application with an outbox that appends to a table.\<close>

definition baseEnv :: "(nat, nat, (jsv \<times> outbox_message) list, unit) obw_env" where
  "baseEnv =
     \<lparr>adapterOf = (\<lambda>k. TypeOrmTransactionAdapter (sealingLib (\<lambda>d0 d. d) ''postgres'') 0 (\<lambda>w. 0) ''default''),
      callHook = (\<lambda>h arg. ret Undef), awaitAll = (\<lambda>ps. ret Undef), observers = [], random = (\<lambda>w. 0)\<rparr>"

definition outboxSettings :: "sample_outbox outbox_settings" where
  "outboxSettings = OutboxEventPublisher baseEnv None None sampleExternalized"

definition outboxEnv :: "(nat, nat, (jsv \<times> outbox_message) list, unit) obw_env" where
  "outboxEnv = baseEnv\<lparr>callHook :=
     cqrsCallHook (\<lambda>m ev err. ret Undef) (outboxCallHook logOutbox outboxSettings (\<lambda>a arg. ret Undef))\<rparr>"

definition outboxDeps :: "sample_outbox publisher_dependencies" where
  "outboxDeps = \<lparr>dep_inner = (\<lambda>ev ctx a. ret Undef), dep_outbox = Some (outbox.port outboxSettings)\<rparr>"

definition outboxBus :: "sample_outbox event_bus" where
  "outboxBus = \<lparr>bus_publish = publish outboxDeps, bus_publishAll = publishAll outboxDeps, bus_wrapped = False\<rparr>"

definition outboxOutside :: sample_outbox where
  "outboxOutside = sampleOutbox\<lparr>als := None\<rparr>"

abbreviation publishTwo :: "(sample_outbox, jsv) comp \<Rightarrow> (sample_outbox, jsv) comp" where
  "publishTwo fin \<equiv> publishingBody outboxEnv outboxDeps ''default'' outboxBus (ret Undef)
     [orderEvent, JObj 3 [''Internal''] []] fin"

lemma outboxEnv_native: "os_resolve outboxSettings = nativeTransactionOf outboxEnv"
  by (rule ext)+ (simp add: outboxSettings_def OutboxEventPublisher_def outboxEnv_def nativeTransactionOf_def
      split: sum.split)

lemma typeorm_outbox:
  "outbox_application outboxEnv logOutbox outboxSettings (\<lambda>m ev err. ret Undef) (\<lambda>a arg. ret Undef)
     (\<lambda>tx msg d. d @ [(tx, msg)])"
proof (rule outbox_application.intro)
  show "atomic_adapter (adapterOf outboxEnv k)" for k
    unfolding outboxEnv_def baseEnv_def using sealing.committing.committing_adapter_axioms by simp
qed (simp_all add: outboxEnv_native outboxEnv_def baseEnv_def logOutbox_def keeps_ret)

interpretation samplePublishing: publishing outboxEnv logOutbox outboxSettings "\<lambda>m ev err. ret Undef"
    "\<lambda>a arg. ret Undef" "\<lambda>tx msg d. d @ [(tx, msg)]" outboxDeps outboxBus "''default''" "ret Undef" "ret Null"
  by (rule publishing.intro[OF typeorm_outbox publishing_axioms.intro])
    (simp_all add: outboxDeps_def outboxBus_def keeps_ret)

lemma outbox_follows_transaction_witness:
  "\<exists>w'. run outboxEnv no_options (publishTwo (ret Null)) outboxOutside = Some (Resolve Null, w') \<and>
     committedWith outboxEnv outboxSettings (\<lambda>tx msg d. d @ [(tx, msg)]) (ret Undef)
       [orderEvent, JObj 3 [''Internal''] []] [] (db w') \<and>
     map (payload \<circ> snd) (db w') = [orderEvent]"
proof -
  have "map_option (\<lambda>(r, w). (r, map (payload \<circ> snd) (db w)))
      (run outboxEnv no_options (publishTwo (ret Null)) outboxOutside) = Some (Resolve Null, [orderEvent])"
    by code_simp
  then obtain w' where run: "run outboxEnv no_options (publishTwo (ret Null)) outboxOutside = Some (Resolve Null, w')"
    and "map (payload \<circ> snd) (db w') = [orderEvent]" by auto
  moreover have "als outboxOutside = None" "clear [orderEvent, JObj 3 [''Internal''] []] outboxOutside" "db outboxOutside = []"
    by (simp_all add: outboxOutside_def sampleOutbox_def clear_def newEvents_def orderEvent_def)
  moreover have "resolveAdapterIdentifiers no_options (registry outboxOutside) = Inr (''typeorm'', os_dataSource outboxSettings)"
    by code_simp
  ultimately show ?thesis
    using outbox_follows_transaction[OF samplePublishing.publishing_axioms, of outboxOutside
        "[orderEvent, JObj 3 [''Internal''] []]" no_options "''typeorm''" "''default''" "Resolve Null" w']
    by (simp add: no_options_def)
qed

end
