(* ===== verification/Interleaving.thy ===== *)
theory Interleaving
  imports Core_Types
begin

text \<open>
  Concurrent calls of \<open>TransactionManager.run\<close>
  (\<open>packages/core/src/manager/transaction.manager.ts\<close>). JavaScript runs a task up to its
  next await without interruption, so a step of this model is what one task does between two
  awaits, and any task may take the next step. The tasks share the active transactions of the
  stores; a key is a place in one store's map, so tasks started in different stores, such as
  two requests, have no key in common.

  Only lookups by key are modelled: the map is a function, its order is left out, and so are
  the lookup of the adapter, hooks, observers, retries and the rollback rules (every error
  rolls back). What the adapter
  makes of the n-th transaction of a task, whether it begins and whether it commits, is a
  parameter of the steps.
\<close>

section \<open>Programs and tasks\<close>

text \<open>
  What a function given to \<open>run\<close> does: look up the active transaction of a key, throw, or
  await a nested call of \<open>run\<close> and pass its error on.
\<close>

datatype 'k code = Work 'k | Throw | CallRun propagation_mode 'k "'k code list"

text \<open>A transaction is named by the task that began it and its number there.\<close>

type_synonym tx_id = "nat \<times> nat"
type_synonym 'k slots = "'k \<Rightarrow> tx_id option"
type_synonym adapter_outcomes = "tx_id \<Rightarrow> bool \<times> bool"

text \<open>
  The calls of \<open>run\<close> a task is inside of, innermost first: whether the call has a
  transaction of its own and how far it got, the entry it must put back when it settles, and
  what is left of its function.
\<close>

datatype 'k phase = Direct | Opening 'k | Opened 'k tx_id | Closing tx_id

datatype 'k frame = Frame (phaseOf: "'k phase") (suspendedEntry: "('k \<times> tx_id) option") (remaining: "'k code list")

record 'k task_log =
  failing :: bool
  openedCount :: nat
  seen :: "('k \<times> tx_id option) list"
  finished :: "(tx_id \<times> bool) list"

definition newOutcome :: "'k task_log" where
  "newOutcome = \<lparr>failing = False, openedCount = 0, seen = [], finished = []\<rparr>"

definition failed :: "'k task_log \<Rightarrow> 'k task_log" where
  "failed out = out\<lparr>failing := True\<rparr>"

definition look :: "'k \<Rightarrow> tx_id option \<Rightarrow> 'k task_log \<Rightarrow> 'k task_log" where
  "look k tx out = out\<lparr>seen := seen out @ [(k, tx)]\<rparr>"

definition counted :: "'k task_log \<Rightarrow> 'k task_log" where
  "counted out = out\<lparr>openedCount := Suc (openedCount out)\<rparr>"

text \<open>The adapter's commit, or its rollback when the function failed.\<close>

definition ended :: "adapter_outcomes \<Rightarrow> tx_id \<Rightarrow> 'k task_log \<Rightarrow> 'k task_log" where
  "ended ad tx out =
     (let ok = \<not> failing out \<and> snd (ad tx)
      in out\<lparr>failing := \<not> ok, finished := finished out @ [(tx, ok)]\<rparr>)"

text \<open>The switch of \<open>run\<close>: what the mode does, given the entry of the key.\<close>

datatype entry_kind = Refused | Joined | Suspended | Fresh

fun entry :: "propagation_mode \<Rightarrow> tx_id option \<Rightarrow> entry_kind" where
  "entry REQUIRED existing = (if existing \<noteq> None then Joined else Fresh)"
| "entry REQUIRES_NEW existing = Fresh"
| "entry NESTED existing = (if existing = None then Fresh else Joined)"
| "entry SUPPORTS existing = Joined"
| "entry NOT_SUPPORTED existing = (if existing = None then Joined else Suspended)"
| "entry NEVER existing = (if existing \<noteq> None then Refused else Joined)"
| "entry MANDATORY existing = (if existing = None then Refused else Joined)"

definition putBack :: "('k \<times> tx_id) option \<Rightarrow> 'k slots \<Rightarrow> 'k slots" where
  "putBack r m = (case r of None \<Rightarrow> m | Some (k, tx) \<Rightarrow> m(k \<mapsto> tx))"

section \<open>Steps\<close>

text \<open>
  The next command of a function whose call is \<open>Frame p r cs\<close>. The synchronous part of
  \<open>run\<close> reads the entry and takes it out when the mode suspends it.
\<close>

definition performNext ::
    "'k code \<Rightarrow> 'k frame \<Rightarrow> 'k frame list \<Rightarrow> 'k task_log \<Rightarrow> 'k slots \<Rightarrow>
     'k frame list \<times> 'k task_log \<times> 'k slots" where
  "performNext c f fs out m =
     (case c of
        Work k \<Rightarrow> (f # fs, look k (m k) out, m)
      | Throw \<Rightarrow> (f # fs, failed out, m)
      | CallRun mode k body \<Rightarrow>
          (case entry mode (m k) of
             Refused \<Rightarrow> (f # fs, failed out, m)
           | Joined \<Rightarrow> (Frame Direct None body # f # fs, out, m)
           | Suspended \<Rightarrow> (Frame Direct (map_option (Pair k) (m k)) body # f # fs, out, m(k := None))
           | Fresh \<Rightarrow> (Frame (Opening k) (map_option (Pair k) (m k)) body # f # fs, out, m(k := None))))"

text \<open>
  One step of task \<open>i\<close>. The adapter calls back with a new transaction, which is recorded; the
  function settles, and its entry is removed before the adapter commits or rolls back; then
  the call settles and puts the suspended entry back.
\<close>

fun advance ::
    "adapter_outcomes \<Rightarrow> nat \<Rightarrow> 'k frame list \<Rightarrow> 'k task_log \<Rightarrow> 'k slots \<Rightarrow>
     ('k frame list \<times> 'k task_log \<times> 'k slots) option" where
  "advance ad i [] out m = None"
| "advance ad i (Frame (Opening k) r cs # fs) out m =
     (let tx = (i, openedCount out)
      in if fst (ad tx) then Some (Frame (Opened k tx) r cs # fs, counted out, m(k \<mapsto> tx))
         else Some (Frame Direct r [] # fs, failed (counted out), m))"
| "advance ad i (Frame Direct r [] # fs) out m = Some (fs, out, putBack r m)"
| "advance ad i (Frame (Opened k tx) r [] # fs) out m =
     Some (Frame (Closing tx) r [] # fs, out, m(k := None))"
| "advance ad i (Frame (Closing tx) r cs # fs) out m = Some (Frame Direct r [] # fs, ended ad tx out, m)"
| "advance ad i (Frame p r (c # cs) # fs) out m =
     (if failing out then Some (Frame p r [] # fs, out, m)
      else Some (performNext c (Frame p r cs) fs out m))"

record 'k config =
  tasks :: "('k frame list \<times> 'k task_log) list"
  slots :: "'k slots"

definition initial :: "'k code list list \<Rightarrow> 'k slots \<Rightarrow> 'k config" where
  "initial ps m = \<lparr>tasks = map (\<lambda>p. ([Frame Direct None p], newOutcome)) ps, slots = m\<rparr>"

text \<open>A step of a named task, none when it is done.\<close>

definition taskStep :: "adapter_outcomes \<Rightarrow> nat \<Rightarrow> 'k config \<Rightarrow> 'k config option" where
  "taskStep ad i c =
     (if i < length (tasks c)
      then map_option (\<lambda>(fs, out, m). c\<lparr>tasks := (tasks c)[i := (fs, out)], slots := m\<rparr>)
             (advance ad i (fst (tasks c ! i)) (snd (tasks c ! i)) (slots c))
      else None)"

inductive step :: "adapter_outcomes \<Rightarrow> 'k config \<Rightarrow> 'k config \<Rightarrow> bool" for ad where
  task: "taskStep ad i c = Some c' \<Longrightarrow> step ad c c'"

inductive_cases stepE: "step ad c c'"

inductive reachable :: "adapter_outcomes \<Rightarrow> 'k config \<Rightarrow> 'k config \<Rightarrow> bool" for ad c0 where
  start: "reachable ad c0 c0"
| more: "reachable ad c0 c \<Longrightarrow> step ad c c' \<Longrightarrow> reachable ad c0 c'"

text \<open>Running a schedule, the tasks named in turn.\<close>

fun runSchedule :: "adapter_outcomes \<Rightarrow> nat list \<Rightarrow> 'k config \<Rightarrow> 'k config option" where
  "runSchedule ad [] c = Some c"
| "runSchedule ad (i # is) c = (case taskStep ad i c of None \<Rightarrow> None | Some c' \<Rightarrow> runSchedule ad is c')"

section \<open>The specification: lexical scope\<close>

text \<open>
  What a program should see and do, with no tasks and no shared map: the entries are an
  environment, changed for the function of a call and otherwise passed along.
\<close>

function (sequential) scoped ::
    "adapter_outcomes \<Rightarrow> nat \<Rightarrow> 'k code list \<Rightarrow> 'k slots \<Rightarrow> 'k task_log \<Rightarrow> 'k task_log" where
  "scoped ad i [] env out = out"
| "scoped ad i (c # cs) env out =
     (if failing out then out
      else scoped ad i cs env
        (case c of
           Work k \<Rightarrow> look k (env k) out
         | Throw \<Rightarrow> failed out
         | CallRun mode k body \<Rightarrow>
             (case entry mode (env k) of
                Refused \<Rightarrow> failed out
              | Joined \<Rightarrow> scoped ad i body env out
              | Suspended \<Rightarrow> scoped ad i body (env(k := None)) out
              | Fresh \<Rightarrow>
                  (let tx = (i, openedCount out)
                   in if fst (ad tx) then ended ad tx (scoped ad i body (env(k \<mapsto> tx)) (counted out))
                      else failed (counted out)))))"
  by pat_completeness auto
termination
  by (relation "measure (\<lambda>(ad, i, cs, env, out). size_list size cs)") auto


section \<open>What a task should see\<close>

definition hide :: "('k \<times> tx_id) option \<Rightarrow> 'k slots \<Rightarrow> 'k slots" where
  "hide r m = (case r of None \<Rightarrow> m | Some (k, tx) \<Rightarrow> m(k := None))"

text \<open>The environment of the innermost call, from the entries before the task started.\<close>

fun scope :: "'k slots \<Rightarrow> 'k frame list \<Rightarrow> 'k slots" where
  "scope m [] = m"
| "scope m (Frame p r cs # fs) =
     (case p of Opened k tx \<Rightarrow> (hide r (scope m fs))(k \<mapsto> tx) | _ \<Rightarrow> hide r (scope m fs))"

text \<open>
  Frames are in order when every suspended entry is the one the call found, and a call with a
  transaction of its own found none or suspended it.
\<close>

fun inOrder :: "'k slots \<Rightarrow> 'k frame list \<Rightarrow> bool" where
  "inOrder m [] \<longleftrightarrow> True"
| "inOrder m (Frame p r cs # fs) \<longleftrightarrow> inOrder m fs \<and>
     (case r of None \<Rightarrow> True | Some (k, tx) \<Rightarrow> scope m fs k = Some tx) \<and>
     (case p of Opening k \<Rightarrow> hide r (scope m fs) k = None | Opened k tx \<Rightarrow> hide r (scope m fs) k = None
      | Closing tx \<Rightarrow> cs = [] | Direct \<Rightarrow> True)"

text \<open>What the specification makes of the rest of a task.\<close>

definition settled :: "adapter_outcomes \<Rightarrow> nat \<Rightarrow> 'k phase \<Rightarrow> 'k code list \<Rightarrow> 'k slots \<Rightarrow> 'k task_log \<Rightarrow> 'k task_log" where
  "settled ad i p cs env out =
     (case p of
        Direct \<Rightarrow> scoped ad i cs env out
      | Opened k tx \<Rightarrow> ended ad tx (scoped ad i cs env out)
      | Closing tx \<Rightarrow> ended ad tx out
      | Opening k \<Rightarrow>
          (let tx = (i, openedCount out)
           in if fst (ad tx) then ended ad tx (scoped ad i cs (env(k \<mapsto> tx)) (counted out))
              else failed (counted out)))"

fun completed :: "adapter_outcomes \<Rightarrow> nat \<Rightarrow> 'k slots \<Rightarrow> 'k frame list \<Rightarrow> 'k task_log \<Rightarrow> 'k task_log" where
  "completed ad i m [] out = out"
| "completed ad i m (Frame p r cs # fs) out =
     completed ad i m fs (settled ad i p cs (scope m (Frame p r cs # fs)) out)"

lemma scoped_failing [simp]: "failing out \<Longrightarrow> scoped ad i cs env out = out"
  by (cases cs) simp_all

lemma failing_failed [simp]: "failing (failed out)"
  by (simp add: failed_def)

lemma putBack_hide:
  "case r of None \<Rightarrow> True | Some (k, tx) \<Rightarrow> m k = Some tx \<Longrightarrow> putBack r (hide r m) = m"
  by (auto simp: putBack_def hide_def split: option.splits)

lemma hide_found [simp]: "hide (map_option (Pair k) (m k)) m = m(k := None)"
  by (cases "m k") (auto simp: hide_def)

lemma upd_None: "m k = None \<Longrightarrow> m(k := None) = m"
  by auto

text \<open>What the specification makes of the next command.\<close>

definition scopedOne :: "adapter_outcomes \<Rightarrow> nat \<Rightarrow> 'k code \<Rightarrow> 'k slots \<Rightarrow> 'k task_log \<Rightarrow> 'k task_log" where
  "scopedOne ad i c env out =
     (case c of
        Work k \<Rightarrow> look k (env k) out
      | Throw \<Rightarrow> failed out
      | CallRun mode k body \<Rightarrow>
          (case entry mode (env k) of
             Refused \<Rightarrow> failed out
           | Joined \<Rightarrow> scoped ad i body env out
           | Suspended \<Rightarrow> scoped ad i body (env(k := None)) out
           | Fresh \<Rightarrow> settled ad i (Opening k) body (env(k := None)) out))"

lemma scoped_Cons:
  "\<not> failing out \<Longrightarrow> scoped ad i (c # cs) env out = scoped ad i cs env (scopedOne ad i c env out)"
  by (cases c) (auto simp: scopedOne_def settled_def Let_def split: entry_kind.split)

declare scoped.simps(2) [simp del]

text \<open>Alone, a task keeps the shared map equal to its scope, and its completion never changes.\<close>

lemma performNext_scope:
  assumes "performNext c f fs out (scope m (f # fs)) = (fs', out', m')" and "inOrder m (f # fs)"
  shows "m' = scope m fs' \<and> inOrder m fs' \<and>
    completed ad i m fs' out' = completed ad i m (f # fs) (scopedOne ad i c (scope m (f # fs)) out)"
proof (cases c)
  case (CallRun mode k body)
  have found: "case map_option (Pair k) (scope m (f # fs) k) of
      None \<Rightarrow> True | Some (k', tx) \<Rightarrow> scope m (f # fs) k' = Some tx"
    by (cases "scope m (f # fs) k") simp_all
  show ?thesis
    using assms found unfolding CallRun
    by (cases "entry mode (scope m (f # fs) k)")
      (auto simp: performNext_def scopedOne_def settled_def hide_def upd_None
         simp del: fun_upd_apply split: option.splits intro: fun_upd_same)
qed (use assms in \<open>auto simp: performNext_def scopedOne_def\<close>)

lemma advance_scope:
  assumes "advance ad i fs out (scope m fs) = Some (fs', out', m')" and "inOrder m fs"
  shows "m' = scope m fs' \<and> inOrder m fs' \<and> completed ad i m fs' out' = completed ad i m fs out"
proof (cases fs)
  case (Cons f fs1)
  obtain p r cs where f: "f = Frame p r cs" by (cases f)
  show ?thesis
  proof (cases cs)
    case Nil
    then show ?thesis using assms unfolding Cons f
      by (cases p) (auto simp: Let_def settled_def putBack_hide upd_None split: if_splits option.splits)
  next
    case (Cons c cs1)
    note parts = \<open>fs = f # fs1\<close> f Cons
    show ?thesis
    proof (cases "p = Direct \<or> (\<exists>k tx. p = Opened k tx)")
      case True
      then have "advance ad i fs out (scope m fs) =
          (if failing out then Some (Frame p r [] # fs1, out, scope m fs)
           else Some (performNext c (Frame p r cs1) fs1 out (scope m fs)))"
        unfolding parts by auto
      then show ?thesis
        using assms performNext_scope[of c "Frame p r cs1" fs1 out m fs' out' m' ad i] True unfolding parts
        by (auto simp: settled_def scoped_Cons split: if_splits)
    next
      case False
      then show ?thesis using assms unfolding parts
        by (cases p) (auto simp: Let_def settled_def split: if_splits option.splits)
    qed
  qed
qed (use assms in simp)


section \<open>Tasks with keys of their own\<close>

text \<open>Every key a task's frames mention; the datatypes come with it.\<close>

abbreviation keysIn :: "'k frame list \<Rightarrow> 'k set" where
  "keysIn fs \<equiv> \<Union>(set_frame ` set fs)"

text \<open>\<open>n\<close> changed to \<open>m'\<close> at the keys in \<open>K\<close>.\<close>

abbreviation merged :: "'k set \<Rightarrow> 'k slots \<Rightarrow> 'k slots \<Rightarrow> 'k slots" where
  "merged K m' n \<equiv> (\<lambda>k. if k \<in> K then m' k else n k)"

lemma merged_same: "\<forall>k \<in> K. n k = m k \<Longrightarrow> merged K m n = n"
  by auto

lemma merged_upd: "\<forall>k \<in> K. n k = m k \<Longrightarrow> k \<in> K \<Longrightarrow> merged K (m(k := x)) n = n(k := x)"
  by auto

lemma outside_upd: "k' \<in> K \<Longrightarrow> k \<notin> K \<Longrightarrow> (m(k' := x)) k = m k"
  by auto

lemma performNext_local:
  assumes "performNext c f fs out m = (fs', out', m')" and "set_code c \<subseteq> K" and "keysIn (f # fs) \<subseteq> K"
    and "\<forall>k \<in> K. n k = m k"
  shows "keysIn fs' \<subseteq> K \<and> (\<forall>k. k \<notin> K \<longrightarrow> m' k = m k) \<and>
    performNext c f fs out n = (fs', out', merged K m' n)"
proof (cases c)
  case (CallRun mode k body)
  with assms(2) have k: "k \<in> K" and body: "\<Union>(set_code ` set body) \<subseteq> K" by auto
  from k assms(4) have nk: "n k = m k" by simp
  have r: "\<Union>(Basic_BNFs.fsts ` set_option (map_option (Pair k) (m k))) \<subseteq> K"
    using k by (cases "m k") auto
  show ?thesis
    using assms(1,3) k body r nk merged_same[OF assms(4)] merged_upd[OF assms(4) k]
    unfolding CallRun
    by (cases "entry mode (m k)"; clarsimp simp: performNext_def outside_upd simp del: fun_upd_apply)
qed (use assms merged_same[OF assms(4)] in \<open>auto simp: performNext_def\<close>)

lemma putBack_local:
  assumes "\<Union>(Basic_BNFs.fsts ` set_option r) \<subseteq> K" and "\<forall>k \<in> K. n k = m k"
  shows "\<forall>k. k \<notin> K \<longrightarrow> putBack r m k = m k" and "putBack r n = merged K (putBack r m) n"
  using assms by (auto simp: putBack_def split: option.split)

text \<open>A step reads and changes the shared map at the task's keys only.\<close>

lemma advance_local:
  assumes "advance ad i fs out m = Some (fs', out', m')" and "keysIn fs \<subseteq> K"
    and "\<forall>k \<in> K. n k = m k"
  shows "keysIn fs' \<subseteq> K \<and> (\<forall>k. k \<notin> K \<longrightarrow> m' k = m k) \<and>
    advance ad i fs out n = Some (fs', out', merged K m' n)"
proof (cases fs)
  case (Cons f fs1)
  obtain p r cs where f: "f = Frame p r cs" by (cases f)
  note same = merged_same[OF assms(3)]
  show ?thesis
  proof (cases cs)
    case Nil
    show ?thesis
    proof (cases p)
      case Direct
      with assms show ?thesis unfolding \<open>fs = f # fs1\<close> f Nil
        using putBack_local[OF _ assms(3), of r] by clarsimp
    qed (use assms same merged_upd[OF assms(3)] in
      \<open>clarsimp simp: Cons f Nil Let_def outside_upd simp del: fun_upd_apply split: if_splits\<close>)+
  next
    case (Cons c cs1)
    note parts = \<open>fs = f # fs1\<close> f Cons
    show ?thesis
    proof (cases "p = Direct \<or> (\<exists>k tx. p = Opened k tx)")
      case True
      then have one: "advance ad i fs out m =
          (if failing out then Some (Frame p r [] # fs1, out, m)
           else Some (performNext c (Frame p r cs1) fs1 out m))" for m
        unfolding parts by auto
      have "set_code c \<subseteq> K" "keysIn (Frame p r cs1 # fs1) \<subseteq> K" "keysIn (Frame p r [] # fs1) \<subseteq> K"
        using assms(2) unfolding parts by auto
      note keys = this
      show ?thesis
      proof (cases "failing out")
        case True
        with assms(1) have "fs' = Frame p r [] # fs1" "out' = out" "m' = m" unfolding one by auto
        with keys(3) merged_same[OF assms(3)] True show ?thesis unfolding one by (simp only: if_True) simp
      next
        case False
        with assms(1) have "performNext c (Frame p r cs1) fs1 out m = (fs', out', m')" unfolding one by simp
        from performNext_local[OF this keys(1,2) assms(3)] False show ?thesis unfolding one by simp
      qed
    next
      case False
      then show ?thesis using assms same merged_upd[OF assms(3)] unfolding parts
        by (cases p; clarsimp simp: Let_def outside_upd simp del: fun_upd_apply split: if_splits)
    qed
  qed
qed (use assms in simp)


section \<open>The invariant of concurrent tasks\<close>

text \<open>
  \<open>Ks\<close> gives each task the keys it may mention, \<open>m0\<close> is the map the tasks start with.
\<close>

definition ownKeys :: "'k code list list \<Rightarrow> (nat \<Rightarrow> 'k set) \<Rightarrow> bool" where
  "ownKeys ps Ks \<longleftrightarrow> (\<forall>i < length ps. \<Union>(set_code ` set (ps ! i)) \<subseteq> Ks i) \<and>
     (\<forall>i j. i \<noteq> j \<longrightarrow> Ks i \<inter> Ks j = {})"

definition taskOk ::
    "adapter_outcomes \<Rightarrow> 'k code list list \<Rightarrow> (nat \<Rightarrow> 'k set) \<Rightarrow> 'k slots \<Rightarrow> 'k config \<Rightarrow> nat \<Rightarrow> bool" where
  "taskOk ad ps Ks m0 c i \<longleftrightarrow>
     (let (fs, out) = tasks c ! i
      in keysIn fs \<subseteq> Ks i \<and> inOrder m0 fs \<and> (\<forall>k \<in> Ks i. slots c k = scope m0 fs k) \<and>
        completed ad i m0 fs out = scoped ad i (ps ! i) m0 newOutcome)"

definition configOk ::
    "adapter_outcomes \<Rightarrow> 'k code list list \<Rightarrow> (nat \<Rightarrow> 'k set) \<Rightarrow> 'k slots \<Rightarrow> 'k config \<Rightarrow> bool" where
  "configOk ad ps Ks m0 c \<longleftrightarrow> length (tasks c) = length ps \<and> (\<forall>i < length ps. taskOk ad ps Ks m0 c i) \<and>
     (\<forall>k. k \<notin> (\<Union>i < length ps. Ks i) \<longrightarrow> slots c k = m0 k)"

lemma initial_ok: "ownKeys ps Ks \<Longrightarrow> configOk ad ps Ks m0 (initial ps m0)"
  by (auto simp: configOk_def taskOk_def initial_def ownKeys_def hide_def settled_def)

lemma step_ok:
  assumes "ownKeys ps Ks" and "configOk ad ps Ks m0 c" and "step ad c c'"
  shows "configOk ad ps Ks m0 c'"
  using assms(3)
proof (rule stepE)
  fix i
  assume "taskStep ad i c = Some c'"
  then obtain fs out m where i: "i < length (tasks c)"
    and adv: "advance ad i (fst (tasks c ! i)) (snd (tasks c ! i)) (slots c) = Some (fs, out, m)"
    and c': "c' = c\<lparr>tasks := (tasks c)[i := (fs, out)], slots := m\<rparr>"
    by (auto simp: taskStep_def split: if_splits)
  let ?fs = "fst (tasks c ! i)" and ?out = "snd (tasks c ! i)" and ?E = "scope m0 (fst (tasks c ! i))"
  have len: "length (tasks c) = length ps"
    and ok: "taskOk ad ps Ks m0 c j" if "j < length ps" for j
    using assms(2) that i by (auto simp: configOk_def)
  have own: "keysIn ?fs \<subseteq> Ks i" "inOrder m0 ?fs" "\<forall>k \<in> Ks i. ?E k = slots c k"
    and complete: "completed ad i m0 ?fs ?out = scoped ad i (ps ! i) m0 newOutcome"
    using ok[of i] i assms(2) by (auto simp: taskOk_def configOk_def case_prod_beta)
  from advance_local[OF adv own(1) own(3)]
  have keys: "keysIn fs \<subseteq> Ks i" and out: "\<forall>k. k \<notin> Ks i \<longrightarrow> m k = slots c k"
    and alone: "advance ad i ?fs ?out ?E = Some (fs, out, merged (Ks i) m ?E)"
    by auto
  from advance_scope[OF alone own(2)]
  have scope: "merged (Ks i) m ?E = scope m0 fs" and order: "inOrder m0 fs"
    and same: "completed ad i m0 fs out = completed ad i m0 ?fs ?out"
    by auto
  have "\<forall>k \<in> Ks i. m k = scope m0 fs k" unfolding scope[symmetric] by simp
  with keys order same complete i have mine: "taskOk ad ps Ks m0 c' i"
    by (simp add: taskOk_def c')
  have other: "taskOk ad ps Ks m0 c' j" if "j < length ps" "j \<noteq> i" for j
  proof -
    have "Ks i \<inter> Ks j = {}" using assms(1) that by (auto simp: ownKeys_def)
    then have "\<forall>k \<in> Ks j. m k = slots c k" using out by auto
    then show ?thesis using ok[OF that(1)] that(2) by (auto simp: taskOk_def c')
  qed
  have "slots c' k = m0 k" if "k \<notin> (\<Union>i < length ps. Ks i)" for k
    using that out i assms(2) by (auto simp: c' configOk_def)
  with mine other show ?thesis using assms(2) by (auto simp: configOk_def c')
qed

lemma reachable_ok:
  assumes "ownKeys ps Ks" and "reachable ad (initial ps m0) c"
  shows "configOk ad ps Ks m0 c"
  using assms(2) by induction (auto intro: initial_ok step_ok assms(1))


section \<open>Every schedule ends\<close>

text \<open>An upper bound for the steps a task may still take.\<close>

fun codeLoad :: "'k code \<Rightarrow> nat" where
  "codeLoad (CallRun mode k body) = 5 + sum_list (map codeLoad body)"
| "codeLoad _ = 1"

fun phaseLoad :: "'k phase \<Rightarrow> nat" where
  "phaseLoad Direct = 1"
| "phaseLoad (Closing tx) = 2"
| "phaseLoad (Opened k tx) = 3"
| "phaseLoad (Opening k) = 4"

definition frameLoad :: "'k frame \<Rightarrow> nat" where
  "frameLoad f = phaseLoad (phaseOf f) + sum_list (map codeLoad (remaining f))"

definition taskLoad :: "'k frame list \<Rightarrow> nat" where
  "taskLoad fs = sum_list (map frameLoad fs)"

definition configLoad :: "'k config \<Rightarrow> nat" where
  "configLoad c = sum_list (map (taskLoad \<circ> fst) (tasks c))"

lemma codeLoad_pos: "0 < codeLoad c"
  by (cases c) auto

lemma performNext_load:
  "performNext c f fs out m = (fs', out', m') \<Longrightarrow> taskLoad fs' < codeLoad c + taskLoad (f # fs)"
  by (cases c) (auto simp: performNext_def taskLoad_def frameLoad_def split: entry_kind.splits)

lemma advance_load:
  assumes "advance ad i fs out m = Some (fs', out', m')"
  shows "taskLoad fs' < taskLoad fs"
proof (cases fs)
  case (Cons f fs1)
  obtain p r cs where f: "f = Frame p r cs" by (cases f)
  show ?thesis
  proof (cases cs)
    case Nil
    with assms show ?thesis unfolding Cons f
      by (cases p) (auto simp: Let_def taskLoad_def frameLoad_def split: if_splits)
  next
    case (Cons c cs1)
    have load: "taskLoad (Frame p r cs # fs1) = codeLoad c + taskLoad (Frame p r cs1 # fs1)"
      unfolding Cons by (simp add: taskLoad_def frameLoad_def)
    have less: "taskLoad (Frame q r [] # fs1) < taskLoad (Frame p r cs # fs1)" if "phaseLoad q \<le> phaseLoad p" for q
      using codeLoad_pos[of c] that unfolding Cons by (simp add: taskLoad_def frameLoad_def)
    show ?thesis
    proof (cases p)
      case (Opening k)
      have "taskLoad (Frame (Opened k tx) r cs # fs1) < taskLoad (Frame p r cs # fs1)" for tx
        unfolding Opening by (simp add: taskLoad_def frameLoad_def)
      with assms less[of Direct] Opening show ?thesis unfolding \<open>fs = f # fs1\<close> f
        by (auto simp: Let_def split: if_splits)
    next
      case (Closing tx)
      with assms less[of Direct] show ?thesis unfolding \<open>fs = f # fs1\<close> f by auto
    qed (use assms less[of p] load performNext_load[of c "Frame p r cs1" fs1 out m fs' out' m'] in
      \<open>auto simp: \<open>fs = f # fs1\<close> f Cons split: if_splits\<close>)
  qed
qed (use assms in simp)

lemma step_load:
  assumes "step ad c c'"
  shows "configLoad c' < configLoad c"
  using assms
proof (rule stepE)
  fix i
  assume "taskStep ad i c = Some c'"
  then obtain fs out m where i: "i < length (tasks c)"
    and adv: "advance ad i (fst (tasks c ! i)) (snd (tasks c ! i)) (slots c) = Some (fs, out, m)"
    and c': "c' = c\<lparr>tasks := (tasks c)[i := (fs, out)], slots := m\<rparr>"
    by (auto simp: taskStep_def split: if_splits)
  have "taskLoad fs < map (taskLoad \<circ> fst) (tasks c) ! i"
    using advance_load[OF adv] i by simp
  moreover have "map (taskLoad \<circ> fst) (tasks c) ! i \<le> configLoad c"
    unfolding configLoad_def using i by (intro member_le_sum_list) auto
  ultimately show ?thesis
    using sum_list_update[of i "map (taskLoad \<circ> fst) (tasks c)" "taskLoad fs"] i
    by (simp add: configLoad_def c' map_update)
qed

lemma advance_possible: "fs \<noteq> [] \<Longrightarrow> advance ad i fs out m \<noteq> None"
proof -
  assume "fs \<noteq> []"
  then obtain p r cs fs1 where "fs = Frame p r cs # fs1" by (metis frame.exhaust neq_Nil_conv)
  then show ?thesis by (cases p; cases cs) (auto simp: Let_def, (metis prod_cases3)+)
qed

lemma stuck_done:
  assumes "\<And>c'. \<not> step ad c c'" and "i < length (tasks c)"
  shows "fst (tasks c ! i) = []"
proof (rule ccontr)
  assume "fst (tasks c ! i) \<noteq> []"
  from advance_possible[OF this, of ad i "snd (tasks c ! i)" "slots c"] assms(2)
  have "taskStep ad i c \<noteq> None" by (auto simp: taskStep_def)
  with assms(1) show False by (auto intro: step.task)
qed


lemma relpowp_reachable: "(step ad ^^ n) c0 c \<Longrightarrow> reachable ad c0 c"
  by (induction n arbitrary: c) (auto intro: reachable.intros)

lemma relpowp_load: "(step ad ^^ n) c0 c \<Longrightarrow> n + configLoad c \<le> configLoad c0"
  by (induction n arbitrary: c) (auto dest!: step_load, fastforce)

lemma schedule_reachable: "runSchedule ad is c = Some c' \<Longrightarrow> reachable ad c0 c \<Longrightarrow> reachable ad c0 c'"
proof (induction "is" arbitrary: c)
  case (Cons i "is")
  from Cons.prems(1) obtain c1 where c1: "taskStep ad i c = Some c1" "runSchedule ad is c1 = Some c'"
    by (auto split: option.splits)
  show ?case
    by (rule Cons.IH[OF c1(2)], rule reachable.more[OF Cons.prems(2)], rule step.task, rule c1(1))
qed simp

section \<open>Properties\<close>

text \<open>
  Two requests: one begins a transaction and, inside it, one of its own that fails; the other
  begins one on its own key. The adapter refuses the second request's commit.
\<close>

definition requests :: "nat code list list" where
  "requests =
     [[CallRun REQUIRED 0 [Work 0, CallRun REQUIRES_NEW 0 [Work 0, Throw]]], [CallRun NESTED 1 [Work 1]]]"

abbreviation noEntries :: "nat slots" where
  "noEntries \<equiv> \<lambda>_. None"

abbreviation refusesSecond :: adapter_outcomes where
  "refusesSecond \<equiv> \<lambda>tx. (True, tx \<noteq> (1, 0))"

lemma requests_own: "ownKeys requests (\<lambda>i. {i})"
  by (auto simp: ownKeys_def requests_def less_Suc_eq)

definition mixed :: "nat list" where
  "mixed = [0, 1, 1, 0, 0, 1, 0, 1, 0, 0, 1, 0, 1, 1, 0, 0, 0, 0, 0, 0, 0]"

lemma reachable_by:
  "runSchedule ad is (initial ps m0) = Some c \<Longrightarrow> reachable ad (initial ps m0) c"
  by (rule schedule_reachable[OF _ reachable.start])

text \<open>
  C14. Tasks whose calls are on keys of their own, such as concurrent requests or concurrent
  calls on different dataSources, do not disturb each other: at every moment of every
  interleaving, whatever the adapter refuses, each task finds under each of its keys exactly
  the transaction of the innermost call it is inside of that owns the key, none where that
  call suspended it, and what was there when the task started otherwise.
\<close>

theorem tasks_find_own_transactions:
  assumes "ownKeys ps Ks" and "reachable ad (initial ps m0) c" and "i < length ps" and "k \<in> Ks i"
  shows "slots c k = scope m0 (fst (tasks c ! i)) k"
  using reachable_ok[OF assms(1,2)] assms(3,4)
  by (auto simp: configOk_def taskOk_def case_prod_beta)

definition ends :: "adapter_outcomes \<Rightarrow> nat list \<Rightarrow> 'k config \<Rightarrow> ('k config \<Rightarrow> bool) \<Rightarrow> bool" where
  "ends ad is c P = (case runSchedule ad is c of None \<Rightarrow> False | Some c' \<Rightarrow> P c')"

lemma endsE:
  assumes "ends ad is c P"
  obtains c' where "runSchedule ad is c = Some c'" and "P c'"
  using assms by (auto simp: ends_def split: option.splits)

lemma tasks_find_own_transactions_witness:
  "\<exists>c. runSchedule refusesSecond (take 7 mixed) (initial requests noEntries) = Some c \<and>
     slots c 0 = None \<and> slots c 1 = Some (1, 0)"
proof -
  have "ends refusesSecond (take 7 mixed) (initial requests noEntries) (\<lambda>c.
      scope noEntries (fst (tasks c ! 0)) 0 = None \<and>
      scope noEntries (fst (tasks c ! 1)) 1 = Some (1, 0))"
    by code_simp
  then obtain c where c: "runSchedule refusesSecond (take 7 mixed) (initial requests noEntries) = Some c"
    and see: "scope noEntries (fst (tasks c ! 0)) 0 = None \<and>
      scope noEntries (fst (tasks c ! 1)) 1 = Some (1, 0)"
    by (rule endsE)
  have two: "0 < length requests" "1 < length requests" by (simp_all add: requests_def)
  have "slots c 0 = None"
    using tasks_find_own_transactions[OF requests_own reachable_by[OF c] two(1), of 0] see by simp
  moreover have "slots c 1 = Some (1, 0)"
    using tasks_find_own_transactions[OF requests_own reachable_by[OF c] two(2), of 1] see by simp
  ultimately show ?thesis using c by blast
qed

text \<open>
  C6. Such a task that is done has looked up, begun, committed and rolled back what its
  program does under lexical scoping, with no shared map and no other tasks: the result of
  concurrent calls does not depend on the schedule.
\<close>

theorem concurrent_calls_lexical:
  assumes "ownKeys ps Ks" and "reachable ad (initial ps m0) c" and "i < length ps"
    and "fst (tasks c ! i) = []"
  shows "snd (tasks c ! i) = scoped ad i (ps ! i) m0 newOutcome"
  using reachable_ok[OF assms(1,2)] assms(3,4)
  by (auto simp: configOk_def taskOk_def case_prod_beta)

lemma concurrent_calls_lexical_witness:
  "\<exists>c. runSchedule refusesSecond mixed (initial requests noEntries) = Some c \<and>
     seen (snd (tasks c ! 0)) = [(0, Some (0, 0)), (0, Some (0, 1))] \<and>
     finished (snd (tasks c ! 0)) = [((0, 1), False), ((0, 0), False)]"
proof -
  have "ends refusesSecond mixed (initial requests noEntries) (\<lambda>c. map fst (tasks c) = [[], []])"
    by code_simp
  then obtain c where c: "runSchedule refusesSecond mixed (initial requests noEntries) = Some c"
    and fin: "map fst (tasks c) = [[], []]"
    by (rule endsE)
  then have "fst (tasks c ! 0) = []" by (auto simp: map_eq_Cons_conv)
  from concurrent_calls_lexical[OF requests_own reachable_by[OF c] _ this]
  have out: "snd (tasks c ! 0) = scoped refusesSecond 0 (requests ! 0) noEntries newOutcome"
    by (simp add: requests_def)
  have "seen (scoped refusesSecond 0 (requests ! 0) noEntries newOutcome) =
      [(0, Some (0, 0)), (0, Some (0, 1))] \<and>
    finished (scoped refusesSecond 0 (requests ! 0) noEntries newOutcome) =
      [((0, 1), False), ((0, 0), False)]" by code_simp
  with c show ?thesis by (simp add: out)
qed

text \<open>
  C29. Concurrent calls all settle: an execution has a bounded number of steps; while a task is
  not done some step is possible; and when all are done every entry is as it was before they
  started.
\<close>

theorem concurrent_calls_settle:
  assumes "ownKeys ps Ks" and "(step ad ^^ n) (initial ps m0) c"
  shows "n \<le> configLoad (initial ps m0) \<and>
    (if list_all (\<lambda>t. fst t = []) (tasks c) then slots c = m0 else (\<exists>c'. step ad c c'))"
proof -
  have ok: "configOk ad ps Ks m0 c" by (rule reachable_ok[OF assms(1) relpowp_reachable[OF assms(2)]])
  have "slots c = m0" if "list_all (\<lambda>t. fst t = []) (tasks c)"
  proof
    fix k
    show "slots c k = m0 k"
      using ok that
      by (cases "k \<in> (\<Union>i < length ps. Ks i)")
        (auto simp: configOk_def taskOk_def list_all_length case_prod_beta)
  qed
  moreover have "\<exists>c'. step ad c c'" if "\<not> list_all (\<lambda>t. fst t = []) (tasks c)"
    using stuck_done[of ad c] that by (auto simp: list_all_length)
  ultimately show ?thesis using relpowp_load[OF assms(2)] by auto
qed


lemma schedule_length: "runSchedule ad is c = Some c' \<Longrightarrow> (step ad ^^ length is) c c'"
proof (induction "is" arbitrary: c)
  case (Cons i "is")
  from Cons.prems obtain c1 where c1: "taskStep ad i c = Some c1" "runSchedule ad is c1 = Some c'"
    by (auto split: option.splits)
  show ?case using relpowp_Suc_I2[OF step.task[OF c1(1)] Cons.IH[OF c1(2)]] by simp
qed simp

lemma concurrent_calls_settle_witness:
  "\<exists>c. runSchedule refusesSecond mixed (initial requests noEntries) = Some c \<and> slots c = noEntries"
proof -
  have "ends refusesSecond mixed (initial requests noEntries)
      (\<lambda>c. list_all (\<lambda>t. fst t = []) (tasks c))"
    by code_simp
  then obtain c where c: "runSchedule refusesSecond mixed (initial requests noEntries) = Some c"
    and fin: "list_all (\<lambda>t. fst t = []) (tasks c)"
    by (rule endsE)
  with concurrent_calls_settle[OF requests_own schedule_length[OF c]] show ?thesis by simp
qed

section \<open>Tasks on one key\<close>

text \<open>A configuration with tasks \<open>i\<close> and \<open>j\<close> at \<open>x\<close> and \<open>y\<close>, the others as they were.\<close>

definition pairAt :: "('k frame list \<times> 'k task_log) list \<Rightarrow> nat \<Rightarrow> nat \<Rightarrow> 'k frame list \<times> 'k task_log \<Rightarrow>
    'k frame list \<times> 'k task_log \<Rightarrow> 'k slots \<Rightarrow> 'k config" where
  "pairAt ts i j x y m = \<lparr>tasks = ts[i := x, j := y], slots = m\<rparr>"

definition distinctTasks :: "nat \<Rightarrow> nat \<Rightarrow> 'a list \<Rightarrow> bool" where
  "distinctTasks i j ts \<longleftrightarrow> i < length ts \<and> j < length ts \<and> i \<noteq> j"

lemma pair_swap: "distinctTasks i j ts \<Longrightarrow> pairAt ts i j x y m = pairAt ts j i y x m"
  by (simp add: pairAt_def distinctTasks_def list_update_swap)

lemma pair_second:
  assumes "distinctTasks i j ts" and "reachable ad c0 (pairAt ts i j x (fs, out) m)"
    and "advance ad j fs out m = Some (fs', out', m')"
  shows "reachable ad c0 (pairAt ts i j x (fs', out') m')"
proof -
  have "taskStep ad j (pairAt ts i j x (fs, out) m) = Some (pairAt ts i j x (fs', out') m')"
    using assms(1,3) by (simp add: taskStep_def pairAt_def distinctTasks_def)
  then show ?thesis by (rule reachable.more[OF assms(2) step.task])
qed

lemma pair_first:
  assumes "distinctTasks i j ts" and "reachable ad c0 (pairAt ts i j (fs, out) y m)"
    and "advance ad i fs out m = Some (fs', out', m')"
  shows "reachable ad c0 (pairAt ts i j (fs', out') y m')"
proof -
  have d: "distinctTasks j i ts" using assms(1) by (auto simp: distinctTasks_def)
  show ?thesis
    unfolding pair_swap[OF assms(1)]
    by (rule pair_second[OF d assms(2)[unfolded pair_swap[OF assms(1)]] assms(3)])
qed

text \<open>Any number of lookups in a row: they all answer with the entry there is.\<close>

definition looked :: "nat \<Rightarrow> 'k \<Rightarrow> tx_id option \<Rightarrow> 'k task_log \<Rightarrow> 'k task_log" where
  "looked n k tx out = out\<lparr>seen := seen out @ replicate n (k, tx)\<rparr>"

lemma looked_0 [simp]: "looked 0 k tx out = out"
  by (simp add: looked_def)

lemma look_looked: "looked n k tx (look k tx out) = looked (Suc n) k tx out"
  by (simp add: looked_def look_def)

lemma pair_lookups:
  assumes "distinctTasks i j ts"
    and "reachable ad c0 (pairAt ts i j x (Frame p r (replicate n (Work k) @ cs) # fs, out) m)"
    and "p = Direct \<or> (\<exists>k' tx. p = Opened k' tx)" and "\<not> failing out"
  shows "reachable ad c0 (pairAt ts i j x (Frame p r cs # fs, looked n k (m k) out) m)"
  using assms(2,4)
proof (induction n arbitrary: out)
  case (Suc n)
  have "advance ad j (Frame p r (replicate (Suc n) (Work k) @ cs) # fs) out m =
      Some (Frame p r (replicate n (Work k) @ cs) # fs, look k (m k) out, m)"
    using assms(3) Suc.prems(2) by (auto simp: performNext_def)
  from Suc.IH[OF pair_second[OF assms(1) Suc.prems(1) this]] Suc.prems(2)
  show ?case by (simp add: look_looked) (simp add: look_def)
qed simp

lemma pair_lookups_first:
  assumes "distinctTasks i j ts"
    and "reachable ad c0 (pairAt ts i j (Frame p r (replicate n (Work k)) # fs, out) y m)"
    and "p = Direct \<or> (\<exists>k' tx. p = Opened k' tx)" and "\<not> failing out"
  shows "reachable ad c0 (pairAt ts i j (Frame p r [] # fs, looked n k (m k) out) y m)"
proof -
  have d: "distinctTasks j i ts" using assms(1) by (auto simp: distinctTasks_def)
  have "reachable ad c0 (pairAt ts j i y (Frame p r (replicate n (Work k) @ []) # fs, out) m)"
    using assms(2) by (simp add: pair_swap[OF assms(1)])
  from pair_lookups[OF d this assms(3,4)] show ?thesis by (simp add: pair_swap[OF assms(1)])
qed

text \<open>A task at the end of the function of a transaction of its own: the entry goes, then it commits.\<close>

lemma commits_and_ends:
  assumes d: "distinctTasks i j ts" and ad: "ad tx = (True, True)" and ok: "\<not> failing out"
    and run: "reachable ad c0 (pairAt ts i j x ([Frame (Closing tx) None [], Frame Direct None []], out) m)"
  shows "reachable ad c0 (pairAt ts i j x ([], out\<lparr>finished := finished out @ [(tx, True)]\<rparr>) m)"
proof -
  have e: "ended ad tx out = out\<lparr>finished := finished out @ [(tx, True)]\<rparr>"
    using ad ok by (simp add: ended_def)
  have "reachable ad c0 (pairAt ts i j x ([Frame Direct None [], Frame Direct None []], ended ad tx out) m)"
    by (rule pair_second[OF d run]) simp
  then have "reachable ad c0 (pairAt ts i j x ([Frame Direct None []], ended ad tx out) m)"
    by (rule pair_second[OF d]) (simp add: putBack_def)
  then have "reachable ad c0 (pairAt ts i j x ([], ended ad tx out) m)"
    by (rule pair_second[OF d]) (simp add: putBack_def)
  then show ?thesis by (simp only: e)
qed

lemma commits_and_ends_first:
  assumes d: "distinctTasks i j ts" and ad: "ad tx = (True, True)" and ok: "\<not> failing out"
    and run: "reachable ad c0 (pairAt ts i j ([Frame (Closing tx) None [], Frame Direct None []], out) y m)"
  shows "reachable ad c0 (pairAt ts i j ([], out\<lparr>finished := finished out @ [(tx, True)]\<rparr>) y m)"
proof -
  have d': "distinctTasks j i ts" using d by (auto simp: distinctTasks_def)
  show ?thesis
    unfolding pair_swap[OF d]
    by (rule commits_and_ends[where ad = ad and tx = tx, OF d' ad ok run[unfolded pair_swap[OF d]]])
qed

text \<open>What two tasks log: lookups, transactions with their outcome, whether an error is left.\<close>

definition logged :: "nat \<Rightarrow> 'k config \<Rightarrow> ('k \<times> tx_id option) list \<Rightarrow> (tx_id \<times> bool) list \<Rightarrow> bool" where
  "logged i c lookups settlements \<longleftrightarrow>
     fst (tasks c ! i) = [] \<and> seen (snd (tasks c ! i)) = lookups \<and>
     finished (snd (tasks c ! i)) = settlements \<and> \<not> failing (snd (tasks c ! i))"

lemma initial_pair:
  fixes ps :: "'k code list list"
  assumes "distinctTasks i j ps" and "ps ! i = p" and "ps ! j = q"
  shows "initial ps m = pairAt (tasks (initial ps m)) i j ([Frame Direct None p], newOutcome) ([Frame Direct None q], newOutcome) m"
proof -
  let ?ts = "map (\<lambda>p. ([Frame Direct None p], newOutcome :: 'k task_log)) ps"
  have "?ts ! i = ([Frame Direct None p], newOutcome)" "?ts ! j = ([Frame Direct None q], newOutcome)"
    using assms by (simp_all add: distinctTasks_def)
  then have "?ts[i := ([Frame Direct None p], newOutcome)] = ?ts" "?ts[j := ([Frame Direct None q], newOutcome)] = ?ts"
    by (metis list_update_id)+
  then show ?thesis by (simp add: initial_def pairAt_def)
qed

lemma new_log [simp]:
  "\<not> failing newOutcome" "openedCount newOutcome = 0" "seen newOutcome = []" "finished newOutcome = []"
  by (simp_all add: newOutcome_def)

lemma counted_log [simp]:
  "failing (counted out) = failing out" "seen (counted out) = seen out" "finished (counted out) = finished out"
  by (simp_all add: counted_def)

lemma looked_log [simp]:
  "failing (looked n k tx out) = failing out" "finished (looked n k tx out) = finished out"
  "seen (looked n k tx out) = seen out @ replicate n (k, tx)"
  by (simp_all add: looked_def)

lemma both_open:
  assumes ps: "distinctTasks i j ps" "ps ! i = [CallRun REQUIRED k p]" "ps ! j = [CallRun REQUIRED k q]"
    and m: "m k = None" and ad: "ad (i, 0) = (True, True)" "ad (j, 0) = (True, True)"
  shows "reachable ad (initial ps m) (pairAt (tasks (initial ps m)) i j
    ([Frame (Opened k (i, 0)) None p, Frame Direct None []], counted newOutcome)
    ([Frame (Opened k (j, 0)) None q, Frame Direct None []], counted newOutcome) (m(k \<mapsto> (j, 0))))"
proof -
  let ?ts = "tasks (initial ps m)"
  have d: "distinctTasks i j ?ts" using ps(1) by (simp add: distinctTasks_def initial_def)
  have m': "m(k := None) = m" using m by auto
  have "reachable ad (initial ps m) (pairAt ?ts i j ([Frame Direct None [CallRun REQUIRED k p]], newOutcome)
      ([Frame Direct None [CallRun REQUIRED k q]], newOutcome) m)"
    using reachable.start[of ad "initial ps m"] initial_pair[OF ps(1) ps(2) ps(3), of m] by simp
  then have "reachable ad (initial ps m) (pairAt ?ts i j ([Frame (Opening k) None p, Frame Direct None []], newOutcome)
      ([Frame Direct None [CallRun REQUIRED k q]], newOutcome) m)"
    by (rule pair_first[OF d]) (simp add: performNext_def m m')
  then have "reachable ad (initial ps m) (pairAt ?ts i j ([Frame (Opening k) None p, Frame Direct None []], newOutcome)
      ([Frame (Opening k) None q, Frame Direct None []], newOutcome) m)"
    by (rule pair_second[OF d]) (simp add: performNext_def m m')
  then have "reachable ad (initial ps m) (pairAt ?ts i j ([Frame (Opened k (i, 0)) None p, Frame Direct None []], counted newOutcome)
      ([Frame (Opening k) None q, Frame Direct None []], newOutcome) (m(k \<mapsto> (i, 0))))"
    by (rule pair_first[OF d]) (simp add: ad Let_def)
  then show ?thesis
    by (rule pair_second[OF d, where fs = "[Frame (Opening k) None q, Frame Direct None []]" and out = newOutcome])
      (simp add: ad Let_def)
qed

lemma pair_logged:
  assumes "distinctTasks i j ts" and "\<not> failing out" and "\<not> failing out'"
  shows "logged i (pairAt ts i j ([], out) ([], out') m) (seen out) (finished out)"
    and "logged j (pairAt ts i j ([], out) ([], out') m) (seen out') (finished out')"
  using assms by (simp_all add: logged_def pairAt_def distinctTasks_def)

lemma entry_taken_over:
  fixes ps :: "'k code list list"
  assumes ps: "distinctTasks i j ps" "ps ! i = [CallRun REQUIRED k (replicate a (Work k))]"
      "ps ! j = [CallRun REQUIRED k (replicate b (Work k))]"
    and m: "m k = None" and ad: "ad (i, 0) = (True, True)" "ad (j, 0) = (True, True)"
  shows "\<exists>c. reachable ad (initial ps m) c \<and>
      logged i c (replicate a (k, Some (j, 0))) [((i, 0), True)] \<and>
      logged j c (replicate b (k, None)) [((j, 0), True)]"
proof -
  let ?ts = "tasks (initial ps m)" and ?c0 = "initial ps m"
  let ?bottom = "Frame Direct None [] :: 'k frame"
  have d: "distinctTasks i j ?ts" using ps(1) by (simp add: distinctTasks_def initial_def)
  have m': "m(k := None) = m" using m by auto
  let ?n = "m(k \<mapsto> (j, 0))"
  let ?oi = "looked a k (Some (j, 0)) (counted newOutcome) :: 'k task_log"
  let ?oj = "looked b k None (counted newOutcome) :: 'k task_log"
  let ?fi = "?oi\<lparr>finished := finished ?oi @ [((i, 0), True)]\<rparr>"
  let ?fj = "?oj\<lparr>finished := finished ?oj @ [((j, 0), True)]\<rparr>"
  let ?second = "([Frame (Opened k (j, 0)) None (replicate b (Work k)), ?bottom], counted newOutcome :: 'k task_log)"
  have "reachable ad ?c0 (pairAt ?ts i j
      ([Frame (Opened k (i, 0)) None (replicate a (Work k)), ?bottom], counted newOutcome) ?second ?n)"
    by (rule both_open) (fact ps m ad)+
  then have "reachable ad ?c0 (pairAt ?ts i j ([Frame (Opened k (i, 0)) None [], ?bottom],
      looked a k (?n k) (counted newOutcome)) ?second ?n)"
    by (rule pair_lookups_first[OF d]) simp_all
  then have "reachable ad ?c0 (pairAt ?ts i j ([Frame (Closing (i, 0)) None [], ?bottom], ?oi) ?second m)"
    by (rule pair_first[OF d]) (simp add: m')
  then have "reachable ad ?c0 (pairAt ?ts i j ([], ?fi) ?second m)"
    by (rule commits_and_ends_first[where ad = ad and tx = "(i, 0)", OF d ad(1), rotated]) simp
  then have "reachable ad ?c0 (pairAt ?ts i j ([], ?fi)
      ([Frame (Opened k (j, 0)) None (replicate b (Work k) @ []), ?bottom], counted newOutcome) m)" by simp
  then have "reachable ad ?c0 (pairAt ?ts i j ([], ?fi) ([Frame (Opened k (j, 0)) None [], ?bottom],
      looked b k (m k) (counted newOutcome)) m)"
    by (rule pair_lookups[OF d]) simp_all
  then have "reachable ad ?c0 (pairAt ?ts i j ([], ?fi) ([Frame (Closing (j, 0)) None [], ?bottom], ?oj) m)"
    by (rule pair_second[OF d]) (simp add: m m')
  then have "reachable ad ?c0 (pairAt ?ts i j ([], ?fi) ([], ?fj) m)"
    by (rule commits_and_ends[where ad = ad and tx = "(j, 0)", OF d ad(2), rotated]) simp
  with pair_logged[OF d, of ?fi ?fj m] show ?thesis by auto
qed

lemma joined_and_left:
  fixes ps :: "'k code list list"
  assumes ps: "distinctTasks i j ps" "ps ! i = [CallRun REQUIRED k (replicate a (Work k))]"
      "ps ! j = [CallRun REQUIRED k (replicate n (Work k) @ replicate l (Work k))]"
    and m: "m k = None" and ad: "ad (i, 0) = (True, True)"
  shows "\<exists>c. reachable ad (initial ps m) c \<and>
      logged i c (replicate a (k, Some (i, 0))) [((i, 0), True)] \<and>
      logged j c (replicate n (k, Some (i, 0)) @ replicate l (k, None)) []"
proof -
  let ?ts = "tasks (initial ps m)" and ?c0 = "initial ps m"
  let ?bottom = "Frame Direct None [] :: 'k frame"
  have d: "distinctTasks i j ?ts" using ps(1) by (simp add: distinctTasks_def initial_def)
  have m': "m(k := None) = m" using m by auto
  let ?n = "m(k \<mapsto> (i, 0))"
  let ?oi = "looked a k (Some (i, 0)) (counted newOutcome) :: 'k task_log"
  let ?fi = "?oi\<lparr>finished := finished ?oi @ [((i, 0), True)]\<rparr>"
  let ?oj = "looked n k (Some (i, 0)) newOutcome :: 'k task_log"
  let ?fj = "looked l k None ?oj"
  let ?open = "[Frame (Opened k (i, 0)) None (replicate a (Work k)), ?bottom]"
  let ?second = "([Frame Direct None [CallRun REQUIRED k (replicate n (Work k) @ replicate l (Work k))]], newOutcome :: 'k task_log)"
  let ?joined = "[Frame Direct None (replicate l (Work k)), ?bottom]"
  have "reachable ad ?c0 (pairAt ?ts i j
      ([Frame Direct None [CallRun REQUIRED k (replicate a (Work k))]], newOutcome) ?second m)"
    using reachable.start[of ad ?c0] initial_pair[OF ps(1) ps(2) ps(3), of m] by simp
  then have "reachable ad ?c0 (pairAt ?ts i j ([Frame (Opening k) None (replicate a (Work k)), ?bottom], newOutcome) ?second m)"
    by (rule pair_first[OF d]) (simp add: performNext_def m m')
  then have "reachable ad ?c0 (pairAt ?ts i j (?open, counted newOutcome) ?second ?n)"
    by (rule pair_first[OF d]) (simp add: ad Let_def)
  then have "reachable ad ?c0 (pairAt ?ts i j (?open, counted newOutcome)
      ([Frame Direct None (replicate n (Work k) @ replicate l (Work k)), ?bottom], newOutcome) ?n)"
    by (rule pair_second[OF d]) (simp add: performNext_def)
  then have "reachable ad ?c0 (pairAt ?ts i j (?open, counted newOutcome) (?joined, looked n k (?n k) newOutcome) ?n)"
    by (rule pair_lookups[OF d]) simp_all
  then have "reachable ad ?c0 (pairAt ?ts i j ([Frame (Opened k (i, 0)) None [], ?bottom],
      looked a k (?n k) (counted newOutcome)) (?joined, looked n k (?n k) newOutcome) ?n)"
    by (rule pair_lookups_first[OF d]) simp_all
  then have "reachable ad ?c0 (pairAt ?ts i j ([Frame (Closing (i, 0)) None [], ?bottom], ?oi) (?joined, looked n k (?n k) newOutcome) m)"
    by (rule pair_first[OF d]) (simp add: m')
  then have "reachable ad ?c0 (pairAt ?ts i j ([], ?fi) (?joined, looked n k (?n k) newOutcome) m)"
    by (rule commits_and_ends_first[where ad = ad and tx = "(i, 0)", OF d ad(1), rotated]) simp
  then have "reachable ad ?c0 (pairAt ?ts i j ([], ?fi) ([Frame Direct None (replicate l (Work k) @ []), ?bottom], ?oj) m)" by simp
  then have "reachable ad ?c0 (pairAt ?ts i j ([], ?fi) ([Frame Direct None [], ?bottom], looked l k (m k) ?oj) m)"
    by (rule pair_lookups[OF d]) simp_all
  then have "reachable ad ?c0 (pairAt ?ts i j ([], ?fi) ([?bottom], ?fj) m)"
    by (rule pair_second[OF d]) (simp add: m putBack_def)
  then have "reachable ad ?c0 (pairAt ?ts i j ([], ?fi) ([], ?fj) m)"
    by (rule pair_second[OF d]) (simp add: putBack_def)
  with pair_logged[OF d, of ?fi ?fj m] show ?thesis by auto
qed

text \<open>
  C34. Calls on the same key do disturb each other, as two listeners queued for one event that
  run on one store do. Take any two of any number of tasks, each making a \<open>REQUIRED\<close> call on the
  key, which has no entry, with any numbers of lookups \<open>a\<close> and \<open>b\<close>. Some schedule has both begin
  before either is done: the second to begin takes the entry over, every lookup of the first
  answers with the transaction of the second, and the first removes that entry on leaving, so that
  every lookup of the second answers with none. Another has the first begin before the second
  calls: the second joins it, and its lookups, from any one on, come after it has committed and
  answer with none. All transactions commit, and no call reports an error.
\<close>

theorem same_key_interferes:
  assumes ps: "distinctTasks i j ps" "ps ! i = [CallRun REQUIRED k (replicate a (Work k))]"
      "ps ! j = [CallRun REQUIRED k (replicate b (Work k))]"
    and m: "m k = None" and ad: "ad (i, 0) = (True, True)" "ad (j, 0) = (True, True)" and n: "n \<le> b"
  shows "(\<exists>c. reachable ad (initial ps m) c \<and>
      logged i c (replicate a (k, Some (j, 0))) [((i, 0), True)] \<and>
      logged j c (replicate b (k, None)) [((j, 0), True)]) \<and>
    (\<exists>c. reachable ad (initial ps m) c \<and>
      logged i c (replicate a (k, Some (i, 0))) [((i, 0), True)] \<and>
      logged j c (replicate n (k, Some (i, 0)) @ replicate (b - n) (k, None)) [])"
proof
  have "ps ! j = [CallRun REQUIRED k (replicate n (Work k) @ replicate (b - n) (Work k))]"
    using ps(3) n by (simp add: replicate_add[symmetric])
  from joined_and_left[where m = m and ad = ad, OF ps(1,2) this m ad(1)]
  show "\<exists>c. reachable ad (initial ps m) c \<and>
      logged i c (replicate a (k, Some (i, 0))) [((i, 0), True)] \<and>
      logged j c (replicate n (k, Some (i, 0)) @ replicate (b - n) (k, None)) []" .
qed (rule entry_taken_over[where m = m and ad = ad, OF ps m ad])

lemma same_key_interferes_witness:
  "\<exists>c. reachable (\<lambda>_. (True, True)) (initial (replicate 2 [CallRun REQUIRED (0 :: nat) [Work 0, Work 0]]) noEntries) c \<and>
     logged 0 c [(0, Some (1, 0)), (0, Some (1, 0))] [((0, 0), True)] \<and>
     logged 1 c [(0, None), (0, None)] [((1, 0), True)]"
proof -
  have "distinctTasks 0 1 (replicate 2 [CallRun REQUIRED (0 :: nat) [Work 0, Work 0]])"
    by (simp add: distinctTasks_def)
  from same_key_interferes[OF this, of 0 2 2 noEntries "\<lambda>_. (True, True)" 0]
  show ?thesis by (simp add: numeral_2_eq_2)
qed

end
