(* ===== verification/Manager_Scoped.thy ===== *)
theory Manager_Scoped
  imports Context_Typing Interleaving
begin

text \<open>
  The programs of \<open>Interleaving\<close> on the manager itself: \<open>runCode\<close> runs one over
  \<open>Tx_Manager.run\<close>, with an adapter that numbers its transactions, begins and commits as the
  outcomes say, and keeps the log of a task in its database. What it logs is what the
  specification of the concurrent tasks, \<open>scoped\<close>, says; so a concurrent task does what the
  manager does with the same program when it is alone.
\<close>

section \<open>A scripted adapter\<close>

type_synonym ('u, 'z) scripted_world = "('u, string task_log, 'z) world"

definition endedIn :: "tx_id \<Rightarrow> bool \<Rightarrow> ('u, 'z) scripted_world \<Rightarrow> ('u, 'z) scripted_world" where
  "endedIn tx ok w = w\<lparr>db := (db w)\<lparr>finished := finished (db w) @ [(tx, ok)]\<rparr>\<rparr>"

definition scriptedHandle :: "nat \<Rightarrow> tx_handle" where
  "scriptedHandle n = \<lparr>h_id = n, h_adapterName = ''scripted'', h_native = Undef\<rparr>"

definition scripted_runInTransaction ::
    "adapter_outcomes \<Rightarrow> nat \<Rightarrow> extended_options \<Rightarrow> ('u, 'z) scripted_world tx_callback \<Rightarrow>
     (('u, 'z) scripted_world, internal_result) comp" where
  "scripted_runInTransaction ad i opts cb w =
     (let n = openedCount (db w); w1 = w\<lparr>db := counted (db w)\<rparr>
      in if fst (ad (i, n))
         then (case cb (scriptedHandle n) w1 of
                 None \<Rightarrow> None
               | Some (Reject e, w2) \<Rightarrow> Some (Reject e, endedIn (i, n) False w2)
               | Some (Resolve v, w2) \<Rightarrow>
                   Some (if snd (ad (i, n)) then Resolve v else Reject Null, endedIn (i, n) (snd (ad (i, n))) w2))
         else Some (Reject Null, w1))"

definition scriptedAdapter :: "adapter_outcomes \<Rightarrow> nat \<Rightarrow> ('u, 'z) scripted_world transaction_adapter" where
  "scriptedAdapter ad i =
     \<lparr>a_name = ''scripted'', a_dataSourceName = ''default'',
      a_runInTransaction = scripted_runInTransaction ad i, a_runInSavepoint = (\<lambda>parent cb. cb parent),
      a_nativeTransaction = None, a_dialect = None, a_isRetryableError = None\<rparr>"

definition scriptedEnv :: "adapter_outcomes \<Rightarrow> nat \<Rightarrow> ('u, string task_log, 'z) env" where
  "scriptedEnv ad i =
     \<lparr>adapterOf = (\<lambda>k. scriptedAdapter ad i), callHook = (\<lambda>u arg. ret Undef),
      awaitAll = (\<lambda>ps. ret Undef), observers = [], random = (\<lambda>w. 0)\<rparr>"

lemma endedIn_quiet: "quiet w (endedIn tx ok w)"
  by (simp add: endedIn_def quiet_db)

interpretation scripted: lawful_adapter "scriptedAdapter ad i"
proof
  fix opts and cb cb' :: "('a, 'b) scripted_world tx_callback" and w w' :: "('a, 'b) scripted_world" and r parent
  show "wraps cb w r w'" if "a_runInTransaction (scriptedAdapter ad i) opts cb w = Some (r, w')"
  proof (cases "fst (ad (i, openedCount (db w)))")
    case False
    with that show ?thesis
      by (auto simp: scriptedAdapter_def scripted_runInTransaction_def Let_def intro: wraps_rejected quiet_db)
  next
    case True
    with that obtain r1 w2 ok where cb: "cb (scriptedHandle (openedCount (db w))) (w\<lparr>db := counted (db w)\<rparr>) = Some (r1, w2)"
      and "w' = endedIn (i, openedCount (db w)) ok w2" "answers r1 r"
      unfolding scriptedAdapter_def scripted_runInTransaction_def Let_def
      by (auto split: option.splits prod.splits outcome.splits if_splits)
    then have "quiet w (w\<lparr>db := counted (db w)\<rparr>)" "quiet w2 w'" by (simp_all add: quiet_db endedIn_quiet)
    with cb \<open>answers r1 r\<close> show ?thesis unfolding wraps_def by blast
  qed
  show "wraps cb w r w'" if "a_runInSavepoint (scriptedAdapter ad i) parent cb w = Some (r, w')"
    using that wrapsI[of w w cb parent r w' w'] by (simp add: scriptedAdapter_def)
  show "refines_comp (a_runInTransaction (scriptedAdapter ad i) opts cb) (a_runInTransaction (scriptedAdapter ad i) opts cb')"
    if "\<And>h. refines_comp (cb h) (cb' h)"
    by (rule refines_compI) (auto simp: scriptedAdapter_def scripted_runInTransaction_def Let_def
        split: option.splits prod.splits outcome.splits if_splits dest!: refines_compD[OF that])
  show "refines_comp (a_runInSavepoint (scriptedAdapter ad i) parent cb) (a_runInSavepoint (scriptedAdapter ad i) parent cb')"
    if "\<And>h. refines_comp (cb h) (cb' h)"
    using that by (simp add: scriptedAdapter_def)
  show "a_runInTransaction (scriptedAdapter ad i) opts cb w = a_runInTransaction (scriptedAdapter ad i) opts cb' w"
    if "\<And>h w1. quiet w w1 \<Longrightarrow> cb h w1 = cb' h w1"
    by (simp add: scriptedAdapter_def scripted_runInTransaction_def Let_def that[OF quiet_db])
  show "a_runInSavepoint (scriptedAdapter ad i) parent cb w = a_runInSavepoint (scriptedAdapter ad i) parent cb' w"
    if "\<And>h w1. quiet w w1 \<Longrightarrow> cb h w1 = cb' h w1"
    by (simp add: scriptedAdapter_def that)
qed

lemma scriptedEnv_lawful: "lawful_environment (scriptedEnv ad i)"
  by (rule lawful_environment.intro)
    (simp_all add: scriptedEnv_def scripted.lawful_adapter_axioms keeps_ret)

section \<open>Programs on the manager\<close>

definition slotsOf :: "string \<Rightarrow> nat \<Rightarrow> ('h, 'z) ctx_world_scheme \<Rightarrow> string slots" where
  "slotsOf a i w k =
     map_option (\<lambda>t. (i, h_id (handle (txs w t)))) (getActiveTransaction (contextKey a k) w)"

definition callOptions :: "string \<Rightarrow> propagation_mode \<Rightarrow> string \<Rightarrow> extended_options" where
  "callOptions a mode k =
     no_options\<lparr>o_adapter := Some a, o_adapterInstance := Some k, o_propagation := Some mode\<rparr>"

definition lookAt :: "string \<Rightarrow> nat \<Rightarrow> string \<Rightarrow> (('u, 'z) scripted_world, jsv) comp" where
  "lookAt a i k w = Some (Resolve Undef, w\<lparr>db := look k (slotsOf a i w k) (db w)\<rparr>)"

function (sequential) runCode ::
    "('u, string task_log, 'z) env \<Rightarrow> string \<Rightarrow> nat \<Rightarrow> string code list \<Rightarrow> (('u, 'z) scripted_world, jsv) comp" where
  "runCode env a i [] = ret Undef"
| "runCode env a i (c # cs) =
     andThen
       (case c of
          Work k \<Rightarrow> lookAt a i k
        | Throw \<Rightarrow> throw Null
        | CallRun mode k body \<Rightarrow> run env (callOptions a mode k) (runCode env a i body))
       (\<lambda>_. runCode env a i cs)"
  by pat_completeness auto
termination
  by (relation "measure (\<lambda>(env, a, i, cs). size_list size cs)") auto

section \<open>Worlds without hooks\<close>

definition hookless :: "('u hook, 'z) ctx_world_scheme \<Rightarrow> bool" where
  "hookless w \<longleftrightarrow>
     (\<forall>t. beforeCommitHooks (txs w t) = [] \<and> afterCommitHooks (txs w t) = [] \<and> afterRollbackHooks (txs w t) = [])"

definition orderly :: "adapter_registry \<Rightarrow> ('u, 'z) scripted_world \<Rightarrow> bool" where
  "orderly R w \<longleftrightarrow> typedContext w \<and> hookless w \<and> registry w = R \<and> \<not> failing (db w)"

fun rejects :: "'a outcome \<Rightarrow> bool" where
  "rejects (Resolve v) = False"
| "rejects (Reject e) = True"

text \<open>\<open>f\<close> settles, and what it logs is what the function \<open>F\<close> of the entries and the log says.\<close>

definition meets ::
    "adapter_registry \<Rightarrow> string \<Rightarrow> nat \<Rightarrow> (('u, 'z) scripted_world, 'a) comp \<Rightarrow>
     (string slots \<Rightarrow> string task_log \<Rightarrow> string task_log) \<Rightarrow> ('u, 'z) scripted_world \<Rightarrow> bool" where
  "meets R a i f F w \<longleftrightarrow>
     (orderly R w \<longrightarrow> (\<exists>r w'. f w = Some (r, w') \<and> orderly R w' \<and>
        (db w')\<lparr>failing := rejects r\<rparr> = F (slotsOf a i w) (db w)))"

lemma failing_same [simp]: "\<not> failing out \<Longrightarrow> out\<lparr>failing := False\<rparr> = out"
  by (cases out) simp

lemma orderly_db: "orderly R w \<Longrightarrow> \<not> failing d \<Longrightarrow> orderly R (w\<lparr>db := d\<rparr>)"
  by (auto simp: orderly_def hookless_def typedContext_def entryTyped_def list_all_iff split: option.splits)

lemma slotsOf_tame:
  assumes "framedAll w w'" and "typedContext w"
  shows "slotsOf a i w' = slotsOf a i w"
proof
  fix k
  have f: "framed (fresh w) w w'"
    by (rule framedAllD[OF assms(1) typedContext_wf[OF assms(2)] order_refl])
  have "getActiveTransaction (contextKey a k) w' = getActiveTransaction (contextKey a k) w"
    by (rule getActive_framedAll[OF assms(1) typedContext_wf[OF assms(2)]])
  then show "slotsOf a i w' k = slotsOf a i w k"
    using typed_lookup[OF assms(2)] framed_tx[OF f]
    by (cases "getActiveTransaction (contextKey a k) w") (auto simp: slotsOf_def sameTx_def)
qed

lemma contextKey_same [simp]: "contextKey a k = contextKey a k' \<longleftrightarrow> k = k'"
  by (simp add: contextKey_def)

lemma slotsOf_remove:
  "slotsOf a i (removeActiveTransaction (contextKey a k) w) = (slotsOf a i w)(k := None)"
  by (auto simp: slotsOf_def getActiveTransaction_remove)

lemma remove_fields [simp]:
  "db (removeActiveTransaction key w) = db w" "registry (removeActiveTransaction key w) = registry w"
  "cells (removeActiveTransaction key w) = cells w"
  by (simp_all add: removeActiveTransaction_def updateStore_def split: option.split)

lemma orderly_remove: "orderly R w \<Longrightarrow> orderly R (removeActiveTransaction key w)"
  by (simp add: orderly_def typedContext_remove hookless_def)

lemma meets_andThen:
  assumes "tame f" and f: "meets R a i f F w"
    and g: "\<And>v w1. f w = Some (Resolve v, w1) \<Longrightarrow> meets R a i (g v) G w1"
    and stop: "\<And>env out. failing out \<Longrightarrow> G env out = out"
  shows "meets R a i (andThen f g) (\<lambda>env out. G env (F env out)) w"
  unfolding meets_def
proof
  assume w: "orderly R w"
  then obtain r w1 where run: "f w = Some (r, w1)" and w1: "orderly R w1"
    and out: "(db w1)\<lparr>failing := rejects r\<rparr> = F (slotsOf a i w) (db w)"
    using f unfolding meets_def by blast
  have same: "slotsOf a i w1 = slotsOf a i w"
    by (rule slotsOf_tame[OF keepsD[OF assms(1) run]]) (use w in \<open>simp add: orderly_def\<close>)
  show "\<exists>r w'. andThen f g w = Some (r, w') \<and> orderly R w' \<and>
      (db w')\<lparr>failing := rejects r\<rparr> = G (slotsOf a i w) (F (slotsOf a i w) (db w))"
  proof (cases r)
    case (Reject e)
    then have "G (slotsOf a i w) (F (slotsOf a i w) (db w)) = (db w1)\<lparr>failing := True\<rparr>"
      using out[symmetric] by (simp add: stop)
    then show ?thesis using run w1 Reject by (simp add: andThen_def)
  next
    case (Resolve v)
    then have "F (slotsOf a i w) (db w) = db w1" using out w1 by (simp add: orderly_def)
    then show ?thesis
      using g[of v w1] run w1 Resolve same by (simp add: meets_def andThen_def)
  qed
qed

lemma lookAt_meets: "meets R a i (lookAt a i k) (\<lambda>env out. look k (env k) out) w"
  by (auto simp: meets_def lookAt_def look_def intro!: orderly_db) (auto simp: orderly_def)

lemma lookAt_tame: "tame (lookAt a i k)"
  by (rule keepsI) (auto simp: lookAt_def intro: quiet_framedAll quiet_db)

lemma throw_meets: "meets R a i (throw e) (\<lambda>env out. failed out) w"
  by (auto simp: meets_def failed_def)

lemma runCode_tame: "lawful_environment env \<Longrightarrow> tame (runCode env a i cs)"
proof (induction env a i cs rule: runCode.induct)
  case (2 env a i c cs)
  have "tame (case c of Work k \<Rightarrow> lookAt a i k | Throw \<Rightarrow> throw Null
      | CallRun mode k body \<Rightarrow> run env (callOptions a mode k) (runCode env a i body))"
    using 2 by (cases c) (simp_all add: lookAt_tame keeps_throw lawful_environment.run_tame)
  then show ?case using 2 by (simp add: keeps_andThen)
qed (simp add: keeps_ret)

section \<open>One transaction\<close>

text \<open>With no hooks the loops over them do nothing.\<close>

lemma no_hooks:
  assumes "hookless w"
  shows "runBeforeCommit env t 0 w = Some (Resolve (), w)"
    and "runHooks env afterCommitHooks t arg 0 w = Some w"
    and "runHooks env afterRollbackHooks t arg 0 w = Some w"
  using assms by (subst runBeforeCommit.simps runHooks.simps; simp add: hookless_def)+

lemma guardedBody_plain:
  assumes "fn w = Some (r, w1)" and "hookless w1" and "\<And>e. shouldRollback e options"
  shows "guardedBody env t options fn w =
    Some (case r of Resolve v \<Rightarrow> Resolve (IOk v) | Reject e \<Rightarrow> Reject e, w1)"
  using assms by (cases r) (simp_all add: guardedBody_def catching_def andThen_def no_hooks)

lemma callOptions_rolls: "shouldRollback e (callOptions a mode k)"
  by (simp add: callOptions_def no_options_def shouldRollback_def)

text \<open>The world a transaction's function starts in.\<close>

definition begunAt ::
    "nat \<Rightarrow> string \<Rightarrow> string \<Rightarrow> extended_options \<Rightarrow> nat \<Rightarrow> nat \<Rightarrow> tx_handle \<Rightarrow> ('u, 'z) scripted_world \<Rightarrow>
     ('u, 'z) scripted_world" where
  "begunAt s a k options corr cell h w =
     updateStore s (AList.update (contextKey a k) (fresh w))
       (w\<lparr>fresh := Suc (fresh w), txs := (txs w)(fresh w := newActiveTx h a k options (now w) corr),
          cells := (cells w)(cell \<mapsto> fresh w)\<rparr>)"

lemma begunAt_orderly:
  assumes "orderly R w" and "als w = Some s"
  shows "orderly R (begunAt s a k options corr cell h w)"
proof -
  have "typedContext (begunAt s a k options corr cell h w)"
    unfolding begunAt_def by (rule typedContext_begin) (use assms in \<open>simp_all add: orderly_def\<close>)
  moreover have "registry (begunAt s a k options corr cell h w) = registry w" "db (begunAt s a k options corr cell h w) = db w"
    by (simp_all add: begunAt_def updateStore_def)
  ultimately show ?thesis using assms(1) by (simp add: orderly_def hookless_def begunAt_def newActiveTx_def)
qed

lemma begunAt_slots:
  assumes w: "orderly R w" and s: "als w = Some s"
  shows "slotsOf a i (begunAt s a k options corr cell h w) = (slotsOf a i w)(k \<mapsto> (i, h_id h))"
proof
  fix k'
  have t: "typedContext w" using w by (simp add: orderly_def)
  have "getActiveTransaction (contextKey a k') (begunAt s a k options corr cell h w) =
      (if k' = k then Some (fresh w) else getActiveTransaction (contextKey a k') w)"
    using s by (simp add: begunAt_def getActiveTransaction_store update_conv)
  then show "slotsOf a i (begunAt s a k options corr cell h w) k' = ((slotsOf a i w)(k \<mapsto> (i, h_id h))) k'"
    using typed_lookup[OF t, of "contextKey a k'"]
    by (cases "getActiveTransaction (contextKey a k') w") (auto simp: slotsOf_def begunAt_def newActiveTx_def)
qed

lemma txCallback_scripted:
  assumes w: "orderly R w" and s: "als w = Some s" and cell: "cell < fresh w"
    and tame: "tame fn" and fn: "\<And>v. meets R a i fn F v"
    and roll: "\<And>e. shouldRollback e options"
  obtains r w' where "txCallback (scriptedEnv ad i) a k options corr cell fn h w =
      Some (case r of Resolve v \<Rightarrow> Resolve (IOk v) | Reject e \<Rightarrow> Reject e, w')"
    and "orderly R w'" and "cells w' cell = Some (fresh w)"
    and "(db w')\<lparr>failing := rejects r\<rparr> = F ((slotsOf a i w)(k \<mapsto> (i, h_id h))) (db w)"
proof -
  let ?w2 = "begunAt s a k options corr cell h w"
  have w2: "orderly R ?w2" by (rule begunAt_orderly[OF w s])
  have db2: "db ?w2 = db w" by (simp add: begunAt_def updateStore_def)
  from fn[of ?w2] w2 obtain r w3 where run: "fn ?w2 = Some (r, w3)" and w3: "orderly R w3"
    and out: "(db w3)\<lparr>failing := rejects r\<rparr> = F (slotsOf a i ?w2) (db ?w2)"
    unfolding meets_def by blast
  have cells: "cells w3 cell = Some (fresh w)"
    using framed_cell[OF tameD[OF tame run _ order_refl]] cell w2
    by (simp add: begunAt_def updateStore_def typedContext_wf orderly_def)
  have body: "guardedBody (scriptedEnv ad i) (fresh w) options fn ?w2 =
      Some (case r of Resolve v \<Rightarrow> Resolve (IOk v) | Reject e \<Rightarrow> Reject e, w3)"
    by (rule guardedBody_plain[where fn = fn and w = "?w2", OF run _ roll]) (use w3 in \<open>simp add: orderly_def\<close>)
  show ?thesis
  proof (rule that[of r "removeActiveTransaction (contextKey a k) w3"])
    show "txCallback (scriptedEnv ad i) a k options corr cell fn h w =
        Some (case r of Resolve v \<Rightarrow> Resolve (IOk v) | Reject e \<Rightarrow> Reject e, removeActiveTransaction (contextKey a k) w3)"
      using s body unfolding txCallback_def Let_def begunAt_def
      by (simp add: setActiveTransaction_inside notifyStart_def scriptedEnv_def finallyDo_def)
    show "(db (removeActiveTransaction (contextKey a k) w3))\<lparr>failing := rejects r\<rparr> =
        F ((slotsOf a i w)(k \<mapsto> (i, h_id h))) (db w)"
      using out by (simp add: begunAt_slots[OF w s] db2)
  qed (simp_all add: orderly_remove w3 cells)
qed

lemma orderly_ended: "orderly R w \<Longrightarrow> orderly R (endedIn tx ok w)"
  unfolding endedIn_def by (rule orderly_db) (simp_all add: orderly_def)

lemma orderly_typed: "orderly R w \<Longrightarrow> typedContext w"
  by (simp add: orderly_def)

lemma orderly_hookless: "orderly R w \<Longrightarrow> hookless w"
  by (simp add: orderly_def)

lemma markRolledBack_fields [simp]:
  "db (markRolledBack e w) = db w" "registry (markRolledBack e w) = registry w" "txs (markRolledBack e w) = txs w"
  by (simp_all add: markRolledBack_def split: option.split)

lemma orderly_mark: "orderly R w \<Longrightarrow> orderly R (markRolledBack e w)"
  using typedContext_framedAll[of w "markRolledBack e w"]
  by (auto simp: orderly_def framedAll_def markRolledBack_framed hookless_def)

text \<open>After the adapter: observers and hooks are empty loops.\<close>

lemma after_scripted:
  assumes "orderly R w"
  shows "afterAdapterRejected (scriptedEnv ad i) a k options corr start cell e w = Some (Reject e, markRolledBack e w)"
    and "afterAdapterResolved (scriptedEnv ad i) a k options corr start cell (IOk v) w = Some (Resolve v, w)"
  using no_hooks[OF orderly_hookless[OF assms]]
  by (auto simp: afterAdapterRejected_def afterAdapterResolved_def notifyRollback_def notifyCommit_def scriptedEnv_def
      split: option.split)

text \<open>What the specification makes of a call with a transaction of its own.\<close>

definition ownTx ::
    "adapter_outcomes \<Rightarrow> nat \<Rightarrow> string \<Rightarrow> (string slots \<Rightarrow> string task_log \<Rightarrow> string task_log) \<Rightarrow>
     string slots \<Rightarrow> string task_log \<Rightarrow> string task_log" where
  "ownTx ad i k F env out =
     (let tx = (i, openedCount out)
      in if fst (ad tx) then ended ad tx (F (env(k \<mapsto> tx)) (counted out)) else failed (counted out))"

lemma startBody_scripted:
  assumes w: "orderly R w" and s: "als w = Some s" and cell: "cell < fresh w" "cells w cell = None"
    and tame: "tame fn" and fn: "\<And>v. meets R a i fn F v" and roll: "\<And>e. shouldRollback e options"
  shows "\<exists>r w'. startBody (scriptedEnv ad i) (scriptedAdapter ad i) a k options corr start cell fn w = Some (r, w') \<and>
    orderly R w' \<and> (db w')\<lparr>failing := rejects r\<rparr> = ownTx ad i k F (slotsOf a i w) (db w)"
proof -
  let ?w1 = "w\<lparr>db := counted (db w)\<rparr>" and ?tx = "(i, openedCount (db w))"
  have w1: "orderly R ?w1" using w by (intro orderly_db) (simp_all add: orderly_def counted_def)
  show ?thesis
  proof (cases "fst (ad ?tx)")
    case False
    then have "startBody (scriptedEnv ad i) (scriptedAdapter ad i) a k options corr start cell fn w =
        Some (Reject Null, markRolledBack Null ?w1)"
      using after_scripted(1)[OF w1]
      by (simp add: startBody_def scriptedAdapter_def scripted_runInTransaction_def Let_def)
    then show ?thesis using False orderly_mark[OF w1] by (simp add: ownTx_def failed_def)
  next
    case True
    have slots: "slotsOf a i ?w1 = slotsOf a i w"
      by (rule slotsOf_tame[OF quiet_framedAll[OF quiet_db] orderly_typed[OF w]])
    have s1: "als ?w1 = Some s" "cell < fresh ?w1" using s cell by simp_all
    from txCallback_scripted[OF w1 s1 tame fn roll, where k = k and corr = corr
        and h = "scriptedHandle (openedCount (db w))" and ad = ad]
    obtain r w2 where cb: "txCallback (scriptedEnv ad i) a k options corr cell fn (scriptedHandle (openedCount (db w))) ?w1 =
        Some (case r of Resolve v \<Rightarrow> Resolve (IOk v) | Reject e \<Rightarrow> Reject e, w2)"
      and w2: "orderly R w2"
      and logged: "(db w2)\<lparr>failing := rejects r\<rparr> =
        F ((slotsOf a i ?w1)(k \<mapsto> (i, h_id (scriptedHandle (openedCount (db w)))))) (db ?w1)"
      by blast
    have out: "(db w2)\<lparr>failing := rejects r\<rparr> = F ((slotsOf a i w)(k \<mapsto> ?tx)) (counted (db w))"
      using logged by (simp add: slots scriptedHandle_def)
    define ok where "ok = (\<not> rejects r \<and> snd (ad ?tx))"
    let ?w3 = "endedIn ?tx ok w2"
    have w3: "orderly R ?w3" by (rule orderly_ended[OF w2])
    have fields: "finished (db w2) = finished (F ((slotsOf a i w)(k \<mapsto> ?tx)) (counted (db w)))"
      "failing (F ((slotsOf a i w)(k \<mapsto> ?tx)) (counted (db w))) = rejects r"
      by (simp_all add: out[symmetric])
    have log: "ownTx ad i k F (slotsOf a i w) (db w) = (db ?w3)\<lparr>failing := \<not> ok\<rparr>"
      using True fields by (simp add: ownTx_def Let_def ended_def ok_def endedIn_def out[symmetric])
    have "startBody (scriptedEnv ad i) (scriptedAdapter ad i) a k options corr start cell fn w =
        Some (if ok then r else (case r of Resolve v \<Rightarrow> Reject Null | Reject e \<Rightarrow> r),
          if ok then ?w3 else markRolledBack (case r of Resolve v \<Rightarrow> Null | Reject e \<Rightarrow> e) ?w3)"
      using cb True after_scripted[OF w3] unfolding ok_def
      by (cases r; cases "snd (ad ?tx)")
        (simp_all add: startBody_def scriptedAdapter_def scripted_runInTransaction_def Let_def)
    moreover have "rejects (if ok then r else (case r of Resolve v \<Rightarrow> Reject Null | Reject e \<Rightarrow> r)) = (\<not> ok)"
      by (cases r) (auto simp: ok_def)
    ultimately show ?thesis using orderly_mark[OF w3] w3 by (auto simp: log)
  qed
qed

lemma alloc_orderly:
  assumes "orderly R w"
  shows "orderly R (w\<lparr>fresh := Suc (Suc (fresh w)), cells := c\<rparr>)"
proof -
  have "typedContext (w\<lparr>fresh := Suc (Suc (fresh w)), cells := c\<rparr>)"
    using assms by (auto simp: orderly_def typedContext_def entryTyped_def list_all_iff split: option.splits)
  then show ?thesis using assms by (simp add: orderly_def hookless_def)
qed

lemma startNew_scripted:
  assumes slot: "getActiveTransaction (contextKey a k) w = None"
    and tame: "tame fn" and fn: "\<And>v. meets R a i fn F v" and roll: "\<And>e. shouldRollback e options"
  shows "meets R a i (startNew (scriptedEnv ad i) (scriptedAdapter ad i) a k options fn) (ownTx ad i k F) w"
  unfolding meets_def
proof
  assume w: "orderly R w"
  let ?start = "startNew (scriptedEnv ad i) (scriptedAdapter ad i) a k options fn"
  show "\<exists>r w'. ?start w = Some (r, w') \<and> orderly R w' \<and>
      (db w')\<lparr>failing := rejects r\<rparr> = ownTx ad i k F (slotsOf a i w) (db w)"
  proof (cases "als w")
    case (Some s)
    let ?w1 = "w\<lparr>fresh := Suc (Suc (fresh w)), cells := (cells w)(Suc (fresh w) := None)\<rparr>"
    have "slotsOf a i ?w1 = slotsOf a i w"
      by (rule ext) (simp add: slotsOf_def getActiveTransaction_def getStore_def Some)
    with startBody_scripted[OF alloc_orderly[OF w, of "(cells w)(Suc (fresh w) := None)"] _ _ _ tame fn roll, where s = s and cell = "Suc (fresh w)" and ad = ad and k = k]
    show ?thesis using Some by (simp add: startNew_def Let_def getStore_def)
  next
    case None
    let ?w1 = "w\<lparr>cells := (cells w)(Suc (fresh w) := None), als := Some (Suc (Suc (fresh w))),
      stores := (stores w)(Suc (Suc (fresh w)) := newStore (fresh w) (now w)), fresh := Suc (Suc (Suc (fresh w)))\<rparr>"
    have w1: "orderly R ?w1"
      using w by (simp add: orderly_def hookless_def typedContext_def newStore_def)
    have "slotsOf a i ?w1 = slotsOf a i w"
      by (rule ext) (simp add: slotsOf_def getActiveTransaction_def getStore_def None newStore_def)
    with startBody_scripted[OF w1 _ _ _ tame fn roll, where s = "Suc (Suc (fresh w))" and cell = "Suc (fresh w)"
        and ad = ad and k = k and corr = "fresh w" and start = "now w"]
    obtain r w2 where run: "startBody (scriptedEnv ad i) (scriptedAdapter ad i) a k options (fresh w) (now w) (Suc (fresh w)) fn ?w1 = Some (r, w2)"
      and w2: "orderly R w2" "(db w2)\<lparr>failing := rejects r\<rparr> = ownTx ad i k F (slotsOf a i w) (db w)"
      by auto
    have "?start w = Some (r, w2\<lparr>als := None\<rparr>)"
      using run None by (simp add: startNew_def contextRun_def Let_def getStore_def)
    moreover have "orderly R (w2\<lparr>als := None\<rparr>)"
      using w2(1) by (simp add: orderly_def hookless_def typedContext_outside)
    ultimately show ?thesis using w2(2) by simp
  qed
qed

section \<open>Every mode\<close>

lemma slotsOf_None: "slotsOf a i w k = None \<longleftrightarrow> getActiveTransaction (contextKey a k) w = None"
  by (simp add: slotsOf_def)

lemma start_scripted:
  assumes "getActiveTransaction (contextKey a k) w = None" and "tame fn" and "\<And>v. meets R a i fn F v"
  shows "meets R a i (startNewWithRetry (scriptedEnv ad i) (scriptedAdapter ad i) a k (callOptions a mode k) fn)
    (ownTx ad i k F) w"
  using startNew_scripted[OF assms callOptions_rolls]
  by (simp add: startNewWithRetry_def normalizeRetry_def callOptions_def no_options_def meets_def)

lemma start_tame:
  assumes "tame fn" and "getActiveTransaction (contextKey a k) w = None"
    and "startNewWithRetry (scriptedEnv ad i) (scriptedAdapter ad i) a k options fn w = Some (r, w')"
  shows "framedAll w w'"
  using lawful_environment.startNewWithRetry_framed[OF scriptedEnv_lawful assms(1) scripted.lawful_adapter_axioms assms(2,3)] .

lemma scopedOne_own:
  "scopedOne ad i (CallRun mode k body) env out =
     (case entry mode (env k) of
        Refused \<Rightarrow> failed out
      | Joined \<Rightarrow> scoped ad i body env out
      | Suspended \<Rightarrow> scoped ad i body (env(k := None)) out
      | Fresh \<Rightarrow> ownTx ad i k (scoped ad i body) env out)"
  by (simp add: scopedOne_def settled_def ownTx_def Let_def split: entry_kind.split)

text \<open>A function run with the entry taken out, and put back.\<close>

lemma suspended_scripted:
  assumes found: "getActiveTransaction (contextKey a k) w = Some t"
    and f: "meets R a i f G (removeActiveTransaction (contextKey a k) w)"
    and fr: "\<And>r w'. suspended (contextKey a k) t f w = Some (r, w') \<Longrightarrow> framedAll w w'"
    and inner: "\<And>r w'. f (removeActiveTransaction (contextKey a k) w) = Some (r, w') \<Longrightarrow>
      framedAll (removeActiveTransaction (contextKey a k) w) w'"
  shows "meets R a i (suspended (contextKey a k) t f) (\<lambda>env. G (env(k := None))) w"
  unfolding meets_def
proof
  assume w: "orderly R w"
  let ?key = "contextKey a k" and ?w0 = "removeActiveTransaction (contextKey a k) w"
  from found obtain s where s: "als w = Some s" by (cases "als w") (auto simp: getActiveTransaction_outside)
  from f orderly_remove[OF w] obtain r w1 where run: "f ?w0 = Some (r, w1)" and w1: "orderly R w1"
    and out: "(db w1)\<lparr>failing := rejects r\<rparr> = G (slotsOf a i ?w0) (db ?w0)"
    unfolding meets_def by blast
  have s1: "als w1 = Some s"
    using framed_als[OF framedAllD[OF inner[OF run] typedContext_wf[OF orderly_typed[OF orderly_remove[OF w]]] order_refl]] s
    by simp
  let ?w2 = "updateStore s (AList.update ?key t) w1"
  have susp: "suspended ?key t f w = Some (r, ?w2)"
    using run s1 by (simp add: suspended_def finallyDo_def setActiveTransaction_inside)
  have "typedContext ?w2" by (rule typedContext_framedAll[OF fr[OF susp] orderly_typed[OF w]])
  then have "orderly R ?w2" using w1 by (simp add: orderly_def hookless_def) (simp add: updateStore_def)
  moreover have "db ?w2 = db w1" by (simp add: updateStore_def)
  ultimately show "\<exists>r w'. suspended ?key t f w = Some (r, w') \<and> orderly R w' \<and>
      (db w')\<lparr>failing := rejects r\<rparr> = G ((slotsOf a i w)(k := None)) (db w)"
    using susp out by (simp add: slotsOf_remove)
qed

lemma savepoint_scripted:
  assumes "meets R a i fn F w" and "\<And>e. shouldRollback e options"
  shows "meets R a i (runNestedSavepoint (scriptedAdapter ad i) t options fn) F w"
  unfolding meets_def
proof
  assume "orderly R w"
  then obtain r w1 where run: "fn w = Some (r, w1)" and rest: "orderly R w1"
      "(db w1)\<lparr>failing := rejects r\<rparr> = F (slotsOf a i w) (db w)"
    using assms(1) unfolding meets_def by blast
  have "runNestedSavepoint (scriptedAdapter ad i) t options fn w = Some (r, w1)"
    using run assms(2)
    by (cases r) (simp_all add: runNestedSavepoint_def scriptedAdapter_def andThen_def catching_def)
  with rest show "\<exists>r w'. runNestedSavepoint (scriptedAdapter ad i) t options fn w = Some (r, w') \<and> orderly R w' \<and>
      (db w')\<lparr>failing := rejects r\<rparr> = F (slotsOf a i w) (db w)" by blast
qed

lemma raise_orderly: "meets R a i (raise e) (\<lambda>env. failed) w"
proof -
  obtain cs ps where e: "e = FwError cs ps" by (cases e)
  have "orderly R (w\<lparr>fresh := Suc (fresh w)\<rparr>)" if "orderly R w"
    using that typedContext_framedAll[of w "w\<lparr>fresh := Suc (fresh w)\<rparr>"]
    by (simp add: orderly_def hookless_def framedAll_def framed_def)
  then show ?thesis by (simp add: meets_def e failed_def)
qed

lemma meets_cong:
  assumes "meets R a i f F w" and "f' w = f w" and "F' (slotsOf a i w) (db w) = F (slotsOf a i w) (db w)"
  shows "meets R a i f' F' w"
  using assms by (simp add: meets_def)

lemma ownTx_free [simp]: "ownTx ad i k F (env(k := None)) out = ownTx ad i k F env out"
  by (simp add: ownTx_def Let_def)

lemma run_scripted:
  assumes reg: "registryGet a k R = Inr x" and tame: "tame fn" and fn: "\<And>v. meets R a i fn (scoped ad i body) v"
  shows "meets R a i (run (scriptedEnv ad i) (callOptions a mode k) fn) (scopedOne ad i (CallRun mode k body)) w"
proof (cases "registry w = R")
  case False
  then show ?thesis by (simp add: meets_def orderly_def)
next
  case R: True
  let ?env = "scriptedEnv ad i" and ?o = "callOptions a mode k" and ?key = "contextKey a k"
  let ?ex = "getActiveTransaction ?key w" and ?F = "scoped ad i body" and ?w0 = "removeActiveTransaction (contextKey a k) w"
  let ?start = "startNewWithRetry ?env (scriptedAdapter ad i) a k ?o fn"
  have ids: "resolveAdapterIdentifiers (callOptions a mode k) R = Inr (a, k)"
    and p: "o_propagation (callOptions a mode k) = Some mode" for mode
    by (simp_all add: resolveAdapterIdentifiers_def callOptions_def no_options_def)
  have ad: "adapterOf ?env x = scriptedAdapter ad i" by (simp add: scriptedEnv_def)
  note run = run_def ids p withAdapter_def R reg scopedOne_own Let_def ad
  have own: "meets R a i ?start (ownTx ad i k ?F) w" if "?ex = None"
    by (rule start_scripted[OF that tame fn])
  have slot0: "getActiveTransaction ?key ?w0 = None" by (simp add: getActiveTransaction_remove)
  have own0: "meets R a i (suspended ?key t ?start) (ownTx ad i k ?F) w" if "?ex = Some t" for t
  proof -
    have "meets R a i (suspended ?key t ?start) (\<lambda>env. ownTx ad i k ?F (env(k := None))) w"
    proof (rule suspended_scripted[OF that start_scripted[OF slot0 tame fn]])
      fix r w'
      show "framedAll w w'" if "suspended ?key t ?start w = Some (r, w')"
        by (rule lawful_environment.suspended_start_framed
            [OF scriptedEnv_lawful tame scripted.lawful_adapter_axioms \<open>?ex = Some t\<close> that])
      show "framedAll ?w0 w'" if "?start ?w0 = Some (r, w')"
        by (rule start_tame[OF tame slot0 that])
    qed
    then show ?thesis by (rule meets_cong) simp_all
  qed
  have away: "meets R a i (suspended ?key t fn) (\<lambda>env. ?F (env(k := None))) w" if "?ex = Some t" for t
    by (rule suspended_scripted[OF that fn suspended_tame[OF tame that] keepsD[OF tame]])
  have save: "meets R a i (runNestedSavepoint (scriptedAdapter ad i) t ?o fn) ?F w" for t
    by (rule savepoint_scripted[OF fn callOptions_rolls])
  note fail = raise_orderly[of R a i IllegalTransactionStateError w]
  show ?thesis
  proof (cases ?ex)
    case None
    then have sl: "slotsOf a i w k = None" by (simp add: slotsOf_None)
    consider "mode \<in> {REQUIRED, REQUIRES_NEW, NESTED}" | "mode = MANDATORY"
      | "mode \<in> {SUPPORTS, NOT_SUPPORTED, NEVER}" by (cases mode) auto
    then show ?thesis
    proof cases
      case 1
      then show ?thesis by (intro meets_cong[OF own[OF None]]) (auto simp: run None sl)
    next
      case 2
      then show ?thesis by (intro meets_cong[OF fail]) (auto simp: run None sl)
    next
      case 3
      then show ?thesis by (intro meets_cong[OF fn[of w]]) (auto simp: run None sl)
    qed
  next
    case (Some t)
    then obtain tx where sl: "slotsOf a i w k = Some tx" by (auto simp: slotsOf_def)
    consider "mode = REQUIRES_NEW" | "mode = NOT_SUPPORTED" | "mode = NESTED" | "mode = NEVER"
      | "mode \<in> {REQUIRED, SUPPORTS, MANDATORY}" by (cases mode) auto
    then show ?thesis
    proof cases
      case 1
      then show ?thesis using own0[OF Some] by (elim meets_cong) (auto simp: run Some sl)
    next
      case 2
      then show ?thesis by (intro meets_cong[OF away[OF Some]]) (auto simp: run Some sl)
    next
      case 3
      then show ?thesis using save[of t] by (elim meets_cong) (auto simp: run Some sl)
    next
      case 4
      then show ?thesis by (intro meets_cong[OF fail]) (auto simp: run Some sl)
    next
      case 5
      then show ?thesis by (intro meets_cong[OF fn[of w]]) (auto simp: run Some sl)
    qed
  qed
qed

text \<open>All keys of a program are registered.\<close>

definition registered :: "adapter_registry \<Rightarrow> string \<Rightarrow> string code list \<Rightarrow> bool" where
  "registered R a cs \<longleftrightarrow> (\<forall>k \<in> \<Union>(set_code ` set cs). \<exists>x. registryGet a k R = Inr x)"

lemma runCode_scoped:
  assumes "registered R a cs"
  shows "meets R a i (runCode (scriptedEnv ad i) a i cs) (scoped ad i cs) w"
proof -
  have "\<lbrakk>env = scriptedEnv ad i; registered R a cs\<rbrakk> \<Longrightarrow> meets R a i (runCode env a i cs) (scoped ad i cs) w" for env
  proof (induction env a i cs arbitrary: w rule: runCode.induct)
    case (1 env a i w)
    then show ?case by (auto simp: meets_def orderly_def)
  next
    case (2 env a i c cs w)
    have rest: "registered R a cs" using 2(4) by (simp add: registered_def)
    have body: "registered R a body" if "c = CallRun mode k body" for mode k body
      using 2(4) by (simp add: registered_def that)
    have one: "meets R a i (case c of Work k \<Rightarrow> lookAt a i k | Throw \<Rightarrow> throw Null
        | CallRun mode k body \<Rightarrow> run env (callOptions a mode k) (runCode env a i body)) (scopedOne ad i c) w"
    proof (cases c)
      case (Work k)
      show ?thesis by (rule meets_cong[OF lookAt_meets]) (simp_all add: Work scopedOne_def)
    next
      case Throw
      show ?thesis by (rule meets_cong[OF throw_meets]) (simp_all add: Throw scopedOne_def)
    next
      case (CallRun mode k body)
      obtain x where "registryGet a k R = Inr x" using 2(4) by (auto simp: registered_def CallRun)
      then have "meets R a i (run (scriptedEnv ad i) (callOptions a mode k) (runCode (scriptedEnv ad i) a i body))
          (scopedOne ad i (CallRun mode k body)) w"
        by (rule run_scripted[OF _ runCode_tame[OF scriptedEnv_lawful]])
          (use 2(1)[OF CallRun 2(3) body[OF CallRun]] 2(3) in simp)
      then show ?thesis by (simp add: CallRun 2(3))
    qed
    have tame: "tame (case c of Work k \<Rightarrow> lookAt a i k | Throw \<Rightarrow> throw Null
        | CallRun mode k body \<Rightarrow> run env (callOptions a mode k) (runCode env a i body))"
      unfolding 2(3)
      by (cases c) (simp_all add: lookAt_tame keeps_throw lawful_environment.run_tame[OF scriptedEnv_lawful]
          runCode_tame[OF scriptedEnv_lawful])
    have "meets R a i (runCode env a i (c # cs)) (\<lambda>e out. scoped ad i cs e (scopedOne ad i c e out)) w"
      unfolding runCode.simps by (rule meets_andThen[OF tame one 2(2)[OF 2(3) rest]]) simp
    then have "meets R a i (runCode env a i (c # cs)) (scoped ad i (c # cs)) w" if "\<not> failing (db w)"
      by (rule meets_cong) (simp_all add: scoped_Cons that)
    then show ?case by (auto simp: meets_def orderly_def)
  qed
  then show ?thesis using assms by blast
qed

section \<open>Properties\<close>

text \<open>
  C7. The manager implements lexical scope: a program over \<open>run\<close>, to any depth and in every
  propagation mode, outside or inside transactions, whatever its adapter begins and commits, settles; it has
  looked up, begun, committed and rolled back exactly what \<open>scoped\<close> says, and it rejects
  exactly when \<open>scoped\<close> fails.
\<close>

theorem manager_implements_scope:
  assumes "orderly (registry w) w" and "registered (registry w) a cs"
  shows "\<exists>r w'. runCode (scriptedEnv ad i) a i cs w = Some (r, w') \<and>
    (db w')\<lparr>failing := rejects r\<rparr> = scoped ad i cs (slotsOf a i w) (db w)"
  using runCode_scoped[OF assms(2), of i ad w] assms(1) unfolding meets_def by blast

text \<open>A world with an adapter for the instances \<open>x\<close> and \<open>y\<close>, outside any transaction.\<close>

definition scriptedWorld :: "(unit, unit) scripted_world" where
  "scriptedWorld =
     \<lparr>als = None, stores = (\<lambda>_. newStore 0 0),
      txs = (\<lambda>_. newActiveTx (scriptedHandle 0) [] [] no_options 0 0), fresh = 0, now = 0,
      registry = register \<lparr>reg_adapterName = ''t'', reg_instanceName = ''y'', reg_adapter = 1\<rparr> False
        (register \<lparr>reg_adapterName = ''t'', reg_instanceName = ''x'', reg_adapter = 0\<rparr> True newRegistry),
      rolledBack = {}, pending = (\<lambda>_. None), cells = (\<lambda>_. None), db = newOutcome\<rparr>"

definition nestedRequest :: "string code list" where
  "nestedRequest =
     [CallRun REQUIRED ''x'' [Work ''x'', CallRun NOT_SUPPORTED ''x'' [Work ''x''],
        CallRun REQUIRES_NEW ''x'' [Work ''x'', Throw]]]"

lemma scriptedWorld_ok:
  "orderly (registry scriptedWorld) scriptedWorld" "registered (registry scriptedWorld) ''t'' nestedRequest"
  by (auto simp: scriptedWorld_def orderly_def typedContext_outside hookless_def newActiveTx_def newOutcome_def
      registered_def nestedRequest_def registryGet_def register_def newRegistry_def split: option.splits)

lemma manager_implements_scope_witness:
  "\<exists>r w'. runCode (scriptedEnv (\<lambda>tx. (True, True)) 0) ''t'' 0 nestedRequest scriptedWorld = Some (r, w') \<and>
     rejects r \<and> seen (db w') = [(''x'', Some (0, 0)), (''x'', None), (''x'', Some (0, 1))] \<and>
     finished (db w') = [((0, 1), False), ((0, 0), False)]"
proof -
  have slots: "slotsOf ''t'' 0 scriptedWorld = (\<lambda>k. None)"
    by (rule ext) (simp add: slotsOf_def scriptedWorld_def getActiveTransaction_outside)
  have "(case scoped (\<lambda>tx. (True, True)) 0 nestedRequest (\<lambda>k. None) newOutcome of out \<Rightarrow>
      failing out \<and> seen out = [(''x'', Some (0, 0)), (''x'', None), (''x'', Some (0, 1))] \<and>
      finished out = [((0, 1), False), ((0, 0), False)])"
    by code_simp
  moreover obtain r w' where "runCode (scriptedEnv (\<lambda>tx. (True, True)) 0) ''t'' 0 nestedRequest scriptedWorld = Some (r, w')"
    "(db w')\<lparr>failing := rejects r\<rparr> = scoped (\<lambda>tx. (True, True)) 0 nestedRequest (\<lambda>k. None) newOutcome"
    using manager_implements_scope[OF scriptedWorld_ok, of "\<lambda>tx. (True, True)" 0] slots
    by (auto simp: scriptedWorld_def)
  ultimately show ?thesis by (auto simp: task_log.simps dest: sym)
qed

text \<open>
  C8. Concurrent calls are calls. A task with keys of its own that is done, in whatever way it
  was interleaved with others, has logged what the same program logs when the sequential manager runs it
  alone with the same adapter, from any world in which the keys hold what they held when the
  tasks started.
\<close>

theorem concurrent_calls_as_manager:
  assumes "ownKeys ps Ks" and "reachable ad (initial ps (slotsOf a i w)) c" and "i < length ps"
    and "fst (tasks c ! i) = []"
    and "orderly (registry w) w" and "registered (registry w) a (ps ! i)" and "db w = newOutcome"
  shows "\<exists>r w'. runCode (scriptedEnv ad i) a i (ps ! i) w = Some (r, w') \<and>
    snd (tasks c ! i) = (db w')\<lparr>failing := rejects r\<rparr>"
  using runCode_scoped[OF assms(6), of i ad w] reachable_ok[OF assms(1,2)] assms(3-5,7)
  by (auto simp: meets_def configOk_def taskOk_def case_prod_beta)

definition twoRequests :: "string code list list" where
  "twoRequests = [nestedRequest, [CallRun NESTED ''y'' [Work ''y'']]]"

definition alternating :: "nat list" where
  "alternating = concat (replicate 7 [0, 1]) @ replicate 10 0"

lemma concurrent_calls_as_manager_witness:
  "\<exists>c r w'. runSchedule (\<lambda>tx. (True, True)) alternating (initial twoRequests (\<lambda>k. None)) = Some c \<and>
     runCode (scriptedEnv (\<lambda>tx. (True, True)) 0) ''t'' 0 nestedRequest scriptedWorld = Some (r, w') \<and>
     snd (tasks c ! 0) = (db w')\<lparr>failing := rejects r\<rparr>"
proof -
  have slots: "slotsOf ''t'' 0 scriptedWorld = (\<lambda>k. None)"
    by (rule ext) (simp add: slotsOf_def scriptedWorld_def getActiveTransaction_outside)
  have "ends (\<lambda>tx. (True, True)) alternating (initial twoRequests (\<lambda>k. None)) (\<lambda>c. map fst (tasks c) = [[], []])"
    by code_simp
  then obtain c where c: "runSchedule (\<lambda>tx. (True, True)) alternating (initial twoRequests (\<lambda>k. None)) = Some c"
    and fin: "map fst (tasks c) = [[], []]" by (rule endsE)
  then have "fst (tasks c ! 0) = []" by (auto simp: map_eq_Cons_conv)
  moreover have "ownKeys twoRequests (\<lambda>i. if i = 0 then {''x''} else if i = 1 then {''y''} else {})"
    by (auto simp: ownKeys_def twoRequests_def nestedRequest_def less_Suc_eq)
  moreover have "twoRequests ! 0 = nestedRequest" "0 < length twoRequests" by (simp_all add: twoRequests_def)
  moreover have "db scriptedWorld = newOutcome" by (simp add: scriptedWorld_def)
  ultimately show ?thesis
    using concurrent_calls_as_manager[of twoRequests _ "\<lambda>tx. (True, True)" "''t''" 0 scriptedWorld c]
      reachable_by[OF c] scriptedWorld_ok c slots by fastforce
qed

end
