(* ===== verification/Postgres.thy ===== *)
theory Postgres
  imports Js_Prelude
begin

text \<open>
  What the applications of \<open>src/examples\<close> rely on of PostgreSQL: an \<open>INSERT\<close> of a primary key
  that is there is refused with \<open>23505\<close>, a number that an \<open>int\<close> column cannot hold with \<open>22003\<close>,
  and after a refused statement a transaction refuses all others and commits as a rollback. A
  \<open>@Transactional\<close> method is atomic, which is what \<open>Saga_Transactions\<close> shows of \<open>run\<close>. The
  tables of an application extend the record.
\<close>

record pg =
  aborted :: bool

definition QueryFailedError :: "string \<Rightarrow> jsv" where
  "QueryFailedError code =
     JObj 0 [''QueryFailedError'', ''TypeORMError'', ''Error'']
       [(''driverError'', JObj 0 [''DatabaseError'', ''Error''] [(''code'', JStr code)])]"

definition POSTGRES_UNIQUE_VIOLATION :: string where
  "POSTGRES_UNIQUE_VIOLATION = ''23505''"

definition isUniqueViolation :: "jsv \<Rightarrow> bool" where
  "isUniqueViolation err \<longleftrightarrow>
     instance_of err ''QueryFailedError'' \<and>
     prop_of (prop_of err ''driverError'') ''code'' = JStr POSTGRES_UNIQUE_VIOLATION"

definition uniqueViolation :: jsv where
  "uniqueViolation = QueryFailedError POSTGRES_UNIQUE_VIOLATION"

definition outOfRange :: jsv where
  "outOfRange = QueryFailedError ''22003''"

definition int4 :: "int \<Rightarrow> bool" where
  "int4 n \<longleftrightarrow> - 2147483648 \<le> n \<and> n \<le> 2147483647"

text \<open>A statement in a transaction that has been aborted is refused with \<open>25P02\<close>.\<close>

definition statement :: "('z pg_scheme \<Rightarrow> jsv + 'a \<times> 'z pg_scheme) \<Rightarrow> ('z pg_scheme, 'a) comp" where
  "statement sql s =
     (if aborted s then Some (Reject (QueryFailedError ''25P02''), s)
      else (case sql s of
              Inl e \<Rightarrow> Some (Reject e, s\<lparr>aborted := True\<rparr>)
            | Inr (v, s') \<Rightarrow> Some (Resolve v, s')))"

text \<open>A \<open>@Transactional\<close> method: all of it or nothing.\<close>

definition transactional :: "('z pg_scheme, 'a) comp \<Rightarrow> ('z pg_scheme, 'a) comp" where
  "transactional f s =
     (case f s of
        None \<Rightarrow> None
      | Some (Resolve v, s') \<Rightarrow> Some (Resolve v, if aborted s' then s else s')
      | Some (Reject e, s') \<Rightarrow> Some (Reject e, s))"

text \<open>\<open>try { insert } catch\<close>, letting a unique violation pass: whether the row is new.\<close>

definition inserted :: "('z pg_scheme, unit) comp \<Rightarrow> ('z pg_scheme, bool) comp" where
  "inserted sql =
     catching (andThen sql (\<lambda>_. ret True)) (\<lambda>err. if isUniqueViolation err then ret False else throw err)"

lemma unique_violation [simp]:
  "isUniqueViolation (QueryFailedError code) \<longleftrightarrow> code = ''23505''"
  "isUniqueViolation uniqueViolation" "\<not> isUniqueViolation outOfRange"
  by (simp_all add: isUniqueViolation_def uniqueViolation_def QueryFailedError_def POSTGRES_UNIQUE_VIOLATION_def
      outOfRange_def)

lemma int4_nonneg: "0 \<le> q \<Longrightarrow> int4 n \<Longrightarrow> q \<le> n \<Longrightarrow> int4 (n - q)"
  by (simp add: int4_def)

lemma statement_run: "\<not> aborted s \<Longrightarrow> sql s = Inr (v, s') \<Longrightarrow> statement sql s = Some (Resolve v, s')"
  and statement_refused: "\<not> aborted s \<Longrightarrow> sql s = Inl e \<Longrightarrow> statement sql s = Some (Reject e, s\<lparr>aborted := True\<rparr>)"
  by (simp_all add: statement_def)

text \<open>Between transactions nothing is aborted.\<close>

lemma transactional_clean: "\<not> aborted s \<Longrightarrow> transactional f s = Some (r, s') \<Longrightarrow> \<not> aborted s'"
  by (auto simp: transactional_def split: option.splits prod.splits outcome.splits if_splits)

lemma transactional_rejects: "transactional f s = Some (Reject e, s') \<Longrightarrow> s' = s"
  by (auto simp: transactional_def split: option.splits prod.splits outcome.splits if_splits)

section \<open>Sums over a table\<close>

definition tableSum :: "('r \<Rightarrow> int) \<Rightarrow> ('k \<Rightarrow> 'r option) \<Rightarrow> int" where
  "tableSum f table = (\<Sum>k\<in>dom table. f (the (table k)))"

lemma tableSum_empty [simp]: "tableSum f Map.empty = 0"
  by (simp add: tableSum_def)

lemma tableSum_upd:
  assumes "finite (dom table)"
  shows "tableSum f (table(k \<mapsto> row)) = tableSum f table - (case table k of None \<Rightarrow> 0 | Some old \<Rightarrow> f old) + f row"
proof -
  have rest: "(\<Sum>j\<in>dom table - {k}. f (the ((table(k \<mapsto> row)) j))) = (\<Sum>j\<in>dom table - {k}. f (the (table j)))"
    by (rule sum.cong) auto
  have "tableSum f (table(k \<mapsto> row)) = f row + (\<Sum>j\<in>dom table - {k}. f (the ((table(k \<mapsto> row)) j)))"
    using assms by (simp add: tableSum_def sum.insert_remove)
  moreover have "tableSum f table = (case table k of None \<Rightarrow> 0 | Some old \<Rightarrow> f old) + (\<Sum>j\<in>dom table - {k}. f (the (table j)))"
    using assms by (cases "table k") (auto simp: tableSum_def sum.remove[of "dom table" k] domIff intro!: sum.cong)
  ultimately show ?thesis using rest by simp
qed

lemma tableSum_del:
  assumes "finite (dom table)" and "table k = Some row"
  shows "tableSum f (table(k := None)) = tableSum f table - f row"
proof -
  have "tableSum f (table(k := None)) = (\<Sum>j\<in>dom table - {k}. f (the (table j)))"
    unfolding tableSum_def by (rule sum.cong) auto
  then show ?thesis using assms by (simp add: tableSum_def sum.remove[of "dom table" k] domIff)
qed

lemma tableSum_nonneg: "(\<And>k row. table k = Some row \<Longrightarrow> 0 \<le> f row) \<Longrightarrow> 0 \<le> tableSum f table"
  unfolding tableSum_def by (rule sum_nonneg) auto

lemma tableSum_member:
  assumes "finite (dom table)" and "\<And>k row. table k = Some row \<Longrightarrow> 0 \<le> f row" and "table k = Some row"
  shows "f row \<le> tableSum f table"
proof -
  have "f (the (table k)) \<le> (\<Sum>k\<in>dom table. f (the (table k)))"
    by (rule member_le_sum) (use assms in auto)
  then show ?thesis using assms(3) by (simp add: tableSum_def)
qed

end
