(* ===== verification/Outbox_Relay.thy ===== *)
theory Outbox_Relay
  imports Postgres
begin

text \<open>
  The outbox as the applications see it. Messages are added by \<open>publish\<close> inside the transaction
  that publishes them; a relay hands each one to the consumers subscribed to its topic, keeps it
  until their handlers return, and records in the inbox of the message the consumers that have
  completed it. It delivers at least once: an inbox record can be lost after the handler has
  committed, and the message comes again.

  The locale \<open>idempotent_consumers\<close> is the contract that makes this safe. An application whose
  handlers keep it cannot be told from one whose messages are delivered exactly once.
\<close>

record ('m, 'c) outbox_db = pg +
  messages :: "('m \<times> 'c list) list"

type_synonym ('m, 'c, 'z) handlers = "'c \<Rightarrow> nat \<Rightarrow> 'm \<Rightarrow> (('m, 'c, 'z) outbox_db_scheme, unit) comp"

definition publishMessage :: "'m \<Rightarrow> (('m, 'c, 'z) outbox_db_scheme, unit) comp" where
  "publishMessage ev = statement (\<lambda>s. Inr ((), s\<lparr>messages := messages s @ [(ev, [])]\<rparr>))"

definition complete :: "nat \<Rightarrow> 'c \<Rightarrow> ('m, 'c, 'z) outbox_db_scheme \<Rightarrow> ('m, 'c, 'z) outbox_db_scheme" where
  "complete i c s =
     s\<lparr>messages := (messages s)[i := (fst (messages s ! i), c # snd (messages s ! i))]\<rparr>"

text \<open>
  The relay delivers a message to a consumer whose handler returns. A handler that throws
  changes nothing, and the message stays. With \<open>once\<close> its inbox is never lost, without it a
  message may come back at any time.
\<close>

inductive relays ::
    "('c \<Rightarrow> 'm \<Rightarrow> bool) \<Rightarrow> ('m, 'c, 'z) handlers \<Rightarrow> bool \<Rightarrow>
     ('m, 'c, 'z) outbox_db_scheme \<Rightarrow> ('m, 'c, 'z) outbox_db_scheme \<Rightarrow> bool"
  for subscribed :: "'c \<Rightarrow> 'm \<Rightarrow> bool" and onMessage :: "('m, 'c, 'z) handlers" and once :: bool where
  deliver: "i < length (messages s) \<Longrightarrow> messages s ! i = (ev, inbox) \<Longrightarrow> subscribed c ev \<Longrightarrow>
    once \<longrightarrow> c \<notin> set inbox \<Longrightarrow> onMessage c date ev s = Some (Resolve (), s') \<Longrightarrow>
    relays subscribed onMessage once s (complete i c s')"

definition events :: "('m, 'c, 'z) outbox_db_scheme \<Rightarrow> 'm list" where
  "events s = map fst (messages s)"

definition emit :: "'m \<Rightarrow> ('m, 'c, 'z) outbox_db_scheme \<Rightarrow> ('m, 'c, 'z) outbox_db_scheme" where
  "emit ev s = s\<lparr>messages := messages s @ [(ev, [])]\<rparr>"

lemma publishMessage_run: "\<not> aborted s \<Longrightarrow> publishMessage ev s = Some (Resolve (), emit ev s)"
  by (simp add: publishMessage_def statement_def emit_def)

lemma emit_fields [simp]: "messages (emit ev s) = messages s @ [(ev, [])]" "aborted (emit ev s) = aborted s"
  by (simp_all add: emit_def)

lemma events_emit [simp]: "events (emit ev s) = events s @ [ev]"
  by (simp add: events_def)

lemma events_complete [simp]: "events (complete i c s) = events s" "aborted (complete i c s) = aborted s"
  by (simp_all add: complete_def events_def map_update) (metis list_update_id nth_map list_update_beyond map_update not_less)

section \<open>Code that does not read the inbox\<close>

text \<open>Such code appends messages and does the same whatever the outbox holds.\<close>

definition fresh_message :: "'m \<Rightarrow> 'm \<times> 'c list" where
  "fresh_message m = (m, [])"

definition blind :: "(('m, 'c, 'z) outbox_db_scheme, 'a) comp \<Rightarrow> bool" where
  "blind f \<longleftrightarrow> (\<forall>s r s'. f s = Some (r, s') \<longrightarrow>
     (\<exists>new. messages s' = messages s @ map fresh_message new \<and>
        (\<forall>ms. f (s\<lparr>messages := ms\<rparr>) = Some (r, s'\<lparr>messages := ms @ map fresh_message new\<rparr>))))"

named_theorems blind_intros "introduction rules for blind"

lemma blindI:
  "(\<And>s r s'. f s = Some (r, s') \<Longrightarrow> \<exists>new. messages s' = messages s @ map fresh_message new \<and>
     (\<forall>ms. f (s\<lparr>messages := ms\<rparr>) = Some (r, s'\<lparr>messages := ms @ map fresh_message new\<rparr>))) \<Longrightarrow> blind f"
  by (auto simp: blind_def)

lemma blindD:
  "blind f \<Longrightarrow> f s = Some (r, s') \<Longrightarrow> \<exists>new. messages s' = messages s @ map fresh_message new \<and>
     (\<forall>ms. f (s\<lparr>messages := ms\<rparr>) = Some (r, s'\<lparr>messages := ms @ map fresh_message new\<rparr>))"
  unfolding blind_def by blast

lemma blind_ret [blind_intros]: "blind (ret v)"
  by (rule blindI) (auto intro!: exI[of _ "[]"])

lemma blind_throw [blind_intros]: "blind (throw e)"
  by (rule blindI) (auto intro!: exI[of _ "[]"])

lemma blind_publish [blind_intros]: "blind (publishMessage m)"
  by (rule blindI) (auto simp: publishMessage_def statement_def fresh_message_def split: if_splits
      intro!: exI[of _ "[]"] exI[of _ "[m]"])

text \<open>A statement on the tables.\<close>

lemma blind_statement [blind_intros]:
  assumes "\<And>s e. sql s = Inl e \<Longrightarrow> \<forall>ms. sql (s\<lparr>messages := ms\<rparr>) = Inl e"
    and "\<And>s v s'. sql s = Inr (v, s') \<Longrightarrow>
      messages s' = messages s \<and> (\<forall>ms. sql (s\<lparr>messages := ms\<rparr>) = Inr (v, s'\<lparr>messages := ms\<rparr>))"
  shows "blind (statement sql)"
proof (rule blindI, intro exI[of _ "[]"])
  fix s r s' assume run: "statement sql s = Some (r, s')"
  show "messages s' = messages s @ map fresh_message [] \<and>
    (\<forall>ms. statement sql (s\<lparr>messages := ms\<rparr>) = Some (r, s'\<lparr>messages := ms @ map fresh_message []\<rparr>))"
    using run assms[of s] by (cases "sql s") (auto simp: statement_def split: if_splits)
qed

lemma blind_andThen [blind_intros]:
  assumes "blind f" and "\<And>v. blind (g v)"
  shows "blind (andThen f g)"
proof (rule blindI)
  fix s r s' assume "andThen f g s = Some (r, s')"
  then consider (going) v s1 where "f s = Some (Resolve v, s1)" "g v s1 = Some (r, s')"
    | (stop) e where "f s = Some (Reject e, s')" "r = Reject e" by (auto simp: andThen_Some)
  then show "\<exists>new. messages s' = messages s @ map fresh_message new \<and>
    (\<forall>ms. andThen f g (s\<lparr>messages := ms\<rparr>) = Some (r, s'\<lparr>messages := ms @ map fresh_message new\<rparr>))"
  proof cases
    case going
    obtain xs where xs: "messages s1 = messages s @ map fresh_message xs"
      "\<And>ms. f (s\<lparr>messages := ms\<rparr>) = Some (Resolve v, s1\<lparr>messages := ms @ map fresh_message xs\<rparr>)"
      using blindD[OF assms(1) going(1)] by blast
    obtain ys where ys: "messages s' = messages s1 @ map fresh_message ys"
      "\<And>ms. g v (s1\<lparr>messages := ms\<rparr>) = Some (r, s'\<lparr>messages := ms @ map fresh_message ys\<rparr>)"
      using blindD[OF assms(2) going(2)] by blast
    show ?thesis using xs ys by (intro exI[of _ "xs @ ys"]) (simp add: andThen_def)
  next
    case stop
    obtain xs where "messages s' = messages s @ map fresh_message xs"
      "\<And>ms. f (s\<lparr>messages := ms\<rparr>) = Some (Reject e, s'\<lparr>messages := ms @ map fresh_message xs\<rparr>)" using blindD[OF assms(1) stop(1)] by blast
    then show ?thesis using stop by (intro exI[of _ xs]) (simp add: andThen_def)
  qed
qed

lemma blind_catching [blind_intros]:
  assumes "blind f" and "\<And>e. blind (h e)"
  shows "blind (catching f h)"
proof (rule blindI)
  fix s r s' assume "catching f h s = Some (r, s')"
  then consider (rejected) e s1 where "f s = Some (Reject e, s1)" "h e s1 = Some (r, s')"
    | (fine) v where "f s = Some (Resolve v, s')" "r = Resolve v" by (auto simp: catching_Some)
  then show "\<exists>new. messages s' = messages s @ map fresh_message new \<and>
    (\<forall>ms. catching f h (s\<lparr>messages := ms\<rparr>) = Some (r, s'\<lparr>messages := ms @ map fresh_message new\<rparr>))"
  proof cases
    case rejected
    obtain xs where xs: "messages s1 = messages s @ map fresh_message xs"
      "\<And>ms. f (s\<lparr>messages := ms\<rparr>) = Some (Reject e, s1\<lparr>messages := ms @ map fresh_message xs\<rparr>)"
      using blindD[OF assms(1) rejected(1)] by blast
    obtain ys where ys: "messages s' = messages s1 @ map fresh_message ys"
      "\<And>ms. h e (s1\<lparr>messages := ms\<rparr>) = Some (r, s'\<lparr>messages := ms @ map fresh_message ys\<rparr>)"
      using blindD[OF assms(2) rejected(2)] by blast
    show ?thesis using xs ys by (intro exI[of _ "xs @ ys"]) (simp add: catching_def)
  next
    case fine
    obtain xs where "messages s' = messages s @ map fresh_message xs"
      "\<And>ms. f (s\<lparr>messages := ms\<rparr>) = Some (Resolve v, s'\<lparr>messages := ms @ map fresh_message xs\<rparr>)" using blindD[OF assms(1) fine(1)] by blast
    then show ?thesis using fine by (intro exI[of _ xs]) (simp add: catching_def)
  qed
qed

lemma blind_transactional [blind_intros]:
  assumes "blind f"
  shows "blind (transactional f)"
proof (rule blindI)
  fix s r s' assume run: "transactional f s = Some (r, s')"
  then obtain r1 s1 where f: "f s = Some (r1, s1)" by (auto simp: transactional_def split: option.splits)
  obtain xs where xs: "messages s1 = messages s @ map fresh_message xs"
    "\<And>ms. f (s\<lparr>messages := ms\<rparr>) = Some (r1, s1\<lparr>messages := ms @ map fresh_message xs\<rparr>)" using blindD[OF assms f] by blast
  show "\<exists>new. messages s' = messages s @ map fresh_message new \<and>
    (\<forall>ms. transactional f (s\<lparr>messages := ms\<rparr>) = Some (r, s'\<lparr>messages := ms @ map fresh_message new\<rparr>))"
  proof (cases "(\<exists>v. r1 = Resolve v) \<and> \<not> aborted s1")
    case True
    then show ?thesis using run f xs by (intro exI[of _ xs]) (auto simp: transactional_def)
  next
    case False
    then show ?thesis using run f xs
      by (intro exI[of _ "[]"]) (auto simp: transactional_def split: outcome.splits)
  qed
qed

lemma blind_if [blind_intros]: "blind f \<Longrightarrow> blind g \<Longrightarrow> blind (if b then f else g)"
  by simp

lemma blind_inserted [blind_intros]: "blind f \<Longrightarrow> blind (inserted f)"
  unfolding inserted_def by (intro blind_intros)

section \<open>Exactly once\<close>

text \<open>The tables and the messages, without the inbox.\<close>

definition forget :: "('m, 'c, 'z) outbox_db_scheme \<Rightarrow> ('m, 'c, 'z) outbox_db_scheme" where
  "forget s = s\<lparr>messages := map fresh_message (events s)\<rparr>"

text \<open>A step of an application: a request is served or a message delivered.\<close>

definition app_step ::
    "(('m, 'c, 'z) outbox_db_scheme \<Rightarrow> ('m, 'c, 'z) outbox_db_scheme \<Rightarrow> bool) \<Rightarrow> ('c \<Rightarrow> 'm \<Rightarrow> bool) \<Rightarrow>
     ('m, 'c, 'z) handlers \<Rightarrow> bool \<Rightarrow> ('m, 'c, 'z) outbox_db_scheme \<Rightarrow> ('m, 'c, 'z) outbox_db_scheme \<Rightarrow> bool" where
  "app_step request subscribed onMessage once s s' \<longleftrightarrow> request s s' \<or> relays subscribed onMessage once s s'"

lemma forget_fields [simp]: "events (forget s) = events s" "forget (forget s) = forget s" "aborted (forget s) = aborted s"
  by (simp_all add: forget_def events_def fresh_message_def o_def)

lemma forget_complete [simp]: "forget (complete i c s) = forget s"
  by (simp add: forget_def) (simp add: complete_def)

lemma forget_eqD: "forget t = forget s \<Longrightarrow> t = s\<lparr>messages := messages t\<rparr> \<and> events t = events s"
proof -
  assume eq: "forget t = forget s"
  then have "events (forget t) = events (forget s)" by simp
  then have "events t = events s" by (simp only: forget_fields)
  moreover have "t = (forget t)\<lparr>messages := messages t\<rparr>" by (simp add: forget_def)
  then have "t = (forget s)\<lparr>messages := messages t\<rparr>" by (simp only: eq)
  ultimately show ?thesis by (simp add: forget_def)
qed

locale idempotent_consumers =
  fixes request :: "('m, 'c, 'z) outbox_db_scheme \<Rightarrow> ('m, 'c, 'z) outbox_db_scheme \<Rightarrow> bool"
    and subscribed :: "'c \<Rightarrow> 'm \<Rightarrow> bool"
    and onMessage :: "('m, 'c, 'z) handlers"
    and handled :: "'c \<Rightarrow> 'm \<Rightarrow> ('m, 'c, 'z) outbox_db_scheme \<Rightarrow> bool"
    and sound :: "('m, 'c, 'z) outbox_db_scheme \<Rightarrow> bool"
  assumes handler_blind: "subscribed c m \<Longrightarrow> blind (onMessage c date m)"
    and request_blind: "request s s' \<Longrightarrow> \<exists>new. messages s' = messages s @ map fresh_message new \<and>
      (\<forall>ms. request (s\<lparr>messages := ms\<rparr>) (s'\<lparr>messages := ms @ map fresh_message new\<rparr>))"
    and view: "handled c m (forget s) = handled c m s" "sound (forget s) = sound s"
    and request_sound: "sound s \<Longrightarrow> request s s' \<Longrightarrow> sound s'"
    and handler_sound: "sound s \<Longrightarrow> m \<in> set (events s) \<Longrightarrow> subscribed c m \<Longrightarrow>
      onMessage c date m s = Some (Resolve (), s') \<Longrightarrow> sound s'"
    and completes: "sound s \<Longrightarrow> m \<in> set (events s) \<Longrightarrow> subscribed c m \<Longrightarrow>
      onMessage c date m s = Some (Resolve (), s') \<Longrightarrow> handled c m s'"
    and request_stays: "sound s \<Longrightarrow> m \<in> set (events s) \<Longrightarrow> handled c m s \<Longrightarrow> request s s' \<Longrightarrow> handled c m s'"
    and handler_stays: "sound s \<Longrightarrow> m \<in> set (events s) \<Longrightarrow> handled c m s \<Longrightarrow> n \<in> set (events s) \<Longrightarrow> subscribed d n \<Longrightarrow>
      onMessage d date n s = Some (Resolve (), s') \<Longrightarrow> handled c m s'"
    and idle: "sound s \<Longrightarrow> m \<in> set (events s) \<Longrightarrow> subscribed c m \<Longrightarrow> handled c m s \<Longrightarrow>
      onMessage c date m s = Some (Resolve (), s') \<Longrightarrow> s' = s"
begin

definition steps :: "bool \<Rightarrow> ('m, 'c, 'z) outbox_db_scheme \<Rightarrow> ('m, 'c, 'z) outbox_db_scheme \<Rightarrow> bool" where
  "steps once = (app_step request subscribed onMessage once)\<^sup>*\<^sup>*"

text \<open>What the inbox of the run that delivers once holds was handled.\<close>

definition recorded :: "('m, 'c, 'z) outbox_db_scheme \<Rightarrow> bool" where
  "recorded t \<longleftrightarrow> sound t \<and> (\<forall>m inbox c. (m, inbox) \<in> set (messages t) \<longrightarrow> c \<in> set inbox \<longrightarrow> handled c m t)"

lemma view_eq:
  assumes "forget t = forget s"
  shows "handled c m t = handled c m s" "sound t = sound s"
  using view assms by metis+

lemma in_events: "(m, inbox) \<in> set (messages t) \<Longrightarrow> m \<in> set (events t)"
  by (force simp: events_def)

lemma request_recorded:
  assumes "request t t'" and "recorded t"
  shows "recorded t'"
proof -
  obtain new where "messages t' = messages t @ map fresh_message new" using request_blind[OF assms(1)] by blast
  then show ?thesis
    using assms(2) request_sound[OF _ assms(1)] request_stays[OF _ in_events _ assms(1)]
    by (auto simp: recorded_def fresh_message_def)
qed

lemma simulate_request:
  assumes "request s s'" and "forget t = forget s" and "recorded t"
  shows "\<exists>t'. request t t' \<and> forget t' = forget s' \<and> recorded t'"
proof -
  obtain new where new: "messages s' = messages s @ map fresh_message new"
    "\<And>ms. request (s\<lparr>messages := ms\<rparr>) (s'\<lparr>messages := ms @ map fresh_message new\<rparr>)"
    using request_blind[OF assms(1)] by blast
  define t' where "t' = s'\<lparr>messages := messages t @ map fresh_message new\<rparr>"
  have step: "request t t'" using new(2)[of "messages t"] forget_eqD[OF assms(2)] by (simp add: t'_def)
  have "events t' = events s'"
    using forget_eqD[OF assms(2)] new(1) by (simp add: t'_def events_def)
  then have "forget t' = forget s'" by (simp add: forget_def t'_def)
  moreover have "recorded t'" by (rule request_recorded[OF step assms(3)])
  ultimately show ?thesis using step by blast
qed

lemma delivery_recorded:
  assumes "relays subscribed onMessage once t t'" and "recorded t"
  shows "recorded t'"
  using assms(1)
proof cases
  case (deliver i ev inbox c date t1)
  have ev: "(ev, inbox) \<in> set (messages t)" "ev \<in> set (events t)"
    using deliver(2,3) nth_mem in_events by metis+
  have sound: "sound t" using assms(2) by (simp add: recorded_def)
  obtain new where new: "messages t1 = messages t @ map fresh_message new"
    using blindD[OF handler_blind[OF deliver(4)] deliver(6)] by blast
  have snd: "sound t1" by (rule handler_sound[OF sound ev(2) deliver(4,6)])
  have fin: "handled c ev t1" by (rule completes[OF sound ev(2) deliver(4,6)])
  have old: "handled c' m t1" if "(m, ib) \<in> set (messages t1)" "c' \<in> set ib" for m ib c'
    using that assms(2) handler_stays[OF sound in_events _ ev(2) deliver(4,6)]
    by (auto simp: recorded_def new fresh_message_def)
  have here: "messages t1 ! i = (ev, inbox)" using deliver(2,3) by (simp add: new nth_append)
  have "handled c' m t1" if "(m, ib) \<in> set (messages t')" "c' \<in> set ib" for m ib c'
  proof -
    from that(1) have "(m, ib) = (ev, c # inbox) \<or> (m, ib) \<in> set (messages t1)"
      using here by (auto simp: deliver(1) complete_def dest: set_update_subset_insert[THEN subsetD])
    then show ?thesis
    proof
      assume "(m, ib) = (ev, c # inbox)"
      moreover have "(ev, inbox) \<in> set (messages t1)" using ev(1) by (simp add: new)
      ultimately show ?thesis using that(2) fin old by auto
    qed (use that(2) old in blast)
  qed
  then show ?thesis
    using snd view_eq[of t' t1] deliver(1) by (simp add: recorded_def)
qed

lemma simulate_delivery:
  assumes "relays subscribed onMessage False s s'" and "forget t = forget s" and "recorded t"
  shows "\<exists>t'. (relays subscribed onMessage True)\<^sup>=\<^sup>= t t' \<and> forget t' = forget s' \<and> recorded t'"
  using assms(1)
proof cases
  case (deliver i ev inbox c date s1)
  have same: "t = s\<lparr>messages := messages t\<rparr>" "events t = events s" using forget_eqD[OF assms(2)] by simp_all
  then have len: "i < length (messages t)" "fst (messages t ! i) = ev"
    using deliver(2,3) by (metis events_def length_map) (metis deliver(2,3) events_def fst_conv length_map nth_map same(2))
  obtain inbox' where at: "messages t ! i = (ev, inbox')" using len(2) by (metis prod.collapse)
  have ev: "ev \<in> set (events t)" "ev \<in> set (events s)"
    using in_events[of ev inbox' t] at len(1) same(2) by (metis nth_mem)+
  have sound: "sound t" "sound s" using assms(3) view_eq[OF assms(2)] by (auto simp: recorded_def)
  obtain new where new: "messages s1 = messages s @ map fresh_message new"
    "\<And>ms. onMessage c date ev (s\<lparr>messages := ms\<rparr>) = Some (Resolve (), s1\<lparr>messages := ms @ map fresh_message new\<rparr>)"
    using blindD[OF handler_blind[OF deliver(4)] deliver(6)] by blast
  show ?thesis
  proof (cases "c \<in> set inbox'")
    case True
    then have "handled c ev t" using assms(3) at len(1) nth_mem by (metis recorded_def)
    then have "s1 = s" using idle[OF sound(2) ev(2) deliver(4) _ deliver(6)] view_eq[OF assms(2)] by simp
    then show ?thesis using deliver(1) assms(2,3) by auto
  next
    case False
    define t1 where "t1 = s1\<lparr>messages := messages t @ map fresh_message new\<rparr>"
    have run: "onMessage c date ev t = Some (Resolve (), t1)"
      using new(2)[of "messages t"] same(1) by (simp add: t1_def)
    have "relays subscribed onMessage True t (complete i c t1)"
      by (rule relays.deliver[where ev = ev and inbox = inbox' and date = date])
        (use len(1) at deliver(4) run False in simp_all)
    moreover have "events t1 = events s1" using same(2) new(1) by (simp add: t1_def events_def)
    then have "forget t1 = forget s1" by (simp add: forget_def t1_def)
    then have "forget (complete i c t1) = forget s'" using deliver(1) by simp
    moreover have "recorded (complete i c t1)" by (rule delivery_recorded[OF calculation(1) assms(3)])
    ultimately show ?thesis by blast
  qed
qed

lemma simulate:
  assumes "steps False s0 s" and "recorded s0"
  shows "\<exists>t. steps True s0 t \<and> forget t = forget s \<and> recorded t"
  using assms(1) unfolding steps_def
proof (induction rule: rtranclp_induct)
  case base
  show ?case using assms(2) by blast
next
  case (step s s')
  then obtain t where t: "(app_step request subscribed onMessage True)\<^sup>*\<^sup>* s0 t" "forget t = forget s" "recorded t" by blast
  from step(2) have "\<exists>t'. (app_step request subscribed onMessage True)\<^sup>=\<^sup>= t t' \<and> forget t' = forget s' \<and> recorded t'"
    unfolding app_step_def using simulate_request[OF _ t(2,3)] simulate_delivery[OF _ t(2,3)] by blast
  then show ?case using t(1) by (auto dest: rtranclp.rtrancl_into_rtrancl)
qed

lemma relays_once: "relays subscribed onMessage True s s' \<Longrightarrow> relays subscribed onMessage False s s'"
  by (erule relays.cases) (auto intro: relays.deliver)

lemma exactly_once_at_least_once: "steps True s0 s \<Longrightarrow> steps False s0 s"
  unfolding steps_def by (erule rtranclp_mono[THEN predicate2D, rotated]) (auto simp: app_step_def relays_once)

text \<open>The tables reached with redeliveries are those reached without.\<close>

lemma redelivery_changes_nothing:
  assumes "recorded s0"
  shows "{forget s |s. steps False s0 s} = {forget s |s. steps True s0 s}"
  using assms simulate exactly_once_at_least_once by (auto 0 3) metis

lemma steps_recorded:
  assumes "steps once s0 s" and "recorded s0"
  shows "recorded s"
  using assms unfolding steps_def
  by (induction rule: rtranclp_induct) (auto simp: app_step_def intro: request_recorded delivery_recorded)

end

end
