(* ===== verification/Order_Saga.thy ===== *)
theory Order_Saga
  imports Outbox Outbox_Relay
begin

text \<open>
  \<open>examples/e-commerce-orders/src\<close>: the application that puts the packages together. An order
  is placed over REST and walks a saga whose steps are handlers of outbox messages, each in a
  \<open>@Transactional\<close> method: stock is reserved, the payment charged, the order confirmed, or one
  of the failure events compensates.

  The tables are the entities of the example, on the database of \<open>Postgres\<close> and the outbox of
  \<open>Outbox_Relay\<close>; a conditional \<open>UPDATE\<close> reports how many rows it changed.
\<close>

section \<open>Events\<close>

record order_item =
  i_sku :: string
  i_quantity :: int
  i_unitPriceCents :: int

text \<open>The classes; handlers get the properties back as plain JSON.\<close>

datatype saga_event =
    OrderPlacedEvent string string "order_item list" int
  | StockReservedEvent string string int
  | StockReservationFailedEvent string string "string list"
  | PaymentChargedEvent string int
  | PaymentFailedEvent string int string
  | OrderConfirmedEvent string string int

fun eventOrder :: "saga_event \<Rightarrow> string" where
  "eventOrder (OrderPlacedEvent oid c items amount) = oid"
| "eventOrder (StockReservedEvent oid c amount) = oid"
| "eventOrder (StockReservationFailedEvent oid r skus) = oid"
| "eventOrder (PaymentChargedEvent oid a) = oid"
| "eventOrder (PaymentFailedEvent oid a r) = oid"
| "eventOrder (OrderConfirmedEvent oid c amount) = oid"

text \<open>The objects, with arrays as objects whose properties are the indices.\<close>

fun decimal :: "nat \<Rightarrow> string" where
  "decimal n = (if n < 10 then [char_of (48 + n)] else decimal (n div 10) @ [char_of (48 + n mod 10)])"

declare decimal.simps [simp del]

definition arrayOf :: "jsv list \<Rightarrow> jsv" where
  "arrayOf vs = JObj 0 [''Array''] (zip (map decimal [0..<length vs]) vs)"

definition itemObject :: "order_item \<Rightarrow> jsv" where
  "itemObject it =
     JObj 0 [''Object''] [(''sku'', JStr (i_sku it)), (''quantity'', JNum (JInt (i_quantity it))),
       (''unitPriceCents'', JNum (JInt (i_unitPriceCents it)))]"

fun eventObject :: "nat \<Rightarrow> saga_event \<Rightarrow> jsv" where
  "eventObject a (OrderPlacedEvent oid c items amount) =
     JObj a [''OrderPlacedEvent'']
       [(''orderId'', JStr oid), (''customerId'', JStr c), (''items'', arrayOf (map itemObject items)),
        (''totalAmountCents'', JNum (JInt amount))]"
| "eventObject a (StockReservedEvent oid c amount) =
     JObj a [''StockReservedEvent'']
       [(''orderId'', JStr oid), (''customerId'', JStr c), (''totalAmountCents'', JNum (JInt amount))]"
| "eventObject a (StockReservationFailedEvent oid r skus) =
     JObj a [''StockReservationFailedEvent'']
       [(''orderId'', JStr oid), (''reason'', JStr r), (''reservedSkus'', arrayOf (map JStr skus))]"
| "eventObject a (PaymentChargedEvent oid n) =
     JObj a [''PaymentChargedEvent''] [(''orderId'', JStr oid), (''amountCents'', JNum (JInt n))]"
| "eventObject a (PaymentFailedEvent oid n r) =
     JObj a [''PaymentFailedEvent'']
       [(''orderId'', JStr oid), (''amountCents'', JNum (JInt n)), (''reason'', JStr r)]"
| "eventObject a (OrderConfirmedEvent oid c amount) =
     JObj a [''OrderConfirmedEvent'']
       [(''orderId'', JStr oid), (''customerId'', JStr c), (''totalAmountCents'', JNum (JInt amount))]"

definition KAFKA_CLIENT :: string where
  "KAFKA_CLIENT = ''KAFKA_CLIENT''"

fun strOf :: "jsv \<Rightarrow> string" where
  "strOf (JStr s) = s"
| "strOf v = []"

text \<open>The two declarations, evaluated and applied in the order of the file.\<close>

definition OrderPlaced_externalized :: externalized_options where
  "OrderPlaced_externalized =
     \<lparr>xo_target = JStr ''orders.placed'', xo_client = Some ''local'',
      xo_routingKey = Some (\<lambda>event. strOf (prop_of event ''orderId'')), xo_headers = None\<rparr>"

definition OrderConfirmed_externalized :: externalized_options where
  "OrderConfirmed_externalized =
     \<lparr>xo_target = JStr ''orders.confirmed'', xo_client = Some KAFKA_CLIENT,
      xo_routingKey = Some (\<lambda>event. strOf (prop_of event ''orderId'')),
      xo_headers = Some (DerivedHeaders (\<lambda>event.
        [(''x-order-id'', strOf (prop_of event ''orderId'')),
         (''x-customer-id'', strOf (prop_of event ''customerId''))]))\<rparr>"

definition declareOn ::
    "externalized_options \<Rightarrow> string \<Rightarrow> externalized_registry \<Rightarrow> framework_error + externalized_registry" where
  "declareOn options cls reg =
     (case Externalized options of Inl e \<Rightarrow> Inl e | Inr metadata \<Rightarrow> applyExternalized metadata cls reg)"

definition sagaExternalized :: externalized_registry where
  "sagaExternalized =
     (case declareOn OrderPlaced_externalized ''OrderPlacedEvent'' noExternalized of
        Inl e \<Rightarrow> noExternalized
      | Inr reg \<Rightarrow>
          (case declareOn OrderConfirmed_externalized ''OrderConfirmedEvent'' reg of Inl e \<Rightarrow> reg | Inr reg1 \<Rightarrow> reg1))"

definition sagaMessage :: "saga_event \<Rightarrow> outbox_message" where
  "sagaMessage ev = toMessage sagaExternalized (eventObject 0 ev)"

text \<open>\<open>route: externalizedRoute()\<close> of the application module.\<close>

definition sagaRoute :: "saga_event \<Rightarrow> framework_error + string" where
  "sagaRoute ev = externalizedRoute \<lparr>ro_defaultTransport = None, ro_fallback = None\<rparr> sagaExternalized (sagaMessage ev)"

section \<open>Tables\<close>

datatype order_status = Placed | Confirmed | Failed

record order_row =
  or_id :: string
  or_customerId :: string
  or_status :: order_status
  or_totalAmountCents :: int
  or_items :: "order_item list"
  or_placedAt :: nat
  or_confirmedAt :: "nat option"
  or_failureReason :: "string option"

text \<open>Of a product the table has the stock on hand.\<close>

datatype reservation_status = Reserved | Released

record reservation_row =
  rr_id :: string
  rr_orderId :: string
  rr_sku :: string
  rr_quantity :: int
  rr_status :: reservation_status

datatype payment_status = Charged | PaymentFailed

record payment_row =
  pr_orderId :: string
  pr_amountCents :: int
  pr_status :: payment_status
  pr_recordedAt :: nat

datatype consumer = ReserveStock | ChargePayment | ConfirmShipment | OrdersCompensation | ReleaseStock

record shop = "(saga_event, consumer) outbox_db" +
  orders :: "string \<Rightarrow> order_row option"
  products :: "string \<Rightarrow> int option"
  reservations :: "reservation_row list"
  payments :: "string \<Rightarrow> payment_row option"

section \<open>Statements\<close>

definition insertOrder :: "order_row \<Rightarrow> (shop, unit) comp" where
  "insertOrder row = statement (\<lambda>s.
     if \<not> int4 (or_totalAmountCents row) then Inl outOfRange
     else if orders s (or_id row) \<noteq> None then Inl (QueryFailedError POSTGRES_UNIQUE_VIOLATION)
     else Inr ((), s\<lparr>orders := (orders s)(or_id row \<mapsto> row)\<rparr>))"

definition findOrder :: "string \<Rightarrow> (shop, order_row option) comp" where
  "findOrder oid = statement (\<lambda>s. Inr (orders s oid, s))"

text \<open>\<open>update({ id, status: 'placed' }, changes)\<close>, answering with the rows affected.\<close>

definition updatePlaced :: "string \<Rightarrow> (order_row \<Rightarrow> order_row) \<Rightarrow> (shop, nat) comp" where
  "updatePlaced oid changes = statement (\<lambda>s.
     case orders s oid of
       Some row \<Rightarrow>
         if or_status row = Placed then Inr (1, s\<lparr>orders := (orders s)(oid \<mapsto> changes row)\<rparr>) else Inr (0, s)
     | None \<Rightarrow> Inr (0, s))"

definition takeStock :: "string \<Rightarrow> int \<Rightarrow> (shop, nat) comp" where
  "takeStock sku qty = statement (\<lambda>s.
     if \<not> int4 qty then Inl outOfRange
     else (case products s sku of
             Some available \<Rightarrow>
               if available \<ge> qty
               then if int4 (available - qty) then Inr (1, s\<lparr>products := (products s)(sku \<mapsto> available - qty)\<rparr>)
                    else Inl outOfRange
               else Inr (0, s)
           | None \<Rightarrow> Inr (0, s)))"

definition putStock :: "string \<Rightarrow> int \<Rightarrow> (shop, nat) comp" where
  "putStock sku qty = statement (\<lambda>s.
     case products s sku of
       Some available \<Rightarrow>
         if int4 (available + qty) then Inr (1, s\<lparr>products := (products s)(sku \<mapsto> available + qty)\<rparr>)
         else Inl outOfRange
     | None \<Rightarrow> Inr (0, s))"

definition insertReservation :: "reservation_row \<Rightarrow> (shop, unit) comp" where
  "insertReservation row = statement (\<lambda>s.
     if \<not> int4 (rr_quantity row) then Inl outOfRange
     else if rr_id row \<in> rr_id ` set (reservations s) then Inl (QueryFailedError POSTGRES_UNIQUE_VIOLATION)
     else Inr ((), s\<lparr>reservations := reservations s @ [row]\<rparr>))"

definition findReserved :: "string \<Rightarrow> (shop, reservation_row list) comp" where
  "findReserved oid = statement (\<lambda>s.
     Inr (filter (\<lambda>r. rr_orderId r = oid \<and> rr_status r = Reserved) (reservations s), s))"

definition releaseReservation :: "string \<Rightarrow> (shop, nat) comp" where
  "releaseReservation rid = statement (\<lambda>s.
     let hit = (\<lambda>r. rr_id r = rid \<and> rr_status r = Reserved)
     in Inr (length (filter hit (reservations s)),
             s\<lparr>reservations := map (\<lambda>r. if hit r then r\<lparr>rr_status := Released\<rparr> else r) (reservations s)\<rparr>))"

definition insertPayment :: "payment_row \<Rightarrow> (shop, unit) comp" where
  "insertPayment row = statement (\<lambda>s.
     if \<not> int4 (pr_amountCents row) then Inl outOfRange
     else if payments s (pr_orderId row) \<noteq> None then Inl (QueryFailedError POSTGRES_UNIQUE_VIOLATION)
     else Inr ((), s\<lparr>payments := (payments s)(pr_orderId row \<mapsto> row)\<rparr>))"

section \<open>The aggregate\<close>

record order_aggregate =
  oa_id :: string
  oa_customerId :: string
  oa_items :: "order_item list"
  oa_totalAmountCents :: int
  oa_status :: order_status
  oa_confirmedAt :: "nat option"
  oa_failureReason :: "string option"
  oa_uncommitted :: "saga_event list"

definition newOrder :: "string \<Rightarrow> string \<Rightarrow> order_item list \<Rightarrow> int \<Rightarrow> order_aggregate" where
  "newOrder oid customerId items amount =
     \<lparr>oa_id = oid, oa_customerId = customerId, oa_items = items, oa_totalAmountCents = amount,
      oa_status = Placed, oa_confirmedAt = None, oa_failureReason = None, oa_uncommitted = []\<rparr>"

definition apply_event :: "saga_event \<Rightarrow> order_aggregate \<Rightarrow> order_aggregate" where
  "apply_event ev order = order\<lparr>oa_uncommitted := oa_uncommitted order @ [ev]\<rparr>"

definition place :: "order_aggregate \<Rightarrow> order_aggregate" where
  "place order =
     apply_event (OrderPlacedEvent (oa_id order) (oa_customerId order) (oa_items order) (oa_totalAmountCents order)) order"

definition confirm :: "nat \<Rightarrow> order_aggregate \<Rightarrow> order_aggregate" where
  "confirm date order =
     apply_event (OrderConfirmedEvent (oa_id order) (oa_customerId order) (oa_totalAmountCents order))
       (order\<lparr>oa_status := Confirmed, oa_confirmedAt := Some date\<rparr>)"

definition fail :: "string \<Rightarrow> order_aggregate \<Rightarrow> order_aggregate" where
  "fail reason order = order\<lparr>oa_status := Failed, oa_failureReason := Some reason\<rparr>"

text \<open>
  \<open>commit()\<close> publishes on the event bus, whose publisher hands the events of declared classes to
  the outbox before the transaction commits.
\<close>

fun publishAll_outbox :: "saga_event list \<Rightarrow> (shop, unit) comp" where
  "publishAll_outbox [] = ret ()"
| "publishAll_outbox (ev # evs) =
     andThen (if getExternalizedMetadata sagaExternalized (eventObject 0 ev) = None then ret () else publishMessage ev)
       (\<lambda>_. publishAll_outbox evs)"

definition commit :: "order_aggregate \<Rightarrow> (shop, unit) comp" where
  "commit order = publishAll_outbox (oa_uncommitted order)"

section \<open>Placing and reading orders\<close>

definition totalOf :: "order_item list \<Rightarrow> int" where
  "totalOf items = fold (\<lambda>item sum. sum + i_quantity item * i_unitPriceCents item) items 0"

definition orderIdOf :: "string \<Rightarrow> string" where
  "orderIdOf uuid = ''ord-'' @ take 8 uuid"

definition placeOrder :: "string \<Rightarrow> nat \<Rightarrow> string \<Rightarrow> order_item list \<Rightarrow> (shop, string) comp" where
  "placeOrder uuid date customerId items = transactional
     (let orderId = orderIdOf uuid; totalCents = totalOf items
      in andThen (insertOrder \<lparr>or_id = orderId, or_customerId = customerId, or_status = Placed,
             or_totalAmountCents = totalCents, or_items = items, or_placedAt = date,
             or_confirmedAt = None, or_failureReason = None\<rparr>)
           (\<lambda>_. andThen (commit (place (newOrder orderId customerId items totalCents)))
              (\<lambda>_. ret orderId)))"

definition BadRequestException :: jsv where
  "BadRequestException = JObj 0 [''BadRequestException'', ''HttpException'', ''Error''] []"

definition NotFoundException :: jsv where
  "NotFoundException = JObj 0 [''NotFoundException'', ''HttpException'', ''Error''] []"

definition acceptedItem :: "order_item \<Rightarrow> bool" where
  "acceptedItem item \<longleftrightarrow> i_sku item \<noteq> [] \<and> 0 < i_quantity item \<and> 0 \<le> i_unitPriceCents item"

text \<open>\<open>POST /orders\<close> and \<open>GET /orders/:id\<close>; the bodies are those whose numbers are integers.\<close>

definition postOrder :: "string \<Rightarrow> nat \<Rightarrow> string \<Rightarrow> order_item list \<Rightarrow> (shop, string) comp" where
  "postOrder uuid date customerId items =
     (if customerId = [] \<or> items = [] then throw BadRequestException
      else if \<not> list_all acceptedItem items then throw BadRequestException
      else placeOrder uuid date customerId items)"

record order_response =
  re_id :: string
  re_customerId :: string
  re_status :: order_status
  re_totalAmountCents :: int
  re_items :: "order_item list"
  re_placedAt :: string
  re_confirmedAt :: "string option"
  re_failureReason :: "string option"

definition getOrder :: "(nat \<Rightarrow> string) \<Rightarrow> string \<Rightarrow> (shop, order_response) comp" where
  "getOrder toISOString oid = andThen (findOrder oid) (\<lambda>found.
     case found of
       None \<Rightarrow> throw NotFoundException
     | Some row \<Rightarrow> ret
         \<lparr>re_id = or_id row, re_customerId = or_customerId row, re_status = or_status row,
          re_totalAmountCents = or_totalAmountCents row, re_items = or_items row,
          re_placedAt = toISOString (or_placedAt row),
          re_confirmedAt = map_option toISOString (or_confirmedAt row),
          re_failureReason = or_failureReason row\<rparr>)"

section \<open>Inventory\<close>

definition OutOfStockError :: "string \<Rightarrow> string list \<Rightarrow> jsv" where
  "OutOfStockError message reservedSkus =
     JObj 0 [''OutOfStockError'', ''Error'']
       [(''message'', JStr message), (''reservedSkus'', arrayOf (map JStr reservedSkus))]"

definition reservationId :: "string \<Rightarrow> string \<Rightarrow> string" where
  "reservationId oid sku = oid @ '':'' @ sku"

definition reserveLine :: "string \<Rightarrow> order_item \<Rightarrow> string list \<Rightarrow> (shop, string list) comp" where
  "reserveLine oid item reservedSkus =
     andThen (takeStock (i_sku item) (i_quantity item)) (\<lambda>affected.
       if affected = 0 then throw (OutOfStockError (''out of stock: '' @ i_sku item) reservedSkus)
       else catching
         (andThen (insertReservation \<lparr>rr_id = reservationId oid (i_sku item), rr_orderId = oid, rr_sku = i_sku item,
                     rr_quantity = i_quantity item, rr_status = Reserved\<rparr>)
            (\<lambda>_. ret (reservedSkus @ [i_sku item])))
         (\<lambda>err. if isUniqueViolation err
                then andThen (putStock (i_sku item) (i_quantity item)) (\<lambda>_. ret reservedSkus)
                else throw err))"

fun reserveLines :: "string \<Rightarrow> order_item list \<Rightarrow> string list \<Rightarrow> (shop, string list) comp" where
  "reserveLines oid [] reservedSkus = ret reservedSkus"
| "reserveLines oid (item # items) reservedSkus =
     andThen (reserveLine oid item reservedSkus) (\<lambda>skus. reserveLines oid items skus)"

definition tryReserve :: "string \<Rightarrow> string \<Rightarrow> order_item list \<Rightarrow> int \<Rightarrow> (shop, unit) comp" where
  "tryReserve oid customerId items amount = transactional
     (andThen (reserveLines oid items []) (\<lambda>_. publishMessage (StockReservedEvent oid customerId amount)))"

definition publishFailure :: "string \<Rightarrow> string \<Rightarrow> (shop, unit) comp" where
  "publishFailure oid reason = transactional (publishMessage (StockReservationFailedEvent oid reason []))"

definition reserveStock :: "string \<Rightarrow> string \<Rightarrow> order_item list \<Rightarrow> int \<Rightarrow> (shop, unit) comp" where
  "reserveStock oid customerId items amount =
     catching (tryReserve oid customerId items amount)
       (\<lambda>err. if \<not> instance_of err ''OutOfStockError'' then throw err
              else publishFailure oid (strOf (prop_of err ''message'')))"

fun releaseRows :: "reservation_row list \<Rightarrow> (shop, unit) comp" where
  "releaseRows [] = ret ()"
| "releaseRows (row # rows) =
     andThen (releaseReservation (rr_id row)) (\<lambda>affected.
       andThen (if affected = 0 then ret 0 else putStock (rr_sku row) (rr_quantity row))
         (\<lambda>_. releaseRows rows))"

definition releaseStock :: "string \<Rightarrow> (shop, unit) comp" where
  "releaseStock oid = transactional
     (andThen (findReserved oid) (\<lambda>rows. if rows = [] then ret () else releaseRows rows))"

section \<open>Billing\<close>

definition UNAUTHORISED_AMOUNT_CENTS :: int where
  "UNAUTHORISED_AMOUNT_CENTS = 1000000"

definition chargePayment :: "nat \<Rightarrow> string \<Rightarrow> int \<Rightarrow> (shop, unit) comp" where
  "chargePayment date oid amount = transactional
     (let willFail = amount \<ge> UNAUTHORISED_AMOUNT_CENTS;
          status = (if willFail then PaymentFailed else Charged)
      in andThen
           (catching
              (andThen (insertPayment \<lparr>pr_orderId = oid, pr_amountCents = amount, pr_status = status, pr_recordedAt = date\<rparr>)
                 (\<lambda>_. ret True))
              (\<lambda>err. if isUniqueViolation err then ret False else throw err))
           (\<lambda>inserted.
              if \<not> inserted then ret ()
              else if willFail then publishMessage (PaymentFailedEvent oid amount ''authorisation-declined'')
              else publishMessage (PaymentChargedEvent oid amount)))"

section \<open>The end of an order\<close>

definition confirmShipment :: "nat \<Rightarrow> string \<Rightarrow> (shop, unit) comp" where
  "confirmShipment date oid = transactional
     (andThen (findOrder oid) (\<lambda>found.
        case found of
          None \<Rightarrow> ret ()
        | Some row \<Rightarrow>
            andThen (updatePlaced oid (\<lambda>r. r\<lparr>or_status := Confirmed, or_confirmedAt := Some date\<rparr>)) (\<lambda>affected.
              if affected = 0 then ret ()
              else commit (confirm date
                (newOrder (or_id row) (or_customerId row) (or_items row) (or_totalAmountCents row))))))"

definition compensateOrder :: "string \<Rightarrow> string \<Rightarrow> (shop, unit) comp" where
  "compensateOrder oid reason = transactional
     (andThen (updatePlaced oid (\<lambda>r. r\<lparr>or_status := Failed, or_failureReason := Some reason\<rparr>)) (\<lambda>_. ret ()))"

section \<open>Delivery\<close>

text \<open>The topics of \<open>@OnOutboxMessage\<close> on each handler.\<close>

fun subscriptions :: "consumer \<Rightarrow> string list" where
  "subscriptions ReserveStock = [''orders.placed'']"
| "subscriptions ChargePayment = [''StockReservedEvent'']"
| "subscriptions ConfirmShipment = [''PaymentChargedEvent'']"
| "subscriptions OrdersCompensation = [''StockReservationFailedEvent'', ''PaymentFailedEvent'']"
| "subscriptions ReleaseStock = [''PaymentFailedEvent'']"

definition subscribed :: "consumer \<Rightarrow> saga_event \<Rightarrow> bool" where
  "subscribed c ev \<longleftrightarrow> topic (sagaMessage ev) \<in> set (subscriptions c)"

text \<open>The handler a message of a subscribed topic is given to; no other pair is delivered.\<close>

fun onMessage :: "consumer \<Rightarrow> nat \<Rightarrow> saga_event \<Rightarrow> (shop, unit) comp" where
  "onMessage ReserveStock date (OrderPlacedEvent oid c items amount) = reserveStock oid c items amount"
| "onMessage ChargePayment date (StockReservedEvent oid c amount) = chargePayment date oid amount"
| "onMessage ConfirmShipment date (PaymentChargedEvent oid n) = confirmShipment date oid"
| "onMessage OrdersCompensation date (StockReservationFailedEvent oid r skus) = compensateOrder oid r"
| "onMessage OrdersCompensation date (PaymentFailedEvent oid n r) = compensateOrder oid r"
| "onMessage ReleaseStock date (PaymentFailedEvent oid n r) = releaseStock oid"
| "onMessage c date ev = (\<lambda>s. None)"

abbreviation delivery :: "bool \<Rightarrow> shop \<Rightarrow> shop \<Rightarrow> bool" where
  "delivery once \<equiv> relays subscribed onMessage once"

text \<open>A step of the application: a request is accepted or a message delivered.\<close>

inductive saga_step :: "bool \<Rightarrow> shop \<Rightarrow> shop \<Rightarrow> bool" for once :: bool where
  request: "postOrder uuid date customerId items s = Some (Resolve oid, s') \<Longrightarrow> CHR '':'' \<notin> set uuid \<Longrightarrow>
    saga_step once s s'"
| relay: "delivery once s s' \<Longrightarrow> saga_step once s s'"

definition opened :: "(string \<Rightarrow> int option) \<Rightarrow> shop" where
  "opened stock =
     \<lparr>aborted = False, messages = [], orders = Map.empty, products = stock, reservations = [], payments = Map.empty\<rparr>"

definition reaches :: "bool \<Rightarrow> (string \<Rightarrow> int option) \<Rightarrow> shop \<Rightarrow> bool" where
  "reaches once stock s \<longleftrightarrow> (saga_step once)\<^sup>*\<^sup>* (opened stock) s"

end
