(* ===== verification/Saga_Effects.thy ===== *)
theory Saga_Effects
  imports Order_Saga
begin

text \<open>
  What each handler of the order saga leaves behind when it returns: its one transaction, as an
  update of the tables, or nothing. The state between transactions is never aborted.
\<close>

section \<open>Topics\<close>

lemmas declared_defs = sagaExternalized_def declareOn_def OrderPlaced_externalized_def
  OrderConfirmed_externalized_def Externalized_def applyExternalized_def noExternalized_def Let_def

lemma metadata_placed:
  "x_meta sagaExternalized ''OrderPlacedEvent'' = Some \<lparr>x_target = ''orders.placed'', x_client = Some ''local'',
     x_routingKey = Some (\<lambda>event. strOf (prop_of event ''orderId'')), x_headers = None\<rparr>"
  by (simp add: declared_defs)

lemma metadata_confirmed:
  "x_meta sagaExternalized ''OrderConfirmedEvent'' = Some \<lparr>x_target = ''orders.confirmed'', x_client = Some KAFKA_CLIENT,
     x_routingKey = Some (\<lambda>event. strOf (prop_of event ''orderId'')),
     x_headers = Some (DerivedHeaders (\<lambda>event.
        [(''x-order-id'', strOf (prop_of event ''orderId'')),
         (''x-customer-id'', strOf (prop_of event ''customerId''))]))\<rparr>"
  by (simp add: declared_defs)

lemma metadata_others:
  "cls \<noteq> ''OrderPlacedEvent'' \<Longrightarrow> cls \<noteq> ''OrderConfirmedEvent'' \<Longrightarrow> x_meta sagaExternalized cls = None"
  by (simp add: declared_defs)

lemma saga_topics [simp]:
  "topic (sagaMessage (OrderPlacedEvent oid c items n)) = ''orders.placed''"
  "topic (sagaMessage (StockReservedEvent oid c n)) = ''StockReservedEvent''"
  "topic (sagaMessage (StockReservationFailedEvent oid r skus)) = ''StockReservationFailedEvent''"
  "topic (sagaMessage (PaymentChargedEvent oid n)) = ''PaymentChargedEvent''"
  "topic (sagaMessage (PaymentFailedEvent oid n r)) = ''PaymentFailedEvent''"
  "topic (sagaMessage (OrderConfirmedEvent oid c n)) = ''orders.confirmed''"
  by (simp_all add: sagaMessage_def toMessage_def Let_def metadata_placed metadata_confirmed metadata_others)

lemma commit_emits:
  "commit (place (newOrder oid c items n)) = publishMessage (OrderPlacedEvent oid c items n)"
  "commit (confirm date (newOrder oid c items n)) = publishMessage (OrderConfirmedEvent oid c n)"
  by (simp_all add: fun_eq_iff commit_def place_def confirm_def newOrder_def apply_event_def metadata_placed
      metadata_confirmed publishMessage_def statement_def andThen_def)

section \<open>Statements\<close>

lemmas sql_defs = insertOrder_def findOrder_def updatePlaced_def takeStock_def putStock_def
  insertReservation_def findReserved_def releaseReservation_def insertPayment_def publishMessage_def

lemma not_out_of_stock [simp]:
  "\<not> instance_of (QueryFailedError code) ''OutOfStockError''"
  "\<not> instance_of outOfRange ''OutOfStockError''"
  "instance_of (OutOfStockError m skus) ''OutOfStockError''"
  "strOf (prop_of (OutOfStockError m skus) ''message'') = m"
  by (simp_all add: QueryFailedError_def outOfRange_def OutOfStockError_def)

lemma emit_tables [simp]:
  "orders (emit ev s) = orders s" "products (emit ev s) = products s" "reservations (emit ev s) = reservations s"
  "payments (emit ev s) = payments s"
  by (simp_all add: emit_def)

section \<open>Placing\<close>

definition placedRow :: "string \<Rightarrow> nat \<Rightarrow> string \<Rightarrow> order_item list \<Rightarrow> order_row" where
  "placedRow oid date c items =
     \<lparr>or_id = oid, or_customerId = c, or_status = Placed, or_totalAmountCents = totalOf items, or_items = items,
      or_placedAt = date, or_confirmedAt = None, or_failureReason = None\<rparr>"

definition acceptedItems :: "order_item list \<Rightarrow> bool" where
  "acceptedItems items \<longleftrightarrow> items \<noteq> [] \<and> list_all acceptedItem items \<and> int4 (totalOf items)"

lemma postOrder_effect:
  assumes "postOrder uuid date c items s = Some (Resolve oid, s')" and "\<not> aborted s"
  shows "oid = orderIdOf uuid \<and> orders s oid = None \<and> acceptedItems items \<and>
    s' = emit (OrderPlacedEvent oid c items (totalOf items)) (s\<lparr>orders := (orders s)(oid \<mapsto> placedRow oid date c items)\<rparr>)"
  using assms
  by (auto simp: postOrder_def placeOrder_def transactional_def andThen_def insertOrder_def statement_def Let_def
      commit_emits publishMessage_run placedRow_def acceptedItems_def emit_def
      split: if_splits option.splits outcome.splits)

section \<open>Reserving\<close>

definition reservationOf :: "string \<Rightarrow> order_item \<Rightarrow> reservation_row" where
  "reservationOf oid it =
     \<lparr>rr_id = reservationId oid (i_sku it), rr_orderId = oid, rr_sku = i_sku it,
      rr_quantity = i_quantity it, rr_status = Reserved\<rparr>"

lemma reservationOf_fields [simp]:
  "rr_id (reservationOf oid it) = reservationId oid (i_sku it)" "rr_orderId (reservationOf oid it) = oid"
  "rr_sku (reservationOf oid it) = i_sku it" "rr_quantity (reservationOf oid it) = i_quantity it"
  "rr_status (reservationOf oid it) = Reserved"
  by (simp_all add: reservationOf_def)

text \<open>The stock after every line was taken, if there was enough for each in turn.\<close>

fun taken :: "order_item list \<Rightarrow> (string \<Rightarrow> int option) \<Rightarrow> (string \<Rightarrow> int option) option" where
  "taken [] P = Some P"
| "taken (it # its) P =
     (case P (i_sku it) of
        None \<Rightarrow> None
      | Some n \<Rightarrow> if i_quantity it \<le> n then taken its (P(i_sku it \<mapsto> n - i_quantity it)) else None)"

lemma reserveLine_effect:
  assumes "reserveLine oid it skus s = Some (r, s')" and "\<not> aborted s"
  shows "case r of
      Resolve v \<Rightarrow> \<not> aborted s' \<and> reservationId oid (i_sku it) \<notin> rr_id ` set (reservations s) \<and>
        (\<exists>n. products s (i_sku it) = Some n \<and> i_quantity it \<le> n \<and>
          s' = s\<lparr>products := (products s)(i_sku it \<mapsto> n - i_quantity it),
                 reservations := reservations s @ [reservationOf oid it]\<rparr>)
    | Reject e \<Rightarrow> True"
  using assms
  by (auto simp: reserveLine_def takeStock_def insertReservation_def putStock_def statement_def reservationOf_def
      andThen_def catching_def split: if_splits option.splits outcome.splits)

lemma reserveLines_effect:
  assumes "reserveLines oid items skus s = Some (Resolve v, s')" and "\<not> aborted s"
  shows "\<not> aborted s' \<and> distinct (map (reservationId oid \<circ> i_sku) items) \<and>
    reservationId oid ` i_sku ` set items \<inter> rr_id ` set (reservations s) = {} \<and>
    (\<exists>P. taken items (products s) = Some P \<and>
       s' = s\<lparr>products := P, reservations := reservations s @ map (reservationOf oid) items\<rparr>)"
  using assms
proof (induction items arbitrary: skus s)
  case Nil
  then show ?case by simp
next
  case (Cons it items)
  from Cons.prems(1) obtain u s1 where one: "reserveLine oid it skus s = Some (Resolve u, s1)"
    and rest: "reserveLines oid items u s1 = Some (Resolve v, s')" by (auto simp: andThen_Some)
  from reserveLine_effect[OF one Cons.prems(2)] obtain n where
    s1: "\<not> aborted s1" "reservationId oid (i_sku it) \<notin> rr_id ` set (reservations s)" "products s (i_sku it) = Some n"
      "i_quantity it \<le> n" "s1 = s\<lparr>products := (products s)(i_sku it \<mapsto> n - i_quantity it),
         reservations := reservations s @ [reservationOf oid it]\<rparr>" by auto
  from Cons.IH[OF rest s1(1)] obtain P where P: "taken items (products s1) = Some P"
      "s' = s1\<lparr>products := P, reservations := reservations s1 @ map (reservationOf oid) items\<rparr>"
    and "\<not> aborted s'" "distinct (map (reservationId oid \<circ> i_sku) items)"
      "reservationId oid ` i_sku ` set items \<inter> rr_id ` set (reservations s1) = {}" by blast
  moreover from this have "reservationId oid (i_sku it) \<notin> reservationId oid ` i_sku ` set items"
    using s1(5) by simp
  moreover have "taken (it # items) (products s) = Some P" using P(1) s1(3-5) by simp
  moreover have "s' = s\<lparr>products := P, reservations := reservations s @ map (reservationOf oid) (it # items)\<rparr>"
    using P(2) s1(5) by simp
  ultimately show ?case using s1(2,5) by (simp add: image_image comp_def) 
qed

lemma tryReserve_effect:
  assumes "tryReserve oid c items n s = Some (Resolve (), s')" and "\<not> aborted s"
  shows "distinct (map (reservationId oid \<circ> i_sku) items) \<and>
    reservationId oid ` i_sku ` set items \<inter> rr_id ` set (reservations s) = {} \<and>
    (\<exists>P. taken items (products s) = Some P \<and>
       s' = emit (StockReservedEvent oid c n)
         (s\<lparr>products := P, reservations := reservations s @ map (reservationOf oid) items\<rparr>))"
proof -
  from assms(1) obtain v s1 s2 where run: "reserveLines oid items [] s = Some (Resolve v, s1)"
    and emit: "publishMessage (StockReservedEvent oid c n) s1 = Some (Resolve (), s2)" and s': "s' = (if aborted s2 then s else s2)"
    by (auto simp: tryReserve_def transactional_def andThen_def split: option.splits outcome.splits prod.splits)
  from reserveLines_effect[OF run assms(2)] emit s' show ?thesis by (auto simp: publishMessage_run)
qed

lemma reserveStock_effect:
  assumes "reserveStock oid c items n s = Some (Resolve (), s')" and "\<not> aborted s"
  shows "tryReserve oid c items n s = Some (Resolve (), s') \<or>
    (\<exists>e reason. tryReserve oid c items n s = Some (Reject e, s) \<and> instance_of e ''OutOfStockError'' \<and>
       s' = emit (StockReservationFailedEvent oid reason []) s)"
  using assms
  by (auto simp: reserveStock_def catching_def publishFailure_def transactional_def publishMessage_run tryReserve_def
      split: option.splits outcome.splits if_splits prod.splits)

section \<open>Charging, confirming, compensating\<close>

definition paymentOf :: "nat \<Rightarrow> string \<Rightarrow> int \<Rightarrow> payment_row" where
  "paymentOf date oid n =
     \<lparr>pr_orderId = oid, pr_amountCents = n,
      pr_status = (if n \<ge> UNAUTHORISED_AMOUNT_CENTS then PaymentFailed else Charged), pr_recordedAt = date\<rparr>"

definition paymentEvent :: "string \<Rightarrow> int \<Rightarrow> saga_event" where
  "paymentEvent oid n =
     (if n \<ge> UNAUTHORISED_AMOUNT_CENTS then PaymentFailedEvent oid n ''authorisation-declined''
      else PaymentChargedEvent oid n)"

lemma chargePayment_effect:
  assumes "\<not> aborted s" and "int4 n"
  shows "chargePayment date oid n s = Some (Resolve (),
    if payments s oid = None then emit (paymentEvent oid n) (s\<lparr>payments := (payments s)(oid \<mapsto> paymentOf date oid n)\<rparr>)
    else s)"
  using assms
  by (simp add: chargePayment_def transactional_def andThen_def catching_def insertPayment_def statement_def
      POSTGRES_UNIQUE_VIOLATION_def publishMessage_run paymentOf_def paymentEvent_def Let_def)

lemma confirmShipment_effect:
  assumes "\<not> aborted s"
  shows "confirmShipment date oid s = Some (Resolve (),
    case orders s oid of
      None \<Rightarrow> s
    | Some row \<Rightarrow>
        if or_status row = Placed
        then emit (OrderConfirmedEvent (or_id row) (or_customerId row) (or_totalAmountCents row))
          (s\<lparr>orders := (orders s)(oid \<mapsto> row\<lparr>or_status := Confirmed, or_confirmedAt := Some date\<rparr>)\<rparr>)
        else s)"
  by (cases "orders s oid")
    (use assms in \<open>auto simp: confirmShipment_def transactional_def andThen_def findOrder_def updatePlaced_def
      statement_def commit_emits publishMessage_run\<close>)

lemma compensateOrder_effect:
  assumes "\<not> aborted s"
  shows "compensateOrder oid reason s = Some (Resolve (),
    case orders s oid of
      None \<Rightarrow> s
    | Some row \<Rightarrow>
        if or_status row = Placed
        then s\<lparr>orders := (orders s)(oid \<mapsto> row\<lparr>or_status := Failed, or_failureReason := Some reason\<rparr>)\<rparr>
        else s)"
  by (cases "orders s oid")
    (use assms in \<open>auto simp: compensateOrder_def transactional_def andThen_def updatePlaced_def statement_def\<close>)

section \<open>Releasing\<close>

definition heldIn :: "reservation_row list \<Rightarrow> string \<Rightarrow> int" where
  "heldIn rows sku = sum_list (map rr_quantity (filter (\<lambda>r. rr_sku r = sku \<and> rr_status r = Reserved) rows))"

lemma heldIn_simps [simp]:
  "heldIn [] sku = 0"
  "heldIn (r # rows) sku = (if rr_sku r = sku \<and> rr_status r = Reserved then rr_quantity r else 0) + heldIn rows sku"
  "heldIn (rows @ rows') sku = heldIn rows sku + heldIn rows' sku"
  by (simp_all add: heldIn_def)

definition released :: "(reservation_row \<Rightarrow> bool) \<Rightarrow> reservation_row \<Rightarrow> reservation_row" where
  "released P r = (if P r \<and> rr_status r = Reserved then r\<lparr>rr_status := Released\<rparr> else r)"

lemma released_fields [simp]:
  "rr_id (released P r) = rr_id r" "rr_orderId (released P r) = rr_orderId r" "rr_sku (released P r) = rr_sku r"
  "rr_quantity (released P r) = rr_quantity r"
  "rr_status (released P r) = Reserved \<longleftrightarrow> rr_status r = Reserved \<and> \<not> P r"
  by (auto simp: released_def)

lemma released_other: "\<not> P r \<Longrightarrow> released P r = r"
  by (simp add: released_def)

lemma released_cong: "(rr_status r = Reserved \<Longrightarrow> P r \<longleftrightarrow> Q r) \<Longrightarrow> released P r = released Q r"
  by (auto simp: released_def)

text \<open>Releasing rows one after another releases them all, and gives back what they held.\<close>

lemma heldIn_release_one:
  assumes "distinct (map rr_id rows)" and "row \<in> set rows" and "rr_status row = Reserved"
  shows "heldIn (map (released (\<lambda>r. rr_id r = rr_id row)) rows) sku =
    heldIn rows sku - (if rr_sku row = sku then rr_quantity row else 0)"
  using assms
proof (induction rows)
  case (Cons r rows)
  show ?case
  proof (cases "r = row")
    case True
    with Cons.prems(1) have "map (released (\<lambda>r. rr_id r = rr_id row)) rows = rows"
      by (intro map_idI released_other) (metis distinct.simps(2) image_eqI list.simps(9) set_map)
    with True Cons.prems(3) show ?thesis by simp
  next
    case False
    with Cons.prems have "row \<in> set rows" "rr_id r \<noteq> rr_id row" by auto
    with Cons.IH Cons.prems show ?thesis by simp
  qed
qed simp

text \<open>The products after the reservations became others.\<close>

definition restocked :: "reservation_row list \<Rightarrow> reservation_row list \<Rightarrow> (string \<Rightarrow> int option) \<Rightarrow> string \<Rightarrow> int option" where
  "restocked rows rows' P sku = map_option (\<lambda>n. n + heldIn rows sku - heldIn rows' sku) (P sku)"

lemma restocked_same [simp]: "restocked rows rows P = P"
  by (simp add: restocked_def fun_eq_iff option.map_ident)

lemma releaseRows_effect:
  assumes "releaseRows rows s = Some (Resolve (), s')" and "\<not> aborted s"
    and "distinct (map rr_id (reservations s))" and "distinct (map rr_id rows)"
    and "set rows \<subseteq> set (reservations s)" and "\<forall>r\<in>set rows. rr_status r = Reserved"
    and "\<forall>r\<in>set rows. products s (rr_sku r) \<noteq> None"
  shows "let rows' = map (released (\<lambda>r. rr_id r \<in> rr_id ` set rows)) (reservations s)
    in s' = s\<lparr>products := restocked (reservations s) rows' (products s), reservations := rows'\<rparr>"
  using assms
proof (induction rows arbitrary: s)
  case Nil
  have "map (released (\<lambda>r. False)) (reservations s) = reservations s" by (intro map_idI) (simp add: released_def)
  with Nil show ?case by simp
next
  case (Cons row rows)
  define hit where "hit = (\<lambda>r :: reservation_row. rr_id r = rr_id row \<and> rr_status r = Reserved)"
  have row: "row \<in> set (reservations s)" "rr_status row = Reserved" using Cons.prems by auto
  then have hits: "filter hit (reservations s) \<noteq> []" unfolding hit_def by (auto simp: filter_empty_conv)
  define s1 where "s1 = s\<lparr>reservations := map (released (\<lambda>r. rr_id r = rr_id row)) (reservations s)\<rparr>"
  have "releaseReservation (rr_id row) s = Some (Resolve (length (filter hit (reservations s))), s1)"
    using Cons.prems(2) by (simp add: releaseReservation_def statement_def s1_def released_def[abs_def] hit_def Let_def)
  with Cons.prems(1) hits obtain m s2 where put: "putStock (rr_sku row) (rr_quantity row) s1 = Some (Resolve m, s2)"
    and rest: "releaseRows rows s2 = Some (Resolve (), s')" by (auto simp: andThen_Some split: if_splits)
  from Cons.prems(7) obtain n where n: "products s (rr_sku row) = Some n" by auto
  with put Cons.prems(2) have s2: "s2 = s1\<lparr>products := (products s)(rr_sku row \<mapsto> n + rr_quantity row)\<rparr>"
    by (auto simp: putStock_def statement_def s1_def split: if_splits)
  have fresh: "rr_id row \<notin> rr_id ` set rows" using Cons.prems(4) by simp
  have still: "set rows \<subseteq> set (reservations s2)"
  proof
    fix r assume r: "r \<in> set rows"
    with fresh have "released (\<lambda>r. rr_id r = rr_id row) r = r" by (intro released_other) (metis image_eqI)
    moreover have "r \<in> set (reservations s)" using r Cons.prems(5) by auto
    ultimately show "r \<in> set (reservations s2)" by (auto simp: s2 s1_def intro!: image_eqI[of r _ r])
  qed
  have IH: "let rows' = map (released (\<lambda>r. rr_id r \<in> rr_id ` set rows)) (reservations s2)
    in s' = s2\<lparr>products := restocked (reservations s2) rows' (products s2), reservations := rows'\<rparr>"
    using Cons.prems still by (intro Cons.IH[OF rest]) (auto simp: s2 s1_def comp_def)
  have both: "released (\<lambda>r. rr_id r \<in> rr_id ` set rows) (released (\<lambda>r. rr_id r = rr_id row) r) =
      released (\<lambda>r. rr_id r \<in> rr_id ` set (row # rows)) r" for r
    by (simp add: released_def)
  define rows' where "rows' = map (released (\<lambda>r. rr_id r \<in> rr_id ` set (row # rows))) (reservations s)"
  have "map (released (\<lambda>r. rr_id r \<in> rr_id ` set rows)) (reservations s2) = rows'"
    by (simp add: rows'_def s2 s1_def both comp_def del: list.set)
  moreover have "restocked (reservations s2) rows' (products s2) = restocked (reservations s) rows' (products s)"
  proof
    fix sku
    show "restocked (reservations s2) rows' (products s2) sku = restocked (reservations s) rows' (products s) sku"
      using n heldIn_release_one[OF Cons.prems(3) row, of sku]
      by (cases "products s sku") (auto simp: restocked_def s2 s1_def)
  qed
  ultimately have "s' = s\<lparr>products := restocked (reservations s) rows' (products s), reservations := rows'\<rparr>"
    using IH by (simp add: s2 s1_def Let_def)
  then show ?case by (simp add: rows'_def Let_def)
qed

lemma releaseStock_effect:
  assumes "releaseStock oid s = Some (Resolve (), s')" and "\<not> aborted s"
    and "distinct (map rr_id (reservations s))" and "\<forall>r\<in>set (reservations s). products s (rr_sku r) \<noteq> None"
  shows "let rows' = map (released (\<lambda>r. rr_orderId r = oid)) (reservations s)
    in s' = s\<lparr>products := restocked (reservations s) rows' (products s), reservations := rows'\<rparr>"
proof -
  define rows where "rows = filter (\<lambda>r. rr_orderId r = oid \<and> rr_status r = Reserved) (reservations s)"
  have inj: "inj_on rr_id (set (reservations s))" using assms(3) by (simp add: distinct_map)
  have "released (\<lambda>r. rr_id r \<in> rr_id ` set rows) r = released (\<lambda>r. rr_orderId r = oid) r"
    if "r \<in> set (reservations s)" for r
  proof (rule released_cong)
    assume "rr_status r = Reserved"
    moreover have "rr_id r \<in> rr_id ` set rows \<longleftrightarrow> r \<in> set rows"
      by (rule inj_on_image_mem_iff[OF inj that]) (auto simp: rows_def)
    ultimately show "rr_id r \<in> rr_id ` set rows \<longleftrightarrow> rr_orderId r = oid" using that by (simp add: rows_def)
  qed
  then have same: "map (released (\<lambda>r. rr_id r \<in> rr_id ` set rows)) (reservations s) =
      map (released (\<lambda>r. rr_orderId r = oid)) (reservations s)" by simp
  show ?thesis
  proof (cases "rows = []")
    case True
    then have "map (released (\<lambda>r. rr_orderId r = oid)) (reservations s) = reservations s"
      by (intro map_idI) (auto simp: released_def rows_def filter_empty_conv)
    moreover have "s' = s"
      using assms(1,2) True by (auto simp: releaseStock_def transactional_def andThen_def findReserved_def statement_def rows_def)
    ultimately show ?thesis by simp
  next
    case False
    from assms(1,2) False obtain s1 where run: "releaseRows rows s = Some (Resolve (), s1)" and s': "s' = (if aborted s1 then s else s1)"
      unfolding rows_def
      by (auto simp: releaseStock_def transactional_def andThen_def findReserved_def statement_def
          split: option.splits outcome.splits prod.splits)
    have "distinct (map rr_id rows)" "set rows \<subseteq> set (reservations s)"
      "\<forall>r\<in>set rows. rr_status r = Reserved" "\<forall>r\<in>set rows. products s (rr_sku r) \<noteq> None"
      using assms(3,4) by (auto simp: rows_def distinct_map_filter)
    from releaseRows_effect[OF run assms(2,3) this] have s1: "let rows' = map (released (\<lambda>r. rr_orderId r = oid)) (reservations s)
      in s1 = s\<lparr>products := restocked (reservations s) rows' (products s), reservations := rows'\<rparr>"
      unfolding same .
    then have "\<not> aborted s1" using assms(2) by (simp add: Let_def)
    with s1 s' show ?thesis by simp
  qed
qed

end
