(* ===== verification/Saga_Safety.thy ===== *)
theory Saga_Safety
  imports Saga_Effects
begin

text \<open>
  What holds of the order saga however often and in whatever order its messages are delivered:
  stock is neither lost nor made, and a confirmed order is paid for and has its stock.
\<close>

section \<open>Steps\<close>

lemma subscribed_cases:
  assumes "subscribed c ev"
  obtains
    (reserve) oid cu items n where "c = ReserveStock" "ev = OrderPlacedEvent oid cu items n"
  | (charge) oid cu n where "c = ChargePayment" "ev = StockReservedEvent oid cu n"
  | (confirm) oid n where "c = ConfirmShipment" "ev = PaymentChargedEvent oid n"
  | (outOfStock) oid r skus where "c = OrdersCompensation" "ev = StockReservationFailedEvent oid r skus"
  | (unpaid) oid n r where "c = OrdersCompensation" "ev = PaymentFailedEvent oid n r"
  | (release) oid n r where "c = ReleaseStock" "ev = PaymentFailedEvent oid n r"
  using assms by (cases ev; cases c) (auto simp: subscribed_def)

lemma events_update [simp]:
  "events (s\<lparr>orders := p\<rparr>) = events s" "events (s\<lparr>products := q\<rparr>) = events s"
  "events (s\<lparr>reservations := r\<rparr>) = events s" "events (s\<lparr>payments := y\<rparr>) = events s"
  by (simp_all add: events_def)

lemma complete_tables [simp]:
  "orders (complete i c s) = orders s" "products (complete i c s) = products s"
  "reservations (complete i c s) = reservations s" "payments (complete i c s) = payments s"
  by (simp_all add: complete_def)

section \<open>Stock\<close>

lemma taken_products:
  assumes "taken items P = Some P'"
  shows "P' sku = map_option (\<lambda>n. n - heldIn (map (reservationOf oid) items) sku) (P sku)"
  using assms
proof (induction items arbitrary: P)
  case Nil
  then show ?case by (simp add: option.map_ident)
next
  case (Cons it items)
  then show ?case by (cases "P sku") (auto split: option.splits if_splits)
qed

lemma taken_nonneg:
  assumes "taken items P = Some P'" and "P' sku = Some n" and "\<And>n. P sku = Some n \<Longrightarrow> 0 \<le> n"
  shows "0 \<le> n"
  using assms
proof (induction items arbitrary: P)
  case (Cons it items)
  from Cons.prems(1) obtain m where m: "P (i_sku it) = Some m" "i_quantity it \<le> m"
    and rest: "taken items (P(i_sku it \<mapsto> m - i_quantity it)) = Some P'"
    by (auto split: option.splits if_splits)
  show ?case
    by (rule Cons.IH[OF rest Cons.prems(2)]) (use Cons.prems(3) m in \<open>auto split: if_splits\<close>)
qed simp

lemma taken_known:
  assumes "taken items P = Some P'" and "it \<in> set items"
  shows "P (i_sku it) \<noteq> None"
  using assms
proof (induction items arbitrary: P)
  case (Cons it' items)
  from Cons.prems(1) obtain m where m: "P (i_sku it') = Some m"
    and rest: "taken items (P(i_sku it' \<mapsto> m - i_quantity it')) = Some P'" by (auto split: option.splits if_splits)
  show ?case
  proof (cases "it = it'")
    case False
    with Cons.IH[OF rest] Cons.prems(2) m show ?thesis by (auto split: if_splits)
  qed (simp add: m)
qed simp

text \<open>
  The stock on hand and what is reserved make up the stock there was; \<open>stock\<close> is the stock of
  every product at the start.
\<close>

definition stocked :: "(string \<Rightarrow> int option) \<Rightarrow> shop \<Rightarrow> bool" where
  "stocked stock s \<longleftrightarrow>
     \<not> aborted s \<and> distinct (map rr_id (reservations s)) \<and>
     (\<forall>r\<in>set (reservations s). 0 < rr_quantity r \<and> products s (rr_sku r) \<noteq> None) \<and>
     (\<forall>oid c items n. OrderPlacedEvent oid c items n \<in> set (events s) \<longrightarrow> acceptedItems items \<and> n = totalOf items) \<and>
     (\<forall>oid c n. StockReservedEvent oid c n \<in> set (events s) \<longrightarrow> int4 n) \<and>
     (\<forall>sku. map_option (\<lambda>n. n + heldIn (reservations s) sku) (products s sku) = stock sku) \<and>
     (\<forall>sku n. products s sku = Some n \<longrightarrow> 0 \<le> n)"

lemma stocked_complete [simp]: "stocked stock (complete i c s) = stocked stock s"
  by (simp add: stocked_def)

lemma stocked_emit:
  assumes "stocked stock s"
    and "\<And>oid c items n. ev = OrderPlacedEvent oid c items n \<Longrightarrow> acceptedItems items \<and> n = totalOf items"
    and "\<And>oid c n. ev = StockReservedEvent oid c n \<Longrightarrow> int4 n"
  shows "stocked stock (emit ev s)"
  using assms by (auto simp: stocked_def)

lemma stocked_same: "stocked stock s \<Longrightarrow> stocked stock (s\<lparr>orders := p\<rparr>)" "stocked stock s \<Longrightarrow> stocked stock (s\<lparr>payments := y\<rparr>)"
  by (auto simp: stocked_def)

lemma heldIn_nonneg: "\<forall>r\<in>set rows. 0 < rr_quantity r \<Longrightarrow> 0 \<le> heldIn rows sku"
  by (induction rows) auto

lemma heldIn_released:
  "\<forall>r\<in>set rows. 0 < rr_quantity r \<Longrightarrow> heldIn (map (released P) rows) sku \<le> heldIn rows sku"
  by (induction rows) auto

lemma stocked_release:
  assumes "stocked stock s"
  shows "stocked stock (s\<lparr>products := restocked (reservations s) (map (released P) (reservations s)) (products s),
    reservations := map (released P) (reservations s)\<rparr>)"
proof -
  let ?rows = "map (released P) (reservations s)"
  let ?P = "restocked (reservations s) ?rows (products s)"
  have P: "?P sku = map_option (\<lambda>n. n + heldIn (reservations s) sku - heldIn ?rows sku) (products s sku)" for sku
    by (simp add: restocked_def)
  have "?P sku = None \<longleftrightarrow> products s sku = None" for sku by (simp add: P)
  moreover have "map_option (\<lambda>n. n + heldIn ?rows sku) (?P sku) = map_option (\<lambda>n. n + heldIn (reservations s) sku) (products s sku)" for sku
    by (simp add: P option.map_comp comp_def)
  moreover have "0 \<le> n" if "?P sku = Some n" for sku n
  proof -
    from that obtain m where m: "products s sku = Some m" "n = m + heldIn (reservations s) sku - heldIn ?rows sku"
      by (auto simp: P)
    moreover have "0 \<le> m" using assms m(1) by (simp add: stocked_def)
    moreover have "heldIn ?rows sku \<le> heldIn (reservations s) sku"
      using assms by (intro heldIn_released) (simp add: stocked_def)
    ultimately show ?thesis by simp
  qed
  moreover have "distinct (map rr_id ?rows)" using assms by (simp add: stocked_def comp_def)
  ultimately show ?thesis using assms unfolding stocked_def by simp
qed

lemma stocked_reserve:
  assumes "stocked stock s" and "taken items (products s) = Some P" and "acceptedItems items"
    and "distinct (map (reservationId oid \<circ> i_sku) items)"
    and "reservationId oid ` i_sku ` set items \<inter> rr_id ` set (reservations s) = {}"
  shows "stocked stock (s\<lparr>products := P, reservations := reservations s @ map (reservationOf oid) items\<rparr>)"
proof -
  have P: "P sku = map_option (\<lambda>n. n - heldIn (map (reservationOf oid) items) sku) (products s sku)" for sku
    by (rule taken_products[OF assms(2)])
  then have "P sku = None \<longleftrightarrow> products s sku = None" for sku by simp
  moreover have "0 \<le> n" if "P sku = Some n" for sku n
    using taken_nonneg[OF assms(2) that] assms(1) by (auto simp: stocked_def)
  moreover have "0 < i_quantity it" if "it \<in> set items" for it
    using assms(3) that by (auto simp: acceptedItems_def list_all_iff acceptedItem_def)
  moreover have "products s (i_sku it) \<noteq> None" if "it \<in> set items" for it
    using taken_known[OF assms(2) that] .
  moreover have "distinct (map rr_id (reservations s @ map (reservationOf oid) items))"
    using assms(1,4,5) by (auto simp: stocked_def comp_def)
  moreover have "map_option (\<lambda>n. n + heldIn (reservations s @ map (reservationOf oid) items) sku) (P sku) =
      map_option (\<lambda>n. n + heldIn (reservations s) sku) (products s sku)" for sku
    unfolding P by (cases "products s sku") auto
  ultimately show ?thesis using assms(1) unfolding stocked_def by auto
qed

lemma delivery_stocked:
  assumes "delivery once s s'" and "stocked stock s"
  shows "stocked stock s'"
  using assms(1)
proof cases
  case (deliver i ev inbox c date s1)
  have clean: "\<not> aborted s" using assms(2) by (simp add: stocked_def)
  have ev: "ev \<in> set (events s)" using deliver(2,3) nth_mem by (force simp: events_def)
  from deliver(4) show ?thesis
  proof (cases rule: subscribed_cases)
    case (reserve oid cu items n)
    with ev assms(2) have items: "acceptedItems items" "n = totalOf items" by (auto simp: stocked_def)
    from reserveStock_effect[OF _ clean, of oid cu items n s1] deliver(6) reserve
    consider "tryReserve oid cu items n s = Some (Resolve (), s1)"
      | reason where "s1 = emit (StockReservationFailedEvent oid reason []) s" by auto
    then have "stocked stock s1"
    proof cases
      case 1
      from tryReserve_effect[OF 1 clean] obtain P where "taken items (products s) = Some P"
        "distinct (map (reservationId oid \<circ> i_sku) items)" "reservationId oid ` i_sku ` set items \<inter> rr_id ` set (reservations s) = {}"
        "s1 = emit (StockReservedEvent oid cu n) (s\<lparr>products := P, reservations := reservations s @ map (reservationOf oid) items\<rparr>)"
        by blast
      with stocked_reserve[OF assms(2)] items show ?thesis by (auto simp: acceptedItems_def intro!: stocked_emit)
    next
      case 2
      with assms(2) show ?thesis by (auto intro: stocked_emit)
    qed
    with deliver show ?thesis by simp
  next
    case (charge oid cu n)
    with ev assms(2) have "int4 n" by (auto simp: stocked_def)
    with chargePayment_effect[OF clean] charge deliver assms(2) show ?thesis
      by (auto simp: paymentEvent_def split: if_splits intro!: stocked_emit stocked_same)
  next
    case (confirm oid n)
    with confirmShipment_effect[OF clean] deliver assms(2) show ?thesis
      by (auto split: option.splits if_splits intro!: stocked_emit stocked_same)
  next
    case (outOfStock oid r skus)
    with compensateOrder_effect[OF clean] deliver assms(2) show ?thesis
      by (auto split: option.splits if_splits intro!: stocked_same)
  next
    case (unpaid oid n r)
    with compensateOrder_effect[OF clean] deliver assms(2) show ?thesis
      by (auto split: option.splits if_splits intro!: stocked_same)
  next
    case (release oid n r)
    with releaseStock_effect[OF _ clean, of oid s1] deliver stocked_release[OF assms(2)] assms(2) show ?thesis
      by (auto simp: Let_def stocked_def)
  qed
qed


lemma saga_step_stocked:
  assumes "saga_step once s s'" and "stocked stock s"
  shows "stocked stock s'"
  using assms(1)
proof cases
  case (request uuid date c items oid)
  from postOrder_effect[OF request(1)] assms(2) show ?thesis
    by (auto simp: stocked_def intro!: stocked_emit)
next
  case relay
  then show ?thesis using delivery_stocked assms(2) by blast
qed

section \<open>Orders\<close>

text \<open>The reservations of an order, whatever became of them, are those of its lines.\<close>

definition booked :: "shop \<Rightarrow> string \<Rightarrow> order_item list \<Rightarrow> bool" where
  "booked s oid items \<longleftrightarrow>
     map (\<lambda>r. r\<lparr>rr_status := Reserved\<rparr>) (filter (\<lambda>r. rr_orderId r = oid) (reservations s)) =
     map (reservationOf oid) items"

text \<open>What a published event says of the tables.\<close>

fun legit :: "shop \<Rightarrow> saga_event \<Rightarrow> bool" where
  "legit s (OrderPlacedEvent oid c items n) \<longleftrightarrow>
     (\<exists>row. orders s oid = Some row \<and> or_customerId row = c \<and> or_items row = items \<and> or_totalAmountCents row = n)"
| "legit s (StockReservedEvent oid c n) \<longleftrightarrow>
     (\<exists>row. orders s oid = Some row \<and> or_customerId row = c \<and> or_totalAmountCents row = n \<and> booked s oid (or_items row))"
| "legit s (StockReservationFailedEvent oid r skus) \<longleftrightarrow> orders s oid \<noteq> None"
| "legit s (PaymentChargedEvent oid n) \<longleftrightarrow>
     (\<exists>row p. orders s oid = Some row \<and> or_totalAmountCents row = n \<and>
        payments s oid = Some p \<and> pr_amountCents p = n \<and> pr_status p = Charged)"
| "legit s (PaymentFailedEvent oid n r) \<longleftrightarrow>
     (\<exists>row p. orders s oid = Some row \<and> or_totalAmountCents row = n \<and>
        payments s oid = Some p \<and> pr_amountCents p = n \<and> pr_status p = PaymentFailed)"
| "legit s (OrderConfirmedEvent oid c n) \<longleftrightarrow>
     (\<exists>row. orders s oid = Some row \<and> or_customerId row = c \<and> or_totalAmountCents row = n \<and> or_status row = Confirmed)"

fun isConfirmation :: "string \<Rightarrow> saga_event \<Rightarrow> bool" where
  "isConfirmation oid (OrderConfirmedEvent oid' c n) = (oid' = oid)"
| "isConfirmation oid ev = False"

definition confirmations :: "shop \<Rightarrow> string \<Rightarrow> saga_event list" where
  "confirmations s oid = filter (isConfirmation oid) (events s)"

definition failedFor :: "shop \<Rightarrow> string \<Rightarrow> bool" where
  "failedFor s oid \<longleftrightarrow>
     (\<exists>r skus. StockReservationFailedEvent oid r skus \<in> set (events s)) \<or>
     (\<exists>n r. PaymentFailedEvent oid n r \<in> set (events s))"

text \<open>What the row of an order says of the messages.\<close>

definition rowOk :: "shop \<Rightarrow> string \<Rightarrow> order_row \<Rightarrow> bool" where
  "rowOk s oid row \<longleftrightarrow>
     or_id row = oid \<and> acceptedItems (or_items row) \<and> or_totalAmountCents row = totalOf (or_items row) \<and>
     (or_status row = Confirmed \<longrightarrow> (\<exists>n. PaymentChargedEvent oid n \<in> set (events s))) \<and>
     (or_status row = Failed \<longrightarrow> failedFor s oid) \<and>
     (or_confirmedAt row \<noteq> None \<longleftrightarrow> or_status row = Confirmed) \<and>
     (or_failureReason row \<noteq> None \<longleftrightarrow> or_status row = Failed) \<and>
     confirmations s oid =
       (if or_status row = Confirmed then [OrderConfirmedEvent oid (or_customerId row) (or_totalAmountCents row)] else [])"

definition rowsOk :: "shop \<Rightarrow> bool" where
  "rowsOk s \<longleftrightarrow> (\<forall>oid row. orders s oid = Some row \<longrightarrow> rowOk s oid row)"

definition reservationsOk :: "shop \<Rightarrow> bool" where
  "reservationsOk s \<longleftrightarrow> (\<forall>r\<in>set (reservations s).
     (\<exists>c n. StockReservedEvent (rr_orderId r) c n \<in> set (events s)) \<and>
     (rr_status r = Released \<longrightarrow> (\<exists>n why. PaymentFailedEvent (rr_orderId r) n why \<in> set (events s))))"

definition paymentsOk :: "shop \<Rightarrow> bool" where
  "paymentsOk s \<longleftrightarrow> (\<forall>oid p. payments s oid = Some p \<longrightarrow>
     (\<exists>c n. StockReservedEvent oid c n \<in> set (events s)) \<and> paymentEvent oid (pr_amountCents p) \<in> set (events s))"

definition consistent :: "shop \<Rightarrow> bool" where
  "consistent s \<longleftrightarrow> (\<forall>ev\<in>set (events s). legit s ev) \<and> rowsOk s \<and> reservationsOk s \<and> paymentsOk s"

text \<open>No step takes anything back: a row keeps what was ordered, and changes only while placed.\<close>

definition sameOrder :: "order_row \<Rightarrow> order_row \<Rightarrow> bool" where
  "sameOrder row row' \<longleftrightarrow>
     or_id row' = or_id row \<and> or_customerId row' = or_customerId row \<and> or_items row' = or_items row \<and>
     or_totalAmountCents row' = or_totalAmountCents row \<and> or_placedAt row' = or_placedAt row \<and>
     (or_status row \<noteq> Placed \<longrightarrow> row' = row)"

definition grows :: "shop \<Rightarrow> shop \<Rightarrow> bool" where
  "grows s s' \<longleftrightarrow>
     set (events s) \<subseteq> set (events s') \<and>
     (\<forall>oid row. orders s oid = Some row \<longrightarrow> (\<exists>row'. orders s' oid = Some row' \<and> sameOrder row row')) \<and>
     (\<forall>oid p. payments s oid = Some p \<longrightarrow> payments s' oid = Some p) \<and>
     (\<forall>oid items. booked s oid items \<longrightarrow> items \<noteq> [] \<longrightarrow> booked s' oid items)"

lemma sameOrder_refl [simp]: "sameOrder row row"
  by (simp add: sameOrder_def)

lemma sameOrder_trans: "sameOrder a b \<Longrightarrow> sameOrder b c \<Longrightarrow> sameOrder a c"
  by (auto simp: sameOrder_def)

lemma grows_refl [simp]: "grows s s"
  unfolding grows_def by auto

lemma grows_trans: "grows a b \<Longrightarrow> grows b c \<Longrightarrow> grows a c"
  unfolding grows_def by (meson order_trans sameOrder_trans)

lemma grows_complete [simp]: "grows s (complete i c s') = grows s s'" "grows (complete i c s) s' = grows s s'"
  by (simp_all add: grows_def booked_def)

lemma grows_emit: "grows s s' \<Longrightarrow> grows s (emit ev s')"
  by (auto simp: grows_def booked_def)

lemma legit_grows:
  assumes "grows s s'" and "rowsOk s" and "legit s ev"
  shows "legit s' ev"
proof (cases ev)
  case (StockReservedEvent oid c n)
  with assms(3) obtain row where row: "orders s oid = Some row" "or_customerId row = c" "or_totalAmountCents row = n"
    "booked s oid (or_items row)" by auto
  moreover have "or_items row \<noteq> []" using row(1) assms(2) by (auto simp: rowsOk_def rowOk_def acceptedItems_def)
  ultimately show ?thesis using assms(1) StockReservedEvent unfolding grows_def sameOrder_def by fastforce
next
  case (OrderPlacedEvent oid c items n)
  with assms(1,3) show ?thesis by (fastforce simp: grows_def sameOrder_def)
next
  case (StockReservationFailedEvent oid r skus)
  with assms(1,3) show ?thesis by (fastforce simp: grows_def)
next
  case (PaymentChargedEvent oid n)
  with assms(1,3) show ?thesis by (fastforce simp: grows_def sameOrder_def)
next
  case (PaymentFailedEvent oid n r)
  with assms(1,3) show ?thesis by (fastforce simp: grows_def sameOrder_def)
next
  case (OrderConfirmedEvent oid c n)
  with assms(1,3) show ?thesis by (fastforce simp: grows_def sameOrder_def)
qed

lemma consistent_complete [simp]: "consistent (complete i c s) = consistent s"
proof -
  have "legit (complete i c s) ev = legit s ev" for ev by (cases ev) (auto simp: booked_def)
  then show ?thesis
    by (simp add: consistent_def rowsOk_def rowOk_def failedFor_def confirmations_def reservationsOk_def paymentsOk_def)
qed

lemma filter_confirmations [simp]:
  "confirmations (emit ev s) oid = confirmations s oid @ (if isConfirmation oid ev then [ev] else [])"
  "confirmations (s\<lparr>orders := p\<rparr>) = confirmations s" "confirmations (s\<lparr>payments := y\<rparr>) = confirmations s"
  "confirmations (s\<lparr>products := q\<rparr>) = confirmations s" "confirmations (s\<lparr>reservations := r\<rparr>) = confirmations s"
  by (simp_all add: confirmations_def fun_eq_iff)

lemma failedFor_mono: "set (events s) \<subseteq> set (events s') \<Longrightarrow> failedFor s oid \<Longrightarrow> failedFor s' oid"
  by (auto simp: failedFor_def)

lemma rowOk_mono:
  "rowOk s oid row \<Longrightarrow> set (events s) \<subseteq> set (events s') \<Longrightarrow> confirmations s' oid = confirmations s oid \<Longrightarrow> rowOk s' oid row"
  unfolding rowOk_def using failedFor_mono[of s s' oid] by auto

lemma consistentD:
  assumes "consistent s"
  shows "ev \<in> set (events s) \<Longrightarrow> legit s ev" and "orders s oid = Some row \<Longrightarrow> rowOk s oid row"
  using assms by (auto simp: consistent_def rowsOk_def)

definition advances :: "shop \<Rightarrow> shop \<Rightarrow> bool" where
  "advances s s' \<longleftrightarrow> grows s s' \<and> consistent s'"

lemma advances_complete [simp]: "advances s (complete i c s') = advances s s'"
  by (simp add: advances_def)

text \<open>A step keeps the state consistent when it grows it and the new facts are in order.\<close>

lemma advancesI:
  assumes "consistent s" and "grows s s'"
    and "\<And>ev. ev \<in> set (events s') \<Longrightarrow> ev \<notin> set (events s) \<Longrightarrow> legit s' ev"
    and "\<And>oid row. orders s' oid = Some row \<Longrightarrow> rowOk s' oid row"
    and "reservationsOk s'" and "paymentsOk s'"
  shows "advances s s'"
  using assms legit_grows[OF assms(2)] unfolding advances_def consistent_def rowsOk_def by blast

lemma reservationsOk_mono:
  "reservationsOk s \<Longrightarrow> reservations s' = reservations s \<Longrightarrow> set (events s) \<subseteq> set (events s') \<Longrightarrow> reservationsOk s'"
  unfolding reservationsOk_def by (metis subsetD)

lemma paymentsOk_mono:
  "paymentsOk s \<Longrightarrow> payments s' = payments s \<Longrightarrow> set (events s) \<subseteq> set (events s') \<Longrightarrow> paymentsOk s'"
  unfolding paymentsOk_def by (metis subsetD)

lemma advances_request:
  assumes ok: "consistent s" and new: "orders s oid = None" and items: "acceptedItems items"
  shows "advances s (emit (OrderPlacedEvent oid c items (totalOf items)) (s\<lparr>orders := (orders s)(oid \<mapsto> placedRow oid date c items)\<rparr>))"
    (is "advances s ?s")
proof (rule advancesI[OF ok])
  show "grows s ?s" using new by (auto simp: grows_def booked_def)
  show "legit ?s ev" if "ev \<in> set (events ?s)" "ev \<notin> set (events s)" for ev
    using that by (auto simp: placedRow_def)
  have none: "confirmations s oid = []"
    unfolding confirmations_def filter_empty_conv
  proof
    fix ev assume "ev \<in> set (events s)"
    with consistentD(1)[OF ok] have "legit s ev" .
    with new show "\<not> isConfirmation oid ev" by (cases ev) auto
  qed
  show "rowOk ?s o' row" if "orders ?s o' = Some row" for o' row
  proof (cases "o' = oid")
    case True
    with that items none show ?thesis by (auto simp: rowOk_def placedRow_def)
  next
    case False
    with that have "orders s o' = Some row" by simp
    from consistentD(2)[OF ok this] show ?thesis by (rule rowOk_mono) auto
  qed
  show "reservationsOk ?s" "paymentsOk ?s"
    using ok reservationsOk_mono[of s ?s] paymentsOk_mono[of s ?s] by (auto simp: consistent_def)
qed

lemma advances_failure:
  assumes ok: "consistent s" and "orders s oid \<noteq> None"
  shows "advances s (emit (StockReservationFailedEvent oid r skus) s)" (is "advances s ?s")
proof (rule advancesI[OF ok])
  show "rowOk ?s o' row" if "orders ?s o' = Some row" for o' row
    using consistentD(2)[OF ok, of o' row] that by (auto intro: rowOk_mono)
  show "reservationsOk ?s" "paymentsOk ?s"
    using ok reservationsOk_mono[of s ?s] paymentsOk_mono[of s ?s] by (auto simp: consistent_def)
qed (use assms(2) in \<open>auto intro: grows_emit\<close>)

lemma advances_reserve:
  assumes ok: "consistent s" and placed: "OrderPlacedEvent oid c items n \<in> set (events s)"
    and new: "reservationId oid ` i_sku ` set items \<inter> rr_id ` set (reservations s) = {}"
  shows "advances s (emit (StockReservedEvent oid c n)
    (s\<lparr>products := P, reservations := reservations s @ map (reservationOf oid) items\<rparr>))" (is "advances s ?s")
proof (rule advancesI[OF ok])
  from consistentD(1)[OF ok placed] obtain row where row: "orders s oid = Some row" "or_customerId row = c"
    "or_items row = items" "or_totalAmountCents row = n" by auto
  have items: "items \<noteq> []" using consistentD(2)[OF ok row(1)] row(3) by (auto simp: rowOk_def acceptedItems_def)
  have none: "filter (\<lambda>r. rr_orderId r = oid) (reservations s) = []"
  proof (rule ccontr)
    assume "\<not> ?thesis"
    then obtain r where "r \<in> set (reservations s)" "rr_orderId r = oid" by (auto simp: filter_empty_conv)
    then obtain c' n' where "StockReservedEvent oid c' n' \<in> set (events s)" using ok by (auto simp: consistent_def reservationsOk_def)
    from consistentD(1)[OF ok this] row have booked: "booked s oid items" by auto
    from arg_cong[where f = "map rr_id", OF booked[unfolded booked_def]]
    have "map rr_id (filter (\<lambda>r. rr_orderId r = oid) (reservations s)) = map (reservationId oid \<circ> i_sku) items"
      by (simp add: comp_def)
    from arg_cong[where f = set, OF this]
    have "reservationId oid ` i_sku ` set items = rr_id ` set (filter (\<lambda>r. rr_orderId r = oid) (reservations s))"
      by (simp add: image_comp del: set_filter)
    then have "reservationId oid ` i_sku ` set items \<subseteq> rr_id ` set (reservations s)"
      using image_mono[OF filter_is_subset] by metis
    moreover from items have "reservationId oid ` i_sku ` set items \<noteq> {}" by simp
    ultimately show False using new by (simp add: inf_absorb1)
  qed
  have mine: "filter (\<lambda>r. rr_orderId r = oid) (map (reservationOf oid) items) = map (reservationOf oid) items"
    and others: "oid' \<noteq> oid \<Longrightarrow> filter (\<lambda>r. rr_orderId r = oid') (map (reservationOf oid) items) = []" for oid'
    by (auto simp: filter_id_conv filter_empty_conv)
  have booked: "booked ?s oid items"
    by (simp add: booked_def none mine reservationOf_def)
  show "grows s ?s"
  proof -
    have "booked ?s o' its" if "booked s o' its" "its \<noteq> []" for o' its
      using that none others[of o'] by (cases "o' = oid") (auto simp: booked_def)
    then show ?thesis by (auto simp: grows_def)
  qed
  show "legit ?s ev" if "ev \<in> set (events ?s)" "ev \<notin> set (events s)" for ev
    using that row booked by auto
  show "rowOk ?s o' row" if "orders ?s o' = Some row" for o' row
    using consistentD(2)[OF ok, of o' row] that by (auto intro: rowOk_mono)
  have "reservationsOk s" using ok by (simp add: consistent_def)
  then show "reservationsOk ?s" by (auto simp: reservationsOk_def) blast+
  show "paymentsOk ?s" using ok paymentsOk_mono[of s ?s] by (auto simp: consistent_def)
qed

lemma advances_charge:
  assumes ok: "consistent s" and res: "StockReservedEvent oid c n \<in> set (events s)" and new: "payments s oid = None"
  shows "advances s (emit (paymentEvent oid n) (s\<lparr>payments := (payments s)(oid \<mapsto> paymentOf date oid n)\<rparr>))"
    (is "advances s ?s")
proof (rule advancesI[OF ok])
  from consistentD(1)[OF ok res] obtain row where row: "orders s oid = Some row" "or_totalAmountCents row = n" by auto
  show "grows s ?s" using new by (auto simp: grows_def booked_def)
  show "legit ?s ev" if "ev \<in> set (events ?s)" "ev \<notin> set (events s)" for ev
    using that row by (auto simp: paymentEvent_def paymentOf_def)
  show "rowOk ?s o' row" if "orders ?s o' = Some row" for o' row
    using consistentD(2)[OF ok, of o' row] that by (auto simp: paymentEvent_def intro: rowOk_mono)
  show "reservationsOk ?s" using ok reservationsOk_mono[of s ?s] by (auto simp: consistent_def)
  show "paymentsOk ?s" using ok res unfolding consistent_def paymentsOk_def
    by (simp add: paymentOf_def) blast
qed

lemma advances_confirm:
  assumes ok: "consistent s" and paid: "PaymentChargedEvent oid n \<in> set (events s)"
    and row: "orders s oid = Some row" "or_status row = Placed"
  shows "advances s (emit (OrderConfirmedEvent (or_id row) (or_customerId row) (or_totalAmountCents row))
    (s\<lparr>orders := (orders s)(oid \<mapsto> row\<lparr>or_status := Confirmed, or_confirmedAt := Some date\<rparr>)\<rparr>))"
    (is "advances s ?s")
proof (rule advancesI[OF ok])
  have r: "rowOk s oid row" by (rule consistentD(2)[OF ok row(1)])
  then have oid: "or_id row = oid" by (simp add: rowOk_def)
  show "grows s ?s" using row by (auto simp: grows_def booked_def sameOrder_def)
  show "legit ?s ev" if "ev \<in> set (events ?s)" "ev \<notin> set (events s)" for ev
    using that oid by auto
  show "rowOk ?s o' row'" if "orders ?s o' = Some row'" for o' row'
  proof (cases "o' = oid")
    case True
    with that r row(2) paid oid show ?thesis by (auto simp: rowOk_def)
  next
    case False
    with that have "orders s o' = Some row'" by simp
    from consistentD(2)[OF ok this] False oid show ?thesis by (auto intro: rowOk_mono)
  qed
  show "reservationsOk ?s" "paymentsOk ?s"
    using ok reservationsOk_mono[of s ?s] paymentsOk_mono[of s ?s] by (auto simp: consistent_def)
qed

lemma advances_compensate:
  assumes ok: "consistent s" and failed: "failedFor s oid"
    and row: "orders s oid = Some row" "or_status row = Placed"
  shows "advances s (s\<lparr>orders := (orders s)(oid \<mapsto> row\<lparr>or_status := Failed, or_failureReason := Some why\<rparr>)\<rparr>)"
    (is "advances s ?s")
proof (rule advancesI[OF ok])
  have r: "rowOk s oid row" by (rule consistentD(2)[OF ok row(1)])
  have f: "failedFor ?s oid" using failed by (rule failedFor_mono[rotated]) simp
  show "grows s ?s" using row by (auto simp: grows_def booked_def sameOrder_def)
  show "rowOk ?s o' row'" if "orders ?s o' = Some row'" for o' row'
  proof (cases "o' = oid")
    case True
    with that r row(2) f show ?thesis by (auto simp: rowOk_def)
  next
    case False
    with that have "orders s o' = Some row'" by simp
    from consistentD(2)[OF ok this] show ?thesis by (auto intro: rowOk_mono)
  qed
  show "reservationsOk ?s" "paymentsOk ?s"
    using ok reservationsOk_mono[of s ?s] paymentsOk_mono[of s ?s] by (auto simp: consistent_def)
qed auto

lemma advances_release:
  assumes ok: "consistent s" and failed: "PaymentFailedEvent oid n why \<in> set (events s)"
  shows "advances s (s\<lparr>products := P, reservations := map (released (\<lambda>r. rr_orderId r = oid)) (reservations s)\<rparr>)"
    (is "advances s ?s")
proof (rule advancesI[OF ok])
  have "map (\<lambda>r. r\<lparr>rr_status := Reserved\<rparr>) (filter (\<lambda>r. rr_orderId r = o') (map (released (\<lambda>r. rr_orderId r = oid)) rows)) =
      map (\<lambda>r. r\<lparr>rr_status := Reserved\<rparr>) (filter (\<lambda>r. rr_orderId r = o') rows)" for o' and rows :: "reservation_row list"
    by (induction rows) (auto simp: released_def)
  then show "grows s ?s" by (auto simp: grows_def booked_def)
  show "rowOk ?s o' row" if "orders ?s o' = Some row" for o' row
    using consistentD(2)[OF ok, of o' row] that by (auto intro: rowOk_mono)
  have "(\<exists>c n. StockReservedEvent (rr_orderId r) c n \<in> set (events s)) \<and>
      (rr_status (released (\<lambda>r. rr_orderId r = oid) r) = Released \<longrightarrow> (\<exists>n why. PaymentFailedEvent (rr_orderId r) n why \<in> set (events s)))"
    if "r \<in> set (reservations s)" for r
    using ok that failed unfolding consistent_def reservationsOk_def
    by (cases "rr_orderId r = oid") (auto simp: released_def)
  then show "reservationsOk ?s" by (simp add: reservationsOk_def)
  show "paymentsOk ?s" using ok paymentsOk_mono[of s ?s] by (auto simp: consistent_def)
qed auto

lemma delivery_advances:
  assumes "delivery once s s'" and "stocked stock s" and ok: "consistent s"
  shows "advances s s'"
  using assms(1)
proof cases
  case (deliver i ev inbox c date s1)
  have clean: "\<not> aborted s" using assms(2) by (simp add: stocked_def)
  have same: "advances s s" using ok by (simp add: advances_def)
  have ev: "ev \<in> set (events s)" using deliver(2,3) nth_mem by (force simp: events_def)
  have fact: "legit s ev" by (rule consistentD(1)[OF ok ev])
  from deliver(4) have "advances s s1"
  proof (cases rule: subscribed_cases)
    case (reserve oid cu items n)
    with reserveStock_effect[OF _ clean, of oid cu items n s1] deliver(6)
    consider "tryReserve oid cu items n s = Some (Resolve (), s1)"
      | reason where "s1 = emit (StockReservationFailedEvent oid reason []) s" by auto
    then show ?thesis
    proof cases
      case 1
      from tryReserve_effect[OF 1 clean] advances_reserve[OF ok] ev reserve show ?thesis by blast
    next
      case 2
      with advances_failure[OF ok] fact reserve show ?thesis by auto
    qed
  next
    case (charge oid cu n)
    with ev assms(2) have "int4 n" by (auto simp: stocked_def)
    with chargePayment_effect[OF clean] charge deliver(6) ev advances_charge[OF ok] same show ?thesis
      by (auto split: if_splits)
  next
    case (confirm oid n)
    with confirmShipment_effect[OF clean] deliver(6) ev advances_confirm[OF ok] same show ?thesis
      by (auto split: option.splits if_splits)
  next
    case (outOfStock oid r skus)
    with ev have "failedFor s oid" by (auto simp: failedFor_def)
    with compensateOrder_effect[OF clean] outOfStock deliver(6) advances_compensate[OF ok] same show ?thesis
      by (auto split: option.splits if_splits)
  next
    case (unpaid oid n r)
    with ev have "failedFor s oid" by (auto simp: failedFor_def)
    with compensateOrder_effect[OF clean] unpaid deliver(6) advances_compensate[OF ok] same show ?thesis
      by (auto split: option.splits if_splits)
  next
    case (release oid n r)
    then have "releaseStock oid s = Some (Resolve (), s1)" using deliver(6) by simp
    from releaseStock_effect[OF this clean] assms(2) advances_release[OF ok, of oid n r] ev release show ?thesis
      by (simp add: stocked_def Let_def)
  qed
  with deliver show ?thesis by simp
qed


lemma saga_step_advances:
  assumes "saga_step once s s'" and "stocked stock s" and ok: "consistent s"
  shows "advances s s'"
  using assms(1)
proof cases
  case (request uuid date c items oid)
  with assms(2) postOrder_effect[OF request(1)] show ?thesis
    using advances_request[OF ok, of oid items c date] by (auto simp: stocked_def)
next
  case relay
  then show ?thesis using delivery_advances assms(2,3) by blast
qed

section \<open>Reachable states\<close>

definition counted :: "(string \<Rightarrow> int option) \<Rightarrow> bool" where
  "counted stock \<longleftrightarrow> (\<forall>sku n. stock sku = Some n \<longrightarrow> 0 \<le> n)"

lemma reaches_ok:
  assumes "reaches once stock s" and "counted stock"
  shows "stocked stock s \<and> consistent s"
  using assms(1) unfolding reaches_def
proof (induction rule: rtranclp_induct)
  case base
  show ?case using assms(2)
    by (simp add: counted_def opened_def stocked_def consistent_def events_def rowsOk_def reservationsOk_def paymentsOk_def option.map_ident)
next
  case (step s s')
  then show ?case using saga_step_stocked saga_step_advances unfolding advances_def by blast
qed

lemma reaches_grows:
  assumes "(saga_step once)\<^sup>*\<^sup>* s s'" and "stocked stock s" and "consistent s"
  shows "grows s s' \<and> stocked stock s' \<and> consistent s'"
  using assms(1)
proof (induction rule: rtranclp_induct)
  case base
  show ?case using assms(2,3) by simp
next
  case (step s1 s2)
  then show ?case using saga_step_stocked saga_step_advances grows_trans unfolding advances_def by blast
qed

section \<open>Runs\<close>

text \<open>Nothing is left to deliver: every message has been completed by its consumers.\<close>

definition consumers :: "consumer list" where
  "consumers = [ReserveStock, ChargePayment, ConfirmShipment, OrdersCompensation, ReleaseStock]"

definition drained :: "shop \<Rightarrow> bool" where
  "drained s \<longleftrightarrow> list_all (\<lambda>m. list_all (\<lambda>c. subscribed c (fst m) \<longrightarrow> c \<in> set (snd m)) consumers) (messages s)"

lemma set_consumers [simp]: "set consumers = UNIV"
  unfolding consumers_def using consumer.exhaust by auto

lemma drained_iff: "drained s \<longleftrightarrow> (\<forall>m\<in>set (messages s). \<forall>c. subscribed c (fst m) \<longrightarrow> c \<in> set (snd m))"
  by (simp add: drained_def list_all_iff)

text \<open>A run as a list of requests and deliveries, which can be evaluated.\<close>

datatype saga_action = Request string nat string "order_item list" | Deliver nat consumer nat

fun perform :: "bool \<Rightarrow> saga_action \<Rightarrow> shop \<Rightarrow> shop option" where
  "perform once (Request uuid date c items) s =
     (if CHR '':'' \<in> set uuid then None
      else (case postOrder uuid date c items s of Some (Resolve oid, s') \<Rightarrow> Some s' | _ \<Rightarrow> None))"
| "perform once (Deliver i c date) s =
     (if i < length (messages s) \<and> subscribed c (fst (messages s ! i)) \<and> (once \<longrightarrow> c \<notin> set (snd (messages s ! i)))
      then (case onMessage c date (fst (messages s ! i)) s of Some (Resolve u, s') \<Rightarrow> Some (complete i c s') | _ \<Rightarrow> None)
      else None)"

fun replay :: "bool \<Rightarrow> saga_action list \<Rightarrow> shop \<Rightarrow> shop option" where
  "replay once [] s = Some s"
| "replay once (a # as) s = (case perform once a s of None \<Rightarrow> None | Some s' \<Rightarrow> replay once as s')"

lemma perform_step: "perform once a s = Some s' \<Longrightarrow> saga_step once s s'"
proof (cases a)
  case (Deliver i c date)
  then show "perform once a s = Some s' \<Longrightarrow> saga_step once s s'"
    using deliver[of i s "fst (messages s ! i)" "snd (messages s ! i)" subscribed c once onMessage date] relay
    by (auto split: if_splits option.splits outcome.splits prod.splits)
qed (auto split: if_splits option.splits outcome.splits prod.splits intro: request)

lemma replay_steps: "replay once as s = Some s' \<Longrightarrow> (saga_step once)\<^sup>*\<^sup>* s s'"
  by (induction as arbitrary: s)
    (auto split: option.splits dest: perform_step intro: converse_rtranclp_into_rtranclp)

lemma replay_reaches: "replay once as (opened stock) = Some s \<Longrightarrow> reaches once stock s"
  unfolding reaches_def by (rule replay_steps)

text \<open>A shop with five widgets, and an order of two of them that is served.\<close>

definition widgets :: "string \<Rightarrow> int option" where
  "widgets = [''w'' \<mapsto> 5]"

definition orderOf :: "int \<Rightarrow> int \<Rightarrow> saga_action" where
  "orderOf quantity price = Request ''1'' 0 ''ann'' [\<lparr>i_sku = ''w'', i_quantity = quantity, i_unitPriceCents = price\<rparr>]"

definition served :: "saga_action list" where
  "served = [orderOf 2 300, Deliver 0 ReserveStock 1, Deliver 1 ChargePayment 2, Deliver 2 ConfirmShipment 3]"

lemma widgets_counted: "counted widgets"
  by (simp add: counted_def widgets_def)

section \<open>Properties\<close>

text \<open>
  C16. Stock is conserved. Whatever requests come in, and however often and in whatever order the
  relay delivers the messages, of every product the stock on hand is never negative and, with
  what is reserved, makes up the stock at the start; no product appears or disappears.
\<close>

theorem stock_conserved:
  assumes "reaches once stock s" and "counted stock"
  shows "case products s sku of
      None \<Rightarrow> stock sku = None
    | Some n \<Rightarrow> 0 \<le> n \<and> stock sku = Some (n + heldIn (reservations s) sku)"
proof -
  from reaches_ok[OF assms] have "stocked stock s" by blast
  then have "map_option (\<lambda>n. n + heldIn (reservations s) sku) (products s sku) = stock sku"
    and "\<And>n. products s sku = Some n \<Longrightarrow> 0 \<le> n" by (auto simp: stocked_def)
  then show ?thesis by (auto split: option.split)
qed

lemma stock_conserved_witness:
  "\<exists>s. replay False (served @ [Deliver 1 ChargePayment 4]) (opened widgets) = Some s \<and> products s ''w'' = Some 3 \<and>
     widgets ''w'' = Some (3 + heldIn (reservations s) ''w'')"
proof -
  have "map_option (\<lambda>s. products s ''w'') (replay False (served @ [Deliver 1 ChargePayment 4]) (opened widgets)) = Some (Some 3)"
    by code_simp
  then obtain s where s: "replay False (served @ [Deliver 1 ChargePayment 4]) (opened widgets) = Some s" "products s ''w'' = Some 3"
    by auto
  with stock_conserved[OF replay_reaches[OF s(1)] widgets_counted, of "''w''"] show ?thesis by auto
qed

text \<open>
  C15. A confirmed order is paid for and has its stock. Under any deliveries, when the row of an
  order says confirmed, one payment was charged, of the sum of its lines; every line holds its
  stock under a reservation of its own; and one \<open>OrderConfirmedEvent\<close> was published. It is never
  published for an order that is not confirmed.
\<close>

theorem confirmed_order_paid_and_held:
  assumes "reaches once stock s" and "counted stock"
    and "orders s oid = Some row"
  shows "if or_status row = Confirmed
    then (\<exists>p. payments s oid = Some p \<and> pr_status p = Charged \<and> pr_amountCents p = totalOf (or_items row)) \<and>
      filter (\<lambda>r. rr_orderId r = oid) (reservations s) = map (reservationOf oid) (or_items row) \<and>
      confirmations s oid = [OrderConfirmedEvent oid (or_customerId row) (totalOf (or_items row))]
    else confirmations s oid = []"
proof (cases "or_status row = Confirmed")
  case True
  from reaches_ok[OF assms(1,2)] have ok: "consistent s" by blast
  have r: "rowOk s oid row" by (rule consistentD(2)[OF ok assms(3)])
  with True obtain n where "PaymentChargedEvent oid n \<in> set (events s)" by (auto simp: rowOk_def)
  from consistentD(1)[OF ok this] assms(3) obtain p where
    p: "payments s oid = Some p" "pr_amountCents p = or_totalAmountCents row" "pr_status p = Charged" by auto
  then have "\<exists>c n. StockReservedEvent oid c n \<in> set (events s)" using ok unfolding consistent_def paymentsOk_def by metis
  then obtain c n where "StockReservedEvent oid c n \<in> set (events s)" by blast
  from consistentD(1)[OF ok this] assms(3) have booked: "booked s oid (or_items row)" by auto
  have "rr_status q = Reserved" if q: "q \<in> set (reservations s)" "rr_orderId q = oid" for q
  proof (rule ccontr)
    assume "rr_status q \<noteq> Reserved"
    then have "rr_status q = Released" by (cases "rr_status q") auto
    then obtain n why where "PaymentFailedEvent oid n why \<in> set (events s)"
      using ok q(1) unfolding consistent_def reservationsOk_def q(2)[symmetric] by blast
    from consistentD(1)[OF ok this] p show False by auto
  qed
  then have "map (\<lambda>r. r\<lparr>rr_status := Reserved\<rparr>) (filter (\<lambda>r. rr_orderId r = oid) (reservations s)) =
      filter (\<lambda>r. rr_orderId r = oid) (reservations s)"
    by (intro map_idI) auto
  with booked r p True show ?thesis by (auto simp: booked_def rowOk_def)
next
  case False
  with consistentD(2)[OF conjunct2[OF reaches_ok[OF assms(1,2)]] assms(3)] show ?thesis by (simp add: rowOk_def)
qed

lemma confirmed_order_paid_and_held_witness:
  "\<exists>s row. replay False served (opened widgets) = Some s \<and> orders s ''ord-1'' = Some row \<and> or_status row = Confirmed \<and>
     (\<exists>p. payments s ''ord-1'' = Some p \<and> pr_status p = Charged \<and> pr_amountCents p = totalOf (or_items row)) \<and>
     filter (\<lambda>r. rr_orderId r = ''ord-1'') (reservations s) = map (reservationOf ''ord-1'') (or_items row) \<and>
     confirmations s ''ord-1'' = [OrderConfirmedEvent ''ord-1'' (or_customerId row) (totalOf (or_items row))]"
proof -
  have "map_option (\<lambda>s. map_option or_status (orders s ''ord-1'')) (replay False served (opened widgets)) = Some (Some Confirmed)"
    by code_simp
  then obtain s row where s: "replay False served (opened widgets) = Some s" "orders s ''ord-1'' = Some row" "or_status row = Confirmed"
    by auto
  with confirmed_order_paid_and_held[OF replay_reaches[OF s(1)] widgets_counted s(2)] show ?thesis by auto
qed

text \<open>
  A settled order is final. From any state that can be reached, whatever happens next, the
  order that is confirmed or failed keeps its row, a payment stays as it was recorded, and an
  order that is placed keeps what was ordered.
\<close>

theorem settled_orders_final:
  assumes "reaches once stock s" and "counted stock" and "(saga_step once)\<^sup>*\<^sup>* s s'"
    and "orders s oid = Some row"
  shows "\<exists>row'. orders s' oid = Some row' \<and> or_items row' = or_items row \<and>
    or_totalAmountCents row' = or_totalAmountCents row \<and> (or_status row \<noteq> Placed \<longrightarrow> row' = row) \<and>
    (payments s oid \<noteq> None \<longrightarrow> payments s' oid = payments s oid)"
proof -
  from reaches_ok[OF assms(1,2)] have "stocked stock s" "consistent s" by auto
  from reaches_grows[OF assms(3) this] have "grows s s'" by blast
  with assms(4) show ?thesis unfolding grows_def sameOrder_def by fastforce
qed

text \<open>A reservation names a product once.\<close>

lemma booked_distinct:
  assumes "stocked stock s" and "booked s oid items"
  shows "distinct (map i_sku items)"
proof -
  have "distinct (map rr_id (filter (\<lambda>r. rr_orderId r = oid) (reservations s)))"
    using assms(1) by (simp add: stocked_def distinct_map_filter)
  moreover have "map rr_id (filter (\<lambda>r. rr_orderId r = oid) (reservations s)) = map (reservationId oid) (map i_sku items)"
    using arg_cong[where f = "map rr_id", OF assms(2)[unfolded booked_def]] by (simp add: comp_def)
  ultimately have "distinct (map (reservationId oid) (map i_sku items))" by simp
  then show ?thesis by (metis distinct_map)
qed

text \<open>
  An order that names a product twice is accepted and can never be served. However its
  messages are delivered, it is never confirmed, never charged, and nothing is ever reserved for
  it: the second line meets the reservation of the first, and the statement that should make up
  for that is refused, since the refused \<open>INSERT\<close> has aborted the transaction.
\<close>

theorem repeated_product_never_served:
  assumes "reaches once stock s" and "counted stock"
    and "orders s oid = Some row" and "\<not> distinct (map i_sku (or_items row))"
  shows "or_status row \<noteq> Confirmed \<and> payments s oid = None \<and> filter (\<lambda>r. rr_orderId r = oid) (reservations s) = []"
proof -
  from reaches_ok[OF assms(1,2)] have st: "stocked stock s" and ok: "consistent s" by auto
  have none: "StockReservedEvent oid c n \<notin> set (events s)" for c n
  proof
    assume "StockReservedEvent oid c n \<in> set (events s)"
    from consistentD(1)[OF ok this] assms(3) have "booked s oid (or_items row)" by auto
    from booked_distinct[OF st this] assms(4) show False by blast
  qed
  then have pay: "payments s oid = None" using ok unfolding consistent_def paymentsOk_def by (metis not_None_eq)
  moreover have "or_status row \<noteq> Confirmed"
  proof
    assume "or_status row = Confirmed"
    with consistentD(2)[OF ok assms(3)] obtain n where "PaymentChargedEvent oid n \<in> set (events s)" by (auto simp: rowOk_def)
    from consistentD(1)[OF ok this] pay show False by auto
  qed
  moreover have "rr_orderId r \<noteq> oid" if "r \<in> set (reservations s)" for r
    using ok that none unfolding consistent_def reservationsOk_def by blast
  ultimately show ?thesis by (simp add: filter_empty_conv)
qed

definition repeated :: "order_item list" where
  "repeated = [\<lparr>i_sku = ''w'', i_quantity = 1, i_unitPriceCents = 10\<rparr>, \<lparr>i_sku = ''w'', i_quantity = 2, i_unitPriceCents = 10\<rparr>]"

lemma repeated_product_never_served_witness:
  "\<exists>s row. replay True [Request ''1'' 0 ''ann'' repeated] (opened widgets) = Some s \<and> orders s ''ord-1'' = Some row \<and>
     or_items row = repeated \<and> or_status row \<noteq> Confirmed \<and>
     reserveStock ''ord-1'' ''ann'' repeated 30 s = Some (Reject (QueryFailedError ''25P02''), s)"
proof -
  have "map_option (\<lambda>s. (aborted s, map_option or_items (orders s ''ord-1''))) (replay True [Request ''1'' 0 ''ann'' repeated] (opened widgets)) =
      Some (False, Some repeated)" by code_simp
  then obtain s row where s: "replay True [Request ''1'' 0 ''ann'' repeated] (opened widgets) = Some s"
    "orders s ''ord-1'' = Some row" "or_items row = repeated" by auto
  have "map_option (\<lambda>s. map_option fst (reserveStock ''ord-1'' ''ann'' repeated 30 s))
      (replay True [Request ''1'' 0 ''ann'' repeated] (opened widgets)) = Some (Some (Reject (QueryFailedError ''25P02'')))"
    by code_simp
  with s(1) obtain s1 where r: "reserveStock ''ord-1'' ''ann'' repeated 30 s = Some (Reject (QueryFailedError ''25P02''), s1)"
    by auto
  then have "s1 = s"
    by (auto simp: reserveStock_def catching_def tryReserve_def publishFailure_def transactional_def
        split: option.splits outcome.splits if_splits prod.splits)
  moreover have "\<not> distinct (map i_sku repeated)" by (simp add: repeated_def)
  ultimately show ?thesis
    using repeated_product_never_served[OF replay_reaches[OF s(1)] widgets_counted s(2)] s r by auto
qed

text \<open>
  C36. Delivering the placed order again can charge for an order that fails. With one widget left
  after the reservation, a second delivery of the same message finds too little stock and
  publishes the failure, although the stock is reserved: the order fails and its customer is
  charged, with the stock still held and nothing left to deliver.
\<close>

theorem redelivery_charges_failed_order:
  "\<exists>s row p. reaches False widgets s \<and> orders s ''ord-1'' = Some row \<and> or_status row = Failed \<and>
     payments s ''ord-1'' = Some p \<and> pr_status p = Charged \<and> pr_amountCents p = totalOf (or_items row) \<and>
     heldIn (reservations s) ''w'' = 4 \<and> drained s"
proof -
  let ?run = "[orderOf 4 300, Deliver 0 ReserveStock 1, Deliver 0 ReserveStock 2, Deliver 2 OrdersCompensation 3,
    Deliver 1 ChargePayment 4, Deliver 3 ConfirmShipment 5]"
  let ?view = "\<lambda>s. (map_option (\<lambda>row. (or_status row, totalOf (or_items row))) (orders s ''ord-1''),
    map_option (\<lambda>p. (pr_status p, pr_amountCents p)) (payments s ''ord-1''), heldIn (reservations s) ''w'', drained s)"
  have "map_option ?view (replay False ?run (opened widgets)) =
      Some (Some (Failed, 1200), Some (Charged, 1200), 4, True)" by code_simp
  then obtain s where "replay False ?run (opened widgets) = Some s"
    "?view s = (Some (Failed, 1200), Some (Charged, 1200), 4, True)" by auto
  with replay_reaches[of False ?run widgets s] show ?thesis by (intro exI[of _ s]) auto
qed

end
