(* ===== verification/Saga_Outcome.thy ===== *)
theory Saga_Outcome
  imports Saga_Safety
begin

text \<open>
  The order saga with an inbox that is never lost: each order is a small state machine, which the
  handlers refine, and the relay brings every order that can be served to one of its two ends.
\<close>

section \<open>The machine of one order\<close>

text \<open>
  What is still to be delivered is in the state: \<open>OutOfStock\<close> and \<open>Declined\<close> carry which of their
  compensations have run.
\<close>

datatype saga_state = Awaiting | OutOfStock bool | Booked | Paid | Shipped | Declined bool bool

inductive saga_moves :: "saga_state \<Rightarrow> saga_state \<Rightarrow> bool" where
  refuse: "saga_moves Awaiting (OutOfStock False)"
| book: "saga_moves Awaiting Booked"
| fail_refused: "saga_moves (OutOfStock False) (OutOfStock True)"
| pay: "saga_moves Booked Paid"
| decline: "saga_moves Booked (Declined False False)"
| ship: "saga_moves Paid Shipped"
| fail_declined: "saga_moves (Declined False b) (Declined True b)"
| give_back: "saga_moves (Declined b False) (Declined b True)"

fun statusOf :: "saga_state \<Rightarrow> order_status" where
  "statusOf Shipped = Confirmed"
| "statusOf (OutOfStock True) = Failed"
| "statusOf (Declined True b) = Failed"
| "statusOf st = Placed"

fun reservedIn :: "saga_state \<Rightarrow> string \<Rightarrow> order_item list \<Rightarrow> reservation_row list" where
  "reservedIn Awaiting oid items = []"
| "reservedIn (OutOfStock b) oid items = []"
| "reservedIn (Declined b True) oid items = map (released (\<lambda>r. True) \<circ> reservationOf oid) items"
| "reservedIn st oid items = map (reservationOf oid) items"

fun paidIn :: "saga_state \<Rightarrow> int \<Rightarrow> payment_row option \<Rightarrow> bool" where
  "paidIn Paid n p = (\<exists>q. p = Some q \<and> pr_amountCents q = n \<and> pr_status q = Charged)"
| "paidIn Shipped n p = (\<exists>q. p = Some q \<and> pr_amountCents q = n \<and> pr_status q = Charged)"
| "paidIn (Declined b1 b2) n p = (\<exists>q. p = Some q \<and> pr_amountCents q = n \<and> pr_status q = PaymentFailed)"
| "paidIn st n p = (p = None)"

text \<open>The messages of the order, with the consumers that have completed each.\<close>

abbreviation placedEvent :: "order_row \<Rightarrow> saga_event" where
  "placedEvent row \<equiv> OrderPlacedEvent (or_id row) (or_customerId row) (or_items row) (or_totalAmountCents row)"

abbreviation reservedEvent :: "order_row \<Rightarrow> saga_event" where
  "reservedEvent row \<equiv> StockReservedEvent (or_id row) (or_customerId row) (or_totalAmountCents row)"

abbreviation confirmedEvent :: "order_row \<Rightarrow> saga_event" where
  "confirmedEvent row \<equiv> OrderConfirmedEvent (or_id row) (or_customerId row) (or_totalAmountCents row)"

fun follows :: "order_row \<Rightarrow> saga_state \<Rightarrow> (saga_event \<times> consumer list) list \<Rightarrow> bool" where
  "follows row Awaiting t \<longleftrightarrow> t = [(placedEvent row, [])]"
| "follows row (OutOfStock b) t \<longleftrightarrow>
     (\<exists>r. t = [(placedEvent row, [ReserveStock]),
               (StockReservationFailedEvent (or_id row) r [], if b then [OrdersCompensation] else [])])"
| "follows row Booked t \<longleftrightarrow> t = [(placedEvent row, [ReserveStock]), (reservedEvent row, [])]"
| "follows row Paid t \<longleftrightarrow>
     t = [(placedEvent row, [ReserveStock]), (reservedEvent row, [ChargePayment]),
          (PaymentChargedEvent (or_id row) (or_totalAmountCents row), [])]"
| "follows row Shipped t \<longleftrightarrow>
     t = [(placedEvent row, [ReserveStock]), (reservedEvent row, [ChargePayment]),
          (PaymentChargedEvent (or_id row) (or_totalAmountCents row), [ConfirmShipment]),
          (confirmedEvent row, [])]"
| "follows row (Declined b1 b2) t \<longleftrightarrow>
     (\<exists>r inbox. t = [(placedEvent row, [ReserveStock]), (reservedEvent row, [ChargePayment]),
          (PaymentFailedEvent (or_id row) (or_totalAmountCents row) r, inbox)] \<and>
        set inbox = (if b1 then {OrdersCompensation} else {}) \<union> (if b2 then {ReleaseStock} else {}))"

definition trail :: "shop \<Rightarrow> string \<Rightarrow> (saga_event \<times> consumer list) list" where
  "trail s oid = filter (\<lambda>m. eventOrder (fst m) = oid) (messages s)"

definition rowsFor :: "shop \<Rightarrow> string \<Rightarrow> reservation_row list" where
  "rowsFor s oid = filter (\<lambda>r. rr_orderId r = oid) (reservations s)"

text \<open>The tables show an order in a state of the machine, or nothing of it yet.\<close>

definition represents :: "shop \<Rightarrow> string \<Rightarrow> saga_state \<Rightarrow> bool" where
  "represents s oid st \<longleftrightarrow>
     (\<exists>row. orders s oid = Some row \<and> or_id row = oid \<and> or_status row = statusOf st \<and>
        follows row st (trail s oid) \<and> rowsFor s oid = reservedIn st oid (or_items row) \<and>
        paidIn st (or_totalAmountCents row) (payments s oid))"

definition unknown :: "shop \<Rightarrow> string \<Rightarrow> bool" where
  "unknown s oid \<longleftrightarrow> orders s oid = None \<and> trail s oid = [] \<and> rowsFor s oid = [] \<and> payments s oid = None"

section \<open>Other orders\<close>

text \<open>What the tables hold of an order.\<close>

definition sameFor :: "string \<Rightarrow> shop \<Rightarrow> shop \<Rightarrow> bool" where
  "sameFor oid s s' \<longleftrightarrow>
     orders s' oid = orders s oid \<and> trail s' oid = trail s oid \<and> rowsFor s' oid = rowsFor s oid \<and>
     payments s' oid = payments s oid"

lemma sameFor_represents: "sameFor oid s s' \<Longrightarrow> represents s' oid st \<longleftrightarrow> represents s oid st"
  by (simp add: sameFor_def represents_def)

lemma sameFor_unknown: "sameFor oid s s' \<Longrightarrow> unknown s' oid \<longleftrightarrow> unknown s oid"
  by (simp add: sameFor_def unknown_def)

lemma trail_simps [simp]:
  "trail (emit ev s) oid = trail s oid @ (if eventOrder ev = oid then [(ev, [])] else [])"
  "trail (s\<lparr>orders := p\<rparr>) = trail s" "trail (s\<lparr>products := q\<rparr>) = trail s"
  "trail (s\<lparr>reservations := r\<rparr>) = trail s" "trail (s\<lparr>payments := y\<rparr>) = trail s"
  by (simp_all add: trail_def fun_eq_iff)

lemma rowsFor_simps [simp]:
  "rowsFor (emit ev s) = rowsFor s" "rowsFor (s\<lparr>orders := p\<rparr>) = rowsFor s" "rowsFor (s\<lparr>products := q\<rparr>) = rowsFor s"
  "rowsFor (s\<lparr>payments := y\<rparr>) = rowsFor s" "rowsFor (complete i c s) = rowsFor s"
  by (simp_all add: rowsFor_def fun_eq_iff)

text \<open>Completing a message of an order changes that message in its trail.\<close>

lemma filter_list_update:
  assumes "i < length xs" and "P (xs ! i)" and "P y"
  shows "filter P (xs[i := y]) = (filter P xs)[length (filter P (take i xs)) := y] \<and>
    length (filter P (take i xs)) < length (filter P xs) \<and> filter P xs ! length (filter P (take i xs)) = xs ! i"
  using assms
proof (induction xs arbitrary: i)
  case (Cons x xs)
  then show ?case by (cases i) auto
qed simp

lemma filter_list_update_other:
  assumes "\<not> P (xs ! i)" and "\<not> P y"
  shows "filter P (xs[i := y]) = filter P xs"
  using assms
proof (induction xs arbitrary: i)
  case (Cons x xs)
  then show ?case by (cases i) auto
qed simp

lemma trail_complete_other:
  assumes "i < length (messages s)" and "eventOrder (fst (messages s ! i)) \<noteq> oid"
  shows "trail (complete i c s) oid = trail s oid"
  using assms by (simp add: trail_def complete_def filter_list_update_other)

lemma trail_complete:
  assumes "i < length (messages s)" and "messages s ! i = (ev, inbox)" and "eventOrder ev = oid"
  obtains j where "j < length (trail s oid)" and "trail s oid ! j = (ev, inbox)"
    and "trail (complete i c s) oid = (trail s oid)[j := (ev, c # inbox)]"
  using filter_list_update[of i "messages s" "\<lambda>m. eventOrder (fst m) = oid" "(ev, c # inbox)"] assms
  by (auto simp: trail_def complete_def)

lemma trail_complete_at:
  assumes "trail s oid = xs @ (ev, inbox) # ys" and "ev \<notin> fst ` set (xs @ ys)"
    and "i < length (messages s)" and "messages s ! i = (ev, inbox')" and "eventOrder ev = oid"
  shows "trail (complete i c s) oid = xs @ (ev, c # inbox) # ys"
proof -
  from trail_complete[OF assms(3-5)] obtain j where j: "j < length (trail s oid)" "trail s oid ! j = (ev, inbox')"
    "trail (complete i c s) oid = (trail s oid)[j := (ev, c # inbox')]" by blast
  have "j = length xs"
  proof (rule ccontr)
    assume "j \<noteq> length xs"
    with j(1,2) assms(1) have "(ev, inbox') \<in> set (xs @ ys)"
      using nth_mem[of j xs] nth_mem[of "j - Suc (length xs)" ys]
      by (cases "j < length xs") (auto simp: nth_append nth_Cons')
    with assms(2) show False by (metis fst_conv image_eqI)
  qed
  with j(2,3) assms(1) show ?thesis by simp
qed

lemma sameFor_complete:
  assumes "sameFor oid s s'" and "i < length (messages s')" and "eventOrder (fst (messages s' ! i)) \<noteq> oid"
  shows "sameFor oid s (complete i c s')"
  using assms by (simp add: sameFor_def trail_complete_other)

lemma rowsFor_release:
  "rowsFor (s\<lparr>products := P, reservations := map (released (\<lambda>r. rr_orderId r = oid)) (reservations s)\<rparr>) o' =
     (if o' = oid then map (released (\<lambda>r. True)) (rowsFor s oid) else rowsFor s o')"
proof -
  have "filter (\<lambda>r. rr_orderId r = o') (map (released (\<lambda>r. rr_orderId r = oid)) rows) =
      (if o' = oid then map (released (\<lambda>r. True)) (filter (\<lambda>r. rr_orderId r = oid) rows)
       else filter (\<lambda>r. rr_orderId r = o') rows)" for rows :: "reservation_row list"
    by (induction rows) (auto simp: released_def)
  then show ?thesis by (simp add: rowsFor_def)
qed

section \<open>The handlers refine the machine\<close>

text \<open>The consumers that have yet to complete a message, in each state.\<close>

fun awaits :: "saga_state \<Rightarrow> consumer \<Rightarrow> bool" where
  "awaits Awaiting c = (c = ReserveStock)"
| "awaits (OutOfStock b) c = (\<not> b \<and> c = OrdersCompensation)"
| "awaits Booked c = (c = ChargePayment)"
| "awaits Paid c = (c = ConfirmShipment)"
| "awaits Shipped c = False"
| "awaits (Declined b1 b2) c = (\<not> b1 \<and> c = OrdersCompensation \<or> \<not> b2 \<and> c = ReleaseStock)"

lemma subscribed_simps [simp]:
  "subscribed c (OrderPlacedEvent oid cu items n) \<longleftrightarrow> c = ReserveStock"
  "subscribed c (StockReservedEvent oid cu n) \<longleftrightarrow> c = ChargePayment"
  "subscribed c (StockReservationFailedEvent oid r skus) \<longleftrightarrow> c = OrdersCompensation"
  "subscribed c (PaymentChargedEvent oid n) \<longleftrightarrow> c = ConfirmShipment"
  "subscribed c (PaymentFailedEvent oid n r) \<longleftrightarrow> c = OrdersCompensation \<or> c = ReleaseStock"
  "\<not> subscribed c (OrderConfirmedEvent oid cu n)"
  by (cases c; simp add: subscribed_def)+

lemma follows_pending:
  assumes "follows row st t"
  shows "(\<exists>m\<in>set t. subscribed c (fst m) \<and> c \<notin> set (snd m)) \<longleftrightarrow> awaits st c"
proof (cases st)
  case (Declined b1 b2)
  with assms obtain r inbox where t: "t = [(placedEvent row, [ReserveStock]), (reservedEvent row, [ChargePayment]),
      (PaymentFailedEvent (or_id row) (or_totalAmountCents row) r, inbox)]"
    and inbox: "set inbox = (if b1 then {OrdersCompensation} else {}) \<union> (if b2 then {ReleaseStock} else {})" by auto
  have "OrdersCompensation \<in> set inbox \<longleftrightarrow> b1" "ReleaseStock \<in> set inbox \<longleftrightarrow> b2" unfolding inbox by simp_all
  then show ?thesis unfolding t Declined by auto
next
  case (OutOfStock b)
  with assms show ?thesis by (cases b) auto
qed (use assms in auto)

text \<open>The tables after a handler whose order they show in \<open>st'\<close> once its message is completed.\<close>

lemma represents_complete:
  assumes "i < length (messages s)" and "messages s ! i = (ev, inbox)" and "eventOrder ev = oid"
    and "orders s oid = Some row" and "or_id row = oid" and "or_status row = statusOf st'"
    and "trail s oid = xs @ (ev, inbox) # ys" and "ev \<notin> fst ` set (xs @ ys)"
    and "follows row st' (xs @ (ev, c # inbox) # ys)"
    and "rowsFor s oid = reservedIn st' oid (or_items row)"
    and "paidIn st' (or_totalAmountCents row) (payments s oid)"
  shows "represents (complete i c s) oid st'"
  unfolding represents_def complete_tables events_complete rowsFor_simps trail_complete_at[OF assms(7,8,1,2,3)]
  using assms(4-6,9-11) by blast

text \<open>A message of an order that is waiting for a consumer, and a handler that moved the order on.\<close>

definition pendingAt :: "shop \<Rightarrow> nat \<Rightarrow> saga_event \<Rightarrow> consumer list \<Rightarrow> consumer \<Rightarrow> string \<Rightarrow> saga_state \<Rightarrow> order_row \<Rightarrow> bool" where
  "pendingAt s i ev inbox c oid st row \<longleftrightarrow>
     \<not> aborted s \<and> i < length (messages s) \<and> messages s ! i = (ev, inbox) \<and> eventOrder ev = oid \<and>
     (ev, inbox) \<in> set (trail s oid) \<and> awaits st c \<and>
     orders s oid = Some row \<and> or_id row = oid \<and> or_status row = statusOf st \<and> follows row st (trail s oid) \<and>
     rowsFor s oid = reservedIn st oid (or_items row) \<and> paidIn st (or_totalAmountCents row) (payments s oid)"

lemma pendingAtD:
  assumes "pendingAt s i ev inbox c oid st row"
  shows "\<not> aborted s" and "eventOrder ev = oid" and "(ev, inbox) \<in> set (trail s oid)" and "awaits st c"
    and "orders s oid = Some row" and "or_id row = oid" and "or_status row = statusOf st"
    and "follows row st (trail s oid)" and "rowsFor s oid = reservedIn st oid (or_items row)"
    and "paidIn st (or_totalAmountCents row) (payments s oid)"
    and "messages s1 = messages s @ new \<Longrightarrow> i < length (messages s1)"
    and "messages s1 = messages s @ new \<Longrightarrow> messages s1 ! i = (ev, inbox)"
  using assms by (auto simp: pendingAt_def nth_append)

definition moved :: "shop \<Rightarrow> nat \<Rightarrow> consumer \<Rightarrow> string \<Rightarrow> saga_state \<Rightarrow> shop \<Rightarrow> bool" where
  "moved s i c oid st s1 \<longleftrightarrow>
     (\<exists>st' new. saga_moves st st' \<and> messages s1 = messages s @ new \<and> represents (complete i c s1) oid st' \<and>
        (\<forall>o'. o' \<noteq> oid \<longrightarrow> sameFor o' s s1))"

lemma movedI:
  assumes "saga_moves st st'" and "messages s1 = messages s @ new" and "represents (complete i c s1) oid st'"
    and "\<And>o'. o' \<noteq> oid \<Longrightarrow> sameFor o' s s1"
  shows "moved s i c oid st s1"
  using assms unfolding moved_def by blast

lemma moved_charge:
  assumes p: "pendingAt s i ev inbox ChargePayment oid st row" and ev: "ev = StockReservedEvent o1 cu n"
    and run: "onMessage ChargePayment date ev s = Some (Resolve (), s1)" and int: "int4 n"
  shows "moved s i ChargePayment oid st s1"
proof -
  note clean = pendingAtD(1)[OF p] and here = pendingAtD(3)[OF p] and awaits = pendingAtD(4)[OF p]
    and row = pendingAtD(5-10)[OF p] and at = pendingAtD(11,12)[OF p] and oid = pendingAtD(2)[OF p]
  from awaits have st_is: "st = Booked" by (cases st) auto
  have ids: "o1 = oid" "n = or_totalAmountCents row" "cu = or_customerId row" "inbox = []"
    using ev here row(2,4) by (auto simp: st_is)
  have none: "payments s oid = None" using row(6) by (simp add: st_is)
  have s1: "s1 = emit (paymentEvent oid n) (s\<lparr>payments := (payments s)(oid \<mapsto> paymentOf date oid n)\<rparr>)"
    using chargePayment_effect[OF clean int, of date oid] run none by (simp add: ev ids)
  let ?st = "if n \<ge> UNAUTHORISED_AMOUNT_CENTS then Declined False False else Paid"
  show ?thesis
  proof (rule movedI)
    show "saga_moves st ?st" by (simp add: st_is saga_moves.intros)
    show ex: "messages s1 = messages s @ [(paymentEvent oid n, [])]" by (simp add: s1)
    show "represents (complete i ChargePayment s1) oid ?st"
      by (rule represents_complete[OF at[OF ex], where row = row and xs = "[(placedEvent row, [ReserveStock])]"
            and ys = "[(paymentEvent oid n, [])]"])
        (use row in \<open>simp_all add: s1 st_is ev ids paymentEvent_def paymentOf_def\<close>)
    show "sameFor o' s s1" if "o' \<noteq> oid" for o' using that by (simp add: s1 sameFor_def paymentEvent_def)
  qed
qed

lemma moved_reserve:
  assumes p: "pendingAt s i ev inbox ReserveStock oid st row" and ev: "ev = OrderPlacedEvent o1 cu items n"
    and run: "onMessage ReserveStock date ev s = Some (Resolve (), s1)"
  shows "moved s i ReserveStock oid st s1"
proof -
  note clean = pendingAtD(1)[OF p] and here = pendingAtD(3)[OF p] and awaits = pendingAtD(4)[OF p]
    and row = pendingAtD(5-10)[OF p] and at = pendingAtD(11,12)[OF p] and oid = pendingAtD(2)[OF p]
  from awaits have st_is: "st = Awaiting" by (cases st) auto
  have ids: "o1 = oid" "n = or_totalAmountCents row" "cu = or_customerId row" "items = or_items row" "inbox = []"
    using ev here row(2,4) by (auto simp: st_is)
  from reserveStock_effect[OF _ clean, of oid cu items n s1] run
  consider "tryReserve oid cu items n s = Some (Resolve (), s1)"
    | r where "s1 = emit (StockReservationFailedEvent oid r []) s" by (auto simp: ev ids)
  then show ?thesis
  proof cases
    case 1
    from tryReserve_effect[OF 1 clean] obtain P where s1: "s1 = emit (StockReservedEvent oid cu n)
        (s\<lparr>products := P, reservations := reservations s @ map (reservationOf oid) items\<rparr>)" by blast
    have mine: "filter (\<lambda>r. rr_orderId r = o') (map (reservationOf oid) items) =
        (if o' = oid then map (reservationOf oid) items else [])" for o'
      by (auto simp: filter_id_conv filter_empty_conv)
    have rows: "rowsFor s1 o' = rowsFor s o' @ (if o' = oid then map (reservationOf oid) items else [])" for o'
      using mine[of o'] by (simp add: s1 rowsFor_def)
    show ?thesis
    proof (rule movedI)
      show "saga_moves st Booked" by (simp add: st_is saga_moves.intros)
      show ex: "messages s1 = messages s @ [(StockReservedEvent oid cu n, [])]" by (simp add: s1)
      show "represents (complete i ReserveStock s1) oid Booked"
        by (rule represents_complete[OF at[OF ex], where row = row and xs = "[]" and ys = "[(StockReservedEvent oid cu n, [])]"])
          (use row rows in \<open>simp_all add: st_is ev ids\<close>, simp_all add: s1 st_is ids)
      show "sameFor o' s s1" if "o' \<noteq> oid" for o' using that rows by (simp add: sameFor_def) (simp add: s1)
    qed
  next
    case (2 r)
    show ?thesis
    proof (rule movedI)
      show "saga_moves st (OutOfStock False)" by (simp add: st_is saga_moves.intros)
      show ex: "messages s1 = messages s @ [(StockReservationFailedEvent oid r [], [])]" by (simp add: 2)
      show "represents (complete i ReserveStock s1) oid (OutOfStock False)"
        by (rule represents_complete[OF at[OF ex], where row = row and xs = "[]"
              and ys = "[(StockReservationFailedEvent oid r [], [])]"])
          (use row in \<open>simp_all add: 2 st_is ev ids\<close>)
      show "sameFor o' s s1" if "o' \<noteq> oid" for o' using that by (simp add: 2 sameFor_def)
    qed
  qed
qed

lemma moved_confirm:
  assumes p: "pendingAt s i ev inbox ConfirmShipment oid st row" and ev: "ev = PaymentChargedEvent o1 n"
    and run: "onMessage ConfirmShipment date ev s = Some (Resolve (), s1)"
  shows "moved s i ConfirmShipment oid st s1"
proof -
  note clean = pendingAtD(1)[OF p] and here = pendingAtD(3)[OF p] and awaits = pendingAtD(4)[OF p]
    and row = pendingAtD(5-10)[OF p] and at = pendingAtD(11,12)[OF p] and oid = pendingAtD(2)[OF p]
  from awaits have st_is: "st = Paid" by (cases st) auto
  have ids: "o1 = oid" "n = or_totalAmountCents row" "inbox = []"
    using ev here row(2,4) by (auto simp: st_is)
  let ?row = "row\<lparr>or_status := Confirmed, or_confirmedAt := Some date\<rparr>"
  have s1: "s1 = emit (confirmedEvent row) (s\<lparr>orders := (orders s)(oid \<mapsto> ?row)\<rparr>)"
    using confirmShipment_effect[OF clean, of date oid] run row(1,3) by (simp add: ev ids st_is)
  show ?thesis
  proof (rule movedI)
    show "saga_moves st Shipped" by (simp add: st_is saga_moves.intros)
    show ex: "messages s1 = messages s @ [(confirmedEvent row, [])]" by (simp add: s1)
    show "represents (complete i ConfirmShipment s1) oid Shipped"
      by (rule represents_complete[OF at[OF ex], where row = ?row and
            xs = "[(placedEvent row, [ReserveStock]), (reservedEvent row, [ChargePayment])]"
            and ys = "[(confirmedEvent row, [])]"])
        (use row in \<open>simp_all add: s1 st_is ev ids\<close>)
    show "sameFor o' s s1" if "o' \<noteq> oid" for o' using that row(2) by (simp add: s1 sameFor_def)
  qed
qed

lemma moved_outOfStock:
  assumes p: "pendingAt s i ev inbox OrdersCompensation oid st row" and ev: "ev = StockReservationFailedEvent o1 r skus"
    and run: "onMessage OrdersCompensation date ev s = Some (Resolve (), s1)"
  shows "moved s i OrdersCompensation oid st s1"
proof -
  note clean = pendingAtD(1)[OF p] and here = pendingAtD(3)[OF p] and awaits = pendingAtD(4)[OF p]
    and row = pendingAtD(5-10)[OF p] and at = pendingAtD(11,12)[OF p] and oid = pendingAtD(2)[OF p]
  have st_is: "st = OutOfStock False"
    using awaits ev here row(4) by (cases st) auto
  have ids: "o1 = oid" "skus = []" "inbox = []" using ev here row(2,4) by (auto simp: st_is)
  let ?row = "row\<lparr>or_status := Failed, or_failureReason := Some r\<rparr>"
  have s1: "s1 = s\<lparr>orders := (orders s)(oid \<mapsto> ?row)\<rparr>"
    using compensateOrder_effect[OF clean, of oid r] run row(1,3) by (simp add: ev ids st_is)
  have tr: "trail s oid = [(placedEvent row, [ReserveStock]), (ev, [])]"
    using row(4) here ev ids by (auto simp: st_is)
  show ?thesis
  proof (rule movedI)
    show "saga_moves st (OutOfStock True)" by (simp add: st_is saga_moves.intros)
    show ex: "messages s1 = messages s @ []" by (simp add: s1)
    show "represents (complete i OrdersCompensation s1) oid (OutOfStock True)"
      by (rule represents_complete[OF at[OF ex], where row = ?row and xs = "[(placedEvent row, [ReserveStock])]" and ys = "[]"])
        (use row tr in \<open>simp_all add: s1 st_is ev ids\<close>)
    show "sameFor o' s s1" if "o' \<noteq> oid" for o' using that by (simp add: s1 sameFor_def)
  qed
qed

lemma moved_unpaid:
  assumes p: "pendingAt s i ev inbox OrdersCompensation oid st row" and ev: "ev = PaymentFailedEvent o1 n r"
    and run: "onMessage OrdersCompensation date ev s = Some (Resolve (), s1)"
  shows "moved s i OrdersCompensation oid st s1"
proof -
  note clean = pendingAtD(1)[OF p] and here = pendingAtD(3)[OF p] and awaits = pendingAtD(4)[OF p]
    and row = pendingAtD(5-10)[OF p] and at = pendingAtD(11,12)[OF p] and oid = pendingAtD(2)[OF p]
  obtain b where st_is: "st = Declined False b"
    using awaits ev here row(4) by (cases st) auto
  let ?xs = "[(placedEvent row, [ReserveStock]), (reservedEvent row, [ChargePayment])]"
  have ids: "o1 = oid" "n = or_totalAmountCents row" and tr: "trail s oid = ?xs @ [(ev, inbox)]"
    and ibx: "set inbox = (if b then {ReleaseStock} else {})"
    using ev here row(2,4) by (auto simp: st_is)
  let ?row = "row\<lparr>or_status := Failed, or_failureReason := Some r\<rparr>"
  have s1: "s1 = s\<lparr>orders := (orders s)(oid \<mapsto> ?row)\<rparr>"
    using compensateOrder_effect[OF clean, of oid r] run row(1,3) by (simp add: ev ids st_is)
  show ?thesis
  proof (rule movedI)
    show "saga_moves st (Declined True b)" by (simp add: st_is saga_moves.intros)
    show ex: "messages s1 = messages s @ []" by (simp add: s1)
    show "represents (complete i OrdersCompensation s1) oid (Declined True b)"
      by (rule represents_complete[OF at[OF ex], where row = ?row and xs = ?xs and ys = "[]"])
        (use row tr ibx in \<open>simp_all add: s1 st_is ev ids\<close>, cases b, simp_all)
    show "sameFor o' s s1" if "o' \<noteq> oid" for o' using that by (simp add: s1 sameFor_def)
  qed
qed

lemma moved_release:
  assumes p: "pendingAt s i ev inbox ReleaseStock oid st row" and ev: "ev = PaymentFailedEvent o1 n r"
    and run: "onMessage ReleaseStock date ev s = Some (Resolve (), s1)" and "stocked stock s"
  shows "moved s i ReleaseStock oid st s1"
proof -
  note clean = pendingAtD(1)[OF p] and here = pendingAtD(3)[OF p] and awaits = pendingAtD(4)[OF p]
    and row = pendingAtD(5-10)[OF p] and at = pendingAtD(11,12)[OF p] and oid = pendingAtD(2)[OF p]
  obtain b where st_is: "st = Declined b False"
    using awaits ev here row(4) by (cases st) auto
  let ?xs = "[(placedEvent row, [ReserveStock]), (reservedEvent row, [ChargePayment])]"
  have ids: "o1 = oid" "n = or_totalAmountCents row" and tr: "trail s oid = ?xs @ [(ev, inbox)]"
    and ibx: "set inbox = (if b then {OrdersCompensation} else {})"
    using ev here row(2,4) by (auto simp: st_is)
  have "releaseStock oid s = Some (Resolve (), s1)" using run by (simp add: ev ids)
  from releaseStock_effect[OF this clean] assms(4) obtain P where
    s1: "s1 = s\<lparr>products := P, reservations := map (released (\<lambda>r. rr_orderId r = oid)) (reservations s)\<rparr>"
    by (auto simp: stocked_def Let_def)
  show ?thesis
  proof (rule movedI)
    show "saga_moves st (Declined b True)" by (simp add: st_is saga_moves.intros)
    show ex: "messages s1 = messages s @ []" by (simp add: s1)
    show "represents (complete i ReleaseStock s1) oid (Declined b True)"
      by (rule represents_complete[OF at[OF ex], where row = row and xs = ?xs and ys = "[]"])
        (use row tr ibx in \<open>simp_all add: s1 rowsFor_release st_is ev ids\<close>, (cases b, simp_all)+)
    show "sameFor o' s s1" if "o' \<noteq> oid" for o' using that by (simp add: s1 sameFor_def rowsFor_release)
  qed
qed

lemma delivery_refines:
  assumes "delivery True s s'" and "stocked stock s" and known: "\<And>oid. unknown s oid \<or> (\<exists>st. represents s oid st)"
  shows "\<exists>oid st st'. represents s oid st \<and> saga_moves st st' \<and> represents s' oid st' \<and>
    (\<forall>o'. o' \<noteq> oid \<longrightarrow> sameFor o' s s')"
  using assms(1)
proof cases
  case (deliver i ev inbox c date s1)
  have clean: "\<not> aborted s" using assms(2) by (simp add: stocked_def)
  define oid where "oid = eventOrder ev"
  from trail_complete[OF deliver(2,3)] have here: "(ev, inbox) \<in> set (trail s oid)"
    unfolding oid_def by (metis nth_mem)
  then have evin: "ev \<in> set (events s)" by (force simp: trail_def events_def)
  from known[of oid] here obtain st where st: "represents s oid st" by (auto simp: unknown_def)
  then obtain row where row: "orders s oid = Some row" "or_id row = oid" "or_status row = statusOf st"
    "follows row st (trail s oid)" "rowsFor s oid = reservedIn st oid (or_items row)"
    "paidIn st (or_totalAmountCents row) (payments s oid)" by (auto simp: represents_def)
  have "awaits st c"
    using follows_pending[OF row(4), of c, THEN iffD1, OF bexI[OF _ here]] deliver(4,5) by simp
  with row here clean deliver(2,3) have p: "pendingAt s i ev inbox c oid st row" by (simp add: pendingAt_def oid_def)
  have int: "int4 n" if "ev = StockReservedEvent o1 cu n" for o1 cu n
    using assms(2) evin unfolding that stocked_def by blast
  from deliver(4) have "moved s i c oid st s1"
    using p deliver(6) moved_reserve moved_charge[OF _ _ _ int] moved_confirm moved_outOfStock moved_unpaid
      moved_release[OF _ _ _ assms(2)]
    by (cases rule: subscribed_cases) simp_all
  then obtain st' new where m: "saga_moves st st'" "messages s1 = messages s @ new" "represents (complete i c s1) oid st'"
    "\<forall>o'. o' \<noteq> oid \<longrightarrow> sameFor o' s s1" by (auto simp: moved_def)
  have "sameFor o' s s'" if "o' \<noteq> oid" for o'
    unfolding deliver(1) using m(4) that pendingAtD(11,12)[OF p m(2)]
    by (intro sameFor_complete) (auto simp: oid_def)
  with m(1,3) st show ?thesis unfolding deliver(1) by metis
qed

section \<open>Reachable states\<close>

definition allKnown :: "shop \<Rightarrow> bool" where
  "allKnown s \<longleftrightarrow> (\<forall>oid. unknown s oid \<or> (\<exists>st. represents s oid st))"

lemma request_starts:
  assumes "postOrder uuid date c items s = Some (Resolve oid, s')" and "\<not> aborted s" and "allKnown s"
  shows "unknown s oid \<and> represents s' oid Awaiting \<and> (\<forall>o'. o' \<noteq> oid \<longrightarrow> sameFor o' s s')"
proof -
  from postOrder_effect[OF assms(1,2)] have new: "orders s oid = None"
    and s': "s' = emit (OrderPlacedEvent oid c items (totalOf items)) (s\<lparr>orders := (orders s)(oid \<mapsto> placedRow oid date c items)\<rparr>)"
    by auto
  from new assms(3) have u: "unknown s oid" by (auto simp: allKnown_def represents_def)
  then show ?thesis
    by (auto simp: s' unknown_def represents_def placedRow_def sameFor_def)
qed

text \<open>A step moves one order, or makes one, and leaves all others as they were.\<close>

definition machineStep :: "shop \<Rightarrow> shop \<Rightarrow> bool" where
  "machineStep s s' \<longleftrightarrow>
     (\<exists>oid. (unknown s oid \<and> represents s' oid Awaiting \<or>
             (\<exists>st st'. represents s oid st \<and> saga_moves st st' \<and> represents s' oid st')) \<and>
       (\<forall>o'. o' \<noteq> oid \<longrightarrow> (unknown s' o' \<longleftrightarrow> unknown s o') \<and> (\<forall>st. represents s' o' st \<longleftrightarrow> represents s o' st)))"

lemma saga_step_refines:
  assumes "saga_step True s s'" and "stocked stock s" and "allKnown s"
  shows "machineStep s s'"
  using assms(1)
proof cases
  case (request uuid date c items oid)
  from request_starts[OF request(1) _ assms(3)] assms(2) show ?thesis
    unfolding machineStep_def by (auto simp: stocked_def sameFor_represents sameFor_unknown intro!: exI[of _ oid])
next
  case relay
  from delivery_refines[OF this assms(2)] assms(3) obtain oid st st' where
    "represents s oid st" "saga_moves st st'" "represents s' oid st'" "\<forall>o'. o' \<noteq> oid \<longrightarrow> sameFor o' s s'"
    by (auto simp: allKnown_def)
  then show ?thesis
    unfolding machineStep_def using sameFor_represents sameFor_unknown by blast
qed

lemma machineStep_known: "machineStep s s' \<Longrightarrow> allKnown s \<Longrightarrow> allKnown s'"
  unfolding machineStep_def allKnown_def by metis

lemma reaches_known:
  assumes "reaches True stock s" and "counted stock"
  shows "stocked stock s \<and> allKnown s"
  using assms(1) unfolding reaches_def
proof (induction rule: rtranclp_induct)
  case base
  have "reaches True stock (opened stock)" by (simp add: reaches_def)
  from reaches_ok[OF this assms(2)] show ?case
    by (simp add: allKnown_def unknown_def opened_def trail_def rowsFor_def)
next
  case (step s s')
  then show ?case using saga_step_stocked saga_step_refines machineStep_known by blast
qed

section \<open>When nothing is left to deliver\<close>

fun settled_state :: "saga_state \<Rightarrow> bool" where
  "settled_state (OutOfStock b) = b"
| "settled_state (Declined b1 b2) = (b1 \<and> b2)"
| "settled_state st = (st = Shipped)"

lemma awaits_iff: "(\<exists>c. awaits st c) \<longleftrightarrow> \<not> settled_state st"
  by (cases st) auto

lemma drained_settled:
  assumes "drained s" and "represents s oid st"
  shows "settled_state st"
proof -
  from assms(2) obtain row where "follows row st (trail s oid)" by (auto simp: represents_def)
  moreover have "set (trail s oid) \<subseteq> set (messages s)" by (auto simp: trail_def)
  ultimately show ?thesis using follows_pending[of row st "trail s oid"] assms(1) awaits_iff[of st]
    unfolding drained_iff by blast
qed

section \<open>Deliveries come to an end\<close>

fun weight :: "saga_event \<Rightarrow> nat" where
  "weight (OrderPlacedEvent oid c items n) = 4"
| "weight (StockReservedEvent oid c n) = 3"
| "weight ev = 1"

definition messageLoad :: "saga_event \<times> consumer list \<Rightarrow> nat" where
  "messageLoad m = length (filter (\<lambda>c. subscribed c (fst m) \<and> c \<notin> set (snd m)) consumers) * weight (fst m)"

definition load :: "shop \<Rightarrow> nat" where
  "load s = sum_list (map messageLoad (messages s))"

lemma completed_load:
  assumes "subscribed c ev" and "c \<notin> set inbox"
  shows "messageLoad (ev, c # inbox) + weight ev = messageLoad (ev, inbox)"
  using assms by (cases c; cases ev) (auto simp: messageLoad_def consumers_def)

lemma load_complete:
  assumes "i < length (messages s)" and "messages s ! i = (ev, inbox)" and "subscribed c ev" and "c \<notin> set inbox"
  shows "load (complete i c s) + weight ev = load s"
proof -
  have "sum_list (map messageLoad (xs[i := y])) + messageLoad (xs ! i) = sum_list (map messageLoad xs) + messageLoad y"
    if "i < length xs" for xs y
    using that by (induction xs arbitrary: i) (auto simp: nth_Cons' less_Suc_eq_0_disj)
  from this[OF assms(1), of "(ev, c # inbox)"] completed_load[OF assms(3,4)] assms(2) show ?thesis
    by (simp add: load_def complete_def)
qed

lemma delivery_load:
  assumes "delivery True s s'" and "stocked stock s"
  shows "load s' < load s"
  using assms(1)
proof cases
  case (deliver i ev inbox c date s1)
  have clean: "\<not> aborted s" using assms(2) by (simp add: stocked_def)
  have ev: "ev \<in> set (events s)" using deliver(2,3) nth_mem by (force simp: events_def)
  have "\<exists>new. messages s1 = messages s @ new \<and> sum_list (map messageLoad new) < weight ev"
    using deliver(4)
  proof (cases rule: subscribed_cases)
    case (reserve oid cu items n)
    from reserveStock_effect[OF _ clean, of oid cu items n s1] deliver(6)
    consider "tryReserve oid cu items n s = Some (Resolve (), s1)"
      | r where "s1 = emit (StockReservationFailedEvent oid r []) s" by (auto simp: reserve)
    then show ?thesis
      by cases (auto dest!: tryReserve_effect[OF _ clean] simp: reserve messageLoad_def consumers_def)
  next
    case (charge oid cu n)
    have "int4 n" using assms(2) ev unfolding charge stocked_def by blast
    from chargePayment_effect[OF clean this] deliver(6) show ?thesis
      by (auto simp: charge paymentEvent_def messageLoad_def consumers_def split: if_splits)
  next
    case (confirm oid n)
    with confirmShipment_effect[OF clean] deliver(6) show ?thesis
      by (auto simp: messageLoad_def consumers_def split: option.splits if_splits)
  next
    case (outOfStock oid r skus)
    with compensateOrder_effect[OF clean] deliver(6) show ?thesis by (auto split: option.splits if_splits)
  next
    case (unpaid oid n r)
    with compensateOrder_effect[OF clean] deliver(6) show ?thesis by (auto split: option.splits if_splits)
  next
    case (release oid n r)
    then have "releaseStock oid s = Some (Resolve (), s1)" using deliver(6) by simp
    from releaseStock_effect[OF this clean] assms(2) release show ?thesis by (auto simp: stocked_def Let_def)
  qed
  then obtain new where new: "messages s1 = messages s @ new" "sum_list (map messageLoad new) < weight ev" by blast
  then have "i < length (messages s1)" "messages s1 ! i = (ev, inbox)" using deliver(2,3) by (auto simp: nth_append)
  from load_complete[OF this deliver(4)] deliver(5) have "load (complete i c s1) + weight ev = load s1" by simp
  with new show ?thesis unfolding deliver(1) by (simp add: load_def)
qed

end
