(* ===== verification/Saga_Liveness.thy ===== *)
theory Saga_Liveness
  imports Saga_Outcome
begin

text \<open>
  Every handler of the order saga returns where it is needed: as long as an order waits for a
  consumer, some delivery is possible, so the relay ends with every order settled. The orders
  that can be served have one line per product, with a quantity the column can hold.
\<close>

section \<open>Handlers that return\<close>

definition stockable :: "(string \<Rightarrow> int option) \<Rightarrow> bool" where
  "stockable stock \<longleftrightarrow> (\<forall>sku n. stock sku = Some n \<longrightarrow> 0 \<le> n \<and> int4 n)"

definition servable :: "order_row \<Rightarrow> bool" where
  "servable row \<longleftrightarrow> distinct (map i_sku (or_items row)) \<and> list_all (\<lambda>it. int4 (i_quantity it)) (or_items row)"

definition inRange :: "(string \<Rightarrow> int option) \<Rightarrow> bool" where
  "inRange P \<longleftrightarrow> (\<forall>sku n. P sku = Some n \<longrightarrow> 0 \<le> n \<and> int4 n)"

fun returnsOrOutOfStock :: "'a outcome \<Rightarrow> bool" where
  "returnsOrOutOfStock (Resolve v) = True"
| "returnsOrOutOfStock (Reject e) = instance_of e ''OutOfStockError''"

lemma reserveLine_total:
  assumes "\<not> aborted s" and "inRange (products s)" and "0 < i_quantity it" and "int4 (i_quantity it)"
    and "reservationId oid (i_sku it) \<notin> rr_id ` set (reservations s)"
  obtains r s' where "reserveLine oid it skus s = Some (r, s')" and "returnsOrOutOfStock r"
    and "\<And>v. r = Resolve v \<Longrightarrow> \<not> aborted s' \<and> inRange (products s') \<and> reservations s' = reservations s @ [reservationOf oid it]"
proof (cases "products s (i_sku it)")
  case None
  with assms(1,4) that show ?thesis
    by (auto simp: reserveLine_def andThen_def takeStock_def statement_def)
next
  case (Some n)
  then have n: "0 \<le> n" "int4 n" using assms(2) by (auto simp: inRange_def)
  show ?thesis
  proof (cases "i_quantity it \<le> n")
    case False
    with Some assms(1,4) that show ?thesis
      by (auto simp: reserveLine_def andThen_def takeStock_def statement_def)
  next
    case True
    with n assms(3) have "int4 (n - i_quantity it)" "0 \<le> n - i_quantity it" by (auto simp: int4_def)
    with Some True assms show ?thesis
      by (intro that) (auto simp: reserveLine_def andThen_def takeStock_def statement_def insertReservation_def catching_def
          reservationOf_def inRange_def split: if_splits)
  qed
qed

lemma reserveLines_total:
  assumes "\<not> aborted s" and "inRange (products s)" and "\<forall>it\<in>set items. 0 < i_quantity it \<and> int4 (i_quantity it)"
    and "distinct (map (reservationId oid \<circ> i_sku) items)"
    and "reservationId oid ` i_sku ` set items \<inter> rr_id ` set (reservations s) = {}"
  shows "\<exists>r s'. reserveLines oid items skus s = Some (r, s') \<and> returnsOrOutOfStock r \<and> (\<forall>v. r = Resolve v \<longrightarrow> \<not> aborted s')"
  using assms
proof (induction items arbitrary: skus s)
  case Nil
  then show ?case by simp
next
  case (Cons it items)
  obtain r s1 where one: "reserveLine oid it skus s = Some (r, s1)" "returnsOrOutOfStock r"
    "\<And>v. r = Resolve v \<Longrightarrow> \<not> aborted s1 \<and> inRange (products s1) \<and> reservations s1 = reservations s @ [reservationOf oid it]"
    using reserveLine_total[OF Cons.prems(1,2), of it oid skus] Cons.prems by auto
  show ?case
  proof (cases r)
    case (Reject e)
    with one show ?thesis by (simp add: andThen_def)
  next
    case (Resolve v)
    with one(3) have s1: "\<not> aborted s1" "inRange (products s1)" "reservations s1 = reservations s @ [reservationOf oid it]"
      by auto
    have "\<exists>r s'. reserveLines oid items v s1 = Some (r, s') \<and> returnsOrOutOfStock r \<and> (\<forall>v. r = Resolve v \<longrightarrow> \<not> aborted s')"
      using Cons.prems s1 by (intro Cons.IH) (auto simp: image_iff)
    with one(1) Resolve show ?thesis by (simp add: andThen_def)
  qed
qed

lemma reserveStock_total:
  assumes "\<not> aborted s" and "inRange (products s)" and "\<forall>it\<in>set items. 0 < i_quantity it \<and> int4 (i_quantity it)"
    and "distinct (map (reservationId oid \<circ> i_sku) items)"
    and "reservationId oid ` i_sku ` set items \<inter> rr_id ` set (reservations s) = {}"
  shows "\<exists>s'. reserveStock oid c items n s = Some (Resolve (), s')"
proof -
  from reserveLines_total[OF assms, of "[]"] obtain r s1 where r: "reserveLines oid items [] s = Some (r, s1)"
    "returnsOrOutOfStock r" "\<forall>v. r = Resolve v \<longrightarrow> \<not> aborted s1" by blast
  show ?thesis
  proof (cases r)
    case (Resolve v)
    with r show ?thesis
      by (auto simp: reserveStock_def catching_def tryReserve_def transactional_def andThen_def publishMessage_run)
  next
    case (Reject e)
    with r assms(1) show ?thesis
      by (auto simp: reserveStock_def catching_def tryReserve_def transactional_def andThen_def publishFailure_def publishMessage_run)
  qed
qed

lemma heldIn_member:
  assumes "r \<in> set rows" and "rr_status r = Reserved" and "\<forall>r\<in>set rows. 0 < rr_quantity r"
  shows "rr_quantity r \<le> heldIn rows (rr_sku r)"
  using assms
proof (induction rows)
  case (Cons q rows)
  then show ?case using heldIn_nonneg[of rows "rr_sku r"] by auto
qed simp

text \<open>What giving back needs: the stock of each product, with what is held, fits its column.\<close>

definition roomy :: "shop \<Rightarrow> bool" where
  "roomy s \<longleftrightarrow> \<not> aborted s \<and> distinct (map rr_id (reservations s)) \<and>
     (\<forall>r\<in>set (reservations s). 0 < rr_quantity r \<and> products s (rr_sku r) \<noteq> None) \<and>
     (\<forall>sku n. products s sku = Some n \<longrightarrow> 0 \<le> n \<and> int4 (n + heldIn (reservations s) sku))"

lemma releaseRows_total:
  assumes "roomy s" and "distinct (map rr_id rows)" and "set rows \<subseteq> set (reservations s)"
    and "\<forall>r\<in>set rows. rr_status r = Reserved"
  shows "\<exists>s'. releaseRows rows s = Some (Resolve (), s') \<and> \<not> aborted s'"
  using assms
proof (induction rows arbitrary: s)
  case Nil
  then show ?case by (simp add: roomy_def)
next
  case (Cons row rows)
  have row: "row \<in> set (reservations s)" "rr_status row = Reserved" using Cons.prems by auto
  define hit where "hit = (\<lambda>r :: reservation_row. rr_id r = rr_id row \<and> rr_status r = Reserved)"
  have hits: "filter hit (reservations s) \<noteq> []" using row unfolding hit_def by (auto simp: filter_empty_conv)
  define s1 where "s1 = s\<lparr>reservations := map (released (\<lambda>r. rr_id r = rr_id row)) (reservations s)\<rparr>"
  have clean: "\<not> aborted s" and ids: "distinct (map rr_id (reservations s))"
    and pos: "\<forall>r\<in>set (reservations s). 0 < rr_quantity r"
    using Cons.prems(1) by (auto simp: roomy_def)
  have one: "releaseReservation (rr_id row) s = Some (Resolve (length (filter hit (reservations s))), s1)"
    using clean by (simp add: releaseReservation_def statement_def s1_def released_def[abs_def] hit_def Let_def)
  obtain n where n: "products s (rr_sku row) = Some n" "0 \<le> n" "int4 (n + heldIn (reservations s) (rr_sku row))"
    using Cons.prems(1) row(1) unfolding roomy_def by blast
  have "0 < rr_quantity row" "rr_quantity row \<le> heldIn (reservations s) (rr_sku row)"
    using heldIn_member[OF row pos] pos row(1) by auto
  with n have fits: "int4 (n + rr_quantity row)" by (auto simp: int4_def)
  define s2 where "s2 = s1\<lparr>products := (products s)(rr_sku row \<mapsto> n + rr_quantity row)\<rparr>"
  have two: "putStock (rr_sku row) (rr_quantity row) s1 = Some (Resolve 1, s2)"
    using clean n(1) fits by (simp add: putStock_def statement_def s1_def s2_def)
  have held: "heldIn (reservations s2) sku = heldIn (reservations s) sku - (if rr_sku row = sku then rr_quantity row else 0)" for sku
    unfolding s2_def s1_def using heldIn_release_one[OF ids row] by simp
  have "roomy s2"
    using Cons.prems(1) n \<open>0 < rr_quantity row\<close> held unfolding roomy_def
    by (auto simp: s2_def s1_def comp_def split: if_splits)
  moreover have "set rows \<subseteq> set (reservations s2)"
  proof
    fix r assume r: "r \<in> set rows"
    moreover have "rr_id row \<notin> rr_id ` set rows" using Cons.prems(2) by simp
    ultimately have "released (\<lambda>r. rr_id r = rr_id row) r = r" by (intro released_other) (metis image_eqI)
    moreover have "r \<in> set (reservations s)" using r Cons.prems(3) by auto
    ultimately show "r \<in> set (reservations s2)" by (auto simp: s2_def s1_def intro!: image_eqI[of r _ r])
  qed
  ultimately have "\<exists>s'. releaseRows rows s2 = Some (Resolve (), s') \<and> \<not> aborted s'"
    using Cons.prems(2,4) by (intro Cons.IH) auto
  with one two hits show ?case by (simp add: andThen_def)
qed

lemma releaseStock_total:
  assumes "roomy s"
  shows "\<exists>s'. releaseStock oid s = Some (Resolve (), s')"
proof -
  let ?rows = "filter (\<lambda>r. rr_orderId r = oid \<and> rr_status r = Reserved) (reservations s)"
  have "\<exists>s'. releaseRows ?rows s = Some (Resolve (), s') \<and> \<not> aborted s'"
    using assms by (intro releaseRows_total) (auto simp: roomy_def distinct_map_filter)
  then obtain s1 where "releaseRows ?rows s = Some (Resolve (), s1)" "\<not> aborted s1" by blast
  moreover have "\<not> aborted s" using assms by (simp add: roomy_def)
  ultimately show ?thesis
    by (simp add: releaseStock_def transactional_def andThen_def findReserved_def statement_def)
qed

lemma stocked_roomy:
  assumes "stocked stock s" and "stockable stock"
  shows "roomy s"
proof -
  have "int4 (n + heldIn (reservations s) sku)" if n: "products s sku = Some n" for sku n
  proof -
    have "map_option (\<lambda>n. n + heldIn (reservations s) sku) (products s sku) = stock sku"
      using assms(1) unfolding stocked_def by blast
    then have "stock sku = Some (n + heldIn (reservations s) sku)" using n by simp
    with assms(2) show ?thesis unfolding stockable_def by blast
  qed
  with assms(1) show ?thesis unfolding stocked_def roomy_def by simp
qed

lemma roomy_inRange:
  assumes "roomy s"
  shows "inRange (products s)"
proof -
  have "0 \<le> heldIn (reservations s) sku" for sku
    using assms by (intro heldIn_nonneg) (simp add: roomy_def)
  with assms show ?thesis unfolding roomy_def inRange_def int4_def by (smt (verit))
qed

section \<open>Something is always deliverable\<close>

text \<open>The ids of orders have no colon, so reservations of different orders have different ids.\<close>

definition plainIds :: "shop \<Rightarrow> bool" where
  "plainIds s \<longleftrightarrow> (\<forall>oid. orders s oid \<noteq> None \<longrightarrow> CHR '':'' \<notin> set oid)"

lemma reservationId_inj:
  assumes "reservationId a x = reservationId b y" and "CHR '':'' \<notin> set a" and "CHR '':'' \<notin> set b"
  shows "a = b \<and> x = y"
proof -
  from assms have "a = b" using takeWhile_until[of "CHR '':''" a x] takeWhile_until[of "CHR '':''" b y]
    unfolding reservationId_def append_Cons append_Nil by metis
  with assms(1) show ?thesis by (simp add: reservationId_def)
qed

lemma saga_step_plainIds:
  assumes "saga_step True s s'" and "stocked stock s" and "allKnown s" and "plainIds s"
  shows "plainIds s'"
  using assms(1)
proof cases
  case (request uuid date c items oid)
  from postOrder_effect[OF request(1)] assms(2) request(2) show ?thesis
    using assms(4) by (auto simp: stocked_def plainIds_def orderIdOf_def dest: in_set_takeD)
next
  case relay
  from delivery_refines[OF this assms(2)] assms(3) obtain oid st where st: "represents s oid st"
    and same: "\<forall>o'. o' \<noteq> oid \<longrightarrow> sameFor o' s s'" by (auto simp: allKnown_def)
  have "orders s o' \<noteq> None" if "orders s' o' \<noteq> None" for o'
    using st same that by (cases "o' = oid") (auto simp: represents_def sameFor_def)
  with assms(4) show ?thesis by (simp add: plainIds_def)
qed

lemma reservation_ids:
  assumes "allKnown s" and "r \<in> set (reservations s)"
  shows "rr_id r = reservationId (rr_orderId r) (rr_sku r) \<and> orders s (rr_orderId r) \<noteq> None"
proof -
  have r: "r \<in> set (rowsFor s (rr_orderId r))" using assms(2) by (simp add: rowsFor_def)
  with assms(1) obtain st where "represents s (rr_orderId r) st"
    unfolding allKnown_def unknown_def by (metis empty_iff list.set(1))
  then obtain row where "orders s (rr_orderId r) = Some row" "rowsFor s (rr_orderId r) = reservedIn st (rr_orderId r) (or_items row)"
    by (auto simp: represents_def)
  moreover have "rr_id q = reservationId oid (rr_sku q)" if "q \<in> set (reservedIn st oid items)" for q oid items
    using that by (cases "(st, oid, items)" rule: reservedIn.cases) auto
  ultimately show ?thesis using r by auto
qed

text \<open>A waiting order whose lines can be served has a message that can be delivered.\<close>

lemma waiting_served:
  assumes "represents s oid st" and "awaits st c" and "stocked stock s" and "stockable stock" and "allKnown s" and "plainIds s"
    and serv: "\<And>row. orders s oid = Some row \<Longrightarrow> servable row"
    and items: "consistent s"
  shows "\<exists>s'. delivery True s s'"
proof -
  from assms(1) obtain row where row: "orders s oid = Some row" "or_id row = oid" "follows row st (trail s oid)"
    "rowsFor s oid = reservedIn st oid (or_items row)" by (auto simp: represents_def)
  from follows_pending[OF row(3), of c] assms(2) obtain ev inbox where
    m: "(ev, inbox) \<in> set (trail s oid)" "subscribed c ev" "c \<notin> set inbox" by auto
  then have mem: "(ev, inbox) \<in> set (messages s)" and oid: "eventOrder ev = oid" by (auto simp: trail_def)
  from mem obtain i where i: "i < length (messages s)" "messages s ! i = (ev, inbox)" by (auto simp: in_set_conv_nth)
  have evin: "ev \<in> set (events s)" using mem by (force simp: events_def)
  have clean: "\<not> aborted s" using assms(3) by (simp add: stocked_def)
  have roomy: "roomy s" by (rule stocked_roomy[OF assms(3,4)])
  have "\<exists>s1. onMessage c 0 ev s = Some (Resolve (), s1)"
    using m(2)
  proof (cases rule: subscribed_cases)
    case (reserve o1 cu its n)
    have st_is: "st = Awaiting" using assms(2) reserve by (cases st) auto
    have ids: "o1 = oid" "its = or_items row" using m(1) row(2,3) reserve by (auto simp: st_is)
    have accepted: "\<forall>it\<in>set its. 0 < i_quantity it"
      using consistentD(2)[OF items row(1)] by (auto simp: rowOk_def acceptedItems_def list_all_iff acceptedItem_def ids)
    have s: "servable row" by (rule serv[OF row(1)])
    have plain: "CHR '':'' \<notin> set oid" using assms(6) row(1) by (auto simp: plainIds_def)
    have "\<exists>s1. reserveStock oid cu its n s = Some (Resolve (), s1)"
    proof (rule reserveStock_total[OF clean roomy_inRange[OF roomy]])
      show "\<forall>it\<in>set its. 0 < i_quantity it \<and> int4 (i_quantity it)"
        using s accepted by (auto simp: servable_def list_all_iff ids)
      have "distinct (map i_sku its)" using s by (simp add: servable_def ids)
      moreover have "inj_on (reservationId oid) (set (map i_sku its))" by (simp add: inj_on_def reservationId_def)
      ultimately have "distinct (map (reservationId oid) (map i_sku its))"
        by (rule distinct_map[THEN iffD2, OF conjI])
      then show "distinct (map (reservationId oid \<circ> i_sku) its)" by simp
      show "reservationId oid ` i_sku ` set its \<inter> rr_id ` set (reservations s) = {}"
      proof (rule ccontr)
        assume "\<not> ?thesis"
        then obtain r sku where r: "r \<in> set (reservations s)" "rr_id r = reservationId oid sku"
          by (metis (no_types, lifting) disjoint_iff imageE)
        with reservation_ids[OF assms(5) r(1)] assms(6) have "reservationId (rr_orderId r) (rr_sku r) = reservationId oid sku"
          "CHR '':'' \<notin> set (rr_orderId r)" by (auto simp: plainIds_def)
        with reservationId_inj[OF _ _ plain] have "rr_orderId r = oid" by blast
        with r(1) row(4) show False by (auto simp: st_is rowsFor_def filter_empty_conv)
      qed
    qed
    then show ?thesis by (simp add: reserve ids)
  next
    case (charge o1 cu n)
    have "int4 n" using assms(3) evin unfolding charge stocked_def by blast
    with chargePayment_effect[OF clean] show ?thesis by (simp add: charge)
  next
    case (confirm o1 n)
    with confirmShipment_effect[OF clean] show ?thesis by simp
  next
    case (outOfStock o1 r skus)
    with compensateOrder_effect[OF clean] show ?thesis by simp
  next
    case (unpaid o1 n r)
    with compensateOrder_effect[OF clean] show ?thesis by simp
  next
    case (release o1 n r)
    with releaseStock_total[OF roomy] show ?thesis by simp
  qed
  then show ?thesis using deliver[of i s ev inbox subscribed c True onMessage, OF i m(2)] m(3) by blast
qed

lemma reaches_facts:
  assumes "reaches True stock s" and "counted stock"
  shows "stocked stock s \<and> consistent s \<and> allKnown s \<and> plainIds s"
proof -
  from assms(1) have "plainIds s \<and> reaches True stock s" unfolding reaches_def
  proof (induction rule: rtranclp_induct)
    case base
    show ?case by (simp add: plainIds_def opened_def)
  next
    case (step s s')
    then have "reaches True stock s" by (simp add: reaches_def)
    from reaches_known[OF this assms(2)] step show ?case using saga_step_plainIds by (metis rtranclp.rtrancl_into_rtrancl)
  qed
  with reaches_ok[OF assms] reaches_known[OF assms] show ?thesis by blast
qed

lemma deliveries_reach: "(delivery True)\<^sup>*\<^sup>* s s' \<Longrightarrow> reaches True stock s \<Longrightarrow> reaches True stock s'"
  unfolding reaches_def by (induction rule: rtranclp_induct) (auto intro: relay rtranclp.rtrancl_into_rtrancl)

lemma delivery_rows:
  assumes "delivery True s s'" and "reaches True stock s" and "counted stock"
    and "orders s' oid = Some row'"
  shows "\<exists>row. orders s oid = Some row \<and> or_items row = or_items row'"
proof -
  note ok = reaches_facts[OF assms(2,3)]
  from delivery_refines[OF assms(1)] ok obtain o1 st where st: "represents s o1 st"
    and same: "\<forall>o'. o' \<noteq> o1 \<longrightarrow> sameFor o' s s'" unfolding allKnown_def by blast
  have "orders s oid \<noteq> None" using st same assms(4) by (cases "oid = o1") (auto simp: represents_def sameFor_def)
  moreover have "grows s s'"
    using saga_step_advances[OF relay[OF assms(1)]] ok by (auto simp: advances_def)
  ultimately show ?thesis using assms(4) unfolding grows_def sameOrder_def by fastforce
qed

definition allServable :: "shop \<Rightarrow> bool" where
  "allServable s \<longleftrightarrow> (\<forall>oid row. orders s oid = Some row \<longrightarrow> servable row)"

lemma deliveries_servable:
  assumes "(delivery True)\<^sup>*\<^sup>* s s'" and "reaches True stock s" and "counted stock" and "allServable s"
  shows "allServable s'"
  using assms(1)
proof (induction rule: rtranclp_induct)
  case (step s1 s2)
  from delivery_rows[OF step(2) deliveries_reach[OF step(1) assms(2)] assms(3)] step(3) show ?case
    unfolding allServable_def servable_def by metis
qed (rule assms(4))

lemma undrained_delivers:
  assumes "reaches True stock s" and "stockable stock" and "allServable s" and "\<not> drained s"
  shows "\<exists>s'. delivery True s s'"
proof -
  have counted: "counted stock" using assms(2) by (auto simp: stockable_def counted_def)
  note ok = reaches_facts[OF assms(1) counted]
  from assms(4) obtain ev inbox c where m: "(ev, inbox) \<in> set (messages s)" "subscribed c ev" "c \<notin> set inbox"
    unfolding drained_iff by auto
  then have here: "(ev, inbox) \<in> set (trail s (eventOrder ev))" by (simp add: trail_def)
  from ok have "unknown s (eventOrder ev) \<or> (\<exists>st. represents s (eventOrder ev) st)" by (simp add: allKnown_def)
  with here obtain st where st: "represents s (eventOrder ev) st" by (auto simp: unknown_def)
  then obtain row where "follows row st (trail s (eventOrder ev))" by (auto simp: represents_def)
  from follows_pending[OF this, of c, THEN iffD1, OF bexI[OF _ here]] m have "awaits st c" by simp
  from waiting_served[OF st this _ assms(2)] ok assms(3) show ?thesis unfolding allServable_def by blast
qed

section \<open>Properties\<close>

text \<open>
  C17. The saga refines its machine. With an inbox that is never lost, every order of a reachable
  state is unknown or in one state of the machine, its row, messages, reservations and payment
  all agreeing, and a step of the application starts one order or moves one by a transition of
  the machine, and changes no other.
\<close>

theorem saga_refines_machine:
  assumes "reaches True stock s" and "counted stock" and "saga_step True s s'"
  shows "allKnown s \<and> machineStep s s'"
  using reaches_known[OF assms(1,2)] saga_step_refines[OF assms(3)] by blast

lemma served_prefix:
  "\<exists>s. replay True (take 2 served) (opened widgets) = Some s \<and> (\<exists>s'. perform True (Deliver 1 ChargePayment 2) s = Some s')"
proof -
  have "map_option (\<lambda>s. map_option (\<lambda>s'. ()) (perform True (Deliver 1 ChargePayment 2) s)) (replay True (take 2 served) (opened widgets)) =
      Some (Some ())" by code_simp
  then show ?thesis by auto
qed

lemma saga_refines_machine_witness:
  "\<exists>s s'. replay True (take 2 served) (opened widgets) = Some s \<and> perform True (Deliver 1 ChargePayment 2) s = Some s' \<and>
     allKnown s \<and> machineStep s s'"
proof -
  from served_prefix obtain s s' where s: "replay True (take 2 served) (opened widgets) = Some s"
    "perform True (Deliver 1 ChargePayment 2) s = Some s'" by blast
  from saga_refines_machine[OF replay_reaches[OF s(1)] widgets_counted perform_step[OF s(2)]] s show ?thesis by blast
qed

text \<open>
  Where the saga ends. When nothing is left to deliver, every order is confirmed, with one
  charged payment of its sum and stock reserved for every line, or failed, with no charged
  payment and no stock reserved, by a reservation that was refused or a payment that was.
\<close>

theorem drained_orders_settled:
  assumes "reaches True stock s" and "counted stock" and "drained s" and "orders s oid = Some row"
  shows "(or_status row = Confirmed \<and>
      (\<exists>p. payments s oid = Some p \<and> pr_status p = Charged \<and> pr_amountCents p = totalOf (or_items row)) \<and>
      rowsFor s oid = map (reservationOf oid) (or_items row)) \<or>
    (or_status row = Failed \<and> or_failureReason row \<noteq> None \<and>
      (case payments s oid of None \<Rightarrow> True | Some p \<Rightarrow> pr_status p = PaymentFailed) \<and>
      filter (\<lambda>r. rr_status r = Reserved) (rowsFor s oid) = [])"
proof -
  note ok = reaches_facts[OF assms(1,2)]
  have "\<not> unknown s oid" using assms(4) by (simp add: unknown_def)
  with ok obtain st where st: "represents s oid st" unfolding allKnown_def by blast
  have row: "or_status row = statusOf st" "rowsFor s oid = reservedIn st oid (or_items row)"
    "paidIn st (or_totalAmountCents row) (payments s oid)"
    using st assms(4) by (auto simp: represents_def)
  have sum: "or_totalAmountCents row = totalOf (or_items row)" and why: "or_failureReason row \<noteq> None \<longleftrightarrow> or_status row = Failed"
    using consistentD(2)[OF _ assms(4)] ok by (auto simp: rowOk_def)
  show ?thesis
  proof (cases st)
    case (Declined b1 b2)
    with drained_settled[OF assms(3) st] have "st = Declined True True" by simp
    with row why show ?thesis by (auto simp: filter_empty_conv)
  next
    case (OutOfStock b)
    with drained_settled[OF assms(3) st] have "st = OutOfStock True" by simp
    with row why show ?thesis by simp
  next
    case Shipped
    with row sum show ?thesis by auto
  qed (use drained_settled[OF assms(3) st] in simp_all)
qed

lemma drained_orders_settled_witness:
  "\<exists>s row. replay True [orderOf 6 300, Deliver 0 ReserveStock 1, Deliver 1 OrdersCompensation 2] (opened widgets) = Some s \<and>
     orders s ''ord-1'' = Some row \<and> or_status row = Failed \<and> or_failureReason row \<noteq> None \<and>
     (case payments s ''ord-1'' of None \<Rightarrow> True | Some p \<Rightarrow> pr_status p = PaymentFailed) \<and>
     filter (\<lambda>r. rr_status r = Reserved) (rowsFor s ''ord-1'') = []"
proof -
  let ?run = "[orderOf 6 300, Deliver 0 ReserveStock 1, Deliver 1 OrdersCompensation 2]"
  have "map_option (\<lambda>s. (drained s, map_option or_status (orders s ''ord-1''))) (replay True ?run (opened widgets)) =
      Some (True, Some Failed)" by code_simp
  then obtain s row where s: "replay True ?run (opened widgets) = Some s" "drained s" "orders s ''ord-1'' = Some row"
    "or_status row = Failed" by auto
  with drained_orders_settled[OF replay_reaches[OF s(1)] widgets_counted s(2,3)] show ?thesis by auto
qed

text \<open>
  C18. The relay brings the saga there. From a reachable state whose orders have one line per
  product and quantities the columns can hold, at most \<open>load s\<close> deliveries are possible one
  after another, in any order; and as long as something is to be delivered, some handler
  returns.
\<close>

theorem deliveries_settle:
  assumes "reaches True stock s" and "stockable stock" and "allServable s"
  shows "(\<forall>n s'. (delivery True ^^ n) s s' \<longrightarrow> n \<le> load s) \<and>
    (\<forall>s'. (delivery True)\<^sup>*\<^sup>* s s' \<longrightarrow> drained s' \<or> (\<exists>s''. delivery True s' s''))"
proof
  have counted: "counted stock" using assms(2) by (auto simp: stockable_def counted_def)
  have bound: "n + load s' \<le> load s \<and> reaches True stock s'" if "(delivery True ^^ n) s s'" for n s'
    using that
  proof (induction n arbitrary: s')
    case 0
    then show ?case using assms(1) by simp
  next
    case (Suc n)
    then obtain s1 where s1: "(delivery True ^^ n) s s1" "delivery True s1 s'" by auto
    from Suc.IH[OF s1(1)] have n: "n + load s1 \<le> load s" "reaches True stock s1" by auto
    from delivery_load[OF s1(2)] reaches_known[OF n(2) counted] have "load s' < load s1" by blast
    with n(1) deliveries_reach[OF r_into_rtranclp[of "delivery True", OF s1(2)] n(2)] show ?case by simp
  qed
  then show "\<forall>n s'. (delivery True ^^ n) s s' \<longrightarrow> n \<le> load s" by fastforce
  show "\<forall>s'. (delivery True)\<^sup>*\<^sup>* s s' \<longrightarrow> drained s' \<or> (\<exists>s''. delivery True s' s'')"
  proof (intro allI impI)
    fix s' assume run: "(delivery True)\<^sup>*\<^sup>* s s'"
    from undrained_delivers[OF deliveries_reach[OF run assms(1)] assms(2) deliveries_servable[OF run assms(1) counted assms(3)]]
    show "drained s' \<or> (\<exists>s''. delivery True s' s'')" by blast
  qed
qed

lemma deliveries_settle_witness:
  "\<exists>s. replay True [orderOf 2 300] (opened widgets) = Some s \<and> load s = 4 \<and> \<not> drained s \<and> (\<exists>s'. delivery True s s')"
proof -
  have "map_option (\<lambda>s. (load s, drained s, map_option or_items (orders s ''ord-1''), fst (hd (messages s)))) (replay True [orderOf 2 300] (opened widgets)) =
      Some (4, False, Some [\<lparr>i_sku = ''w'', i_quantity = 2, i_unitPriceCents = 300\<rparr>],
        OrderPlacedEvent ''ord-1'' ''ann'' [\<lparr>i_sku = ''w'', i_quantity = 2, i_unitPriceCents = 300\<rparr>] 600)" by code_simp
  then obtain s where s: "replay True [orderOf 2 300] (opened widgets) = Some s" "load s = 4" "\<not> drained s" by auto
  have st: "stockable widgets" by (simp add: stockable_def widgets_def int4_def)
  have "servable row" if "orders s oid = Some row" for oid row
    using that s(1) by (auto simp: orderOf_def postOrder_def placeOrder_def transactional_def andThen_def insertOrder_def
        statement_def Let_def commit_emits publishMessage_run servable_def int4_def opened_def
        split: if_splits option.splits outcome.splits)
  then have "allServable s" by (simp add: allServable_def)
  from deliveries_settle[OF replay_reaches[OF s(1)] st this] s show ?thesis by blast
qed

end
