(* ===== verification/Saga_Transactions.thy ===== *)
theory Saga_Transactions
  imports Saga_Safety Commit_Contract Settlement Decorators
begin

text \<open>
  What \<open>transactional\<close> of the example applications stands for: a method decorated with \<open>@Transactional()\<close>
  and wrapped by the bootstrap, which the manager runs in a transaction of an adapter. The
  adapter commits what its callback wrote the way the database does, and leaves nothing of a
  transaction that rejects.
\<close>

section \<open>Code on the database\<close>

text \<open>Code that only works on the database.\<close>

definition onDb :: "('d, 'a) comp \<Rightarrow> (('u, 'd, 'z) world, 'a) comp" where
  "onDb f w = (case f (db w) of None \<Rightarrow> None | Some (r, d) \<Rightarrow> Some (r, w\<lparr>db := d\<rparr>))"

definition bare :: "nat \<Rightarrow> ('u, 'd, 'z) world \<Rightarrow> bool" where
  "bare cell w \<longleftrightarrow> (\<forall>t. cells w cell = Some t \<longrightarrow>
     beforeCommitHooks (txs w t) = [] \<and> afterCommitHooks (txs w t) = [] \<and> afterRollbackHooks (txs w t) = [])"

lemma bare_quiet: "quiet w w' \<Longrightarrow> bare cell w' = bare cell w"
  by (auto simp: bare_def quiet_def)

lemma empty_loops:
  "sel (txs w t) = [] \<Longrightarrow> runHooks env sel t arg 0 w = Some w"
  "beforeCommitHooks (txs w t) = [] \<Longrightarrow> runBeforeCommit env t 0 w = Some (Resolve (), w)"
  by (subst runHooks.simps; simp) (subst runBeforeCommit.simps; simp)

context committing_adapter
begin

lemma txCallback_onDb:
  assumes "observers env = []" and "als w = Some s" and roll: "\<And>e. shouldRollback e options"
    and run: "txCallback env a i options corr cell (onDb f) h w = Some (r, w')"
  shows "bare cell w' \<and> (\<exists>r1 d. f (db w) = Some (r1, d) \<and> db w' = d \<and>
    r = (case r1 of Resolve v \<Rightarrow> Resolve (IOk v) | Reject e \<Rightarrow> Reject e))"
proof -
  define w2 where "w2 = updateStore s (AList.update (contextKey a i) (fresh w)) (w\<lparr>fresh := Suc (fresh w),
      txs := (txs w)(fresh w := newActiveTx h a i options (now w) corr), cells := (cells w)(cell \<mapsto> fresh w)\<rparr>)"
  have w2: "db w2 = db w" "cells w2 cell = Some (fresh w)" "txs w2 (fresh w) = newActiveTx h a i options (now w) corr"
    by (simp_all add: w2_def updateStore_def)
  from run assms(1,2) have fin: "finallyDo (guardedBody env (fresh w) options (onDb f))
      (modify (removeActiveTransaction (contextKey a i))) w2 = Some (r, w')"
    unfolding txCallback_def Let_def w2_def by (simp add: setActiveTransaction_inside notifyStart_def)
  then obtain w4 where body: "guardedBody env (fresh w) options (onDb f) w2 = Some (r, w4)"
    and w': "w' = removeActiveTransaction (contextKey a i) w4" by (auto simp: finallyDo_Some)
  from body obtain r1 d where f: "f (db w) = Some (r1, d)"
    by (cases "f (db w)") (auto simp: guardedBody_def catching_def andThen_def onDb_def w2(1) split: option.splits)
  have "runBeforeCommit env (fresh w) 0 (w2\<lparr>db := d\<rparr>) = Some (Resolve (), w2\<lparr>db := d\<rparr>)"
    by (rule empty_loops) (simp add: w2 newActiveTx_def)
  with body f have w4: "w4 = w2\<lparr>db := d\<rparr>" "r = (case r1 of Resolve v \<Rightarrow> Resolve (IOk v) | Reject e \<Rightarrow> Reject e)"
    by (cases r1; simp add: guardedBody_def catching_def andThen_def onDb_def w2(1) roll)+
  have "cells w' cell = Some (fresh w)" "txs w' = txs w2" "db w' = d"
    by (simp_all add: w' w4 w2 removeActiveTransaction_def updateStore_def split: option.split)
  with f w4(2) w2 show ?thesis by (simp add: bare_def newActiveTx_def)
qed

lemma startBody_onDb:
  assumes env: "observers env = []" and als: "als w = Some s" and cell: "cells w cell = None"
    and roll: "\<And>e. shouldRollback e options"
    and run: "startBody env ad a i options corr start cell (onDb f) w = Some (r, w')"
  shows "case r of Resolve v \<Rightarrow> (\<exists>d. f (db w) = Some (Resolve v, d) \<and> db w' = seal (db w) d) | Reject e \<Rightarrow> db w' = db w"
proof -
  let ?cb = "txCallback env a i options corr cell (onDb f)"
  obtain r1 w1 where call: "a_runInTransaction ad options ?cb w = Some (r1, w1)"
    and rest: "(case r1 of Reject e \<Rightarrow> afterAdapterRejected env a i options corr start cell e w1
        | Resolve x \<Rightarrow> afterAdapterResolved env a i options corr start cell x w1) = Some (r, w')"
    using run unfolding startBody_def by (auto split: option.splits prod.splits outcome.splits)
  have cb: "bare cell w3 \<and> (\<exists>r4 d. f (db w2) = Some (r4, d) \<and> db w3 = d \<and>
      r2 = (case r4 of Resolve v \<Rightarrow> Resolve (IOk v) | Reject e \<Rightarrow> Reject e))"
    if "quiet w w2" "?cb h w2 = Some (r2, w3)" for h w2 r2 w3
    by (rule txCallback_onDb[OF env _ roll that(2)]) (use als quiet_fields(1)[OF that(1)] in simp)
  have "bare cell w1"
    using in_transaction[OF call] unfolding wraps_def
  proof (elim disjE exE conjE)
    fix e assume "quiet w w1"
    then show ?thesis using cell by (simp add: bare_quiet) (simp add: bare_def)
  next
    fix h w2 r2 w3 assume "quiet w w2" "?cb h w2 = Some (r2, w3)" "quiet w3 w1"
    then show ?thesis using cb by (simp add: bare_quiet)
  qed
  then have loops: "runHooks env afterRollbackHooks t e 0 w1 = Some w1" "runHooks env afterCommitHooks t e 0 w1 = Some w1"
    if "cells w1 cell = Some t" for t e
    using that by (auto simp: bare_def intro: empty_loops)
  show ?thesis
  proof (cases r1)
    case (Reject e)
    then have "r = Reject e \<and> db w' = db w1"
      using rest loops by (auto simp: afterAdapterRejected_def notifyRollback_def env markRolledBack_def split: option.splits)
    with rejected_undone call Reject show ?thesis by auto
  next
    case (Resolve x)
    with call resolved_sealed obtain h w2 w3 where "quiet w w2" "db w2 = db w" "?cb h w2 = Some (Resolve x, w3)"
      "db w1 = seal (db w) (db w3)" by blast
    with cb[of w2 h "Resolve x" w3] obtain r4 d where r4: "f (db w) = Some (r4, d)" "db w1 = seal (db w) d"
      "Resolve x = (case r4 of Resolve v \<Rightarrow> Resolve (IOk v) | Reject e \<Rightarrow> Reject e)" by auto
    then obtain v where x: "x = IOk v" "f (db w) = Some (Resolve v, d)" "db w1 = seal (db w) d" by (cases r4) auto
    moreover have "r = Resolve v \<and> w' = w1"
      using rest loops Resolve x(1) by (auto simp: afterAdapterResolved_def notifyCommit_def env split: option.splits)
    ultimately show ?thesis by simp
  qed
qed

lemma startNew_onDb:
  assumes env: "observers env = []" and out: "als w = None" and roll: "\<And>e. shouldRollback e options"
    and run: "startNew env ad a i options (onDb f) w = Some (r, w')"
  shows "case r of Resolve v \<Rightarrow> (\<exists>d. f (db w) = Some (Resolve v, d) \<and> db w' = seal (db w) d) | Reject e \<Rightarrow> db w' = db w"
proof -
  define w1 where "w1 = w\<lparr>cells := (cells w)(Suc (fresh w) := None),
      als := Some (Suc (Suc (fresh w))),
      stores := (stores w)(Suc (Suc (fresh w)) := newStore (fresh w) (now w)),
      fresh := Suc (Suc (Suc (fresh w)))\<rparr>"
  from run out obtain w2
    where w2: "startBody env ad a i options (fresh w) (now w) (Suc (fresh w)) (onDb f) w1 = Some (r, w2)"
      and w': "w' = w2\<lparr>als := None\<rparr>"
    unfolding startNew_def contextRun_def w1_def
    by (auto simp: Let_def getStore_def split: option.splits prod.splits)
  have "als w1 = Some (Suc (Suc (fresh w)))" "cells w1 (Suc (fresh w)) = None" "db w1 = db w" by (simp_all add: w1_def)
  with startBody_onDb[OF env this(1,2) roll w2] show ?thesis unfolding w' by (cases r) simp_all
qed

end

section \<open>PostgreSQL\<close>

text \<open>A transaction that was aborted commits as a rollback.\<close>

definition commitPg :: "'z pg_scheme \<Rightarrow> 'z pg_scheme \<Rightarrow> 'z pg_scheme" where
  "commitPg d0 d = (if aborted d then d0 else d)"

section \<open>The property\<close>

text \<open>
  C25. A \<open>@Transactional()\<close> method is a transaction of the database. A method of a service that
  works on the tables, decorated and wrapped, called outside any transaction, runs through
  \<open>run\<close> exactly as \<open>transactional\<close> says: when the call resolves, the tables are those that
  \<open>transactional\<close> gives, with the same value; when it rejects, whatever rejected, the method or
  the commit, they are as before.
\<close>

theorem decorated_methods_transactional:
  assumes "\<And>k. committing_adapter (adapterOf env k) commitPg" and "observers env = []" and "als w = None"
    and "resolveAdapterIdentifiers (Transactional no_options) (registry w) = Inr (a, i)"
    and "callMethod env (\<lambda>m. onDb (methods m)) (RunIn (Transactional no_options) (Source m)) w = Some (r, w')"
  shows "case r of
      Resolve v \<Rightarrow> transactional (methods m) (db w) = Some (Resolve v, db w')
    | Reject e \<Rightarrow> db w' = db w"
proof -
  let ?options = "Transactional no_options"
  have opts: "opensTransaction ?options" "o_retry ?options = None" "\<And>e. shouldRollback e ?options"
    by (simp_all add: Transactional_def no_options_def opensTransaction_def shouldRollback_def)
  have run: "run env ?options (onDb (methods m)) w = Some (r, w')" using assms(5) by simp
  show ?thesis
  proof (cases "registryGet a i (registry w)")
    case (Inl e)
    then have "raise e w = Some (r, w')"
      using run assms(3,4) opts(1)
      by (auto simp: run_def Let_def withAdapter_def opensTransaction_def getActiveTransaction_outside)
    then show ?thesis by (auto simp: raise_settles)
  next
    case (Inr k)
    have "startNew env (adapterOf env k) a i ?options (onDb (methods m)) w = Some (r, w')"
      using run run_outermost[OF assms(3,4) Inr opts(1,2)] by metis
    from committing_adapter.startNew_onDb[OF assms(1) assms(2,3) opts(3) this] show ?thesis
      by (auto simp: transactional_def commitPg_def split: outcome.splits)
  qed
qed

text \<open>A TypeORM application on PostgreSQL, whose one method charges an order.\<close>

definition shopEnv :: "(unit, shop, unit) env" where
  "shopEnv =
     \<lparr>adapterOf = (\<lambda>k. TypeOrmTransactionAdapter (sealingLib commitPg ''postgres'') 0 (\<lambda>w. 0) ''default''),
      callHook = (\<lambda>h arg. ret Undef), awaitAll = (\<lambda>ps. ret Undef), observers = [], random = (\<lambda>w. 0)\<rparr>"

definition shopWorld :: "(unit, shop, unit) world" where
  "shopWorld =
     \<lparr>als = None, stores = (\<lambda>_. newStore 0 0),
      txs = (\<lambda>_. newActiveTx \<lparr>h_id = 0, h_adapterName = ''typeorm'', h_native = Undef\<rparr> [] [] no_options 0 0), fresh = 0, now = 0,
      registry = register \<lparr>reg_adapterName = ''typeorm'', reg_instanceName = ''default'', reg_adapter = 0\<rparr> True newRegistry,
      rolledBack = {}, pending = (\<lambda>_. None), cells = (\<lambda>_. None), db = opened widgets\<rparr>"

lemma shopEnv_commits: "committing_adapter (adapterOf shopEnv k) commitPg"
  unfolding shopEnv_def using sealing.committing.committing_adapter_axioms by simp

definition charging :: "nat \<Rightarrow> (shop, jsv) comp" where
  "charging m = andThen (chargePayment 1 ''ord-1'' 600) (\<lambda>_. ret (JBool True))"

lemma decorated_methods_transactional_witness:
  "\<exists>w'. callMethod shopEnv (\<lambda>m. onDb (charging m)) (RunIn (Transactional no_options) (Source 0)) shopWorld =
       Some (Resolve (JBool True), w') \<and>
     transactional (charging 0) (opened widgets) = Some (Resolve (JBool True), db w') \<and>
     map fst (messages (db w')) = [PaymentChargedEvent ''ord-1'' 600]"
proof -
  let ?call = "callMethod shopEnv (\<lambda>m. onDb (charging m)) (RunIn (Transactional no_options) (Source 0)) shopWorld"
  have "map_option (\<lambda>(r, w). (r, map fst (messages (db w)))) ?call = Some (Resolve (JBool True), [PaymentChargedEvent ''ord-1'' 600])"
    by code_simp
  then obtain w' where run: "?call = Some (Resolve (JBool True), w')" and ms: "map fst (messages (db w')) = [PaymentChargedEvent ''ord-1'' 600]"
    by auto
  have "resolveAdapterIdentifiers (Transactional no_options) (registry shopWorld) = Inr (''typeorm'', ''default'')" by code_simp
  moreover have "observers shopEnv = []" "als shopWorld = None" "db shopWorld = opened widgets"
    by (simp_all add: shopEnv_def shopWorld_def)
  ultimately show ?thesis
    using decorated_methods_transactional[OF shopEnv_commits, of shopWorld "''typeorm''" "''default''" charging 0 "Resolve (JBool True)" w']
      run ms by simp
qed

end
