(* ===== verification/Saga_Pattern.thy ===== *)
theory Saga_Pattern
  imports Outbox Outbox_Relay
begin

text \<open>
  \<open>examples/saga-pattern/src\<close>: a saga within one database. An order is accepted, a handler
  reserves stock, the next charges, the last ships, and two failure events compensate. Unlike
  in \<open>Order_Saga\<close> every handler is meant to be safe when its message comes again: the row it
  inserts, or the status it updates from, tells it that it ran before.
\<close>

section \<open>Events\<close>

datatype step_event =
    OrderPlaced_ev string string int int
  | InventoryReserved_ev string string int int
  | InventoryReservationFailed_ev string string string
  | PaymentCharged_ev string int
  | PaymentFailed_ev string string int string
  | OrderShipped_ev string

fun orderOf_ev :: "step_event \<Rightarrow> string" where
  "orderOf_ev (OrderPlaced_ev oid sku qty amount) = oid"
| "orderOf_ev (InventoryReserved_ev oid sku qty amount) = oid"
| "orderOf_ev (InventoryReservationFailed_ev oid sku reason) = oid"
| "orderOf_ev (PaymentCharged_ev oid amount) = oid"
| "orderOf_ev (PaymentFailed_ev oid sku qty reason) = oid"
| "orderOf_ev (OrderShipped_ev oid) = oid"

text \<open>The instances of the classes, none of which is \<open>@Externalized\<close>.\<close>

fun stepObject :: "nat \<Rightarrow> step_event \<Rightarrow> jsv" where
  "stepObject a (OrderPlaced_ev oid sku qty amount) =
     JObj a [''OrderPlacedEvent'']
       [(''orderId'', JStr oid), (''sku'', JStr sku), (''quantity'', JNum (JInt qty)), (''amount'', JNum (JInt amount))]"
| "stepObject a (InventoryReserved_ev oid sku qty amount) =
     JObj a [''InventoryReservedEvent'']
       [(''orderId'', JStr oid), (''sku'', JStr sku), (''quantity'', JNum (JInt qty)), (''amount'', JNum (JInt amount))]"
| "stepObject a (InventoryReservationFailed_ev oid sku reason) =
     JObj a [''InventoryReservationFailedEvent'']
       [(''orderId'', JStr oid), (''sku'', JStr sku), (''reason'', JStr reason)]"
| "stepObject a (PaymentCharged_ev oid amount) =
     JObj a [''PaymentChargedEvent''] [(''orderId'', JStr oid), (''amount'', JNum (JInt amount))]"
| "stepObject a (PaymentFailed_ev oid sku qty reason) =
     JObj a [''PaymentFailedEvent'']
       [(''orderId'', JStr oid), (''sku'', JStr sku), (''quantity'', JNum (JInt qty)), (''reason'', JStr reason)]"
| "stepObject a (OrderShipped_ev oid) = JObj a [''OrderShippedEvent''] [(''orderId'', JStr oid)]"

section \<open>Tables\<close>

record saga_order =
  so_id :: string
  so_sku :: string
  so_quantity :: int
  so_amount :: int
  so_status :: string

record saga_reservation =
  sr_orderId :: string
  sr_sku :: string
  sr_quantity :: int

record saga_payment =
  sp_orderId :: string
  sp_amount :: int
  sp_status :: string

datatype saga_consumer = Reservation | Payment | Shipment | Compensation

record saga_db = "(step_event, saga_consumer) outbox_db" +
  sagaOrders :: "string \<Rightarrow> saga_order option"
  sagaReservations :: "string \<Rightarrow> saga_reservation option"
  sagaPayments :: "string \<Rightarrow> saga_payment option"
  stockItems :: "string \<Rightarrow> int option"

section \<open>Statements\<close>

definition insertSagaOrder :: "saga_order \<Rightarrow> (saga_db, unit) comp" where
  "insertSagaOrder row = statement (\<lambda>s.
     if \<not> int4 (so_quantity row) \<or> \<not> int4 (so_amount row) then Inl outOfRange
     else if sagaOrders s (so_id row) \<noteq> None then Inl uniqueViolation
     else Inr ((), s\<lparr>sagaOrders := (sagaOrders s)(so_id row \<mapsto> row)\<rparr>))"

definition insertSagaReservation :: "saga_reservation \<Rightarrow> (saga_db, unit) comp" where
  "insertSagaReservation row = statement (\<lambda>s.
     if \<not> int4 (sr_quantity row) then Inl outOfRange
     else if sagaReservations s (sr_orderId row) \<noteq> None then Inl uniqueViolation
     else Inr ((), s\<lparr>sagaReservations := (sagaReservations s)(sr_orderId row \<mapsto> row)\<rparr>))"

definition insertSagaPayment :: "saga_payment \<Rightarrow> (saga_db, unit) comp" where
  "insertSagaPayment row = statement (\<lambda>s.
     if \<not> int4 (sp_amount row) then Inl outOfRange
     else if sagaPayments s (sp_orderId row) \<noteq> None then Inl uniqueViolation
     else Inr ((), s\<lparr>sagaPayments := (sagaPayments s)(sp_orderId row \<mapsto> row)\<rparr>))"

text \<open>\<open>update(orderId, { status })\<close>, and \<open>update({ id, status: 'reserved' }, { status })\<close>.\<close>

definition setStatus :: "string \<Rightarrow> string \<Rightarrow> (saga_db, nat) comp" where
  "setStatus oid status = statement (\<lambda>s.
     case sagaOrders s oid of
       None \<Rightarrow> Inr (0, s)
     | Some row \<Rightarrow> Inr (1, s\<lparr>sagaOrders := (sagaOrders s)(oid \<mapsto> row\<lparr>so_status := status\<rparr>)\<rparr>))"

definition updateReserved :: "string \<Rightarrow> string \<Rightarrow> (saga_db, nat) comp" where
  "updateReserved oid status = statement (\<lambda>s.
     case sagaOrders s oid of
       None \<Rightarrow> Inr (0, s)
     | Some row \<Rightarrow>
         if so_status row = ''reserved''
         then Inr (1, s\<lparr>sagaOrders := (sagaOrders s)(oid \<mapsto> row\<lparr>so_status := status\<rparr>)\<rparr>)
         else Inr (0, s))"

definition decrementStock :: "string \<Rightarrow> int \<Rightarrow> (saga_db, nat) comp" where
  "decrementStock sku qty = statement (\<lambda>s.
     if \<not> int4 qty then Inl outOfRange
     else (case stockItems s sku of
             None \<Rightarrow> Inr (0, s)
           | Some available \<Rightarrow>
               if available \<ge> qty
               then if int4 (available - qty) then Inr (1, s\<lparr>stockItems := (stockItems s)(sku \<mapsto> available - qty)\<rparr>)
                    else Inl outOfRange
               else Inr (0, s)))"

definition incrementStock :: "string \<Rightarrow> int \<Rightarrow> (saga_db, nat) comp" where
  "incrementStock sku qty = statement (\<lambda>s.
     case stockItems s sku of
       None \<Rightarrow> Inr (0, s)
     | Some available \<Rightarrow>
         if int4 (available + qty) then Inr (1, s\<lparr>stockItems := (stockItems s)(sku \<mapsto> available + qty)\<rparr>)
         else Inl outOfRange)"

section \<open>The steps\<close>



definition placeSagaOrder :: "string \<Rightarrow> string \<Rightarrow> int \<Rightarrow> int \<Rightarrow> (saga_db, unit) comp" where
  "placeSagaOrder oid sku qty amount = transactional
     (andThen (insertSagaOrder \<lparr>so_id = oid, so_sku = sku, so_quantity = qty, so_amount = amount, so_status = ''placed''\<rparr>)
        (\<lambda>_. publishMessage (OrderPlaced_ev oid sku qty amount)))"

definition reservationHandler :: "string \<Rightarrow> string \<Rightarrow> int \<Rightarrow> int \<Rightarrow> (saga_db, unit) comp" where
  "reservationHandler oid sku qty amount = transactional
     (andThen (inserted (insertSagaReservation \<lparr>sr_orderId = oid, sr_sku = sku, sr_quantity = qty\<rparr>)) (\<lambda>new.
        if \<not> new then ret ()
        else andThen (decrementStock sku qty) (\<lambda>affected.
          if affected = 0
          then andThen (setStatus oid ''failed-reservation'')
                 (\<lambda>_. publishMessage (InventoryReservationFailed_ev oid sku ''out-of-stock''))
          else andThen (setStatus oid ''reserved'')
                 (\<lambda>_. publishMessage (InventoryReserved_ev oid sku qty amount)))))"

definition UNAUTHORISED_AMOUNT :: int where
  "UNAUTHORISED_AMOUNT = 10000"

definition paymentHandler :: "string \<Rightarrow> string \<Rightarrow> int \<Rightarrow> int \<Rightarrow> (saga_db, unit) comp" where
  "paymentHandler oid sku qty amount = transactional
     (let willFail = amount \<ge> UNAUTHORISED_AMOUNT;
          status = (if willFail then ''failed'' else ''charged'')
      in andThen (inserted (insertSagaPayment \<lparr>sp_orderId = oid, sp_amount = amount, sp_status = status\<rparr>)) (\<lambda>new.
           if \<not> new then ret ()
           else if willFail then publishMessage (PaymentFailed_ev oid sku qty ''authorisation-declined'')
           else publishMessage (PaymentCharged_ev oid amount)))"

definition shipmentHandler :: "string \<Rightarrow> (saga_db, unit) comp" where
  "shipmentHandler oid = transactional
     (andThen (updateReserved oid ''shipped'') (\<lambda>affected.
        if affected = 0 then ret () else publishMessage (OrderShipped_ev oid)))"

definition onReservationFailed :: "string \<Rightarrow> (saga_db, unit) comp" where
  "onReservationFailed oid = ret ()"

definition onPaymentFailed :: "string \<Rightarrow> string \<Rightarrow> int \<Rightarrow> (saga_db, unit) comp" where
  "onPaymentFailed oid sku qty = transactional
     (andThen (updateReserved oid ''failed-payment'') (\<lambda>affected.
        if affected = 0 then ret () else andThen (incrementStock sku qty) (\<lambda>_. ret ())))"

section \<open>Delivery\<close>

fun stepTopics :: "saga_consumer \<Rightarrow> string list" where
  "stepTopics Reservation = [''OrderPlacedEvent'']"
| "stepTopics Payment = [''InventoryReservedEvent'']"
| "stepTopics Shipment = [''PaymentChargedEvent'']"
| "stepTopics Compensation = [''InventoryReservationFailedEvent'', ''PaymentFailedEvent'']"

definition stepSubscribed :: "saga_consumer \<Rightarrow> step_event \<Rightarrow> bool" where
  "stepSubscribed c ev \<longleftrightarrow> topic (toMessage noExternalized (stepObject 0 ev)) \<in> set (stepTopics c)"

fun handleStep :: "saga_consumer \<Rightarrow> nat \<Rightarrow> step_event \<Rightarrow> (saga_db, unit) comp" where
  "handleStep Reservation date (OrderPlaced_ev oid sku qty amount) = reservationHandler oid sku qty amount"
| "handleStep Payment date (InventoryReserved_ev oid sku qty amount) = paymentHandler oid sku qty amount"
| "handleStep Shipment date (PaymentCharged_ev oid amount) = shipmentHandler oid"
| "handleStep Compensation date (InventoryReservationFailed_ev oid sku reason) = onReservationFailed oid"
| "handleStep Compensation date (PaymentFailed_ev oid sku qty reason) = onPaymentFailed oid sku qty"
| "handleStep c date ev = (\<lambda>s. None)"

definition placesOrder :: "saga_db \<Rightarrow> saga_db \<Rightarrow> bool" where
  "placesOrder s s' \<longleftrightarrow> (\<exists>oid sku qty amount. placeSagaOrder oid sku qty amount s = Some (Resolve (), s'))"

definition sagaOpened :: "(string \<Rightarrow> int option) \<Rightarrow> saga_db" where
  "sagaOpened stock =
     \<lparr>aborted = False, messages = [], sagaOrders = Map.empty, sagaReservations = Map.empty,
      sagaPayments = Map.empty, stockItems = stock\<rparr>"

definition sagaReaches :: "bool \<Rightarrow> (string \<Rightarrow> int option) \<Rightarrow> saga_db \<Rightarrow> bool" where
  "sagaReaches once stock s \<longleftrightarrow>
     (app_step placesOrder stepSubscribed handleStep once)\<^sup>*\<^sup>* (sagaOpened stock) s"

end
