(* ===== verification/Saga_Machine.thy ===== *)
theory Saga_Machine
  imports Saga_Pattern
begin

text \<open>
  What the saga of \<open>Saga_Pattern\<close> implements: a machine that walks each order through its stages
  and moves stock between a shelf and the orders. The handlers refine it however often their
  messages come; they are idempotent consumers; and the machine conserves stock.
\<close>

section \<open>The machine\<close>

datatype saga_stage = AtPlaced | AtReserved | AtRefused | AtPaid | AtDeclined | AtShipped | AtReleased

text \<open>An order is a product, a quantity and an amount.\<close>

record saga_spec =
  book :: "string \<Rightarrow> ((string \<times> int \<times> int) \<times> saga_stage) option"
  shelf :: "string \<Rightarrow> int option"

definition enter :: "string \<Rightarrow> string \<times> int \<times> int \<Rightarrow> saga_stage \<Rightarrow> saga_spec \<Rightarrow> saga_spec" where
  "enter oid terms st p = p\<lparr>book := (book p)(oid \<mapsto> (terms, st))\<rparr>"

definition shelve :: "string \<Rightarrow> int \<Rightarrow> saga_spec \<Rightarrow> saga_spec" where
  "shelve sku qty p = p\<lparr>shelf := (shelf p)(sku := map_option (\<lambda>n. n + qty) (shelf p sku))\<rparr>"

inductive fulfils :: "saga_spec \<Rightarrow> saga_spec \<Rightarrow> bool" where
  accept: "book p oid = None \<Longrightarrow> fulfils p (enter oid terms AtPlaced p)"
| reserve: "book p oid = Some ((sku, qty, amount), AtPlaced) \<Longrightarrow> shelf p sku = Some n \<Longrightarrow> qty \<le> n \<Longrightarrow>
    fulfils p (shelve sku (- qty) (enter oid (sku, qty, amount) AtReserved p))"
| refuse: "book p oid = Some ((sku, qty, amount), AtPlaced) \<Longrightarrow> (\<And>n. shelf p sku = Some n \<Longrightarrow> n < qty) \<Longrightarrow>
    fulfils p (enter oid (sku, qty, amount) AtRefused p)"
| pay: "book p oid = Some ((sku, qty, amount), AtReserved) \<Longrightarrow> amount < UNAUTHORISED_AMOUNT \<Longrightarrow>
    fulfils p (enter oid (sku, qty, amount) AtPaid p)"
| decline: "book p oid = Some ((sku, qty, amount), AtReserved) \<Longrightarrow> UNAUTHORISED_AMOUNT \<le> amount \<Longrightarrow>
    fulfils p (enter oid (sku, qty, amount) AtDeclined p)"
| ship: "book p oid = Some (terms, AtPaid) \<Longrightarrow> fulfils p (enter oid terms AtShipped p)"
| release: "book p oid = Some ((sku, qty, amount), AtDeclined) \<Longrightarrow>
    fulfils p (shelve sku qty (enter oid (sku, qty, amount) AtReleased p))"

section \<open>Where an order stands\<close>

fun statusAt :: "saga_stage \<Rightarrow> string" where
  "statusAt AtPlaced = ''placed''"
| "statusAt AtReserved = ''reserved''"
| "statusAt AtRefused = ''failed-reservation''"
| "statusAt AtPaid = ''reserved''"
| "statusAt AtDeclined = ''reserved''"
| "statusAt AtShipped = ''shipped''"
| "statusAt AtReleased = ''failed-payment''"

definition stageOf :: "saga_order \<Rightarrow> saga_payment option \<Rightarrow> saga_stage" where
  "stageOf row payment =
     (if so_status row = ''placed'' then AtPlaced
      else if so_status row = ''failed-reservation'' then AtRefused
      else if so_status row = ''shipped'' then AtShipped
      else if so_status row = ''failed-payment'' then AtReleased
      else (case payment of None \<Rightarrow> AtReserved | Some p \<Rightarrow> if sp_status p = ''charged'' then AtPaid else AtDeclined))"

definition termsOf :: "saga_order \<Rightarrow> string \<times> int \<times> int" where
  "termsOf row = (so_sku row, so_quantity row, so_amount row)"

definition specOf :: "saga_db \<Rightarrow> saga_spec" where
  "specOf s =
     \<lparr>book = (\<lambda>oid. map_option (\<lambda>row. (termsOf row, stageOf row (sagaPayments s oid))) (sagaOrders s oid)),
      shelf = stockItems s\<rparr>"

section \<open>The tables of an order\<close>

fun traceOf :: "saga_stage \<Rightarrow> string \<Rightarrow> string \<times> int \<times> int \<Rightarrow> step_event list" where
  "traceOf AtPlaced oid (sku, qty, amount) = [OrderPlaced_ev oid sku qty amount]"
| "traceOf AtReserved oid (sku, qty, amount) = [OrderPlaced_ev oid sku qty amount, InventoryReserved_ev oid sku qty amount]"
| "traceOf AtRefused oid (sku, qty, amount) =
     [OrderPlaced_ev oid sku qty amount, InventoryReservationFailed_ev oid sku ''out-of-stock'']"
| "traceOf AtPaid oid (sku, qty, amount) =
     [OrderPlaced_ev oid sku qty amount, InventoryReserved_ev oid sku qty amount, PaymentCharged_ev oid amount]"
| "traceOf AtDeclined oid (sku, qty, amount) =
     [OrderPlaced_ev oid sku qty amount, InventoryReserved_ev oid sku qty amount,
      PaymentFailed_ev oid sku qty ''authorisation-declined'']"
| "traceOf AtShipped oid (sku, qty, amount) =
     [OrderPlaced_ev oid sku qty amount, InventoryReserved_ev oid sku qty amount, PaymentCharged_ev oid amount,
      OrderShipped_ev oid]"
| "traceOf AtReleased oid (sku, qty, amount) =
     [OrderPlaced_ev oid sku qty amount, InventoryReserved_ev oid sku qty amount,
      PaymentFailed_ev oid sku qty ''authorisation-declined'']"

definition paymentAt :: "saga_stage \<Rightarrow> saga_order \<Rightarrow> saga_payment option" where
  "paymentAt st row =
     (if st \<in> {AtPaid, AtShipped} then Some \<lparr>sp_orderId = so_id row, sp_amount = so_amount row, sp_status = ''charged''\<rparr>
      else if st \<in> {AtDeclined, AtReleased} then Some \<lparr>sp_orderId = so_id row, sp_amount = so_amount row, sp_status = ''failed''\<rparr>
      else None)"

definition reservationAt :: "saga_stage \<Rightarrow> saga_order \<Rightarrow> saga_reservation option" where
  "reservationAt st row =
     (if st = AtPlaced then None
      else Some \<lparr>sr_orderId = so_id row, sr_sku = so_sku row, sr_quantity = so_quantity row\<rparr>)"

definition authorised :: "saga_stage \<Rightarrow> int \<Rightarrow> bool" where
  "authorised st amount \<longleftrightarrow> (st \<in> {AtPaid, AtShipped} \<longrightarrow> amount < UNAUTHORISED_AMOUNT) \<and>
     (st \<in> {AtDeclined, AtReleased} \<longrightarrow> UNAUTHORISED_AMOUNT \<le> amount)"

definition aboutOrder :: "string \<Rightarrow> saga_db \<Rightarrow> step_event list" where
  "aboutOrder oid s = filter (\<lambda>ev. orderOf_ev ev = oid) (events s)"

definition atStage :: "saga_db \<Rightarrow> string \<Rightarrow> saga_order \<Rightarrow> saga_stage \<Rightarrow> bool" where
  "atStage s oid row st \<longleftrightarrow>
     sagaOrders s oid = Some row \<and> so_id row = oid \<and> so_status row = statusAt st \<and>
     int4 (so_quantity row) \<and> int4 (so_amount row) \<and>
     sagaReservations s oid = reservationAt st row \<and> sagaPayments s oid = paymentAt st row \<and>
     aboutOrder oid s = traceOf st oid (termsOf row) \<and> authorised st (so_amount row)"

definition unplaced :: "saga_db \<Rightarrow> string \<Rightarrow> bool" where
  "unplaced s oid \<longleftrightarrow> sagaOrders s oid = None \<and> sagaReservations s oid = None \<and> sagaPayments s oid = None \<and>
     aboutOrder oid s = []"

definition sagaSound :: "saga_db \<Rightarrow> bool" where
  "sagaSound s \<longleftrightarrow> \<not> aborted s \<and> (\<forall>oid. unplaced s oid \<or> (\<exists>row st. atStage s oid row st))"

section \<open>One step\<close>

lemma aboutOrder_emit [simp]:
  "aboutOrder oid (emit ev s) = aboutOrder oid s @ (if orderOf_ev ev = oid then [ev] else [])"
  by (simp add: aboutOrder_def)

lemma aboutOrder_tables [simp]:
  "aboutOrder oid (s\<lparr>sagaOrders := a\<rparr>) = aboutOrder oid s" "aboutOrder oid (s\<lparr>sagaReservations := b\<rparr>) = aboutOrder oid s"
  "aboutOrder oid (s\<lparr>sagaPayments := c\<rparr>) = aboutOrder oid s" "aboutOrder oid (s\<lparr>stockItems := d\<rparr>) = aboutOrder oid s"
  by (simp_all add: aboutOrder_def events_def)

lemma emit_saga [simp]:
  "sagaOrders (emit ev s) = sagaOrders s" "sagaReservations (emit ev s) = sagaReservations s"
  "sagaPayments (emit ev s) = sagaPayments s" "stockItems (emit ev s) = stockItems s"
  by (simp_all add: emit_def)

lemma placed_order:
  assumes "sagaSound s" and "m \<in> set (events s)"
  obtains row st where "atStage s (orderOf_ev m) row st" "m \<in> set (traceOf st (orderOf_ev m) (termsOf row))"
proof -
  have "m \<in> set (aboutOrder (orderOf_ev m) s)" using assms(2) by (simp add: aboutOrder_def)
  moreover have "unplaced s (orderOf_ev m) \<or> (\<exists>row st. atStage s (orderOf_ev m) row st)"
    using assms(1) by (simp add: sagaSound_def)
  ultimately show ?thesis using that by (auto simp: unplaced_def atStage_def)
qed

text \<open>A step of one order, and what it does to the shelf.\<close>

definition moved :: "saga_db \<Rightarrow> saga_db \<Rightarrow> string \<Rightarrow> saga_order \<Rightarrow> saga_stage \<Rightarrow> saga_stage \<Rightarrow> bool" where
  "moved s s' oid row st st' \<longleftrightarrow>
     atStage s oid row st \<and> atStage s' oid (row\<lparr>so_status := statusAt st'\<rparr>) st' \<and> \<not> aborted s' \<and>
     (\<forall>o1. o1 \<noteq> oid \<longrightarrow> sagaOrders s' o1 = sagaOrders s o1 \<and> sagaReservations s' o1 = sagaReservations s o1 \<and>
        sagaPayments s' o1 = sagaPayments s o1 \<and> aboutOrder o1 s' = aboutOrder o1 s)"

definition shelfMove :: "saga_order \<Rightarrow> saga_stage \<Rightarrow> saga_stage \<Rightarrow> (string \<Rightarrow> int option) \<Rightarrow> (string \<Rightarrow> int option) \<Rightarrow> bool" where
  "shelfMove row st st' P P' \<longleftrightarrow>
     st = AtPlaced \<and> st' = AtReserved \<and>
       (\<exists>n. P (so_sku row) = Some n \<and> so_quantity row \<le> n \<and> P' = P(so_sku row \<mapsto> n - so_quantity row)) \<or>
     st = AtPlaced \<and> st' = AtRefused \<and> P' = P \<and> (\<forall>n. P (so_sku row) = Some n \<longrightarrow> n < so_quantity row) \<or>
     st = AtReserved \<and> st' \<in> {AtPaid, AtDeclined} \<and> P' = P \<or>
     st = AtPaid \<and> st' = AtShipped \<and> P' = P \<or>
     st = AtDeclined \<and> st' = AtReleased \<and> P' = P(so_sku row := map_option (\<lambda>n. n + so_quantity row) (P (so_sku row)))"

lemmas saga_sql = insertSagaOrder_def insertSagaReservation_def insertSagaPayment_def setStatus_def updateReserved_def
  decrementStock_def incrementStock_def statement_def publishMessage_run

lemma step_subscribed_cases:
  assumes "stepSubscribed c ev"
  obtains
    (reservation) oid sku qty amount where "c = Reservation" "ev = OrderPlaced_ev oid sku qty amount"
  | (payment) oid sku qty amount where "c = Payment" "ev = InventoryReserved_ev oid sku qty amount"
  | (shipment) oid amount where "c = Shipment" "ev = PaymentCharged_ev oid amount"
  | (refused) oid sku reason where "c = Compensation" "ev = InventoryReservationFailed_ev oid sku reason"
  | (declined) oid sku qty reason where "c = Compensation" "ev = PaymentFailed_ev oid sku qty reason"
  using assms by (cases ev; cases c) (auto simp: stepSubscribed_def toMessage_def noExternalized_def Let_def)

lemma atStage_fields:
  assumes "atStage s oid row st"
  shows "sagaOrders s oid = Some row" "so_status row = statusAt st" "sagaReservations s oid = reservationAt st row"
    "sagaPayments s oid = paymentAt st row" "so_id row = oid" "int4 (so_quantity row)" "int4 (so_amount row)"
    "aboutOrder oid s = traceOf st oid (termsOf row)" "authorised st (so_amount row)"
  using assms by (simp_all add: atStage_def)

lemma reservation_effect:
  assumes "\<not> aborted s" and "atStage s oid row st"
    and "reservationHandler oid (so_sku row) (so_quantity row) (so_amount row) s = Some (Resolve (), s')"
  shows "s' = s \<and> st \<noteq> AtPlaced \<or>
    st = AtPlaced \<and> (\<exists>st'. moved s s' oid row st st' \<and> shelfMove row st st' (stockItems s) (stockItems s'))"
proof (cases "st = AtPlaced")
  case False
  then have "sagaReservations s oid \<noteq> None" using atStage_fields[OF assms(2)] by (simp add: reservationAt_def)
  then show ?thesis
    using assms(1,3) False atStage_fields[OF assms(2)]
    by (auto simp: reservationHandler_def inserted_def transactional_def andThen_def catching_def saga_sql)
next
  case True
  note f = atStage_fields[OF assms(2)]
  have new: "sagaReservations s oid = None" using f True by (simp add: reservationAt_def)
  let ?res = "(sagaReservations s)(oid \<mapsto> \<lparr>sr_orderId = oid, sr_sku = so_sku row, sr_quantity = so_quantity row\<rparr>)"
  show ?thesis
  proof (cases "\<exists>n. stockItems s (so_sku row) = Some n \<and> so_quantity row \<le> n")
    case True
    then obtain n where n: "stockItems s (so_sku row) = Some n" "so_quantity row \<le> n" by blast
    then have s': "s' = emit (InventoryReserved_ev oid (so_sku row) (so_quantity row) (so_amount row))
        (s\<lparr>sagaReservations := ?res, stockItems := (stockItems s)(so_sku row \<mapsto> n - so_quantity row),
           sagaOrders := (sagaOrders s)(oid \<mapsto> row\<lparr>so_status := ''reserved''\<rparr>)\<rparr>)"
      using assms(1,3) new f
      by (auto simp: reservationHandler_def inserted_def transactional_def andThen_def catching_def saga_sql split: if_splits)
    have "moved s s' oid row st AtReserved"
      using assms(1,2) f \<open>st = AtPlaced\<close>
      by (simp add: moved_def s' atStage_def reservationAt_def paymentAt_def authorised_def termsOf_def)
    moreover have "shelfMove row st AtReserved (stockItems s) (stockItems s')"
      using n \<open>st = AtPlaced\<close> by (simp add: shelfMove_def s')
    ultimately show ?thesis using \<open>st = AtPlaced\<close> by blast
  next
    case False
    then have s': "s' = emit (InventoryReservationFailed_ev oid (so_sku row) ''out-of-stock'')
        (s\<lparr>sagaReservations := ?res, sagaOrders := (sagaOrders s)(oid \<mapsto> row\<lparr>so_status := ''failed-reservation''\<rparr>)\<rparr>)"
      using assms(1,3) new f
      by (auto simp: reservationHandler_def inserted_def transactional_def andThen_def catching_def saga_sql
          split: if_splits option.splits)
    have "moved s s' oid row st AtRefused"
      using assms(1,2) f \<open>st = AtPlaced\<close>
      by (simp add: moved_def s' atStage_def reservationAt_def paymentAt_def authorised_def termsOf_def)
    moreover have "shelfMove row st AtRefused (stockItems s) (stockItems s')"
      using False \<open>st = AtPlaced\<close> by (auto simp: shelfMove_def s' not_le)
    ultimately show ?thesis using \<open>st = AtPlaced\<close> by blast
  qed
qed

lemma payment_effect:
  assumes "\<not> aborted s" and "atStage s oid row st" and "st \<notin> {AtPlaced, AtRefused}"
    and "paymentHandler oid (so_sku row) (so_quantity row) (so_amount row) s = Some (Resolve (), s')"
  shows "s' = s \<and> st \<noteq> AtReserved \<or>
    st = AtReserved \<and> (\<exists>st'. moved s s' oid row st st' \<and> shelfMove row st st' (stockItems s) (stockItems s'))"
proof (cases "st = AtReserved")
  case False
  then have "sagaPayments s oid \<noteq> None" using atStage_fields[OF assms(2)] assms(3) by (cases st) (auto simp: paymentAt_def)
  then show ?thesis
    using assms(1,4) False atStage_fields[OF assms(2)]
    by (auto simp: paymentHandler_def inserted_def transactional_def andThen_def catching_def saga_sql Let_def split: if_splits)
next
  case True
  note f = atStage_fields[OF assms(2)]
  have new: "sagaPayments s oid = None" using f True by (simp add: paymentAt_def)
  define st' where "st' = (if UNAUTHORISED_AMOUNT \<le> so_amount row then AtDeclined else AtPaid)"
  define pay where "pay = \<lparr>sp_orderId = oid, sp_amount = so_amount row,
    sp_status = (if UNAUTHORISED_AMOUNT \<le> so_amount row then ''failed'' else ''charged'')\<rparr>"
  have s': "s' = emit (if UNAUTHORISED_AMOUNT \<le> so_amount row
        then PaymentFailed_ev oid (so_sku row) (so_quantity row) ''authorisation-declined''
        else PaymentCharged_ev oid (so_amount row)) (s\<lparr>sagaPayments := (sagaPayments s)(oid \<mapsto> pay)\<rparr>)"
    using assms(1,4) new f
    by (auto simp: paymentHandler_def inserted_def transactional_def andThen_def catching_def saga_sql Let_def pay_def
        split: if_splits)
  have "row\<lparr>so_status := statusAt st'\<rparr> = row" using f True by (simp add: st'_def)
  then have "moved s s' oid row st st'"
    using assms(1,2) f \<open>st = AtReserved\<close>
    by (simp add: moved_def s' atStage_def reservationAt_def paymentAt_def authorised_def termsOf_def st'_def pay_def)
  moreover have "shelfMove row st st' (stockItems s) (stockItems s')"
    using True by (simp add: shelfMove_def s' st'_def)
  ultimately show ?thesis using \<open>st = AtReserved\<close> by blast
qed

lemma shipment_effect:
  assumes "\<not> aborted s" and "atStage s oid row st" and "st \<in> {AtPaid, AtShipped}"
    and "shipmentHandler oid s = Some (Resolve (), s')"
  shows "s' = s \<and> st = AtShipped \<or>
    st = AtPaid \<and> (\<exists>st'. moved s s' oid row st st' \<and> shelfMove row st st' (stockItems s) (stockItems s'))"
proof (cases "st = AtPaid")
  case False
  then show ?thesis
    using assms atStage_fields[OF assms(2)]
    by (auto simp: shipmentHandler_def transactional_def andThen_def saga_sql)
next
  case True
  note f = atStage_fields[OF assms(2)]
  have s': "s' = emit (OrderShipped_ev oid) (s\<lparr>sagaOrders := (sagaOrders s)(oid \<mapsto> row\<lparr>so_status := ''shipped''\<rparr>)\<rparr>)"
    using assms(1,4) f True by (auto simp: shipmentHandler_def transactional_def andThen_def saga_sql)
  have "moved s s' oid row st AtShipped"
    using assms(1,2) f True
    by (simp add: moved_def s' atStage_def reservationAt_def paymentAt_def authorised_def termsOf_def)
  moreover have "shelfMove row st AtShipped (stockItems s) (stockItems s')"
    using True by (simp add: shelfMove_def s')
  ultimately show ?thesis using \<open>st = AtPaid\<close> by blast
qed

lemma release_effect:
  assumes "\<not> aborted s" and "atStage s oid row st" and "st \<in> {AtDeclined, AtReleased}"
    and "onPaymentFailed oid (so_sku row) (so_quantity row) s = Some (Resolve (), s')"
  shows "s' = s \<and> st = AtReleased \<or>
    st = AtDeclined \<and> (\<exists>st'. moved s s' oid row st st' \<and> shelfMove row st st' (stockItems s) (stockItems s'))"
proof (cases "st = AtDeclined")
  case False
  then show ?thesis
    using assms atStage_fields[OF assms(2)]
    by (auto simp: onPaymentFailed_def transactional_def andThen_def saga_sql)
next
  case True
  note f = atStage_fields[OF assms(2)]
  have s': "s' = s\<lparr>sagaOrders := (sagaOrders s)(oid \<mapsto> row\<lparr>so_status := ''failed-payment''\<rparr>),
      stockItems := (stockItems s)(so_sku row := map_option (\<lambda>n. n + so_quantity row) (stockItems s (so_sku row)))\<rparr>"
    using assms(1,4) f True
    by (auto simp: onPaymentFailed_def transactional_def andThen_def saga_sql fun_upd_idem split: option.splits if_splits)
  have "moved s s' oid row st AtReleased"
    using assms(1,2) f True
    by (simp add: moved_def s' atStage_def reservationAt_def paymentAt_def authorised_def termsOf_def)
  moreover have "shelfMove row st AtReleased (stockItems s) (stockItems s')"
    using True by (simp add: shelfMove_def s')
  ultimately show ?thesis using \<open>st = AtDeclined\<close> by blast
qed

text \<open>Whether a consumer has done what its message asks for.\<close>

fun stepHandled :: "saga_consumer \<Rightarrow> step_event \<Rightarrow> saga_db \<Rightarrow> bool" where
  "stepHandled Reservation ev s = (sagaReservations s (orderOf_ev ev) \<noteq> None)"
| "stepHandled Payment ev s = (sagaPayments s (orderOf_ev ev) \<noteq> None)"
| "stepHandled Shipment ev s = (map_option so_status (sagaOrders s (orderOf_ev ev)) = Some ''shipped'')"
| "stepHandled Compensation (PaymentFailed_ev oid sku qty reason) s =
     (map_option so_status (sagaOrders s oid) = Some ''failed-payment'')"
| "stepHandled Compensation ev s = True"

lemma edge_cases:
  "shelfMove row st st' P P' \<Longrightarrow>
    (st, st') \<in> {(AtPlaced, AtReserved), (AtPlaced, AtRefused), (AtReserved, AtPaid), (AtReserved, AtDeclined),
      (AtPaid, AtShipped), (AtDeclined, AtReleased)}"
  by (auto simp: shelfMove_def)

lemma handled_at:
  assumes "atStage s (orderOf_ev m) row st"
  shows "stepHandled Reservation m s \<longleftrightarrow> st \<noteq> AtPlaced"
    and "stepHandled Payment m s \<longleftrightarrow> st \<in> {AtPaid, AtDeclined, AtShipped, AtReleased}"
    and "stepHandled Shipment m s \<longleftrightarrow> st = AtShipped"
    and "m = PaymentFailed_ev oid sku qty reason \<Longrightarrow> stepHandled Compensation m s \<longleftrightarrow> st = AtReleased"
  using atStage_fields[OF assms] by (cases st; auto simp: reservationAt_def paymentAt_def)+

lemma step_effect:
  assumes "sagaSound s" and "m \<in> set (events s)" and "stepSubscribed c m"
    and "handleStep c date m s = Some (Resolve (), s')"
  shows "s' = s \<and> stepHandled c m s \<or>
    (\<exists>row st st'. moved s s' (orderOf_ev m) row st st' \<and> shelfMove row st st' (stockItems s) (stockItems s') \<and>
       \<not> stepHandled c m s \<and> stepHandled c m s')"
proof -
  have clean: "\<not> aborted s" using assms(1) by (simp add: sagaSound_def)
  obtain row st where at: "atStage s (orderOf_ev m) row st" and mem: "m \<in> set (traceOf st (orderOf_ev m) (termsOf row))"
    by (rule placed_order[OF assms(1,2)])
  note before = handled_at[OF at]
  have after: "atStage s' (orderOf_ev m) (row\<lparr>so_status := statusAt st'\<rparr>) st'" if "moved s s' (orderOf_ev m) row st st'" for st'
    using that by (simp add: moved_def)
  note next_stage = handled_at[OF after]
  have step: ?thesis
    if "s' = s \<and> fin \<or> st = st0 \<and> (\<exists>st'. moved s s' (orderOf_ev m) row st st' \<and> shelfMove row st st' (stockItems s) (stockItems s'))"
      and "fin \<Longrightarrow> stepHandled c m s" and "st = st0 \<Longrightarrow> \<not> stepHandled c m s"
      and "\<And>st'. st = st0 \<Longrightarrow> moved s s' (orderOf_ev m) row st st' \<Longrightarrow>
        shelfMove row st st' (stockItems s) (stockItems s') \<Longrightarrow> stepHandled c m s'" for fin st0
    using that by blast
  from assms(3) show ?thesis
  proof (cases rule: step_subscribed_cases)
    case (reservation oid sku qty amount)
    have terms: "sku = so_sku row" "qty = so_quantity row" "amount = so_amount row"
      using mem reservation by (cases st; simp add: termsOf_def)+
    have run: "reservationHandler oid (so_sku row) (so_quantity row) (so_amount row) s = Some (Resolve (), s')"
      using assms(4) reservation terms by simp
    have o: "orderOf_ev m = oid" using reservation by simp
    show ?thesis
      by (rule step[OF reservation_effect[OF clean at[unfolded o] run, folded o]])
        (use before(1) next_stage(1) in \<open>auto simp: reservation(1) dest: edge_cases\<close>)
  next
    case (payment oid sku qty amount)
    have terms: "sku = so_sku row" "qty = so_quantity row" "amount = so_amount row" and st: "st \<notin> {AtPlaced, AtRefused}"
      using mem payment by (cases st; simp add: termsOf_def)+
    have run: "paymentHandler oid (so_sku row) (so_quantity row) (so_amount row) s = Some (Resolve (), s')"
      using assms(4) payment terms by simp
    have o: "orderOf_ev m = oid" using payment by simp
    show ?thesis
      by (rule step[OF payment_effect[OF clean at[unfolded o] st run, folded o]])
        (use before(2) next_stage(2) st in \<open>cases st; auto simp: payment(1) dest: edge_cases\<close>)+
  next
    case (shipment oid amount)
    have st: "st \<in> {AtPaid, AtShipped}" using mem shipment by (cases st) (simp_all add: termsOf_def)
    have run: "shipmentHandler oid s = Some (Resolve (), s')" using assms(4) shipment by simp
    have o: "orderOf_ev m = oid" using shipment by simp
    show ?thesis
      by (rule step[OF shipment_effect[OF clean at[unfolded o] st run, folded o]])
        (use before(3) next_stage(3) in \<open>auto simp: shipment(1) dest: edge_cases\<close>)
  next
    case (refused oid sku reason)
    then show ?thesis using assms(4) by (simp add: onReservationFailed_def)
  next
    case (declined oid sku qty reason)
    have terms: "sku = so_sku row" "qty = so_quantity row" and st: "st \<in> {AtDeclined, AtReleased}"
      using mem declined by (cases st; simp add: termsOf_def)+
    have run: "onPaymentFailed oid (so_sku row) (so_quantity row) s = Some (Resolve (), s')"
      using assms(4) declined terms by simp
    have o: "orderOf_ev m = oid" using declined by simp
    show ?thesis
      by (rule step[OF release_effect[OF clean at[unfolded o] st run, folded o]])
        (use before(4)[OF declined(2)] next_stage(4)[OF _ declined(2)] in \<open>auto simp: declined(1) dest: edge_cases\<close>)
  qed
qed

lemma place_effect:
  assumes "placesOrder s s'" and "sagaSound s"
  shows "\<exists>row. unplaced s (so_id row) \<and> so_status row = ''placed'' \<and> atStage s' (so_id row) row AtPlaced \<and>
    s' = emit (OrderPlaced_ev (so_id row) (so_sku row) (so_quantity row) (so_amount row))
      (s\<lparr>sagaOrders := (sagaOrders s)(so_id row \<mapsto> row)\<rparr>)"
proof -
  have clean: "\<not> aborted s" using assms(2) by (simp add: sagaSound_def)
  obtain oid sku qty amount where run: "placeSagaOrder oid sku qty amount s = Some (Resolve (), s')"
    using assms(1) by (auto simp: placesOrder_def)
  define row where "row = \<lparr>so_id = oid, so_sku = sku, so_quantity = qty, so_amount = amount, so_status = ''placed''\<rparr>"
  have s': "sagaOrders s oid = None" "int4 qty" "int4 amount"
    "s' = emit (OrderPlaced_ev oid sku qty amount) (s\<lparr>sagaOrders := (sagaOrders s)(oid \<mapsto> row)\<rparr>)"
    using run clean
    by (auto simp: placeSagaOrder_def transactional_def andThen_def saga_sql row_def split: if_splits)
  have "unplaced s oid"
    using assms(2) s'(1) by (auto simp: sagaSound_def atStage_def dest!: spec[of _ oid])
  then show ?thesis
    using s' by (intro exI[of _ row])
      (simp add: row_def atStage_def unplaced_def reservationAt_def paymentAt_def authorised_def termsOf_def)
qed

end
