(* ===== verification/Saga_Pattern_Properties.thy ===== *)
theory Saga_Pattern_Properties
  imports Saga_Machine
begin

text \<open>
  The saga of \<open>Saga_Pattern\<close>: its handlers refine the machine, are idempotent consumers, and
  bring every order to an end.
\<close>

section \<open>The machine's steps\<close>

lemma stageOf_at: "atStage s oid row st \<Longrightarrow> stageOf row (sagaPayments s oid) = st"
  by (cases st) (auto simp: atStage_def stageOf_def paymentAt_def)

lemma specOf_book: "atStage s oid row st \<Longrightarrow> book (specOf s) oid = Some (termsOf row, st)"
  using stageOf_at[of s oid row st] by (simp add: specOf_def atStage_def)

lemma specOf_shelf [simp]: "shelf (specOf s) = stockItems s"
  by (simp add: specOf_def)

lemma specOf_moved:
  assumes "moved s s' oid row st st'"
  shows "specOf s' = (enter oid (termsOf row) st' (specOf s))\<lparr>shelf := stockItems s'\<rparr>"
proof -
  from assms have at': "atStage s' oid (row\<lparr>so_status := statusAt st'\<rparr>) st'"
    and others: "\<And>o1. o1 \<noteq> oid \<Longrightarrow> sagaOrders s' o1 = sagaOrders s o1 \<and> sagaPayments s' o1 = sagaPayments s o1"
    by (simp_all add: moved_def)
  have "book (specOf s') = (book (specOf s))(oid \<mapsto> (termsOf row, st'))"
  proof
    fix o1
    show "book (specOf s') o1 = ((book (specOf s))(oid \<mapsto> (termsOf row, st'))) o1"
      using specOf_book[OF at'] others[of o1] by (cases "o1 = oid") (simp_all add: specOf_def termsOf_def)
  qed
  then show ?thesis by (simp add: enter_def specOf_def)
qed

lemma moved_fulfils:
  assumes "moved s s' oid row st st'" and "shelfMove row st st' (stockItems s) (stockItems s')"
  shows "fulfils (specOf s) (specOf s')"
proof -
  have at: "atStage s oid row st" "atStage s' oid (row\<lparr>so_status := statusAt st'\<rparr>) st'"
    using assms(1) by (simp_all add: moved_def)
  have here: "book (specOf s) oid = Some ((so_sku row, so_quantity row, so_amount row), st)"
    using specOf_book[OF at(1)] by (simp add: termsOf_def)
  have auth: "authorised st' (so_amount row)" using atStage_fields(9)[OF at(2)] by simp
  have shelve: "shelve (so_sku row) qty (enter oid terms st' (specOf s)) =
      (enter oid terms st' (specOf s))\<lparr>shelf := (stockItems s)(so_sku row := map_option (\<lambda>n. n + qty) (stockItems s (so_sku row)))\<rparr>"
    for qty terms by (simp add: shelve_def enter_def)
  have same: "(enter oid terms st' (specOf s))\<lparr>shelf := stockItems s\<rparr> = enter oid terms st' (specOf s)" for terms
    by (simp add: enter_def)
  show ?thesis
    unfolding specOf_moved[OF assms(1)]
    using assms(2)[unfolded shelfMove_def]
  proof (elim disjE conjE exE)
    fix n assume m: "st = AtPlaced" "st' = AtReserved" "stockItems s (so_sku row) = Some n" "so_quantity row \<le> n"
      "stockItems s' = (stockItems s)(so_sku row \<mapsto> n - so_quantity row)"
    then show "fulfils (specOf s) (enter oid (termsOf row) st' (specOf s)\<lparr>shelf := stockItems s'\<rparr>)"
      using fulfils.reserve[OF here[unfolded m(1)], of n] by (simp add: shelve[unfolded m(2)] termsOf_def)
  next
    assume m: "st = AtPlaced" "st' = AtRefused" "stockItems s' = stockItems s"
      "\<forall>n. stockItems s (so_sku row) = Some n \<longrightarrow> n < so_quantity row"
    then show "fulfils (specOf s) (enter oid (termsOf row) st' (specOf s)\<lparr>shelf := stockItems s'\<rparr>)"
      using fulfils.refuse[OF here[unfolded m(1)]] by (simp add: same[unfolded m(2)] termsOf_def)
  next
    assume m: "st = AtReserved" "st' \<in> {AtPaid, AtDeclined}" "stockItems s' = stockItems s"
    then show "fulfils (specOf s) (enter oid (termsOf row) st' (specOf s)\<lparr>shelf := stockItems s'\<rparr>)"
      using fulfils.pay[OF here[unfolded m(1)]] fulfils.decline[OF here[unfolded m(1)]] auth same
      by (auto simp: termsOf_def authorised_def)
  next
    assume m: "st = AtPaid" "st' = AtShipped" "stockItems s' = stockItems s"
    then show "fulfils (specOf s) (enter oid (termsOf row) st' (specOf s)\<lparr>shelf := stockItems s'\<rparr>)"
      using fulfils.ship[OF here[unfolded m(1)]] by (simp add: same[unfolded m(2)] termsOf_def)
  next
    assume m: "st = AtDeclined" "st' = AtReleased"
      "stockItems s' = (stockItems s)(so_sku row := map_option (\<lambda>n. n + so_quantity row) (stockItems s (so_sku row)))"
    then show "fulfils (specOf s) (enter oid (termsOf row) st' (specOf s)\<lparr>shelf := stockItems s'\<rparr>)"
      using fulfils.release[OF here[unfolded m(1)]] by (simp add: shelve[unfolded m(2)] termsOf_def)
  qed
qed

lemma place_fulfils:
  assumes "placesOrder s s'" and "sagaSound s"
  shows "fulfils (specOf s) (specOf s')"
proof -
  from place_effect[OF assms] obtain row where row: "unplaced s (so_id row)" "so_status row = ''placed''"
    "s' = emit (OrderPlaced_ev (so_id row) (so_sku row) (so_quantity row) (so_amount row))
      (s\<lparr>sagaOrders := (sagaOrders s)(so_id row \<mapsto> row)\<rparr>)" by blast
  have "specOf s' = enter (so_id row) (termsOf row) AtPlaced (specOf s)"
    using row(2) by (simp add: specOf_def enter_def row(3) fun_eq_iff stageOf_def)
  then show ?thesis using fulfils.accept row(1) by (simp add: unplaced_def specOf_def)
qed

section \<open>The tables stay sound\<close>

lemma moved_sound:
  assumes "moved s s' oid row st st'" and "sagaSound s"
  shows "sagaSound s'"
  unfolding sagaSound_def
proof (intro conjI allI)
  fix o1
  have "unplaced s o1 \<or> (\<exists>row st. atStage s o1 row st)" using assms(2) by (simp add: sagaSound_def)
  then show "unplaced s' o1 \<or> (\<exists>row st. atStage s' o1 row st)"
    using assms(1) by (cases "o1 = oid") (auto simp: moved_def unplaced_def atStage_def)
qed (use assms(1) in \<open>simp add: moved_def\<close>)

lemma place_sound:
  assumes "placesOrder s s'" and "sagaSound s"
  shows "sagaSound s'"
proof -
  from place_effect[OF assms] obtain row where row: "atStage s' (so_id row) row AtPlaced"
    and s': "s' = emit (OrderPlaced_ev (so_id row) (so_sku row) (so_quantity row) (so_amount row))
      (s\<lparr>sagaOrders := (sagaOrders s)(so_id row \<mapsto> row)\<rparr>)" by blast
  show ?thesis
    unfolding sagaSound_def
  proof (intro conjI allI)
    fix o1
    have "unplaced s o1 \<or> (\<exists>row st. atStage s o1 row st)" using assms(2) by (simp add: sagaSound_def)
    then show "unplaced s' o1 \<or> (\<exists>row st. atStage s' o1 row st)"
    proof (cases "o1 = so_id row")
      case False
      then show ?thesis using \<open>unplaced s o1 \<or> _\<close> by (auto simp: unplaced_def atStage_def s')
    qed (use row in blast)
  qed (use assms(2) in \<open>simp add: s' sagaSound_def\<close>)
qed

lemma moved_keeps_handled:
  assumes "moved s s' oid row st st'" and "shelfMove row st st' P P'" and "stepHandled c m s"
  shows "stepHandled c m s'"
proof (cases "orderOf_ev m = oid")
  case True
  have at: "atStage s (orderOf_ev m) row st" "atStage s' (orderOf_ev m) (row\<lparr>so_status := statusAt st'\<rparr>) st'"
    using assms(1) True by (simp_all add: moved_def)
  note before = handled_at[OF at(1)] and after = handled_at[OF at(2)]
  from edge_cases[OF assms(2)] assms(3) before after show ?thesis
    by (cases c; cases m) auto
next
  case False
  then show ?thesis using assms(1,3) by (cases c; cases m) (auto simp: moved_def)
qed

lemma place_keeps_handled:
  assumes "placesOrder s s'" and "sagaSound s" and "stepHandled c m s"
  shows "stepHandled c m s'"
  using place_effect[OF assms(1,2)] assms(3)
  by (cases c; cases m) (auto simp: unplaced_def)

section \<open>The handlers are idempotent consumers\<close>

lemma saga_statements_blind [blind_intros]:
  "blind (insertSagaOrder row)" "blind (insertSagaReservation res)" "blind (insertSagaPayment pay)"
  "blind (setStatus oid status)" "blind (updateReserved oid status)" "blind (decrementStock sku qty)"
  "blind (incrementStock sku qty)"
  unfolding insertSagaOrder_def insertSagaReservation_def insertSagaPayment_def setStatus_def updateReserved_def
    decrementStock_def incrementStock_def
  by (rule blind_statement; auto split: if_splits option.splits)+

lemma place_blind: "blind (placeSagaOrder oid sku qty amount)"
  unfolding placeSagaOrder_def by (intro blind_intros)

lemma handlers_blind: "stepSubscribed c m \<Longrightarrow> blind (handleStep c date m)"
  by (erule step_subscribed_cases)
    (auto simp: reservationHandler_def paymentHandler_def shipmentHandler_def onReservationFailed_def onPaymentFailed_def
      Let_def intro!: blind_intros)

lemma forget_saga [simp]:
  "sagaOrders (forget s) = sagaOrders s" "sagaReservations (forget s) = sagaReservations s"
  "sagaPayments (forget s) = sagaPayments s" "stockItems (forget s) = stockItems s" "aboutOrder oid (forget s) = aboutOrder oid s"
  by (simp_all add: forget_def aboutOrder_def) (simp add: events_def fresh_message_def o_def)

interpretation saga: idempotent_consumers placesOrder stepSubscribed handleStep stepHandled sagaSound
proof (rule idempotent_consumers.intro)
  fix s s' assume "placesOrder s s'"
  then obtain oid sku qty amount where "placeSagaOrder oid sku qty amount s = Some (Resolve (), s')"
    by (auto simp: placesOrder_def)
  from blindD[OF place_blind this] show "\<exists>new. messages s' = messages s @ map fresh_message new \<and>
      (\<forall>ms. placesOrder (s\<lparr>messages := ms\<rparr>) (s'\<lparr>messages := ms @ map fresh_message new\<rparr>))"
    by (auto simp: placesOrder_def) metis
next
  fix c m s show "stepHandled c m (forget s) = stepHandled c m s" by (cases c; cases m) simp_all
next
  fix s show "sagaSound (forget s) = sagaSound s" by (simp add: sagaSound_def unplaced_def atStage_def)
next
  fix s m c date s' assume "sagaSound s" "m \<in> set (events s)" "stepSubscribed c m" "handleStep c date m s = Some (Resolve (), s')"
  from step_effect[OF this] moved_sound \<open>sagaSound s\<close> show "sagaSound s'" by blast
next
  fix s m c date s' assume "sagaSound s" "m \<in> set (events s)" "stepSubscribed c m" "handleStep c date m s = Some (Resolve (), s')"
  from step_effect[OF this] show "stepHandled c m s'" by blast
next
  fix s m c n d date s' assume a: "sagaSound s" "m \<in> set (events s)" "stepHandled c m s" "n \<in> set (events s)"
    "stepSubscribed d n" "handleStep d date n s = Some (Resolve (), s')"
  from step_effect[OF a(1,4-6)] a(3) moved_keeps_handled show "stepHandled c m s'" by blast
next
  fix s m c date s' assume "sagaSound s" "m \<in> set (events s)" "stepSubscribed c m" "stepHandled c m s"
    "handleStep c date m s = Some (Resolve (), s')"
  with step_effect show "s' = s" by blast
qed (use handlers_blind place_sound place_keeps_handled in blast)+

lemma sagaReaches_steps: "sagaReaches once stock s = saga.steps once (sagaOpened stock) s"
  by (simp add: sagaReaches_def saga.steps_def)

lemma sagaOpened_sound: "sagaSound (sagaOpened stock)"
  by (simp add: sagaSound_def sagaOpened_def unplaced_def aboutOrder_def events_def)

lemma sagaOpened_recorded: "saga.recorded (sagaOpened stock)"
  using sagaOpened_sound by (simp add: saga.recorded_def) (simp add: sagaOpened_def)

lemma sagaReaches_recorded: "sagaReaches once stock s \<Longrightarrow> saga.recorded s"
  using saga.steps_recorded sagaOpened_recorded by (simp add: sagaReaches_steps)

lemma sagaReaches_sound: "sagaReaches once stock s \<Longrightarrow> sagaSound s"
  using sagaReaches_recorded by (simp add: saga.recorded_def)

section \<open>The machine conserves stock\<close>

definition holds_at :: "saga_stage \<Rightarrow> bool" where
  "holds_at st \<longleftrightarrow> st \<in> {AtReserved, AtPaid, AtDeclined, AtShipped}"

definition heldEntry :: "string \<Rightarrow> (string \<times> int \<times> int) \<times> saga_stage \<Rightarrow> int" where
  "heldEntry sku entry = (if fst (fst entry) = sku \<and> holds_at (snd entry) then fst (snd (fst entry)) else 0)"

definition conserves :: "(string \<Rightarrow> int option) \<Rightarrow> saga_spec \<Rightarrow> bool" where
  "conserves stock p \<longleftrightarrow> finite (dom (book p)) \<and>
     (\<forall>sku. shelf p sku = map_option (\<lambda>n. n - tableSum (heldEntry sku) (book p)) (stock sku))"

lemma enter_held:
  assumes "finite (dom (book p))" and "book p oid = Some ((sku, qty, amount), st)"
  shows "tableSum (heldEntry k) (book (enter oid (sku, qty, amount) st' p)) =
    tableSum (heldEntry k) (book p) + (if k = sku then (if holds_at st' then qty else 0) - (if holds_at st then qty else 0) else 0)"
  using assms by (simp add: enter_def tableSum_upd heldEntry_def)

lemma fulfils_conserves:
  assumes "fulfils p p'" and "conserves stock p"
  shows "conserves stock p'"
proof -
  from assms(2) have fin: "finite (dom (book p))"
    and shelf: "\<And>sku. shelf p sku = map_option (\<lambda>n. n - tableSum (heldEntry sku) (book p)) (stock sku)"
    by (simp_all add: conserves_def)
  have fin': "finite (dom (book (enter oid terms st p)))" for oid terms st using fin by (simp add: enter_def)
  have shelfs: "shelf (enter oid terms st p) = shelf p" "book (shelve sku qty q) = book q" for oid terms st sku qty q
    by (simp_all add: enter_def shelve_def)
  note facts = conserves_def fin fin' shelfs
  show ?thesis
    using assms(1)
  proof cases
    case (accept oid terms)
    then show ?thesis
      by (cases terms) (simp add: facts shelf, simp add: enter_def tableSum_upd fin heldEntry_def holds_at_def)
  next
    case (reserve oid sku qty amount n)
    then show ?thesis
      by (simp add: facts enter_held[OF fin reserve(2)] holds_at_def)
        (auto simp: shelve_def shelfs shelf option.map_comp o_def intro!: option.map_cong0)
  next
    case (refuse oid sku qty amount)
    then show ?thesis by (simp add: facts enter_held[OF fin refuse(2)] holds_at_def shelf)
  next
    case (pay oid sku qty amount)
    then show ?thesis by (simp add: facts enter_held[OF fin pay(2)] holds_at_def shelf)
  next
    case (decline oid sku qty amount)
    then show ?thesis by (simp add: facts enter_held[OF fin decline(2)] holds_at_def shelf)
  next
    case (ship oid terms)
    obtain sku qty amount where terms: "terms = (sku, qty, amount)" by (cases terms)
    show ?thesis using ship(1) by (simp add: facts terms enter_held[OF fin ship(2)[unfolded terms]] holds_at_def shelf)
  next
    case (release oid sku qty amount)
    then show ?thesis
      by (simp add: facts enter_held[OF fin release(2)] holds_at_def)
        (auto simp: shelve_def shelfs shelf option.map_comp o_def intro!: option.map_cong0)
  qed
qed

section \<open>Reachable tables\<close>

lemma sound_stage:
  assumes "sagaSound s" and "sagaOrders s oid = Some row"
  obtains st where "atStage s oid row st"
proof -
  have "\<not> unplaced s oid" using assms(2) by (simp add: unplaced_def)
  then obtain r st where at: "atStage s oid r st" using assms(1) unfolding sagaSound_def by blast
  moreover have "r = row" using atStage_fields(1)[OF at] assms(2) by simp
  ultimately show ?thesis using that by blast
qed

lemma specOf_complete [simp]: "specOf (complete i c s) = specOf s"
  by (simp add: specOf_def) (simp add: complete_def)

lemma app_step_fulfils:
  assumes "sagaSound s" and "app_step placesOrder stepSubscribed handleStep once s s'"
  shows "specOf s' = specOf s \<or> fulfils (specOf s) (specOf s')"
  using assms(2) unfolding app_step_def
proof
  assume "relays stepSubscribed handleStep once s s'"
  then show ?thesis
  proof cases
    case (deliver i ev inbox c date s1)
    then have "ev \<in> set (events s)" by (metis saga.in_events nth_mem)
    from step_effect[OF assms(1) this deliver(4,6)] deliver(1) moved_fulfils show ?thesis by auto
  qed
qed (use place_fulfils assms(1) in blast)

lemma sagaReaches_conserves:
  assumes "sagaReaches once stock s"
  shows "conserves stock (specOf s)"
  using assms unfolding sagaReaches_def
proof (induction rule: rtranclp_induct)
  case base
  have "specOf (sagaOpened stock) = \<lparr>book = Map.empty, shelf = stock\<rparr>" by (simp add: specOf_def sagaOpened_def)
  then show ?case by (simp add: conserves_def option.map_ident)
next
  case (step s s')
  then have "sagaSound s" using sagaReaches_sound by (simp add: sagaReaches_def)
  from app_step_fulfils[OF this step(2)] step(3) fulfils_conserves show ?case by auto
qed

definition heldQuantity :: "saga_db \<Rightarrow> string \<Rightarrow> int" where
  "heldQuantity s sku =
     tableSum (\<lambda>row. if so_sku row = sku \<and> so_status row \<in> {''reserved'', ''shipped''} then so_quantity row else 0) (sagaOrders s)"

lemma held_of_book:
  assumes "sagaSound s"
  shows "tableSum (heldEntry sku) (book (specOf s)) = heldQuantity s sku"
proof -
  have "heldEntry sku (the (book (specOf s) oid)) =
      (if so_sku row = sku \<and> so_status row \<in> {''reserved'', ''shipped''} then so_quantity row else 0)"
    if found: "sagaOrders s oid = Some row" for oid row
  proof -
    obtain st where at: "atStage s oid row st" by (rule sound_stage[OF assms found])
    show ?thesis
      using specOf_book[OF at] atStage_fields(2)[OF at]
      by (cases st) (simp_all add: heldEntry_def termsOf_def holds_at_def)
  qed
  note entry = this
  have "dom (book (specOf s)) = dom (sagaOrders s)" by (auto simp: specOf_def dom_def)
  then show ?thesis
    unfolding tableSum_def heldQuantity_def
  proof (rule sum.cong)
    fix oid assume "oid \<in> dom (sagaOrders s)"
    then obtain row where "sagaOrders s oid = Some row" by blast
    then show "heldEntry sku (the (book (specOf s) oid)) =
        (if so_sku (the (sagaOrders s oid)) = sku \<and> so_status (the (sagaOrders s oid)) \<in> {''reserved'', ''shipped''}
         then so_quantity (the (sagaOrders s oid)) else 0)"
      using entry[of oid row] by (simp only: option.sel)
  qed
qed

lemma stock_on_shelf:
  assumes "sagaReaches once stock s"
  shows "stockItems s sku = map_option (\<lambda>n. n - heldQuantity s sku) (stock sku)"
  using sagaReaches_conserves[OF assms] held_of_book[OF sagaReaches_sound[OF assms]] by (simp add: conserves_def)

section \<open>The end of an order\<close>

definition steps_of :: "saga_consumer list" where
  "steps_of = [Reservation, Payment, Shipment, Compensation]"

definition allCompleted :: "saga_db \<Rightarrow> bool" where
  "allCompleted s \<longleftrightarrow> list_all (\<lambda>(m, inbox). list_all (\<lambda>c. stepSubscribed c m \<longrightarrow> c \<in> set inbox) steps_of) (messages s)"

lemma steps_of_all: "c \<in> set steps_of"
  by (cases c) (simp_all add: steps_of_def)

lemma completed_handled:
  assumes "saga.recorded s" and "allCompleted s" and "m \<in> set (events s)" and "stepSubscribed c m"
  shows "stepHandled c m s"
proof -
  obtain inbox where mem: "(m, inbox) \<in> set (messages s)" using assms(3) by (auto simp: events_def)
  then have "c \<in> set inbox"
    using assms(2,4) steps_of_all[of c] by (auto simp: allCompleted_def list_all_iff)
  then show ?thesis using assms(1) mem by (auto simp: saga.recorded_def)
qed

lemma step_subscribed [simp]:
  "stepSubscribed Reservation (OrderPlaced_ev oid sku qty amount)" "stepSubscribed Payment (InventoryReserved_ev oid sku qty amount)"
  "stepSubscribed Shipment (PaymentCharged_ev oid amount)" "stepSubscribed Compensation (PaymentFailed_ev oid sku qty reason)"
  "stepSubscribed Compensation (InventoryReservationFailed_ev oid sku reason)"
  by (simp_all add: stepSubscribed_def toMessage_def noExternalized_def Let_def)

lemma completed_stage:
  assumes "saga.recorded s" and "allCompleted s" and "atStage s oid row st"
  shows "st \<in> {AtShipped, AtReleased, AtRefused}"
proof -
  note f = atStage_fields[OF assms(3)]
  have trace: "m \<in> set (events s)" if "m \<in> set (traceOf st oid (termsOf row))" for m
  proof -
    have "m \<in> set (aboutOrder oid s)" using that f(8) by simp
    then show ?thesis by (simp add: aboutOrder_def)
  qed
  note fin = completed_handled[OF assms(1,2) trace]
  obtain sku qty amount where terms: "termsOf row = (sku, qty, amount)" by (cases "termsOf row")
  show ?thesis
  proof (cases st)
    case AtPlaced
    have "stepHandled Reservation (OrderPlaced_ev oid sku qty amount) s" by (rule fin) (simp_all add: AtPlaced terms)
    then show ?thesis using f AtPlaced by (simp add: reservationAt_def)
  next
    case AtReserved
    have "stepHandled Payment (InventoryReserved_ev oid sku qty amount) s" by (rule fin) (simp_all add: AtReserved terms)
    then show ?thesis using f AtReserved by (simp add: paymentAt_def)
  next
    case AtPaid
    have "stepHandled Shipment (PaymentCharged_ev oid amount) s" by (rule fin) (simp_all add: AtPaid terms)
    then show ?thesis using f AtPaid by simp
  next
    case AtDeclined
    have "stepHandled Compensation (PaymentFailed_ev oid sku qty ''authorisation-declined'') s" by (rule fin) (simp_all add: AtDeclined terms)
    then show ?thesis using f AtDeclined by simp
  qed simp_all
qed

section \<open>Deliveries end\<close>

text \<open>What a message still asks for, with the messages that will follow from it.\<close>

fun stepWeight :: "step_event \<Rightarrow> nat" where
  "stepWeight (OrderPlaced_ev oid sku qty amount) = 3"
| "stepWeight (InventoryReserved_ev oid sku qty amount) = 2"
| "stepWeight (OrderShipped_ev oid) = 0"
| "stepWeight ev = 1"

fun stepConsumer :: "step_event \<Rightarrow> saga_consumer option" where
  "stepConsumer (OrderPlaced_ev oid sku qty amount) = Some Reservation"
| "stepConsumer (InventoryReserved_ev oid sku qty amount) = Some Payment"
| "stepConsumer (PaymentCharged_ev oid amount) = Some Shipment"
| "stepConsumer (OrderShipped_ev oid) = None"
| "stepConsumer ev = Some Compensation"

definition stillDue :: "step_event \<times> saga_consumer list \<Rightarrow> nat" where
  "stillDue entry = (case stepConsumer (fst entry) of
     None \<Rightarrow> 0 | Some c \<Rightarrow> if c \<in> set (snd entry) then 0 else stepWeight (fst entry))"

definition stepLoad :: "saga_db \<Rightarrow> nat" where
  "stepLoad s = sum_list (map stillDue (messages s))"

lemma stepConsumer_subscribed: "stepSubscribed c m \<longleftrightarrow> stepConsumer m = Some c"
  by (cases m; cases c) (simp_all add: stepSubscribed_def toMessage_def noExternalized_def Let_def)

text \<open>A handler adds at most one message, and that asks for less.\<close>

lemma handler_emits_less:
  assumes "sagaSound s" and "stepSubscribed c m" and "handleStep c date m s = Some (Resolve (), s')"
  shows "\<exists>new. messages s' = messages s @ map fresh_message new \<and> sum_list (map stepWeight new) < stepWeight m"
proof -
  have clean: "\<not> aborted s" using assms(1) by (simp add: sagaSound_def)
  have none: ?thesis if "messages s' = messages s"
    using that assms(2) by (intro exI[of _ "[]"]) (auto elim!: step_subscribed_cases)
  have one: ?thesis if "messages s' = messages s @ [(n, [])]" "stepWeight n < stepWeight m" for n
    using that by (intro exI[of _ "[n]"]) (simp add: fresh_message_def)
  show ?thesis
    using assms(2)
  proof (cases rule: step_subscribed_cases)
    case (reservation oid sku qty amount)
    from assms(3) clean have "messages s' = messages s \<or>
        messages s' = messages s @ [(InventoryReservationFailed_ev oid sku ''out-of-stock'', [])] \<or>
        messages s' = messages s @ [(InventoryReserved_ev oid sku qty amount, [])]"
      by (auto simp: reservation reservationHandler_def inserted_def transactional_def andThen_def catching_def saga_sql
          split: if_splits option.splits)
    then show ?thesis using none one reservation by auto
  next
    case (payment oid sku qty amount)
    from assms(3) clean have "messages s' = messages s \<or>
        messages s' = messages s @ [(PaymentFailed_ev oid sku qty ''authorisation-declined'', [])] \<or>
        messages s' = messages s @ [(PaymentCharged_ev oid amount, [])]"
      by (auto simp: payment paymentHandler_def inserted_def transactional_def andThen_def catching_def saga_sql Let_def
          split: if_splits option.splits)
    then show ?thesis using none one payment by auto
  next
    case (shipment oid amount)
    from assms(3) clean have "messages s' = messages s \<or> messages s' = messages s @ [(OrderShipped_ev oid, [])]"
      by (auto simp: shipment shipmentHandler_def transactional_def andThen_def saga_sql split: if_splits option.splits)
    then show ?thesis using none one shipment by auto
  next
    case (refused oid sku reason)
    then show ?thesis using assms(3) none by (simp add: onReservationFailed_def)
  next
    case (declined oid sku qty reason)
    from assms(3) clean have "messages s' = messages s"
      by (auto simp: declined onPaymentFailed_def transactional_def andThen_def saga_sql split: if_splits option.splits)
    then show ?thesis by (rule none)
  qed
qed

lemma stillDue_fresh: "stillDue (fresh_message m) \<le> stepWeight m"
  by (cases m) (simp_all add: stillDue_def fresh_message_def)

lemma delivery_lightens:
  assumes "sagaSound s" and "relays stepSubscribed handleStep True s s'"
  shows "stepLoad s' < stepLoad s"
  using assms(2)
proof cases
  case (deliver i ev inbox c date s1)
  obtain new where new: "messages s1 = messages s @ map fresh_message new" "sum_list (map stepWeight new) < stepWeight ev"
    using handler_emits_less[OF assms(1) deliver(4,6)] by blast
  have due: "stillDue (ev, inbox) = stepWeight ev" "stillDue (ev, c # inbox) = 0"
    using deliver(4,5) by (simp_all add: stillDue_def stepConsumer_subscribed)
  have split: "messages s = take i (messages s) @ (ev, inbox) # drop (Suc i) (messages s)"
    using deliver(2,3) by (metis id_take_nth_drop)
  have "messages s' = take i (messages s) @ (ev, c # inbox) # drop (Suc i) (messages s) @ map fresh_message new"
    using deliver(1-3) new(1)
    by (simp add: complete_def nth_append list_update_append upd_conv_take_nth_drop)
  moreover have "sum_list (map (stillDue \<circ> fresh_message) new) \<le> sum_list (map stepWeight new)"
    by (rule sum_list_mono) (simp add: stillDue_fresh)
  ultimately have "stepLoad s' \<le> sum_list (map stillDue (take i (messages s))) + sum_list (map stillDue (drop (Suc i) (messages s))) +
      sum_list (map stepWeight new)"
    by (simp add: stepLoad_def due)
  moreover have "stepLoad s = sum_list (map stillDue (take i (messages s))) + stepWeight ev + sum_list (map stillDue (drop (Suc i) (messages s)))"
    by (subst stepLoad_def, subst split) (simp add: due)
  ultimately show ?thesis using new(2) by simp
qed

lemma deliveries_lighten:
  assumes "(relays stepSubscribed handleStep True ^^ n) s t" and "sagaReaches True stock s"
  shows "n + stepLoad t \<le> stepLoad s \<and> sagaReaches True stock t"
  using assms(1)
proof (induction n arbitrary: t)
  case (Suc n)
  then obtain u where u: "(relays stepSubscribed handleStep True ^^ n) s u" "relays stepSubscribed handleStep True u t"
    by auto
  from Suc.IH[OF u(1)] have ih: "n + stepLoad u \<le> stepLoad s" "sagaReaches True stock u" by simp_all
  have "sagaReaches True stock t"
    using ih(2) u(2) by (auto simp: sagaReaches_def app_step_def intro: rtranclp.rtrancl_into_rtrancl)
  with delivery_lightens[OF sagaReaches_sound[OF ih(2)] u(2)] ih(1) show ?case by simp
qed (use assms(2) in simp)

section \<open>Handlers return\<close>

text \<open>Orders for no negative quantity, of products whose stock the column can hold.\<close>

definition sensible :: "saga_db \<Rightarrow> bool" where
  "sensible s \<longleftrightarrow> (\<forall>oid row. sagaOrders s oid = Some row \<longrightarrow> 0 \<le> so_quantity row)"

definition stockRange :: "(string \<Rightarrow> int option) \<Rightarrow> bool" where
  "stockRange stock \<longleftrightarrow> (\<forall>sku n. stock sku = Some n \<longrightarrow> 0 \<le> n \<and> int4 n)"

lemma held_bounds:
  assumes "sagaReaches once stock s" and "sensible s"
  shows "0 \<le> heldQuantity s sku"
    and "sagaOrders s oid = Some row \<Longrightarrow> so_status row \<in> {''reserved'', ''shipped''} \<Longrightarrow> so_quantity row \<le> heldQuantity s (so_sku row)"
proof -
  let ?f = "\<lambda>sku row. if so_sku row = sku \<and> so_status row \<in> {''reserved'', ''shipped''} then so_quantity row else 0"
  have nonneg: "0 \<le> ?f sku row" if "sagaOrders s oid = Some row" for sku oid row
    using assms(2) that by (auto simp: sensible_def)
  then show "0 \<le> heldQuantity s sku" unfolding heldQuantity_def by (rule tableSum_nonneg)
  have fin: "finite (dom (sagaOrders s))"
    using sagaReaches_conserves[OF assms(1)] by (simp add: conserves_def specOf_def dom_def)
  assume "sagaOrders s oid = Some row" "so_status row \<in> {''reserved'', ''shipped''}"
  with tableSum_member[OF fin, of "?f (so_sku row)", OF nonneg this(1)] show "so_quantity row \<le> heldQuantity s (so_sku row)"
    unfolding heldQuantity_def by simp
qed

definition plainTerms :: "saga_spec \<Rightarrow> bool" where
  "plainTerms p \<longleftrightarrow> (\<forall>oid sku qty amount st. book p oid = Some ((sku, qty, amount), st) \<longrightarrow> 0 \<le> qty)"

lemma fulfils_terms:
  assumes "fulfils p p'" and "plainTerms p'"
  shows "plainTerms p"
proof -
  have "\<exists>st'. book p' oid = Some (terms, st')" if "book p oid = Some (terms, st)" for oid terms st
    using assms(1) that by cases (auto simp: enter_def shelve_def)
  with assms(2) show ?thesis unfolding plainTerms_def by metis
qed

lemma fulfils_nonneg:
  assumes "fulfils p p'" and "plainTerms p" and "\<And>sku n. shelf p sku = Some n \<Longrightarrow> 0 \<le> n" and "shelf p' sku = Some n"
  shows "0 \<le> n"
  using assms(1)
proof cases
  case (reserve oid k qty amount m)
  then show ?thesis using assms(3)[of sku] assms(4) by (auto simp: enter_def shelve_def split: if_splits)
next
  case (release oid k qty amount)
  have "0 \<le> qty" using assms(2) release(2) unfolding plainTerms_def by blast
  then show ?thesis using release(1) assms(3)[of sku] assms(4) by (fastforce simp: enter_def shelve_def split: if_splits)
qed (use assms(3,4) in \<open>auto simp: enter_def\<close>)

lemma sensible_terms: "sensible s \<longleftrightarrow> plainTerms (specOf s)"
  by (auto simp: sensible_def plainTerms_def specOf_def termsOf_def)

lemma shelf_nonneg:
  assumes "sagaReaches once stock s" and "sensible s" and "stockRange stock"
  shows "stockItems s sku = Some n \<Longrightarrow> 0 \<le> n"
proof -
  have "plainTerms (specOf s) \<longrightarrow> (\<forall>sku n. shelf (specOf s) sku = Some n \<longrightarrow> 0 \<le> n)"
    using assms(1) unfolding sagaReaches_def
  proof (induction rule: rtranclp_induct)
    case base
    then show ?case using assms(3) by (auto simp: sagaOpened_def stockRange_def)
  next
    case (step s s')
    then have "sagaSound s" using sagaReaches_sound by (simp add: sagaReaches_def)
    from app_step_fulfils[OF this step(2)] step(3) fulfils_terms fulfils_nonneg show ?case by metis
  qed
  then show "stockItems s sku = Some n \<Longrightarrow> 0 \<le> n" using assms(2) by (simp add: sensible_terms)
qed

lemma handler_returns:
  assumes "sagaReaches once stock s" and "sensible s" and "stockRange stock"
    and "m \<in> set (events s)" and "stepSubscribed c m"
  shows "\<exists>s'. handleStep c date m s = Some (Resolve (), s')"
proof -
  have sound: "sagaSound s" by (rule sagaReaches_sound[OF assms(1)])
  then have clean: "\<not> aborted s" by (simp add: sagaSound_def)
  obtain row st where at: "atStage s (orderOf_ev m) row st" and mem: "m \<in> set (traceOf st (orderOf_ev m) (termsOf row))"
    by (rule placed_order[OF sound assms(4)])
  note f = atStage_fields[OF at]
  have qty: "0 \<le> so_quantity row" using assms(2) f(1) by (simp add: sensible_def)
  have shelf: "0 \<le> n \<and> int4 n \<and> (so_status row \<in> {''reserved'', ''shipped''} \<longrightarrow> int4 (n + so_quantity row))"
    if "stockItems s (so_sku row) = Some n" for n
  proof -
    have "map_option (\<lambda>n. n - heldQuantity s (so_sku row)) (stock (so_sku row)) = Some n"
      using stock_on_shelf[OF assms(1), of "so_sku row"] that by simp
    then obtain n0 where n0: "stock (so_sku row) = Some n0" "n = n0 - heldQuantity s (so_sku row)"
      by (cases "stock (so_sku row)") auto
    moreover have "int4 n0" using assms(3) n0(1) by (auto simp: stockRange_def)
    moreover have "0 \<le> n" by (rule shelf_nonneg[OF assms(1-3) that])
    ultimately show ?thesis
      using held_bounds(1)[OF assms(1,2), of "so_sku row"] held_bounds(2)[OF assms(1,2) f(1)] qty by (auto simp: int4_def)
  qed
  have room: "int4 (n - so_quantity row)" if "stockItems s (so_sku row) = Some n" "so_quantity row \<le> n" for n
    using shelf[OF that(1)] int4_nonneg[OF qty _ that(2)] by simp
  show ?thesis
    using assms(5)
  proof (cases rule: step_subscribed_cases)
    case (reservation oid sku qty amount)
    have "sku = so_sku row" "qty = so_quantity row" using mem reservation by (cases st; simp add: termsOf_def)+
    then show ?thesis
      using clean room f(1,6)
      by (auto simp: reservation reservationHandler_def inserted_def transactional_def andThen_def catching_def saga_sql
          split: option.splits)
  next
    case (payment oid sku qty amount)
    have "amount = so_amount row" using mem payment by (cases st; simp add: termsOf_def)
    then show ?thesis
      using clean f(7)
      by (auto simp: payment paymentHandler_def inserted_def transactional_def andThen_def catching_def saga_sql Let_def
          split: option.splits)
  next
    case (shipment oid amount)
    then show ?thesis
      using clean by (auto simp: shipmentHandler_def transactional_def andThen_def saga_sql split: option.splits)
  next
    case (refused oid sku reason)
    then show ?thesis by (simp add: onReservationFailed_def)
  next
    case (declined oid sku qty reason)
    have "sku = so_sku row" "qty = so_quantity row" using mem declined by (cases st; simp add: termsOf_def)+
    then show ?thesis
      using clean f(1) shelf declined
      by (auto simp: onPaymentFailed_def transactional_def andThen_def saga_sql split: option.splits)
  qed
qed

lemma due_relays:
  assumes "sagaReaches True stock s" and "sensible s" and "stockRange stock" and "\<not> allCompleted s"
  shows "\<exists>t. relays stepSubscribed handleStep True s t"
proof -
  from assms(4) obtain m inbox c where mem: "(m, inbox) \<in> set (messages s)" "stepSubscribed c m" "c \<notin> set inbox"
    by (auto simp: allCompleted_def list_all_iff)
  then obtain i where i: "i < length (messages s)" "messages s ! i = (m, inbox)" by (auto simp: in_set_conv_nth)
  obtain s' where "handleStep c 0 m s = Some (Resolve (), s')"
    using handler_returns[OF assms(1-3) saga.in_events[OF mem(1)] mem(2)] by blast
  from relays.deliver[of i s m inbox stepSubscribed c True handleStep 0 s', OF i mem(2) _ this] mem(3) show ?thesis by blast
qed

section \<open>An example\<close>

definition gadgets :: "string \<Rightarrow> int option" where
  "gadgets = [''WIDGET'' \<mapsto> 5]"

text \<open>Requests, and deliveries of the message at an index, some of them again.\<close>

datatype saga_pattern_action = PlaceIt string string int int | DeliverIt nat saga_consumer

fun act :: "saga_pattern_action \<Rightarrow> saga_db \<Rightarrow> saga_db option" where
  "act (PlaceIt oid sku qty amount) s =
     (case placeSagaOrder oid sku qty amount s of Some (Resolve u, s') \<Rightarrow> Some s' | _ \<Rightarrow> None)"
| "act (DeliverIt i c) s =
     (if i < length (messages s) \<and> stepSubscribed c (fst (messages s ! i))
      then (case handleStep c 0 (fst (messages s ! i)) s of Some (Resolve u, s') \<Rightarrow> Some (complete i c s') | _ \<Rightarrow> None)
      else None)"

fun acts :: "saga_pattern_action list \<Rightarrow> saga_db \<Rightarrow> saga_db option" where
  "acts [] s = Some s"
| "acts (a # as) s = (case act a s of None \<Rightarrow> None | Some s' \<Rightarrow> acts as s')"

lemma act_step: "act a s = Some s' \<Longrightarrow> app_step placesOrder stepSubscribed handleStep False s s'"
proof (cases a)
  case (DeliverIt i c)
  then show "act a s = Some s' \<Longrightarrow> ?thesis"
    using relays.deliver[of i s "fst (messages s ! i)" "snd (messages s ! i)" stepSubscribed c False handleStep 0]
    by (auto simp: app_step_def split: if_splits option.splits outcome.splits prod.splits)
qed (auto simp: app_step_def placesOrder_def split: option.splits outcome.splits prod.splits)

lemma acts_reach: "acts as s = Some s' \<Longrightarrow> sagaReaches False stock s \<Longrightarrow> sagaReaches False stock s'"
proof (induction as arbitrary: s)
  case (Cons a as)
  from Cons.prems(1) obtain s1 where "act a s = Some s1" "acts as s1 = Some s'" by (auto split: option.splits)
  with Cons.IH[of s1] act_step Cons.prems(2) show ?case
    unfolding sagaReaches_def by (meson rtranclp.rtrancl_into_rtrancl)
qed simp

text \<open>The demonstration of the example, with the reservation of the first order delivered twice.\<close>

definition demonstration :: "saga_pattern_action list" where
  "demonstration =
     [PlaceIt ''ord-1'' ''WIDGET'' 1 100, DeliverIt 0 Reservation, DeliverIt 0 Reservation, DeliverIt 1 Payment, DeliverIt 2 Shipment,
      PlaceIt ''ord-2'' ''WIDGET'' 2 12000, DeliverIt 4 Reservation, DeliverIt 5 Payment, DeliverIt 6 Compensation,
      PlaceIt ''ord-3'' ''WIDGET'' 10 100, DeliverIt 7 Reservation, DeliverIt 8 Compensation]"

lemma demonstration_ends:
  "map_option (\<lambda>s. (allCompleted s, map (\<lambda>o1. map_option so_status (sagaOrders s o1)) [''ord-1'', ''ord-2'', ''ord-3''],
      stockItems s ''WIDGET'')) (acts demonstration (sagaOpened gadgets)) =
    Some (True, [Some ''shipped'', Some ''failed-payment'', Some ''failed-reservation''], Some 4)"
  by code_simp

section \<open>The properties\<close>

text \<open>
  C21. Delivering the messages of the saga at least once is as good as delivering them exactly once.
  Whatever orders are placed and whenever messages come again, the tables and messages that can
  be reached are those that can be reached when no message ever comes again.
\<close>

theorem redelivered_steps_change_nothing:
  "{forget s |s. sagaReaches False stock s} = {forget s |s. sagaReaches True stock s}"
  unfolding sagaReaches_steps by (rule saga.redelivery_changes_nothing[OF sagaOpened_recorded])

text \<open>
  C22. The tables of the saga implement its machine. From any state that requests and deliveries,
  repeated ones included, have reached, a further request or delivery changes nothing of the
  machine's state or is one of its transitions: an order enters the book, its stock is taken from
  the shelf or it is refused because there is not enough, it is paid or declined by its amount,
  shipped once paid, or its stock put back once declined.
\<close>

theorem saga_steps_refine_machine:
  assumes "sagaReaches once stock s" and "app_step placesOrder stepSubscribed handleStep once s s'"
  shows "specOf s' = specOf s \<or> fulfils (specOf s) (specOf s')"
  by (rule app_step_fulfils[OF sagaReaches_sound[OF assms(1)] assms(2)])

lemma saga_steps_refine_machine_witness:
  "\<exists>s s'. sagaReaches False gadgets s \<and> app_step placesOrder stepSubscribed handleStep False s s' \<and>
    (specOf s' = specOf s \<or> fulfils (specOf s) (specOf s')) \<and>
    map_option snd (book (specOf s) ''ord-2'') = Some AtDeclined \<and> map_option snd (book (specOf s') ''ord-2'') = Some AtReleased"
proof -
  let ?look = "\<lambda>s. map_option snd (book (specOf s) ''ord-2'')"
  have "map_option (\<lambda>s. (?look s, map_option ?look (act (DeliverIt 6 Compensation) s))) (acts (take 8 demonstration) (sagaOpened gadgets)) =
      Some (Some AtDeclined, Some (Some AtReleased))"
    by code_simp
  then obtain s s' where s: "acts (take 8 demonstration) (sagaOpened gadgets) = Some s" "act (DeliverIt 6 Compensation) s = Some s'"
    and stages: "?look s = Some AtDeclined" "?look s' = Some AtReleased" by auto
  have "sagaReaches False gadgets s" by (rule acts_reach[OF s(1)]) (simp add: sagaReaches_def)
  with saga_steps_refine_machine[OF this act_step[OF s(2)]] act_step[OF s(2)] stages show ?thesis by blast
qed

text \<open>
  When every message has been completed, every order has come to one of its three ends and the
  stock adds up. An order is shipped if it was charged for its amount, which was authorised; or its
  payment was declined and it is marked so; or it was refused for lack of stock and never charged.
  What is on the shelf of a product, at any time, is what was there at the start less the
  quantities of the orders that are reserved or shipped.
\<close>

theorem saga_orders_end:
  assumes "sagaReaches once stock s" and "allCompleted s" and "sagaOrders s oid = Some row"
  shows "(so_status row = ''shipped'' \<and> so_amount row < UNAUTHORISED_AMOUNT \<and>
      map_option (\<lambda>p. (sp_amount p, sp_status p)) (sagaPayments s oid) = Some (so_amount row, ''charged'') \<or>
    so_status row = ''failed-payment'' \<and> UNAUTHORISED_AMOUNT \<le> so_amount row \<and>
      map_option (\<lambda>p. (sp_amount p, sp_status p)) (sagaPayments s oid) = Some (so_amount row, ''failed'') \<or>
    so_status row = ''failed-reservation'' \<and> sagaPayments s oid = None) \<and>
    stockItems s sku = map_option (\<lambda>n. n - heldQuantity s sku) (stock sku)"
proof -
  have recorded: "saga.recorded s" by (rule sagaReaches_recorded[OF assms(1)])
  obtain st where at: "atStage s oid row st" by (rule sound_stage[OF sagaReaches_sound[OF assms(1)] assms(3)])
  note f = atStage_fields[OF at]
  from completed_stage[OF recorded assms(2) at] show ?thesis
    using f stock_on_shelf[OF assms(1)] by (auto simp: paymentAt_def authorised_def)
qed

lemma saga_orders_end_witness:
  "\<exists>s row. acts demonstration (sagaOpened gadgets) = Some s \<and> sagaOrders s ''ord-1'' = Some row \<and>
    so_status row = ''shipped'' \<and> so_amount row < UNAUTHORISED_AMOUNT \<and> stockItems s ''WIDGET'' = Some (5 - heldQuantity s ''WIDGET'')"
proof -
  obtain s row where s: "acts demonstration (sagaOpened gadgets) = Some s" "allCompleted s" "sagaOrders s ''ord-1'' = Some row"
    "so_status row = ''shipped''"
    using demonstration_ends by auto
  have "sagaReaches False gadgets s" by (rule acts_reach[OF s(1)]) (simp add: sagaReaches_def)
  from saga_orders_end[OF this s(2,3), of "''WIDGET''"] s show ?thesis by (auto simp: gadgets_def)
qed

text \<open>
  The saga settles. From any reachable state of orders that name no negative quantity, with an
  inbox that is not lost, only boundedly many deliveries are possible, and as long as a message is
  not completed its handler returns and the relay can deliver it.
\<close>

theorem saga_deliveries_end:
  assumes "sagaReaches True stock s" and "sensible s" and "stockRange stock"
  shows "(\<forall>n t. (relays stepSubscribed handleStep True ^^ n) s t \<longrightarrow> n + stepLoad t \<le> stepLoad s) \<and>
    (allCompleted s \<or> (\<exists>t. relays stepSubscribed handleStep True s t))"
  using deliveries_lighten[OF _ assms(1)] due_relays[OF assms] by blast

lemma saga_deliveries_end_witness:
  "\<exists>s. sagaReaches True gadgets s \<and> stepLoad s = 3 \<and> (\<exists>t. relays stepSubscribed handleStep True s t)"
proof -
  have "map_option (\<lambda>s. (stepLoad s, allCompleted s, sagaOrders s ''ord-1'', messages s))
      (case placeSagaOrder ''ord-1'' ''WIDGET'' 1 100 (sagaOpened gadgets) of Some (Resolve u, s) \<Rightarrow> Some s | _ \<Rightarrow> None) =
    Some (3, False, Some \<lparr>so_id = ''ord-1'', so_sku = ''WIDGET'', so_quantity = 1, so_amount = 100, so_status = ''placed''\<rparr>,
      [(OrderPlaced_ev ''ord-1'' ''WIDGET'' 1 100, [])])"
    by code_simp
  then obtain s where run: "placeSagaOrder ''ord-1'' ''WIDGET'' 1 100 (sagaOpened gadgets) = Some (Resolve (), s)"
    and s: "stepLoad s = 3" "\<not> allCompleted s" by (auto split: option.splits outcome.splits prod.splits)
  have step: "placesOrder (sagaOpened gadgets) s" using run by (auto simp: placesOrder_def)
  then have reach: "sagaReaches True gadgets s" by (auto simp: sagaReaches_def app_step_def intro: r_into_rtranclp)
  have "s = emit (OrderPlaced_ev ''ord-1'' ''WIDGET'' 1 100) ((sagaOpened gadgets)\<lparr>sagaOrders :=
      [''ord-1'' \<mapsto> \<lparr>so_id = ''ord-1'', so_sku = ''WIDGET'', so_quantity = 1, so_amount = 100, so_status = ''placed''\<rparr>]\<rparr>)"
    using run by (simp add: placeSagaOrder_def transactional_def andThen_def saga_sql sagaOpened_def int4_def)
  then have "sensible s" by (auto simp: sensible_def sagaOpened_def split: if_splits)
  moreover have "stockRange gadgets" by (auto simp: stockRange_def gadgets_def int4_def split: if_splits)
  ultimately show ?thesis using saga_deliveries_end[OF reach] s reach by blast
qed

end
