(* ===== verification/Audit_Logging.thy ===== *)
theory Audit_Logging
  imports Outbox Outbox_Relay
begin

text \<open>
  \<open>examples/audit-logging/src\<close>: accounts in a business database and an audit log in another. An
  operation changes a balance, keeps a record of itself and publishes an event in one transaction
  of the business database; a handler of the outbox writes the event to the audit database in a
  transaction there. The audit database is a field of the state, with its own transactions.

  A service call reads the account before it writes it. Other calls can commit in between: until
  the \<open>UPDATE\<close> a call holds no lock on the row, and from the \<open>UPDATE\<close> to the commit it holds the one
  it needs. So a call takes two steps, the \<open>SELECT\<close> and the rest up to its commit.
\<close>

section \<open>Tables\<close>

datatype operation_type = deposit_op | withdraw_op

datatype account_event = AccountOperationEvent string string operation_type int int

fun operationId :: "account_event \<Rightarrow> string" where
  "operationId (AccountOperationEvent i acc ty amount after) = i"

fun accountId :: "account_event \<Rightarrow> string" where
  "accountId (AccountOperationEvent i acc ty amount after) = acc"

fun balanceAfter :: "account_event \<Rightarrow> int" where
  "balanceAfter (AccountOperationEvent i acc ty amount after) = after"

fun signedAmount :: "account_event \<Rightarrow> int" where
  "signedAmount (AccountOperationEvent i acc deposit_op amount after) = amount"
| "signedAmount (AccountOperationEvent i acc withdraw_op amount after) = - amount"

fun typeString :: "operation_type \<Rightarrow> string" where
  "typeString deposit_op = ''deposit''"
| "typeString withdraw_op = ''withdraw''"

fun accountObject :: "nat \<Rightarrow> account_event \<Rightarrow> jsv" where
  "accountObject a (AccountOperationEvent i acc ty amount after) =
     JObj a [''AccountOperationEvent'']
       [(''operationId'', JStr i), (''accountId'', JStr acc), (''type'', JStr (typeString ty)),
        (''amount'', JNum (JInt amount)), (''balanceAfter'', JNum (JInt after))]"

record operation_row =
  op_id :: string
  op_accountId :: string
  op_type :: operation_type
  op_amount :: int
  op_balanceAfter :: int
  op_occurredAt :: nat

record audit_row =
  au_operationId :: string
  au_accountId :: string
  au_type :: operation_type
  au_amount :: int
  au_balanceAfter :: int
  au_recordedAt :: nat

record audit_db = pg +
  auditLog :: "string \<Rightarrow> audit_row option"

datatype audit_consumer = LogOperation

record bank = "(account_event, audit_consumer) outbox_db" +
  accounts :: "string \<Rightarrow> int option"
  operations :: "string \<Rightarrow> operation_row option"
  auditDb :: audit_db

section \<open>The service\<close>

definition EntityNotFoundError :: jsv where
  "EntityNotFoundError = JObj 0 [''EntityNotFoundError'', ''TypeORMError'', ''Error''] []"

definition insufficientFunds :: jsv where
  "insufficientFunds = JObj 0 [''Error''] []"

definition findOneByOrFail :: "string \<Rightarrow> (bank, int) comp" where
  "findOneByOrFail acc = andThen (statement (\<lambda>s. Inr (accounts s acc, s)))
     (\<lambda>found. case found of None \<Rightarrow> throw EntityNotFoundError | Some balance \<Rightarrow> ret balance)"

definition updateBalance :: "string \<Rightarrow> int \<Rightarrow> (bank, nat) comp" where
  "updateBalance acc balance = statement (\<lambda>s.
     if \<not> int4 balance then Inl outOfRange
     else (case accounts s acc of
             None \<Rightarrow> Inr (0, s)
           | Some old \<Rightarrow> Inr (1, s\<lparr>accounts := (accounts s)(acc \<mapsto> balance)\<rparr>)))"

definition insertOperation :: "operation_row \<Rightarrow> (bank, unit) comp" where
  "insertOperation row = statement (\<lambda>s.
     if \<not> int4 (op_amount row) \<or> \<not> int4 (op_balanceAfter row) then Inl outOfRange
     else if operations s (op_id row) \<noteq> None then Inl uniqueViolation
     else Inr ((), s\<lparr>operations := (operations s)(op_id row \<mapsto> row)\<rparr>))"

definition applyOperation :: "nat \<Rightarrow> string \<Rightarrow> string \<Rightarrow> operation_type \<Rightarrow> int \<Rightarrow> int \<Rightarrow> (bank, unit) comp" where
  "applyOperation date acc i ty amount after =
     andThen (updateBalance acc after) (\<lambda>_.
       andThen (insertOperation \<lparr>op_id = i, op_accountId = acc, op_type = ty, op_amount = amount,
                 op_balanceAfter = after, op_occurredAt = date\<rparr>) (\<lambda>_.
         publishMessage (AccountOperationEvent i acc ty amount after)))"

text \<open>The two methods, from the \<open>SELECT\<close> on.\<close>

definition depositRest :: "nat \<Rightarrow> string \<Rightarrow> string \<Rightarrow> int \<Rightarrow> int \<Rightarrow> (bank, unit) comp" where
  "depositRest date acc i amount balance =
     (let newBalance = balance + amount in applyOperation date acc i deposit_op amount newBalance)"

definition withdrawRest :: "nat \<Rightarrow> string \<Rightarrow> string \<Rightarrow> int \<Rightarrow> int \<Rightarrow> (bank, unit) comp" where
  "withdrawRest date acc i amount balance =
     (if balance < amount then throw insufficientFunds
      else (let newBalance = balance - amount in applyOperation date acc i withdraw_op amount newBalance))"

definition deposit :: "nat \<Rightarrow> string \<Rightarrow> string \<Rightarrow> int \<Rightarrow> (bank, unit) comp" where
  "deposit date acc i amount = transactional (andThen (findOneByOrFail acc) (depositRest date acc i amount))"

definition withdraw :: "nat \<Rightarrow> string \<Rightarrow> string \<Rightarrow> int \<Rightarrow> (bank, unit) comp" where
  "withdraw date acc i amount = transactional (andThen (findOneByOrFail acc) (withdrawRest date acc i amount))"

section \<open>The audit handler\<close>

definition onAudit :: "(audit_db, 'a) comp \<Rightarrow> (bank, 'a) comp" where
  "onAudit f s = (case f (auditDb s) of None \<Rightarrow> None | Some (r, d) \<Rightarrow> Some (r, s\<lparr>auditDb := d\<rparr>))"

definition insertAudit :: "audit_row \<Rightarrow> (audit_db, unit) comp" where
  "insertAudit row = statement (\<lambda>d.
     if \<not> int4 (au_amount row) \<or> \<not> int4 (au_balanceAfter row) then Inl outOfRange
     else if auditLog d (au_operationId row) \<noteq> None then Inl uniqueViolation
     else Inr ((), d\<lparr>auditLog := (auditLog d)(au_operationId row \<mapsto> row)\<rparr>))"

fun logOperation :: "nat \<Rightarrow> account_event \<Rightarrow> (bank, unit) comp" where
  "logOperation date (AccountOperationEvent i acc ty amount after) = onAudit (transactional
     (catching (insertAudit \<lparr>au_operationId = i, au_accountId = acc, au_type = ty, au_amount = amount,
                 au_balanceAfter = after, au_recordedAt = date\<rparr>)
        (\<lambda>err. if isUniqueViolation err then ret () else throw err)))"

fun auditTopics :: "audit_consumer \<Rightarrow> string list" where
  "auditTopics LogOperation = [''AccountOperationEvent'']"

definition auditSubscribed :: "audit_consumer \<Rightarrow> account_event \<Rightarrow> bool" where
  "auditSubscribed c ev \<longleftrightarrow> topic (toMessage noExternalized (accountObject 0 ev)) \<in> set (auditTopics c)"

fun handleAudit :: "audit_consumer \<Rightarrow> nat \<Rightarrow> account_event \<Rightarrow> (bank, unit) comp" where
  "handleAudit LogOperation date ev = logOperation date ev"

section \<open>Runs\<close>

datatype account_call = Deposit string string int | Withdraw string string int

fun callAccount :: "account_call \<Rightarrow> string" where
  "callAccount (Deposit acc i amount) = acc"
| "callAccount (Withdraw acc i amount) = acc"

fun callRest :: "nat \<Rightarrow> account_call \<Rightarrow> int \<Rightarrow> (bank, unit) comp" where
  "callRest date (Deposit acc i amount) balance = depositRest date acc i amount balance"
| "callRest date (Withdraw acc i amount) balance = withdrawRest date acc i amount balance"

fun accountCall :: "nat \<Rightarrow> account_call \<Rightarrow> (bank, unit) comp" where
  "accountCall date (Deposit acc i amount) = deposit date acc i amount"
| "accountCall date (Withdraw acc i amount) = withdraw date acc i amount"

text \<open>One call after the other.\<close>

definition serves :: "bank \<Rightarrow> bank \<Rightarrow> bool" where
  "serves s s' \<longleftrightarrow> (\<exists>date call. accountCall date call s = Some (Resolve (), s'))"

text \<open>
  Calls that overlap: beside the databases there are the calls that have read their account, with
  the balance they read.
\<close>

inductive overlaps :: "bank \<times> (account_call \<times> int) list \<Rightarrow> bank \<times> (account_call \<times> int) list \<Rightarrow> bool" where
  reads: "findOneByOrFail (callAccount call) s = Some (Resolve balance, s) \<Longrightarrow> overlaps (s, running) (s, running @ [(call, balance)])"
| commits: "i < length running \<Longrightarrow> running ! i = (call, balance) \<Longrightarrow> transactional (callRest date call balance) s = Some (r, s') \<Longrightarrow>
    overlaps (s, running) (s', take i running @ drop (Suc i) running)"
| audits: "relays auditSubscribed handleAudit False s s' \<Longrightarrow> overlaps (s, running) (s', running)"

definition bankOpened :: "(string \<Rightarrow> int option) \<Rightarrow> bank" where
  "bankOpened balances =
     \<lparr>aborted = False, messages = [], accounts = balances, operations = Map.empty,
      auditDb = \<lparr>aborted = False, auditLog = Map.empty\<rparr>\<rparr>"

definition serialReaches :: "(string \<Rightarrow> int option) \<Rightarrow> bank \<Rightarrow> bool" where
  "serialReaches balances s \<longleftrightarrow> (app_step serves auditSubscribed handleAudit False)\<^sup>*\<^sup>* (bankOpened balances) s"

definition overlapReaches :: "(string \<Rightarrow> int option) \<Rightarrow> bank \<Rightarrow> bool" where
  "overlapReaches balances s \<longleftrightarrow> (\<exists>running. overlaps\<^sup>*\<^sup>* (bankOpened balances, []) (s, running))"

end
