(* ===== verification/Audit_Properties.thy ===== *)
theory Audit_Properties
  imports Audit_Logging
begin

text \<open>
  The accounts and the audit log of \<open>Audit_Logging\<close>. However calls overlap and messages come
  again, the log is a copy of the operations that committed, complete when the outbox is drained.
  The balances are another matter: calls one after the other keep them, overlapping ones do not.
\<close>

section \<open>What a call leaves\<close>

lemma aborted_audit [simp]: "aborted (s\<lparr>auditDb := d\<rparr>) = aborted s" for s :: bank
  by (cases s) simp

lemma aborted_messages [simp]: "aborted (s\<lparr>messages := ms\<rparr>) = aborted s" for s :: bank
  by (cases s) simp

fun callOperation :: "account_call \<Rightarrow> int \<Rightarrow> account_event" where
  "callOperation (Deposit acc i amount) balance = AccountOperationEvent i acc deposit_op amount (balance + amount)"
| "callOperation (Withdraw acc i amount) balance = AccountOperationEvent i acc withdraw_op amount (balance - amount)"

fun covered :: "account_call \<Rightarrow> int \<Rightarrow> bool" where
  "covered (Deposit acc i amount) balance = True"
| "covered (Withdraw acc i amount) balance = (amount \<le> balance)"

fun operationRow :: "nat \<Rightarrow> account_event \<Rightarrow> operation_row" where
  "operationRow date (AccountOperationEvent i acc ty amount after) =
     \<lparr>op_id = i, op_accountId = acc, op_type = ty, op_amount = amount, op_balanceAfter = after, op_occurredAt = date\<rparr>"

fun auditRow :: "nat \<Rightarrow> account_event \<Rightarrow> audit_row" where
  "auditRow date (AccountOperationEvent i acc ty amount after) =
     \<lparr>au_operationId = i, au_accountId = acc, au_type = ty, au_amount = amount, au_balanceAfter = after, au_recordedAt = date\<rparr>"

fun storable :: "account_event \<Rightarrow> bool" where
  "storable (AccountOperationEvent i acc ty amount after) = (int4 amount \<and> int4 after)"

text \<open>The event a row was written from.\<close>

definition operationEvent :: "operation_row \<Rightarrow> account_event" where
  "operationEvent row = AccountOperationEvent (op_id row) (op_accountId row) (op_type row) (op_amount row) (op_balanceAfter row)"

definition auditEvent :: "audit_row \<Rightarrow> account_event" where
  "auditEvent row = AccountOperationEvent (au_operationId row) (au_accountId row) (au_type row) (au_amount row) (au_balanceAfter row)"

lemma row_events [simp]: "operationEvent (operationRow date ev) = ev" "auditEvent (auditRow date ev) = ev"
  by (cases ev; simp add: operationEvent_def auditEvent_def)+

lemma call_names [simp]:
  "accountId (callOperation call balance) = callAccount call"
  "balanceAfter (callOperation call balance) = balance + signedAmount (callOperation call balance)"
  by (cases call; simp)+

definition operated :: "nat \<Rightarrow> account_event \<Rightarrow> bank \<Rightarrow> bank" where
  "operated date ev s = emit ev (s\<lparr>
     accounts := (accounts s)(accountId ev := map_option (\<lambda>_. balanceAfter ev) (accounts s (accountId ev))),
     operations := (operations s)(operationId ev \<mapsto> operationRow date ev)\<rparr>)"

lemma operated_fields [simp]:
  "aborted (operated date ev s) = aborted s" "events (operated date ev s) = events s @ [ev]"
  "messages (operated date ev s) = messages s @ [(ev, [])]" "auditDb (operated date ev s) = auditDb s"
  "operations (operated date ev s) = (operations s)(operationId ev \<mapsto> operationRow date ev)"
  "accounts (operated date ev s) = (accounts s)(accountId ev := map_option (\<lambda>_. balanceAfter ev) (accounts s (accountId ev)))"
  by (simp_all add: operated_def emit_def events_def)


lemma call_effect:
  assumes "transactional (callRest date call balance) s = Some (Resolve (), s')" and "\<not> aborted s"
  shows "operations s (operationId (callOperation call balance)) = None \<and> storable (callOperation call balance) \<and>
    covered call balance \<and> s' = operated date (callOperation call balance) s"
  using assms
  by (cases call)
    (auto simp: transactional_def andThen_def depositRest_def withdrawRest_def applyOperation_def updateBalance_def
      insertOperation_def statement_def publishMessage_run operated_def fun_upd_idem Let_def
      split: if_splits option.splits outcome.splits)

lemma find_then:
  assumes "\<not> aborted s"
  shows "transactional (andThen (findOneByOrFail acc) g) s =
    (case accounts s acc of None \<Rightarrow> Some (Reject EntityNotFoundError, s) | Some balance \<Rightarrow> transactional (g balance) s)"
  using assms
  by (auto simp: transactional_def andThen_def findOneByOrFail_def statement_def split: option.splits)

lemma serial_call:
  assumes "accountCall date call s = Some (Resolve (), s')" and "\<not> aborted s"
  shows "\<exists>balance. accounts s (callAccount call) = Some balance \<and>
    transactional (callRest date call balance) s = Some (Resolve (), s')"
  using assms(1)
  by (cases call) (auto simp: deposit_def withdraw_def find_then[OF assms(2)] split: option.splits)

section \<open>Soundness\<close>

definition published :: "bank \<Rightarrow> string \<Rightarrow> account_event option" where
  "published s = map_of (map (\<lambda>ev. (operationId ev, ev)) (events s))"

definition bankSound :: "bank \<Rightarrow> bool" where
  "bankSound s \<longleftrightarrow> \<not> aborted s \<and> \<not> aborted (auditDb s) \<and> distinct (map operationId (events s)) \<and>
     (\<forall>ev\<in>set (events s). storable ev) \<and>
     (\<forall>i. map_option operationEvent (operations s i) = published s i) \<and>
     (\<forall>i row. auditLog (auditDb s) i = Some row \<longrightarrow> published s i = Some (auditEvent row))"

lemma published_event:
  assumes "bankSound s" and "ev \<in> set (events s)"
  shows "published s (operationId ev) = Some ev"
proof -
  have "distinct (map fst (map (\<lambda>ev. (operationId ev, ev)) (events s)))"
    using assms(1) by (simp add: bankSound_def o_def)
  then show ?thesis using assms(2) by (simp add: published_def map_of_eq_Some_iff)
qed

lemma published_operated: "published (operated date ev s) = (\<lambda>i. case published s i of None \<Rightarrow> if i = operationId ev then Some ev else None | x \<Rightarrow> x)"
  by (auto simp: published_def map_add_def fun_eq_iff split: option.splits)

text \<open>A call commits, whatever balance it has read.\<close>

definition commitsCall :: "bank \<Rightarrow> bank \<Rightarrow> bool" where
  "commitsCall s s' \<longleftrightarrow> (\<exists>date call balance. transactional (callRest date call balance) s = Some (Resolve (), s'))"

lemma commit_sound:
  assumes "bankSound s" and "commitsCall s s'"
  shows "bankSound s'"
proof -
  from assms(2) obtain date call balance where run: "transactional (callRest date call balance) s = Some (Resolve (), s')"
    by (auto simp: commitsCall_def)
  have clean: "\<not> aborted s" using assms(1) by (simp add: bankSound_def)
  define ev where "ev = callOperation call balance"
  from call_effect[OF run clean] have new: "operations s (operationId ev) = None" "storable ev" "s' = operated date ev s"
    by (simp_all add: ev_def)
  have fresh: "published s (operationId ev) = None" using assms(1) new(1) by (auto simp: bankSound_def dest: spec[of _ "operationId ev"])
  then have "operationId ev \<notin> operationId ` set (events s)" by (force simp: published_def map_of_eq_None_iff)
  then show ?thesis
    using assms(1) new fresh unfolding bankSound_def published_operated new(3)
    by (auto split: option.splits)
qed

section \<open>The audit handler\<close>

fun auditHandled :: "audit_consumer \<Rightarrow> account_event \<Rightarrow> bank \<Rightarrow> bool" where
  "auditHandled c ev s = (auditLog (auditDb s) (operationId ev) \<noteq> None)"

lemma logOperation_run:
  assumes "\<not> aborted (auditDb s)" and "storable ev"
  shows "logOperation date ev s = Some (Resolve (),
    if auditLog (auditDb s) (operationId ev) \<noteq> None then s
    else s\<lparr>auditDb := (auditDb s)\<lparr>auditLog := (auditLog (auditDb s))(operationId ev \<mapsto> auditRow date ev)\<rparr>\<rparr>)"
  using assms
  by (cases ev) (auto simp: onAudit_def transactional_def catching_def insertAudit_def statement_def)

lemma audit_effect:
  assumes "bankSound s" and "ev \<in> set (events s)" and "handleAudit c date ev s = Some (Resolve (), s')"
  shows "s' = (if auditHandled c ev s then s
    else s\<lparr>auditDb := (auditDb s)\<lparr>auditLog := (auditLog (auditDb s))(operationId ev \<mapsto> auditRow date ev)\<rparr>\<rparr>)"
proof -
  have "\<not> aborted (auditDb s)" "storable ev" using assms(1,2) by (auto simp: bankSound_def)
  from logOperation_run[OF this, of date] assms(3) show ?thesis by (cases c) auto
qed

lemma audit_sound:
  assumes "bankSound s" and "ev \<in> set (events s)" and "auditSubscribed c ev" and "handleAudit c date ev s = Some (Resolve (), s')"
  shows "bankSound s'"
proof -
  have same: "events (s\<lparr>auditDb := d\<rparr>) = events s" "published (s\<lparr>auditDb := d\<rparr>) = published s" for d
    by (simp_all add: published_def events_def)
  show ?thesis
    using assms(1) published_event[OF assms(1,2)] unfolding audit_effect[OF assms(1,2,4)]
    by (auto simp: bankSound_def same split: if_splits)
qed

lemma rest_blind: "blind (transactional (callRest date call balance))"
  by (cases call)
    (auto simp: depositRest_def withdrawRest_def applyOperation_def updateBalance_def insertOperation_def Let_def
      intro!: blind_intros split: if_splits option.splits)

lemma swap_updates: "s\<lparr>messages := ms, auditDb := d\<rparr> = s\<lparr>auditDb := d, messages := ms\<rparr>"
  by (cases s) simp

lemma onAudit_blind: "blind (onAudit f)"
  by (rule blindI) (auto simp: onAudit_def swap_updates split: option.splits intro!: exI[of _ "[]"])

lemma forget_bank [simp]:
  "accounts (forget s) = accounts s" "operations (forget s) = operations s" "auditDb (forget s) = auditDb s"
  "published (forget s) = published s"
  by (simp_all add: forget_def published_def) (simp add: events_def fresh_message_def o_def)

interpretation audit: idempotent_consumers commitsCall auditSubscribed handleAudit auditHandled bankSound
proof (rule idempotent_consumers.intro)
  fix c m date assume "auditSubscribed c m"
  show "blind (handleAudit c date m)" by (cases c; cases m) (simp add: onAudit_blind)
next
  fix s s' assume "commitsCall s s'"
  then obtain date call balance where "transactional (callRest date call balance) s = Some (Resolve (), s')"
    by (auto simp: commitsCall_def)
  from blindD[OF rest_blind this] show "\<exists>new. messages s' = messages s @ map fresh_message new \<and>
      (\<forall>ms. commitsCall (s\<lparr>messages := ms\<rparr>) (s'\<lparr>messages := ms @ map fresh_message new\<rparr>))"
    unfolding commitsCall_def by blast
next
  fix s show "bankSound (forget s) = bankSound s" by (simp add: bankSound_def)
next
  fix s m c date s' assume "bankSound s" "m \<in> set (events s)" "auditSubscribed c m" "handleAudit c date m s = Some (Resolve (), s')"
  from audit_effect[OF this(1,2,4)] show "auditHandled c m s'" by auto
next
  fix s m c s' assume "bankSound s" "m \<in> set (events s)" "auditHandled c m s" "commitsCall s s'"
  then obtain date call balance where "transactional (callRest date call balance) s = Some (Resolve (), s')" "\<not> aborted s"
    by (auto simp: commitsCall_def bankSound_def)
  from call_effect[OF this] \<open>auditHandled c m s\<close> show "auditHandled c m s'" by simp
next
  fix s m c n d date s' assume "bankSound s" "m \<in> set (events s)" "auditHandled c m s" "n \<in> set (events s)"
    "auditSubscribed d n" "handleAudit d date n s = Some (Resolve (), s')"
  from audit_effect[OF this(1,4,6)] \<open>auditHandled c m s\<close> show "auditHandled c m s'" by auto
next
  fix s m c date s' assume "bankSound s" "m \<in> set (events s)" "auditSubscribed c m" "auditHandled c m s"
    "handleAudit c date m s = Some (Resolve (), s')"
  from audit_effect[OF this(1,2,5)] this(4) show "s' = s" by simp
next
  fix c m s show "auditHandled c m (forget s) = auditHandled c m s" by simp
qed (erule (1) commit_sound audit_sound)+

section \<open>Runs\<close>

lemma complete_bank [simp]:
  "accounts (complete i c s) = accounts s" "operations (complete i c s) = operations s" "auditDb (complete i c s) = auditDb s"
  by (simp_all add: complete_def)

lemma bankOpened_recorded: "audit.recorded (bankOpened balances)"
  by (simp add: audit.recorded_def bankSound_def bankOpened_def published_def events_def)

lemma overlaps_app:
  assumes "overlaps (s, running) (s', running')"
  shows "s' = s \<or> app_step commitsCall auditSubscribed handleAudit False s s'"
  using assms
proof cases
  case (commits i call balance date r)
  show ?thesis
  proof (cases r)
    case (Reject e)
    then show ?thesis using transactional_rejects commits(4) by blast
  qed (use commits in \<open>auto simp: app_step_def commitsCall_def\<close>)
qed (auto simp: app_step_def)

lemma overlap_steps:
  assumes "overlapReaches balances s"
  shows "audit.steps False (bankOpened balances) s"
proof -
  have "audit.steps False (bankOpened balances) (fst z)" if "overlaps\<^sup>*\<^sup>* (bankOpened balances, []) z" for z
    using that
  proof (induction rule: rtranclp_induct)
    case base
    show ?case by (simp add: audit.steps_def)
  next
    case (step y z)
    from overlaps_app[of "fst y" "snd y" "fst z" "snd z"] step(2,3) show ?case
      unfolding audit.steps_def by (auto intro: rtranclp.rtrancl_into_rtrancl)
  qed
  then have "audit.steps False (bankOpened balances) (fst (s, running))" if "overlaps\<^sup>*\<^sup>* (bankOpened balances, []) (s, running)" for running
    using that by blast
  then show ?thesis using assms by (auto simp: overlapReaches_def)
qed

lemma serial_app:
  assumes "bankSound s" and "app_step serves auditSubscribed handleAudit False s s'"
  shows "app_step commitsCall auditSubscribed handleAudit False s s'"
  using assms serial_call by (auto simp: app_step_def serves_def commitsCall_def bankSound_def) blast

lemma serial_steps:
  assumes "serialReaches balances s"
  shows "audit.steps False (bankOpened balances) s"
  using assms unfolding serialReaches_def
proof (induction rule: rtranclp_induct)
  case (step s s')
  have "bankSound s" using audit.steps_recorded[OF step(3) bankOpened_recorded] by (simp add: audit.recorded_def)
  from serial_app[OF this step(2)] step(3) show ?case
    unfolding audit.steps_def by (auto intro: rtranclp.rtrancl_into_rtrancl)
qed (simp add: audit.steps_def)

definition auditCompleted :: "bank \<Rightarrow> bool" where
  "auditCompleted s \<longleftrightarrow> list_all (\<lambda>(m, inbox). LogOperation \<in> set inbox) (messages s)"

lemma audit_subscribed [simp]: "auditSubscribed LogOperation ev"
  by (cases ev) (simp add: auditSubscribed_def toMessage_def noExternalized_def Let_def)

lemma completed_logged:
  assumes "audit.recorded s" and "auditCompleted s" and "ev \<in> set (events s)"
  shows "auditLog (auditDb s) (operationId ev) \<noteq> None"
proof -
  obtain inbox where mem: "(ev, inbox) \<in> set (messages s)" using assms(3) by (auto simp: events_def)
  then have "LogOperation \<in> set inbox" using assms(2) by (auto simp: auditCompleted_def list_all_iff)
  then have "auditHandled LogOperation ev s" using assms(1) mem unfolding audit.recorded_def by blast
  then show ?thesis by simp
qed

text \<open>The two tables, as what was recorded of each operation.\<close>

definition operationTable :: "bank \<Rightarrow> string \<Rightarrow> account_event option" where
  "operationTable s i = map_option operationEvent (operations s i)"

definition auditTable :: "bank \<Rightarrow> string \<Rightarrow> account_event option" where
  "auditTable s i = map_option auditEvent (auditLog (auditDb s) i)"

text \<open>
  C23. The audit log is a faithful copy of the business database. However service calls overlap,
  and however often messages are delivered, the operations are those that were published, each
  once; every row of the audit log has the fields of the operation of its id, which has committed;
  and when every message has been completed no operation is missing from the log.
\<close>

theorem audit_log_mirrors_operations:
  assumes "overlapReaches balances s"
  shows "distinct (map operationId (events s)) \<and>
    operationTable s = map_of (map (\<lambda>ev. (operationId ev, ev)) (events s)) \<and>
    auditTable s \<subseteq>\<^sub>m operationTable s \<and>
    (auditCompleted s \<longrightarrow> auditTable s = operationTable s)"
proof -
  have recorded: "audit.recorded s" by (rule audit.steps_recorded[OF overlap_steps[OF assms] bankOpened_recorded])
  then have sound: "bankSound s" by (simp add: audit.recorded_def)
  then have ops: "operationTable s = published s" by (simp add: bankSound_def operationTable_def fun_eq_iff)
  have sub: "auditTable s \<subseteq>\<^sub>m operationTable s"
    using sound unfolding ops by (auto simp: map_le_def auditTable_def bankSound_def)
  have "auditTable s i = operationTable s i" if "auditCompleted s" for i
  proof (cases "published s i")
    case None
    then show ?thesis using sub ops by (metis domIff map_le_implies_dom_le subsetD)
  next
    case (Some ev)
    then have "ev \<in> set (events s)" "operationId ev = i" by (auto simp: published_def dest!: map_of_SomeD)
    from completed_logged[OF recorded that this(1)] this(2) have "i \<in> dom (auditTable s)" by (auto simp: auditTable_def)
    then show ?thesis using sub by (simp add: map_le_def)
  qed
  then show ?thesis using sound sub ops by (auto simp: bankSound_def published_def)
qed

section \<open>Balances\<close>

definition accountTrail :: "bank \<Rightarrow> string \<Rightarrow> account_event list" where
  "accountTrail s acc = filter (\<lambda>ev. accountId ev = acc) (events s)"

text \<open>Replaying a trail: each operation starts from the balance the one before has left.\<close>

fun replayTrail :: "int \<Rightarrow> account_event list \<Rightarrow> int option" where
  "replayTrail balance [] = Some balance"
| "replayTrail balance (ev # evs) =
     (if balanceAfter ev = balance + signedAmount ev then replayTrail (balanceAfter ev) evs else None)"

lemma replayTrail_snoc:
  "replayTrail b (evs @ [ev]) =
    (case replayTrail b evs of None \<Rightarrow> None | Some b1 \<Rightarrow> if balanceAfter ev = b1 + signedAmount ev then Some (balanceAfter ev) else None)"
  by (induction evs arbitrary: b) auto

text \<open>
  Calls that run one after the other keep the books. The published operations of an account,
  in order, start from its first balance and each from the balance the one before recorded, and the
  last of them is the balance the account has.
\<close>

theorem serial_calls_keep_balance:
  assumes "serialReaches balances s" and "balances acc = Some opening"
  shows "replayTrail opening (accountTrail s acc) = accounts s acc"
  using assms(1) unfolding serialReaches_def
proof (induction rule: rtranclp_induct)
  case base
  then show ?case by (simp add: bankOpened_def accountTrail_def events_def assms(2))
next
  case (step s s')
  have "audit.recorded s"
    using audit.steps_recorded[OF serial_steps bankOpened_recorded] step(1) by (simp add: serialReaches_def)
  then have sound: "bankSound s" by (simp add: audit.recorded_def)
  then have clean: "\<not> aborted s" by (simp add: bankSound_def)
  from step(2) show ?case
    unfolding app_step_def
  proof
    assume "serves s s'"
    then obtain date call where "accountCall date call s = Some (Resolve (), s')" by (auto simp: serves_def)
    from serial_call[OF this clean] obtain balance where b: "accounts s (callAccount call) = Some balance"
      "transactional (callRest date call balance) s = Some (Resolve (), s')" by blast
    from call_effect[OF b(2) clean] have s': "s' = operated date (callOperation call balance) s" by simp
    show ?thesis
      using step(3) b(1) by (auto simp: s' accountTrail_def replayTrail_snoc)
  next
    assume "relays auditSubscribed handleAudit False s s'"
    then show ?thesis
    proof cases
      case (deliver i ev inbox c date s1)
      then have "ev \<in> set (events s)" by (metis audit.in_events nth_mem)
      from audit_effect[OF sound this deliver(6)] have "accounts s1 = accounts s" "events s1 = events s"
        by (auto simp: events_def)
      then show ?thesis using step(3) by (simp add: accountTrail_def deliver(1))
    qed
  qed
qed

section \<open>Examples\<close>

datatype overlap_action = ReadFor account_call | CommitNext nat | AuditMessage nat

fun overlapAct :: "overlap_action \<Rightarrow> bank \<times> (account_call \<times> int) list \<Rightarrow> (bank \<times> (account_call \<times> int) list) option" where
  "overlapAct (ReadFor call) (s, running) =
     (case findOneByOrFail (callAccount call) s of
        Some (Resolve balance, s1) \<Rightarrow> Some (s, running @ [(call, balance)])
      | _ \<Rightarrow> None)"
| "overlapAct (CommitNext date) (s, running) =
     (case running of
        [] \<Rightarrow> None
      | (call, balance) # rest \<Rightarrow>
          map_option (\<lambda>(r, s'). (s', rest)) (transactional (callRest date call balance) s))"
| "overlapAct (AuditMessage i) (s, running) =
     (if i < length (messages s)
      then (case handleAudit LogOperation i (fst (messages s ! i)) s of
              Some (Resolve u, s') \<Rightarrow> Some (complete i LogOperation s', running)
            | _ \<Rightarrow> None)
      else None)"

fun overlapActs :: "overlap_action list \<Rightarrow> bank \<times> (account_call \<times> int) list \<Rightarrow> (bank \<times> (account_call \<times> int) list) option" where
  "overlapActs [] z = Some z"
| "overlapActs (a # as) z = (case overlapAct a z of None \<Rightarrow> None | Some z' \<Rightarrow> overlapActs as z')"

lemma find_reads: "findOneByOrFail acc s = Some (Resolve balance, s1) \<Longrightarrow> s1 = s"
  by (auto simp: findOneByOrFail_def andThen_def statement_def split: if_splits option.splits)

lemma overlapAct_step: "overlapAct a z = Some z' \<Longrightarrow> overlaps z z'"
proof (cases a)
  case (ReadFor call)
  then show "overlapAct a z = Some z' \<Longrightarrow> overlaps z z'"
    using find_reads by (cases z) (auto split: option.splits outcome.splits prod.splits intro!: overlaps.reads)
next
  case (CommitNext date)
  then show "overlapAct a z = Some z' \<Longrightarrow> overlaps z z'"
    using overlaps.commits[of 0 "snd z" "fst (hd (snd z))" "snd (hd (snd z))" date "fst z"]
    by (cases z) (auto split: list.splits)
next
  case (AuditMessage i)
  then show "overlapAct a z = Some z' \<Longrightarrow> overlaps z z'"
    using relays.deliver[of i "fst z" "fst (messages (fst z) ! i)" "snd (messages (fst z) ! i)" auditSubscribed LogOperation
        False handleAudit i]
    by (cases z) (auto split: if_splits option.splits outcome.splits prod.splits intro!: overlaps.audits)
qed

lemma overlapActs_reach:
  "overlapActs as (bankOpened balances, []) = Some (s, running) \<Longrightarrow> overlapReaches balances s"
proof -
  have "overlaps\<^sup>*\<^sup>* z z'" if "overlapActs as z = Some z'" for z z'
    using that
  proof (induction as arbitrary: z)
    case (Cons a as)
    then show ?case by (auto split: option.splits) (meson converse_rtranclp_into_rtranclp overlapAct_step)
  qed simp
  then show "overlapActs as (bankOpened balances, []) = Some (s, running) \<Longrightarrow> overlapReaches balances s"
    unfolding overlapReaches_def by blast
qed

definition oneAccount :: "string \<Rightarrow> int option" where
  "oneAccount = [''acc-1'' \<mapsto> 100]"

definition two_withdrawals :: "overlap_action list" where
  "two_withdrawals = [ReadFor (Withdraw ''acc-1'' ''op-1'' 80), ReadFor (Withdraw ''acc-1'' ''op-2'' 60), CommitNext 1, CommitNext 2]"

lemma audit_log_mirrors_operations_witness:
  "\<exists>s. overlapReaches oneAccount s \<and> auditCompleted s \<and> auditTable s = operationTable s \<and>
    map_option signedAmount (auditTable s ''op-2'') = Some (-60)"
proof -
  have "map_option (\<lambda>(s, running). (auditCompleted s, map_option signedAmount (auditTable s ''op-2'')))
      (overlapActs (two_withdrawals @ [AuditMessage 1, AuditMessage 0, AuditMessage 1]) (bankOpened oneAccount, [])) =
    Some (True, Some (-60))"
    by code_simp
  then obtain s running
    where s: "overlapActs (two_withdrawals @ [AuditMessage 1, AuditMessage 0, AuditMessage 1]) (bankOpened oneAccount, []) = Some (s, running)"
      "auditCompleted s" "map_option signedAmount (auditTable s ''op-2'') = Some (-60)" by auto
  have "overlapReaches oneAccount s" by (rule overlapActs_reach[OF s(1)])
  with audit_log_mirrors_operations[OF this] s(2,3) show ?thesis by blast
qed

section \<open>Withdrawals that overlap\<close>

lemma call_commits:
  assumes "operations s (operationId (callOperation call balance)) = None" and "storable (callOperation call balance)"
    and "covered call balance" and "\<not> aborted s"
  shows "transactional (callRest date call balance) s = Some (Resolve (), operated date (callOperation call balance) s)"
  using assms
  by (cases call)
    (auto simp: transactional_def andThen_def depositRest_def withdrawRest_def applyOperation_def updateBalance_def
      insertOperation_def statement_def publishMessage_run operated_def fun_upd_idem Let_def
      split: if_splits option.splits outcome.splits)

lemma find_balance: "\<not> aborted s \<Longrightarrow> accounts s acc = Some balance \<Longrightarrow> findOneByOrFail acc s = Some (Resolve balance, s)"
  by (simp add: findOneByOrFail_def andThen_def statement_def)

lemma overlap_commits:
  assumes "operations s (operationId (callOperation call balance)) = None" and "storable (callOperation call balance)"
    and "covered call balance" and "\<not> aborted s"
    and "i < length running" and "running ! i = (call, balance)"
  shows "overlaps (s, running) (operated date (callOperation call balance) s, take i running @ drop (Suc i) running)"
  by (rule overlaps.commits[OF assms(5,6) call_commits[OF assms(1-4)]])

lemma serial_withdraw:
  assumes "\<not> aborted s" and "accounts s acc = Some balance"
  shows "withdraw date acc i a s = transactional (callRest date (Withdraw acc i a) balance) s"
  using assms(2) by (simp add: withdraw_def find_then[OF assms(1)])

lemma refused_withdraw:
  assumes "\<not> aborted s" and "accounts s acc = Some balance" and "balance < a"
  shows "withdraw date acc i a s = Some (Reject insufficientFunds, s)"
  using assms(1,3) by (simp add: serial_withdraw[OF assms(1,2)] withdrawRest_def transactional_def)

text \<open>
  C37. Calls that overlap do not keep the books. In whatever state the service is, take an account
  and two withdrawals of it under new operation ids, each covered by the balance but not both. One
  after the other, the second is refused. When both read the account before either has written it,
  both commit: both are published, the second from the balance the first had read, and the account
  is left with what the second alone would have left. The guard on the balance and the recorded
  balances fail without an error.
\<close>

theorem overlapping_withdrawals_overdraw:
  assumes "overlapReaches balances s" and "accounts s acc = Some held" and "int4 held"
    and "operations s i = None" and "operations s j = None" and "i \<noteq> j"
    and "0 < a" and "a \<le> held" and "0 < b" and "b \<le> held" and "held < a + b"
  shows "(\<exists>s1. withdraw d acc i a s = Some (Resolve (), s1) \<and> withdraw e acc j b s1 = Some (Reject insufficientFunds, s1)) \<and>
    (\<exists>s'. overlapReaches balances s' \<and>
      accountTrail s' acc = accountTrail s acc @
        [AccountOperationEvent i acc withdraw_op a (held - a), AccountOperationEvent j acc withdraw_op b (held - b)] \<and>
      accounts s' acc = Some (held - b) \<and>
      (\<forall>first. replayTrail first (accountTrail s' acc) = None))"
proof -
  let ?first = "Withdraw acc i a" and ?second = "Withdraw acc j b"
  define s1 where "s1 = operated d (callOperation ?first held) s"
  define s2 where "s2 = operated e (callOperation ?second held) s1"
  have clean: "\<not> aborted s" "\<not> aborted s1"
    using audit.steps_recorded[OF overlap_steps[OF assms(1)] bankOpened_recorded]
    by (simp_all add: audit.recorded_def bankSound_def s1_def)
  have ok: "storable (callOperation ?first held)" "storable (callOperation ?second held)"
    using assms(3,7-10) by (auto simp: int4_def)
  obtain running where reach: "overlaps\<^sup>*\<^sup>* (bankOpened balances, []) (s, running)"
    using assms(1) by (auto simp: overlapReaches_def)
  let ?both = "running @ [(?first, held)] @ [(?second, held)]"
  have "overlaps (s, running) (s, running @ [(?first, held)])"
    by (rule overlaps.reads) (simp add: find_balance[OF clean(1) assms(2)])
  moreover have "overlaps (s, running @ [(?first, held)]) (s, ?both)"
    unfolding append_assoc[symmetric] by (rule overlaps.reads) (simp add: find_balance[OF clean(1) assms(2)])
  moreover have "overlaps (s, ?both) (s1, running @ [(?second, held)])"
    using overlap_commits[where call = ?first and balance = held and i = "length running" and running = ?both and s = s]
      assms(4,8) ok(1) clean(1) by (simp add: s1_def)
  moreover have "overlaps (s1, running @ [(?second, held)]) (s2, running)"
    using overlap_commits[where call = ?second and balance = held and i = "length running" and s = s1
        and running = "running @ [(?second, held)]"]
      assms(5,6,10) ok(2) clean(2) by (simp add: s2_def s1_def)
  ultimately have "overlaps\<^sup>*\<^sup>* (bankOpened balances, []) (s2, running)"
    using reach by (meson rtranclp.rtrancl_into_rtrancl)
  then have "overlapReaches balances s2" by (auto simp: overlapReaches_def)
  moreover have "withdraw d acc i a s = Some (Resolve (), s1)"
    unfolding serial_withdraw[OF clean(1) assms(2)] s1_def by (rule call_commits) (use assms(4,8) ok(1) clean(1) in simp_all)
  moreover have "withdraw e acc j b s1 = Some (Reject insufficientFunds, s1)"
    by (rule refused_withdraw[OF clean(2), where balance = "held - a"]) (use assms(2,11) in \<open>simp_all add: s1_def\<close>)
  moreover have trail: "accountTrail s2 acc = accountTrail s acc @
      [AccountOperationEvent i acc withdraw_op a (held - a)] @ [AccountOperationEvent j acc withdraw_op b (held - b)]"
    by (simp add: accountTrail_def s2_def s1_def)
  moreover have "replayTrail first (accountTrail s2 acc) = None" for first
    unfolding trail append_assoc[symmetric] replayTrail_snoc using assms(7) by (simp split: option.split)
  ultimately show ?thesis using assms(2) by (auto simp: s2_def s1_def intro!: exI[of _ s2])
qed

lemma overlapping_withdrawals_overdraw_witness:
  "\<exists>s. overlapReaches oneAccount s \<and> map signedAmount (accountTrail s ''acc-1'') = [-80, -60] \<and>
    accounts s ''acc-1'' = Some 40 \<and> replayTrail 100 (accountTrail s ''acc-1'') = None"
proof -
  have start: "overlapReaches oneAccount (bankOpened oneAccount)" by (auto simp: overlapReaches_def)
  have "accounts (bankOpened oneAccount) ''acc-1'' = Some 100" by (simp add: bankOpened_def oneAccount_def)
  from overlapping_withdrawals_overdraw[OF start this, of "''op-1''" "''op-2''" 80 60 1 2]
  show ?thesis by (force simp: int4_def bankOpened_def accountTrail_def events_def)
qed

lemma serial_calls_keep_balance_witness:
  "\<exists>s. serialReaches oneAccount s \<and> accounts s ''acc-1'' = Some 20 \<and> replayTrail 100 (accountTrail s ''acc-1'') = Some 20"
proof -
  have "map_option (\<lambda>(r, s). (r, accounts s ''acc-1'')) (withdraw 1 ''acc-1'' ''op-1'' 80 (bankOpened oneAccount)) =
    Some (Resolve (), Some 20)"
    by code_simp
  then obtain s where s: "withdraw 1 ''acc-1'' ''op-1'' 80 (bankOpened oneAccount) = Some (Resolve (), s)" "accounts s ''acc-1'' = Some 20"
    by auto
  have "serves (bankOpened oneAccount) s"
    unfolding serves_def by (intro exI[of _ 1] exI[of _ "Withdraw ''acc-1'' ''op-1'' 80"]) (use s(1) in simp)
  then have reach: "serialReaches oneAccount s" unfolding serialReaches_def by (intro r_into_rtranclp) (simp add: app_step_def)
  with serial_calls_keep_balance[OF this, of "''acc-1''" 100] s(2) show ?thesis by (auto simp: oneAccount_def)
qed

end
