(* ===== verification/Workflow_Runs.thy ===== *)
theory Workflow_Runs
  imports Js_Prelude
begin

text \<open>
  Durable workflows as the applications write them: \<open>run(ctx, input)\<close> is a sequence of steps,
  each an effect with an optional compensation, and of waits for a signal. What the worker of
  \<open>@nestjs/workflows\<close> makes of it is modelled as far as the applications rely on it: the result of
  a finished step is in a journal, from which a run is resumed after a crash; a step whose result
  was not recorded runs again; when a step fails for good the compensations of the finished
  steps run in reverse; and both may run more than once.
\<close>

section \<open>Workflows\<close>

datatype ('w, 'r) flow =
    Step string "string \<Rightarrow> ('w, string) comp" "(string \<Rightarrow> ('w, unit) comp) option" "string \<Rightarrow> ('w, 'r) flow"
  | WaitForSignal string "string option \<Rightarrow> ('w, 'r) flow"
  | FailRun
  | ReturnRun 'r

datatype journal_entry = Finished string | Heard "string option"

datatype 'r run_state = Running | Compensating nat | Completed 'r | FailedRun

text \<open>Where a run is after the entries of its journal, and what would undo it, the oldest first.\<close>

fun resume :: "('w, 'r) flow \<Rightarrow> journal_entry list \<Rightarrow> ('w, unit) comp list \<Rightarrow> ('w, 'r) flow \<times> ('w, unit) comp list" where
  "resume (Step name act undo k) (Finished v # es) undos =
     resume (k v) es (case undo of None \<Rightarrow> undos | Some f \<Rightarrow> undos @ [f v])"
| "resume (WaitForSignal key k) (Heard d # es) undos = resume (k d) es undos"
| "resume flow es undos = (flow, undos)"

section \<open>Runs\<close>

text \<open>
  A step of the worker on one run. \<open>keys\<close> gives the idempotency key of a step, the same in every
  attempt; \<open>hears\<close> says that the signal of a key is there and what taking it does; \<open>outages\<close>
  whether a step can also be given up because what it calls cannot be reached.
\<close>

inductive worker ::
    "bool \<Rightarrow> (string \<Rightarrow> string) \<Rightarrow> (string \<Rightarrow> string \<Rightarrow> 'w \<Rightarrow> 'w \<Rightarrow> bool) \<Rightarrow> ('w, 'r) flow \<Rightarrow>
     journal_entry list \<times> 'r run_state \<times> 'w \<Rightarrow> journal_entry list \<times> 'r run_state \<times> 'w \<Rightarrow> bool"
  for outages :: bool and keys :: "string \<Rightarrow> string" and hears :: "string \<Rightarrow> string \<Rightarrow> 'w \<Rightarrow> 'w \<Rightarrow> bool" and flow :: "('w, 'r) flow" where
  finishes: "resume flow j [] = (Step name act undo k, undos) \<Longrightarrow> act (keys name) w = Some (Resolve v, w') \<Longrightarrow>
    worker outages keys hears flow (j, Running, w) (j @ [Finished v], Running, w')"
| crashes: "resume flow j [] = (Step name act undo k, undos) \<Longrightarrow> act (keys name) w = Some (r, w') \<Longrightarrow>
    worker outages keys hears flow (j, Running, w) (j, Running, w')"
| givesUp: "resume flow j [] = (Step name act undo k, undos) \<Longrightarrow> act (keys name) w = Some (Reject e, w') \<Longrightarrow>
    worker outages keys hears flow (j, Running, w) (j, Compensating (length undos), w')"
| outage: "outages \<Longrightarrow> resume flow j [] = (Step name act undo k, undos) \<Longrightarrow>
    worker outages keys hears flow (j, Running, w) (j, Compensating (length undos), w)"
| signalled: "resume flow j [] = (WaitForSignal key k, undos) \<Longrightarrow> hears key d w w' \<Longrightarrow>
    worker outages keys hears flow (j, Running, w) (j @ [Heard (Some d)], Running, w')"
| timesOut: "resume flow j [] = (WaitForSignal key k, undos) \<Longrightarrow>
    worker outages keys hears flow (j, Running, w) (j @ [Heard None], Running, w)"
| fails: "resume flow j [] = (FailRun, undos) \<Longrightarrow>
    worker outages keys hears flow (j, Running, w) (j, Compensating (length undos), w)"
| returns: "resume flow j [] = (ReturnRun v, undos) \<Longrightarrow>
    worker outages keys hears flow (j, Running, w) (j, Completed v, w)"
| compensates: "resume flow j [] = (f, undos) \<Longrightarrow> n < length undos \<Longrightarrow> (undos ! n) w = Some (Resolve (), w') \<Longrightarrow>
    worker outages keys hears flow (j, Compensating (Suc n), w) (j, Compensating n, w')"
| compensationCrashes: "resume flow j [] = (f, undos) \<Longrightarrow> n < length undos \<Longrightarrow> (undos ! n) w = Some (r, w') \<Longrightarrow>
    worker outages keys hears flow (j, Compensating (Suc n), w) (j, Compensating (Suc n), w')"
| compensated: "worker outages keys hears flow (j, Compensating 0, w) (j, FailedRun, w)"

end
