(* ===== verification/Fulfilment.thy ===== *)
theory Fulfilment
  imports Postgres Workflow_Runs
begin

text \<open>
  \<open>examples/workflows-order-fulfilment/src\<close>: an order starts a durable workflow that charges,
  reserves stock, marks the order paid and waits for the delivery. The orders, the outbox, the
  workflow instances and the signals are in one PostgreSQL database, so that a \<open>@Transactional\<close>
  method writes them together; the payment and the stock service keep their data in memory.
\<close>

section \<open>State\<close>

record order_entity =
  oe_id :: string
  oe_sku :: string
  oe_quantity :: int
  oe_amountCents :: int
  oe_status :: string
  oe_chargeId :: "string option"
  oe_carrier :: "string option"

datatype fulfil_event = OrderPlaced_msg string string int int | OrderPaid_msg string string

record fulfilment_input =
  fi_orderId :: string
  fi_sku :: string
  fi_quantity :: int
  fi_amountCents :: int

record fulfilment_result =
  fr_chargeId :: string
  fr_carrier :: string

record workflow_instance =
  wi_input :: fulfilment_input
  wi_journal :: "journal_entry list"
  wi_state :: "fulfilment_result run_state"

record fulfil_store = pg +
  fs_orders :: "string \<Rightarrow> order_entity option"
  fs_messages :: "fulfil_event list"
  fs_instances :: "string \<Rightarrow> workflow_instance option"
  fs_signals :: "(string \<times> string) list"

record charge =
  ch_orderId :: string
  ch_amountCents :: int
  ch_refunded :: bool

record fulfil_world =
  fw_store :: fulfil_store
  charges :: "string \<Rightarrow> charge option"
  stockLevels :: "string \<Rightarrow> int option"
  held :: "string \<Rightarrow> (string \<times> int) option"

definition onStore :: "(fulfil_store, 'a) comp \<Rightarrow> (fulfil_world, 'a) comp" where
  "onStore f w = (case f (fw_store w) of None \<Rightarrow> None | Some (r, d) \<Rightarrow> Some (r, w\<lparr>fw_store := d\<rparr>))"

section \<open>The services the workflow calls\<close>

definition chargeOrder :: "string \<Rightarrow> int \<Rightarrow> string \<Rightarrow> (fulfil_world, string) comp" where
  "chargeOrder orderId amountCents idempotencyKey w =
     (let chargeId = ''ch_'' @ idempotencyKey
      in Some (Resolve chargeId,
               if charges w chargeId = None
               then w\<lparr>charges := (charges w)(chargeId \<mapsto>
                       \<lparr>ch_orderId = orderId, ch_amountCents = amountCents, ch_refunded = False\<rparr>)\<rparr>
               else w))"

definition refund :: "string \<Rightarrow> (fulfil_world, unit) comp" where
  "refund chargeId w = Some (Resolve (),
     case charges w chargeId of
       None \<Rightarrow> w
     | Some c \<Rightarrow> w\<lparr>charges := (charges w)(chargeId \<mapsto> c\<lparr>ch_refunded := True\<rparr>)\<rparr>)"

definition NonRetryableStepError :: jsv where
  "NonRetryableStepError = JObj 0 [''NonRetryableStepError'', ''Error''] []"

definition levelOf :: "(string \<Rightarrow> int option) \<Rightarrow> string \<Rightarrow> int" where
  "levelOf levels sku = (case levels sku of None \<Rightarrow> 0 | Some n \<Rightarrow> n)"

definition reserve_stock :: "string \<Rightarrow> int \<Rightarrow> string \<Rightarrow> (fulfil_world, string) comp" where
  "reserve_stock sku quantity idempotencyKey w =
     (let reservationId = ''res_'' @ idempotencyKey
      in if held w reservationId \<noteq> None then Some (Resolve reservationId, w)
         else (let available = levelOf (stockLevels w) sku
               in if available < quantity then Some (Reject NonRetryableStepError, w)
                  else Some (Resolve reservationId,
                         w\<lparr>stockLevels := (stockLevels w)(sku \<mapsto> available - quantity),
                           held := (held w)(reservationId \<mapsto> (sku, quantity))\<rparr>)))"

definition release_stock :: "string \<Rightarrow> (fulfil_world, unit) comp" where
  "release_stock reservationId w = Some (Resolve (),
     case held w reservationId of
       None \<Rightarrow> w
     | Some (sku, quantity) \<Rightarrow>
         w\<lparr>stockLevels := (stockLevels w)(sku \<mapsto> levelOf (stockLevels w) sku + quantity),
           held := (held w)(reservationId := None)\<rparr>)"

section \<open>The database\<close>

text \<open>\<open>save\<close> inserts the row or, when its key is there, updates it.\<close>

definition saveOrder :: "order_entity \<Rightarrow> (fulfil_store, unit) comp" where
  "saveOrder row = statement (\<lambda>d.
     if \<not> int4 (oe_quantity row) \<or> \<not> int4 (oe_amountCents row) then Inl outOfRange
     else Inr ((), d\<lparr>fs_orders := (fs_orders d)(oe_id row \<mapsto> row)\<rparr>))"

definition updateOrder :: "string \<Rightarrow> (order_entity \<Rightarrow> order_entity) \<Rightarrow> (fulfil_store, nat) comp" where
  "updateOrder orderId changes = statement (\<lambda>d.
     case fs_orders d orderId of
       None \<Rightarrow> Inr (0, d)
     | Some row \<Rightarrow> Inr (1, d\<lparr>fs_orders := (fs_orders d)(orderId \<mapsto> changes row)\<rparr>))"

definition publishFulfil :: "fulfil_event \<Rightarrow> (fulfil_store, unit) comp" where
  "publishFulfil ev = statement (\<lambda>d. Inr ((), d\<lparr>fs_messages := fs_messages d @ [ev]\<rparr>))"

text \<open>\<open>start\<close> and \<open>signal\<close> of the client, in the transaction they are given.\<close>

definition startInstance :: "string \<Rightarrow> fulfilment_input \<Rightarrow> (fulfil_store, unit) comp" where
  "startInstance instanceId input = statement (\<lambda>d. Inr ((), d\<lparr>fs_instances := (fs_instances d)(instanceId \<mapsto>
     \<lparr>wi_input = input, wi_journal = [], wi_state = Running\<rparr>)\<rparr>))"

definition sendSignal :: "string \<Rightarrow> string \<Rightarrow> (fulfil_store, unit) comp" where
  "sendSignal key carrier = statement (\<lambda>d. Inr ((), d\<lparr>fs_signals := fs_signals d @ [(key, carrier)]\<rparr>))"

definition fulfilmentId :: "string \<Rightarrow> string" where
  "fulfilmentId orderId = ''fulfil-'' @ orderId"

text \<open>
  \<open>order.commit()\<close> publishes \<open>OrderPlaced\<close> on the event bus, for which \<open>@StartOn\<close> starts the
  workflow and the bridge adds the outbox message, both in the transaction.
\<close>

definition commitPlaced :: "string \<Rightarrow> string \<Rightarrow> int \<Rightarrow> int \<Rightarrow> (fulfil_store, unit) comp" where
  "commitPlaced orderId sku quantity amountCents =
     andThen (startInstance (fulfilmentId orderId)
        \<lparr>fi_orderId = orderId, fi_sku = sku, fi_quantity = quantity, fi_amountCents = amountCents\<rparr>)
       (\<lambda>_. publishFulfil (OrderPlaced_msg orderId sku quantity amountCents))"

definition failedAfterWriting :: jsv where
  "failedAfterWriting = JObj 0 [''Error''] []"

definition executePlaceOrder :: "string \<Rightarrow> string \<Rightarrow> int \<Rightarrow> int \<Rightarrow> bool \<Rightarrow> (fulfil_world, unit) comp" where
  "executePlaceOrder orderId sku quantity amountCents failAfterWriting = onStore (transactional
     (andThen (saveOrder \<lparr>oe_id = orderId, oe_sku = sku, oe_quantity = quantity, oe_amountCents = amountCents,
                 oe_status = ''placed'', oe_chargeId = None, oe_carrier = None\<rparr>) (\<lambda>_.
        andThen (commitPlaced orderId sku quantity amountCents) (\<lambda>_.
          if failAfterWriting then throw failedAfterWriting else ret ()))))"

definition markPaid :: "string \<Rightarrow> string \<Rightarrow> (fulfil_world, unit) comp" where
  "markPaid orderId chargeId = onStore (transactional
     (andThen (updateOrder orderId (\<lambda>row. row\<lparr>oe_status := ''paid'', oe_chargeId := Some chargeId\<rparr>)) (\<lambda>_.
        publishFulfil (OrderPaid_msg orderId chargeId))))"

definition cancel :: "string \<Rightarrow> (fulfil_world, unit) comp" where
  "cancel orderId = onStore (transactional
     (andThen (updateOrder orderId (\<lambda>row. row\<lparr>oe_status := ''cancelled''\<rparr>)) (\<lambda>_. ret ())))"

definition confirmDelivery :: "string \<Rightarrow> string \<Rightarrow> bool \<Rightarrow> (fulfil_world, unit) comp" where
  "confirmDelivery orderId carrier failAfterWriting = onStore (transactional
     (andThen (updateOrder orderId (\<lambda>row. row\<lparr>oe_status := ''delivered'', oe_carrier := Some carrier\<rparr>)) (\<lambda>_.
        andThen (sendSignal orderId carrier) (\<lambda>_.
          if failAfterWriting then throw failedAfterWriting else ret ()))))"

section \<open>The workflow\<close>

definition fulfilOrder :: "fulfilment_input \<Rightarrow> (fulfil_world, fulfilment_result) flow" where
  "fulfilOrder input =
     Step ''charge-payment'' (\<lambda>key. chargeOrder (fi_orderId input) (fi_amountCents input) key)
       (Some (\<lambda>chargeId. andThen (refund chargeId) (\<lambda>_. cancel (fi_orderId input)))) (\<lambda>chargeId.
     Step ''reserve-stock'' (\<lambda>key. reserve_stock (fi_sku input) (fi_quantity input) key)
       (Some release_stock) (\<lambda>reservationId.
     Step ''mark-paid'' (\<lambda>key. andThen (markPaid (fi_orderId input) chargeId) (\<lambda>_. ret [])) None (\<lambda>_.
     WaitForSignal (fi_orderId input) (\<lambda>delivery.
       case delivery of
         None \<Rightarrow> FailRun
       | Some carrier \<Rightarrow> ReturnRun \<lparr>fr_chargeId = chargeId, fr_carrier = carrier\<rparr>))))"

text \<open>A delivered signal is taken from those that were sent.\<close>

definition takesSignal :: "string \<Rightarrow> string \<Rightarrow> fulfil_world \<Rightarrow> fulfil_world \<Rightarrow> bool" where
  "takesSignal key carrier w w' \<longleftrightarrow> (key, carrier) \<in> set (fs_signals (fw_store w)) \<and>
     w' = w\<lparr>fw_store := (fw_store w)\<lparr>fs_signals := remove1 (key, carrier) (fs_signals (fw_store w))\<rparr>\<rparr>"

definition putInstance :: "string \<Rightarrow> workflow_instance \<Rightarrow> fulfil_world \<Rightarrow> fulfil_world" where
  "putInstance instanceId inst w =
     w\<lparr>fw_store := (fw_store w)\<lparr>fs_instances := (fs_instances (fw_store w))(instanceId \<mapsto> inst)\<rparr>\<rparr>"

text \<open>
  A step of the application: a command for a new order, a delivery webhook, or the worker on an
  instance. \<open>keys\<close> gives the idempotency key of a step of an instance.
\<close>

inductive fulfil_step :: "bool \<Rightarrow> (string \<Rightarrow> string \<Rightarrow> string) \<Rightarrow> fulfil_world \<Rightarrow> fulfil_world \<Rightarrow> bool"
  for outages :: bool and keys :: "string \<Rightarrow> string \<Rightarrow> string" where
  command: "fs_instances (fw_store w) (fulfilmentId orderId) = None \<Longrightarrow>
    executePlaceOrder orderId sku quantity amountCents failing w = Some (r, w') \<Longrightarrow> fulfil_step outages keys w w'"
| webhook: "confirmDelivery orderId carrier failing w = Some (r, w') \<Longrightarrow> fulfil_step outages keys w w'"
| works: "fs_instances (fw_store w) i = Some inst \<Longrightarrow>
    worker outages (keys i) takesSignal (fulfilOrder (wi_input inst)) (wi_journal inst, wi_state inst, w) (j, st, w') \<Longrightarrow>
    fulfil_step outages keys w (putInstance i (inst\<lparr>wi_journal := j, wi_state := st\<rparr>) w')"

definition fulfilOpened :: "(string \<Rightarrow> int option) \<Rightarrow> fulfil_world" where
  "fulfilOpened levels =
     \<lparr>fw_store = \<lparr>aborted = False, fs_orders = Map.empty, fs_messages = [], fs_instances = Map.empty, fs_signals = []\<rparr>,
      charges = Map.empty, stockLevels = levels, held = Map.empty\<rparr>"

definition fulfilReaches :: "bool \<Rightarrow> (string \<Rightarrow> string \<Rightarrow> string) \<Rightarrow> (string \<Rightarrow> int option) \<Rightarrow> fulfil_world \<Rightarrow> bool" where
  "fulfilReaches outages keys levels w \<longleftrightarrow> (fulfil_step outages keys)\<^sup>*\<^sup>* (fulfilOpened levels) w"

end
