(* ===== verification/Fulfilment_Properties.thy ===== *)
theory Fulfilment_Properties
  imports Fulfilment
begin

text \<open>
  What the fulfilment workflow promises: whatever crashes and however often its steps run, a run
  that completes has charged and reserved, and one that fails has undone both. What it does not:
  the delivery webhook and the workflow write the order's status without looking at it.
\<close>

section \<open>The positions of a run\<close>

definition refundUndo :: "string \<Rightarrow> string \<Rightarrow> (fulfil_world, unit) comp" where
  "refundUndo orderId chargeId = andThen (refund chargeId) (\<lambda>_. cancel orderId)"

definition journalTo :: "nat \<Rightarrow> string \<Rightarrow> string \<Rightarrow> string option \<Rightarrow> journal_entry list" where
  "journalTo n chargeId reservationId d = take n [Finished chargeId, Finished reservationId, Finished [], Heard d]"

section \<open>What the services leave\<close>

definition updatedOrders :: "string \<Rightarrow> (order_entity \<Rightarrow> order_entity) \<Rightarrow> fulfil_world \<Rightarrow> fulfil_world" where
  "updatedOrders orderId changes w = w\<lparr>fw_store := (fw_store w)\<lparr>fs_orders :=
     (fs_orders (fw_store w))(orderId := map_option changes (fs_orders (fw_store w) orderId))\<rparr>\<rparr>"

definition noted :: "fulfil_event \<Rightarrow> fulfil_world \<Rightarrow> fulfil_world" where
  "noted ev w = w\<lparr>fw_store := (fw_store w)\<lparr>fs_messages := fs_messages (fw_store w) @ [ev]\<rparr>\<rparr>"

definition sent :: "string \<Rightarrow> string \<Rightarrow> fulfil_world \<Rightarrow> fulfil_world" where
  "sent key carrier w = w\<lparr>fw_store := (fw_store w)\<lparr>fs_signals := fs_signals (fw_store w) @ [(key, carrier)]\<rparr>\<rparr>"

lemmas store_defs = onStore_def transactional_def andThen_def statement_def updateOrder_def publishFulfil_def sendSignal_def
  updatedOrders_def noted_def sent_def

lemma markPaid_run:
  assumes "\<not> aborted (fw_store w)"
  shows "markPaid orderId c w = Some (Resolve (), noted (OrderPaid_msg orderId c)
    (updatedOrders orderId (\<lambda>row. row\<lparr>oe_status := ''paid'', oe_chargeId := Some c\<rparr>) w))"
  using assms by (cases "fs_orders (fw_store w) orderId") (simp_all add: markPaid_def store_defs fun_upd_idem)

lemma cancel_run:
  assumes "\<not> aborted (fw_store w)"
  shows "cancel orderId w = Some (Resolve (), updatedOrders orderId (\<lambda>row. row\<lparr>oe_status := ''cancelled''\<rparr>) w)"
  using assms by (cases "fs_orders (fw_store w) orderId") (simp_all add: cancel_def store_defs fun_upd_idem)

lemma confirmDelivery_run:
  assumes "\<not> aborted (fw_store w)"
  shows "confirmDelivery orderId carrier failing w =
    (if failing then Some (Reject failedAfterWriting, w)
     else Some (Resolve (), sent orderId carrier
       (updatedOrders orderId (\<lambda>row. row\<lparr>oe_status := ''delivered'', oe_carrier := Some carrier\<rparr>) w)))"
  using assms by (cases "fs_orders (fw_store w) orderId") (simp_all add: confirmDelivery_def store_defs fun_upd_idem)

lemma store_fields [simp]:
  "charges (updatedOrders o1 f w) = charges w" "held (updatedOrders o1 f w) = held w" "stockLevels (updatedOrders o1 f w) = stockLevels w"
  "charges (noted ev w) = charges w" "held (noted ev w) = held w" "stockLevels (noted ev w) = stockLevels w"
  "charges (sent key carrier w) = charges w" "held (sent key carrier w) = held w" "stockLevels (sent key carrier w) = stockLevels w"
  "fs_orders (fw_store (updatedOrders o1 f w)) = (fs_orders (fw_store w))(o1 := map_option f (fs_orders (fw_store w) o1))"
  "fs_orders (fw_store (noted ev w)) = fs_orders (fw_store w)" "fs_orders (fw_store (sent key carrier w)) = fs_orders (fw_store w)"
  "fs_instances (fw_store (updatedOrders o1 f w)) = fs_instances (fw_store w)"
  "fs_instances (fw_store (noted ev w)) = fs_instances (fw_store w)"
  "fs_instances (fw_store (sent key carrier w)) = fs_instances (fw_store w)"
  "aborted (fw_store (updatedOrders o1 f w)) = aborted (fw_store w)" "aborted (fw_store (noted ev w)) = aborted (fw_store w)"
  "aborted (fw_store (sent key carrier w)) = aborted (fw_store w)"
  by (simp_all add: updatedOrders_def noted_def sent_def)

lemma putInstance_fields [simp]:
  "charges (putInstance i inst w) = charges w" "held (putInstance i inst w) = held w" "stockLevels (putInstance i inst w) = stockLevels w"
  "fs_orders (fw_store (putInstance i inst w)) = fs_orders (fw_store w)"
  "fs_instances (fw_store (putInstance i inst w)) = (fs_instances (fw_store w))(i \<mapsto> inst)"
  "aborted (fw_store (putInstance i inst w)) = aborted (fw_store w)"
  by (simp_all add: putInstance_def)

section \<open>Where a run and its order stand\<close>

definition chargeOf :: "fulfilment_input \<Rightarrow> bool \<Rightarrow> charge" where
  "chargeOf input refunded = \<lparr>ch_orderId = fi_orderId input, ch_amountCents = fi_amountCents input, ch_refunded = refunded\<rparr>"

definition orderStatus :: "fulfil_world \<Rightarrow> string \<Rightarrow> string option" where
  "orderStatus w orderId = map_option oe_status (fs_orders (fw_store w) orderId)"

text \<open>
  After \<open>n\<close> entries: the charge \<open>c\<close>, the reservation \<open>h\<close> and the order's status \<open>s\<close>, with \<open>d\<close> what
  was heard of the delivery.
\<close>

definition stageOk ::
    "nat \<Rightarrow> fulfilment_result run_state \<Rightarrow> string \<Rightarrow> string option \<Rightarrow> fulfilment_input \<Rightarrow>
     charge option \<Rightarrow> (string \<times> int) option \<Rightarrow> string option \<Rightarrow> bool" where
  "stageOk n st chargeId d input c h s \<longleftrightarrow>
     (let charged = (c = Some (chargeOf input False)); refunded = (c = Some (chargeOf input True));
          holding = (h = Some (fi_sku input, fi_quantity input))
      in case st of
           Running \<Rightarrow> (charged \<or> n = 0 \<and> c = None) \<and> (holding \<and> 0 < n \<or> n < 2 \<and> h = None) \<and>
             (3 \<le> n \<longrightarrow> s \<in> {Some ''paid'', Some ''delivered''})
         | Completed r \<Rightarrow> charged \<and> holding \<and> s \<in> {Some ''paid'', Some ''delivered''} \<and> n = 4 \<and>
             d = Some (fr_carrier r) \<and> fr_chargeId r = chargeId
         | Compensating m \<Rightarrow> 0 < n \<and> m \<le> min n 2 \<and>
             (if m = 2 then charged \<and> (holding \<or> h = None)
              else if m = 1 then (charged \<or> refunded) \<and> h = None
              else refunded \<and> h = None \<and> s \<in> {Some ''cancelled'', Some ''delivered''})
         | FailedRun \<Rightarrow> refunded \<and> h = None \<and> s \<in> {Some ''cancelled'', Some ''delivered''})"

text \<open>What is in stock of a product and what is held of it.\<close>

definition stockKept :: "(string \<Rightarrow> int option) \<Rightarrow> fulfil_world \<Rightarrow> bool" where
  "stockKept levels w \<longleftrightarrow> finite (dom (held w)) \<and>
     (\<forall>sku. levelOf (stockLevels w) sku + tableSum (\<lambda>h. if fst h = sku then snd h else 0) (held w) = levelOf levels sku)"

lemma stockKept_same: "stockLevels w' = stockLevels w \<Longrightarrow> held w' = held w \<Longrightarrow> stockKept levels w' = stockKept levels w"
  by (simp add: stockKept_def)

lemma stockKept_simps [simp]:
  "stockKept levels (w\<lparr>charges := x\<rparr>) = stockKept levels w" "stockKept levels (w\<lparr>fw_store := d\<rparr>) = stockKept levels w"
  "stockKept levels (updatedOrders o1 f w) = stockKept levels w" "stockKept levels (noted ev w) = stockKept levels w"
  "stockKept levels (sent key carrier w) = stockKept levels w" "stockKept levels (putInstance i inst w) = stockKept levels w"
  by (simp_all add: stockKept_def)

lemma stockKept_take:
  assumes "stockKept levels w" and "held w r = None"
  shows "stockKept levels (w\<lparr>stockLevels := (stockLevels w)(sku \<mapsto> levelOf (stockLevels w) sku - qty), held := (held w)(r \<mapsto> (sku, qty))\<rparr>)"
  using assms by (auto simp: stockKept_def tableSum_upd levelOf_def)

lemma stockKept_put:
  assumes "stockKept levels w" and "held w r = Some (sku, qty)"
  shows "stockKept levels (w\<lparr>stockLevels := (stockLevels w)(sku \<mapsto> levelOf (stockLevels w) sku + qty), held := (held w)(r := None)\<rparr>)"
  using assms by (auto simp: stockKept_def tableSum_del levelOf_def)

text \<open>A step of the worker leaves alone whatever is not of its order.\<close>

definition onlyOrder :: "string \<Rightarrow> string \<Rightarrow> string \<Rightarrow> fulfil_world \<Rightarrow> fulfil_world \<Rightarrow> bool" where
  "onlyOrder orderId chargeId reservationId w w' \<longleftrightarrow>
     (\<forall>x. x \<noteq> chargeId \<longrightarrow> charges w' x = charges w x) \<and> (\<forall>x. x \<noteq> reservationId \<longrightarrow> held w' x = held w x) \<and>
     (\<forall>x. x \<noteq> orderId \<longrightarrow> fs_orders (fw_store w') x = fs_orders (fw_store w) x) \<and>
     (fs_orders (fw_store w') orderId = None \<longleftrightarrow> fs_orders (fw_store w) orderId = None) \<and>
     fs_instances (fw_store w') = fs_instances (fw_store w) \<and> \<not> aborted (fw_store w') \<and>
     (\<forall>levels. stockKept levels w \<longrightarrow> stockKept levels w')"

lemma position_cases [consumes 2]:
  assumes "resume (fulfilOrder input) (journalTo n c r d) [] = (pos, undos)" and "n \<le> 4"
  obtains
    (charging) k where "n = 0" "undos = []" "pos = Step ''charge-payment'' (\<lambda>key. chargeOrder (fi_orderId input) (fi_amountCents input) key)
        (Some (refundUndo (fi_orderId input))) k"
  | (reserving) k where "n = 1" "undos = [refundUndo (fi_orderId input) c]"
      "pos = Step ''reserve-stock'' (\<lambda>key. reserve_stock (fi_sku input) (fi_quantity input) key) (Some release_stock) k"
  | (paying) k where "n = 2" "undos = [refundUndo (fi_orderId input) c, release_stock r]"
      "pos = Step ''mark-paid'' (\<lambda>key. andThen (markPaid (fi_orderId input) c) (\<lambda>_. ret [])) None k"
  | (waiting) k where "n = 3" "undos = [refundUndo (fi_orderId input) c, release_stock r]" "pos = WaitForSignal (fi_orderId input) k"
  | (late) "n = 4" "undos = [refundUndo (fi_orderId input) c, release_stock r]" "d = None" "pos = FailRun"
  | (delivered) carrier where "n = 4" "undos = [refundUndo (fi_orderId input) c, release_stock r]" "d = Some carrier"
      "pos = ReturnRun \<lparr>fr_chargeId = c, fr_carrier = carrier\<rparr>"
proof -
  have "n = 0 \<or> n = 1 \<or> n = 2 \<or> n = 3 \<or> n = 4" using assms(2) by auto
  then show ?thesis
    using assms(1) that
    by (elim disjE)
      (auto simp: journalTo_def fulfilOrder_def refundUndo_def[abs_def] numeral_eq_Suc split: option.splits)
qed

lemma journal_snoc:
  "journalTo 0 c r d @ [Finished c] = journalTo 1 c r d" "journalTo 1 c r d @ [Finished r] = journalTo 2 c r d"
  "journalTo 2 c r d @ [Finished []] = journalTo 3 c r d" "journalTo 3 c r d @ [Heard x] = journalTo 4 c r x"
  by (simp_all add: journalTo_def numeral_eq_Suc)

lemma stage_simps:
  "stageOk n Running chargeId d input c h s \<longleftrightarrow>
     (c = Some (chargeOf input False) \<or> n = 0 \<and> c = None) \<and>
     (h = Some (fi_sku input, fi_quantity input) \<and> 0 < n \<or> n < 2 \<and> h = None) \<and>
     (3 \<le> n \<longrightarrow> s \<in> {Some ''paid'', Some ''delivered''})"
  "stageOk n (Completed r) chargeId d input c h s \<longleftrightarrow>
     c = Some (chargeOf input False) \<and> h = Some (fi_sku input, fi_quantity input) \<and>
     s \<in> {Some ''paid'', Some ''delivered''} \<and> n = 4 \<and> d = Some (fr_carrier r) \<and> fr_chargeId r = chargeId"
  "stageOk n (Compensating 2) chargeId d input c h s \<longleftrightarrow>
     2 \<le> n \<and> c = Some (chargeOf input False) \<and> (h = Some (fi_sku input, fi_quantity input) \<or> h = None)"
  "stageOk n (Compensating (Suc 0)) chargeId d input c h s \<longleftrightarrow>
     0 < n \<and> (c = Some (chargeOf input False) \<or> c = Some (chargeOf input True)) \<and> h = None"
  "stageOk n (Compensating 0) chargeId d input c h s \<longleftrightarrow>
     0 < n \<and> c = Some (chargeOf input True) \<and> h = None \<and> s \<in> {Some ''cancelled'', Some ''delivered''}"
  "stageOk n FailedRun chargeId d input c h s \<longleftrightarrow>
     c = Some (chargeOf input True) \<and> h = None \<and> s \<in> {Some ''cancelled'', Some ''delivered''}"
  by (auto simp: stageOk_def Let_def)

lemma stage_compensating: "stageOk n (Compensating m) chargeId d input c h s \<Longrightarrow> m \<le> 2 \<and> m \<le> n"
  by (simp add: stageOk_def Let_def)

text \<open>The names the services give to the charge and the reservation of a run.\<close>

definition chargeName :: "(string \<Rightarrow> string) \<Rightarrow> string" where
  "chargeName key = ''ch_'' @ key ''charge-payment''"

definition reservationName :: "(string \<Rightarrow> string) \<Rightarrow> string" where
  "reservationName key = ''res_'' @ key ''reserve-stock''"

definition standsAt :: "(string \<Rightarrow> string) \<Rightarrow> fulfilment_input \<Rightarrow> nat \<Rightarrow> string option \<Rightarrow> fulfilment_result run_state \<Rightarrow> fulfil_world \<Rightarrow> bool" where
  "standsAt key input n d st w \<longleftrightarrow> n \<le> 4 \<and> \<not> aborted (fw_store w) \<and> orderStatus w (fi_orderId input) \<noteq> None \<and>
     stageOk n st (chargeName key) d input (charges w (chargeName key)) (held w (reservationName key))
       (orderStatus w (fi_orderId input))"

abbreviation onlyRun :: "(string \<Rightarrow> string) \<Rightarrow> fulfilment_input \<Rightarrow> fulfil_world \<Rightarrow> fulfil_world \<Rightarrow> bool" where
  "onlyRun key input \<equiv> onlyOrder (fi_orderId input) (chargeName key) (reservationName key)"

lemma onlyOrder_refl: "\<not> aborted (fw_store w) \<Longrightarrow> onlyOrder orderId c r w w"
  by (simp add: onlyOrder_def)

lemma chargeOf_inj [simp]: "chargeOf input a = chargeOf input b \<longleftrightarrow> a = b"
  by (simp add: chargeOf_def)

section \<open>The effects on a run\<close>

lemma charge_step:
  assumes "standsAt key input 0 d Running w"
    and "chargeOrder (fi_orderId input) (fi_amountCents input) (key ''charge-payment'') w = Some (res, w')"
  shows "res = Resolve (chargeName key) \<and> standsAt key input 0 d Running w' \<and> standsAt key input 1 d Running w' \<and> onlyRun key input w w'"
proof -
  have w': "res = Resolve (chargeName key)"
    "w' = (if charges w (chargeName key) = None then w\<lparr>charges := (charges w)(chargeName key \<mapsto> chargeOf input False)\<rparr> else w)"
    using assms(2) by (auto simp: chargeOrder_def chargeName_def chargeOf_def Let_def)
  show ?thesis
    using assms(1) unfolding w' by (auto simp: standsAt_def stage_simps orderStatus_def onlyOrder_def)
qed

lemma reserve_step:
  assumes "standsAt key input 1 d Running w"
    and "reserve_stock (fi_sku input) (fi_quantity input) (key ''reserve-stock'') w = Some (res, w')"
  shows "(res = Resolve (reservationName key) \<and> standsAt key input 2 d Running w' \<or>
      (\<exists>e. res = Reject e) \<and> standsAt key input 1 d (Compensating 1) w') \<and>
    standsAt key input 1 d Running w' \<and> onlyRun key input w w'"
proof -
  let ?r = "reservationName key" and ?n = "levelOf (stockLevels w) (fi_sku input)"
  have run: "(if held w ?r \<noteq> None then Some (Resolve ?r, w)
      else if ?n < fi_quantity input then Some (Reject NonRetryableStepError, w)
      else Some (Resolve ?r, w\<lparr>stockLevels := (stockLevels w)(fi_sku input \<mapsto> ?n - fi_quantity input),
               held := (held w)(?r \<mapsto> (fi_sku input, fi_quantity input))\<rparr>)) = Some (res, w')"
    using assms(2) unfolding reserve_stock_def reservationName_def Let_def .
  have at: "n = Suc 0 \<Longrightarrow> standsAt key input n d Running w" for n using assms(1) by simp
  show ?thesis
  proof (cases "held w ?r \<noteq> None")
    case True
    then have "res = Resolve ?r" "w' = w" using run by simp_all
    then show ?thesis using at True by (simp add: standsAt_def stage_simps onlyOrder_refl)
  next
    case False
    show ?thesis
    proof (cases "?n < fi_quantity input")
      case True
      then have "res = Reject NonRetryableStepError" "w' = w" using run False by simp_all
      then show ?thesis using at False by (simp add: standsAt_def stage_simps onlyOrder_refl)
    next
      case enough: False
      then have "res = Resolve ?r" "w' = w\<lparr>stockLevels := (stockLevels w)(fi_sku input \<mapsto> ?n - fi_quantity input),
               held := (held w)(?r \<mapsto> (fi_sku input, fi_quantity input))\<rparr>" using run False by simp_all
      moreover have "held w ?r = None" using False by (cases "held w ?r") simp_all
      ultimately show ?thesis
        using at stockKept_take[of _ w ?r] by (simp add: standsAt_def stage_simps onlyOrder_def orderStatus_def)
    qed
  qed
qed

lemma paid_step:
  assumes "standsAt key input 2 d Running w" and "andThen (markPaid (fi_orderId input) c) (\<lambda>_. ret []) w = Some (res, w')"
  shows "res = Resolve [] \<and> standsAt key input 2 d Running w' \<and> standsAt key input 3 d Running w' \<and> onlyRun key input w w'"
proof -
  have clean: "\<not> aborted (fw_store w)" using assms(1) by (simp add: standsAt_def)
  have w': "res = Resolve []" "w' = noted (OrderPaid_msg (fi_orderId input) c)
      (updatedOrders (fi_orderId input) (\<lambda>row. row\<lparr>oe_status := ''paid'', oe_chargeId := Some c\<rparr>) w)"
    using assms(2) by (simp_all add: andThen_def markPaid_run[OF clean])
  show ?thesis
    using assms(1) unfolding w' by (auto simp: standsAt_def stage_simps orderStatus_def onlyOrder_def)
qed

lemma refund_step:
  assumes "standsAt key input n d (Compensating 1) w" and "refundUndo (fi_orderId input) (chargeName key) w = Some (res, w')"
  shows "res = Resolve () \<and> standsAt key input n d (Compensating 0) w' \<and> standsAt key input n d (Compensating 1) w' \<and> onlyRun key input w w'"
proof -
  obtain rf where c: "charges w (chargeName key) = Some (chargeOf input rf)" and clean: "\<not> aborted (fw_store w)"
    using assms(1) by (auto simp: standsAt_def stage_simps)
  have w': "res = Resolve ()" "w' = updatedOrders (fi_orderId input) (\<lambda>row. row\<lparr>oe_status := ''cancelled''\<rparr>)
      (w\<lparr>charges := (charges w)(chargeName key \<mapsto> chargeOf input True)\<rparr>)"
    using assms(2) clean c by (auto simp: refundUndo_def andThen_def refund_def cancel_run chargeOf_def)
  show ?thesis
    using assms(1) unfolding w' by (auto simp: standsAt_def stage_simps orderStatus_def onlyOrder_def)
qed

lemma release_step:
  assumes "standsAt key input n d (Compensating 2) w" and "release_stock (reservationName key) w = Some (res, w')"
  shows "res = Resolve () \<and> standsAt key input n d (Compensating 1) w' \<and> standsAt key input n d (Compensating 2) w' \<and> onlyRun key input w w'"
proof -
  have w': "res = Resolve ()" "charges w' = charges w" "fw_store w' = fw_store w" "held w' = (held w)(reservationName key := None)"
    using assms(2) by (auto simp: release_stock_def split: option.splits)
  have "stockKept levels w \<longrightarrow> stockKept levels w'" for levels
    using assms(2) stockKept_put[of levels w "reservationName key"] by (auto simp: release_stock_def split: option.splits)
  then show ?thesis
    using assms(1) w' by (auto simp: standsAt_def stage_simps orderStatus_def onlyOrder_def)
qed

lemma undos_at:
  "resume (fulfilOrder input) (journalTo n c r d) [] = (f, undos) \<Longrightarrow> n \<le> 4 \<Longrightarrow>
    undos = take n [refundUndo (fi_orderId input) c, release_stock r]"
  by (erule (1) position_cases) simp_all

text \<open>One of the compensations, finished or not.\<close>

lemma undo_step:
  assumes "standsAt key input n d (Compensating (Suc m)) w"
    and "resume (fulfilOrder input) (journalTo n (chargeName key) (reservationName key) d) [] = (f, undos)"
    and "(undos ! m) w = Some (res, w')"
  shows "standsAt key input n d (Compensating m) w' \<and> standsAt key input n d (Compensating (Suc m)) w' \<and> onlyRun key input w w'"
proof -
  have n: "n \<le> 4" "Suc m \<le> 2 \<and> Suc m \<le> n" using assms(1) stage_compensating[of n "Suc m"] unfolding standsAt_def by blast+
  have undos: "undos = take n [refundUndo (fi_orderId input) (chargeName key), release_stock (reservationName key)]"
    by (rule undos_at[OF assms(2) n(1)])
  show ?thesis
  proof (cases m)
    case 0
    then have "refundUndo (fi_orderId input) (chargeName key) w = Some (res, w')" using assms(3) undos n(2) by (cases n) simp_all
    from refund_step[OF _ this] assms(1) 0 show ?thesis by simp
  next
    case (Suc k)
    then have m: "m = 1" using n(2) by simp
    then have "release_stock (reservationName key) w = Some (res, w')"
      using assms(3) undos n(2) by (cases n) (auto simp: take_Cons split: nat.splits)
    from release_step[OF _ this] assms(1) m show ?thesis by (simp add: numeral_2_eq_2)
  qed
qed

lemma wait_step:
  assumes "standsAt key input 3 d Running w" and "w' = w \<or> takesSignal k carrier w w'"
  shows "standsAt key input 4 x Running w' \<and> onlyRun key input w w'"
  using assms by (auto simp: standsAt_def stage_simps takesSignal_def onlyOrder_def orderStatus_def)

lemma worker_effect:
  assumes "worker False key takesSignal (fulfilOrder input) (j, st, w) (j', st', w')"
    and j: "j = journalTo n (chargeName key) (reservationName key) d" and at: "standsAt key input n d st w"
  shows "\<exists>n' d'. j' = journalTo n' (chargeName key) (reservationName key) d' \<and> standsAt key input n' d' st' w' \<and> onlyRun key input w w'"
proof -
  let ?to = "\<lambda>n d. journalTo n (chargeName key) (reservationName key) d"
  have n: "n \<le> 4" and refl: "onlyRun key input w w" using at by (simp_all add: standsAt_def onlyOrder_refl)
  show ?thesis
    using assms(1)
  proof cases
    case (finishes name act undo k undos v)
    note now = at[unfolded finishes(1)]
    from finishes(4)[unfolded j] n show ?thesis
    proof (cases rule: position_cases)
      case charging
      then have "chargeOrder (fi_orderId input) (fi_amountCents input) (key ''charge-payment'') w = Some (Resolve v, w')"
        using finishes(5) by simp
      from charge_step[OF now[unfolded charging(1)] this] have "v = chargeName key" "standsAt key input 1 d Running w'" "onlyRun key input w w'"
        by simp_all
      then show ?thesis using finishes(2,3) j charging(1) journal_snoc(1) by (intro exI[of _ 1] exI[of _ d]) simp
    next
      case reserving
      then have "reserve_stock (fi_sku input) (fi_quantity input) (key ''reserve-stock'') w = Some (Resolve v, w')"
        using finishes(5) by simp
      from reserve_step[OF now[unfolded reserving(1)] this]
      have "v = reservationName key" "standsAt key input 2 d Running w'" "onlyRun key input w w'" by simp_all
      moreover have "?to (Suc 0) d @ [Finished (reservationName key)] = ?to 2 d" using journal_snoc(2) by simp
      ultimately show ?thesis using finishes(2,3) j reserving(1) by (intro exI[of _ 2] exI[of _ d]) simp
    next
      case paying
      then have "andThen (markPaid (fi_orderId input) (chargeName key)) (\<lambda>_. ret []) w = Some (Resolve v, w')" using finishes(5) by simp
      from paid_step[OF now[unfolded paying(1)] this] have "v = []" "standsAt key input 3 d Running w'" "onlyRun key input w w'" by simp_all
      then show ?thesis using finishes(2,3) j paying(1) journal_snoc(3) by (intro exI[of _ 3] exI[of _ d]) simp
    qed simp_all
  next
    case (crashes name act undo k undos res)
    note now = at[unfolded crashes(1)]
    from crashes(4)[unfolded j] n have "standsAt key input n d Running w' \<and> onlyRun key input w w'"
    proof (cases rule: position_cases)
      case charging
      then have "chargeOrder (fi_orderId input) (fi_amountCents input) (key ''charge-payment'') w = Some (res, w')"
        using crashes(5) by simp
      from charge_step[OF now[unfolded charging(1)] this] charging(1) show ?thesis by simp
    next
      case reserving
      then have "reserve_stock (fi_sku input) (fi_quantity input) (key ''reserve-stock'') w = Some (res, w')"
        using crashes(5) by simp
      from reserve_step[OF now[unfolded reserving(1)] this] reserving(1) show ?thesis by simp
    next
      case paying
      then have "andThen (markPaid (fi_orderId input) (chargeName key)) (\<lambda>_. ret []) w = Some (res, w')" using crashes(5) by simp
      from paid_step[OF now[unfolded paying(1)] this] paying(1) show ?thesis by simp
    qed simp_all
    then show ?thesis using crashes(2,3) j by blast
  next
    case (givesUp name act undo k undos e)
    note now = at[unfolded givesUp(1)]
    from givesUp(4)[unfolded j] n show ?thesis
    proof (cases rule: position_cases)
      case charging
      then show ?thesis using givesUp(5) by (simp add: chargeOrder_def Let_def)
    next
      case reserving
      then have "reserve_stock (fi_sku input) (fi_quantity input) (key ''reserve-stock'') w = Some (Reject e, w')"
        using givesUp(5) by simp
      from reserve_step[OF now[unfolded reserving(1)] this] have "standsAt key input 1 d (Compensating 1) w'" "onlyRun key input w w'"
        by simp_all
      then show ?thesis using givesUp(2,3) j reserving(1,2) by (intro exI[of _ 1] exI[of _ d]) simp
    next
      case paying
      then show ?thesis using givesUp(5) now by (simp add: andThen_def markPaid_run standsAt_def)
    qed simp_all
  next
    case (signalled k1 k undos d1)
    note now = at[unfolded signalled(1)]
    from signalled(4)[unfolded j] n show ?thesis
    proof (cases rule: position_cases)
      case waiting
      from wait_step[OF now[unfolded waiting(1)]] signalled(5)
      have "standsAt key input 4 (Some d1) Running w'" "onlyRun key input w w'" by blast+
      then show ?thesis using signalled(2,3) j waiting(1) journal_snoc(4) by (intro exI[of _ 4] exI[of _ "Some d1"]) simp
    qed simp_all
  next
    case (timesOut k1 k undos)
    note now = at[unfolded timesOut(1)]
    from timesOut(5)[unfolded j] n show ?thesis
    proof (cases rule: position_cases)
      case waiting
      from wait_step[OF now[unfolded waiting(1)]] have "standsAt key input 4 None Running w" by blast
      then show ?thesis using timesOut(2-4) j waiting(1) journal_snoc(4) refl by (intro exI[of _ 4] exI[of _ None]) simp
    qed simp_all
  next
    case (fails undos)
    note now = at[unfolded fails(1)]
    from fails(5)[unfolded j] n show ?thesis
    proof (cases rule: position_cases)
      case late
      have "standsAt key input 4 d (Compensating 2) w" using now late(1) by (auto simp: standsAt_def stage_simps)
      then show ?thesis using fails(2-4) j late(1,2) refl by (intro exI[of _ 4] exI[of _ d]) (simp add: numeral_2_eq_2)
    qed simp_all
  next
    case (returns v undos)
    note now = at[unfolded returns(1)]
    from returns(5)[unfolded j] n show ?thesis
    proof (cases rule: position_cases)
      case (delivered carrier)
      have "standsAt key input 4 d (Completed v) w" using now delivered(1,3,4) by (auto simp: standsAt_def stage_simps)
      then show ?thesis using returns(2-4) j delivered(1) refl by (intro exI[of _ 4] exI[of _ d]) simp
    qed simp_all
  next
    case (compensates f undos m)
    from undo_step[OF at[unfolded compensates(1)] compensates(4)[unfolded j] compensates(6)] compensates(2,3) j
    show ?thesis by blast
  next
    case (compensationCrashes f undos m res)
    from undo_step[OF at[unfolded compensationCrashes(1)] compensationCrashes(4)[unfolded j] compensationCrashes(6)]
      compensationCrashes(2,3) j
    show ?thesis by blast
  next
    case compensated
    then have "standsAt key input n d FailedRun w" using at by (auto simp: standsAt_def stage_simps)
    then show ?thesis using compensated j refl by blast
  next
    case (outage name act undo k undos)
    then show ?thesis by simp
  qed
qed

section \<open>All runs\<close>

text \<open>The keys tell the steps of all instances apart.\<close>

definition distinctKeys :: "(string \<Rightarrow> string \<Rightarrow> string) \<Rightarrow> bool" where
  "distinctKeys keys \<longleftrightarrow> (\<forall>i s i' s'. keys i s = keys i' s' \<longrightarrow> i = i' \<and> s = s')"

definition runsWell :: "(string \<Rightarrow> string) \<Rightarrow> string \<Rightarrow> workflow_instance \<Rightarrow> fulfil_world \<Rightarrow> bool" where
  "runsWell key i inst w \<longleftrightarrow> i = fulfilmentId (fi_orderId (wi_input inst)) \<and>
     (\<exists>n d. wi_journal inst = journalTo n (chargeName key) (reservationName key) d \<and>
       standsAt key (wi_input inst) n d (wi_state inst) w)"

definition fulfilSound :: "(string \<Rightarrow> string \<Rightarrow> string) \<Rightarrow> (string \<Rightarrow> int option) \<Rightarrow> fulfil_world \<Rightarrow> bool" where
  "fulfilSound keys levels w \<longleftrightarrow> \<not> aborted (fw_store w) \<and> stockKept levels w \<and>
     (\<forall>i. case fs_instances (fw_store w) i of
        None \<Rightarrow> charges w (chargeName (keys i)) = None \<and> held w (reservationName (keys i)) = None
      | Some inst \<Rightarrow> runsWell (keys i) i inst w)"

lemma sound_base:
  "fulfilSound keys levels w \<Longrightarrow> \<not> aborted (fw_store w)" "fulfilSound keys levels w \<Longrightarrow> stockKept levels w"
  by (simp_all add: fulfilSound_def)

lemma sound_instance:
  assumes "fulfilSound keys levels w"
  shows "case fs_instances (fw_store w) i of
      None \<Rightarrow> charges w (chargeName (keys i)) = None \<and> held w (reservationName (keys i)) = None
    | Some inst \<Rightarrow> runsWell (keys i) i inst w"
  using assms by (simp add: fulfilSound_def)

lemma sound_absent:
  assumes "fulfilSound keys levels w" and "fs_instances (fw_store w) i = None"
  shows "charges w (chargeName (keys i)) = None" "held w (reservationName (keys i)) = None"
  using sound_instance[OF assms(1), of i] assms(2) by simp_all

lemma sound_present:
  assumes "fulfilSound keys levels w" and "fs_instances (fw_store w) i = Some inst"
  shows "runsWell (keys i) i inst w"
  using sound_instance[OF assms(1), of i] assms(2) by simp

lemma fulfilmentId_inj [simp]: "fulfilmentId a = fulfilmentId b \<longleftrightarrow> a = b"
  by (simp add: fulfilmentId_def)

lemma names_apart:
  assumes "distinctKeys keys"
  shows "chargeName (keys i) = chargeName (keys i') \<longleftrightarrow> i = i'" "reservationName (keys i) = reservationName (keys i') \<longleftrightarrow> i = i'"
proof -
  have "keys i s = keys i' s \<longleftrightarrow> i = i'" for s
    using assms unfolding distinctKeys_def by metis
  then show "chargeName (keys i) = chargeName (keys i') \<longleftrightarrow> i = i'" "reservationName (keys i) = reservationName (keys i') \<longleftrightarrow> i = i'"
    by (simp_all add: chargeName_def reservationName_def)
qed

text \<open>A run does not notice what happens to others.\<close>

lemma runsWell_other:
  assumes "runsWell key i inst w" and "charges w' (chargeName key) = charges w (chargeName key)"
    and "held w' (reservationName key) = held w (reservationName key)" and "\<not> aborted (fw_store w')"
    and "fs_orders (fw_store w') (fi_orderId (wi_input inst)) = fs_orders (fw_store w) (fi_orderId (wi_input inst))"
  shows "runsWell key i inst w'"
  using assms unfolding runsWell_def standsAt_def orderStatus_def by metis

definition withOrder :: "order_entity \<Rightarrow> fulfil_world \<Rightarrow> fulfil_world" where
  "withOrder row w = w\<lparr>fw_store := (fw_store w)\<lparr>fs_orders := (fs_orders (fw_store w))(oe_id row \<mapsto> row)\<rparr>\<rparr>"

lemma withOrder_fields [simp]:
  "charges (withOrder row w) = charges w" "held (withOrder row w) = held w" "stockLevels (withOrder row w) = stockLevels w"
  "fs_orders (fw_store (withOrder row w)) = (fs_orders (fw_store w))(oe_id row \<mapsto> row)"
  "fs_instances (fw_store (withOrder row w)) = fs_instances (fw_store w)"
  "aborted (fw_store (withOrder row w)) = aborted (fw_store w)" "stockKept levels (withOrder row w) = stockKept levels w"
  unfolding withOrder_def by simp_all

definition placedWorld :: "string \<Rightarrow> string \<Rightarrow> int \<Rightarrow> int \<Rightarrow> fulfil_world \<Rightarrow> fulfil_world" where
  "placedWorld orderId sku quantity amountCents w = noted (OrderPlaced_msg orderId sku quantity amountCents)
     (putInstance (fulfilmentId orderId)
        \<lparr>wi_input = \<lparr>fi_orderId = orderId, fi_sku = sku, fi_quantity = quantity, fi_amountCents = amountCents\<rparr>,
         wi_journal = [], wi_state = Running\<rparr>
     (withOrder \<lparr>oe_id = orderId, oe_sku = sku, oe_quantity = quantity, oe_amountCents = amountCents,
        oe_status = ''placed'', oe_chargeId = None, oe_carrier = None\<rparr> w))"

lemma placeOrder_run:
  assumes "\<not> aborted (fw_store w)"
  shows "executePlaceOrder orderId sku quantity amountCents failing w =
    (if \<not> int4 quantity \<or> \<not> int4 amountCents then Some (Reject outOfRange, w)
     else if failing then Some (Reject failedAfterWriting, w)
     else Some (Resolve (), placedWorld orderId sku quantity amountCents w))"
  using assms
  by (simp add: executePlaceOrder_def onStore_def transactional_def andThen_def saveOrder_def commitPlaced_def startInstance_def
      publishFulfil_def statement_def placedWorld_def noted_def putInstance_def withOrder_def)

lemma placedWorld_fields:
  "charges (placedWorld orderId sku quantity amountCents w) = charges w" "held (placedWorld orderId sku quantity amountCents w) = held w"
  "stockKept levels (placedWorld orderId sku quantity amountCents w) = stockKept levels w"
  "aborted (fw_store (placedWorld orderId sku quantity amountCents w)) = aborted (fw_store w)"
  "x \<noteq> orderId \<Longrightarrow> fs_orders (fw_store (placedWorld orderId sku quantity amountCents w)) x = fs_orders (fw_store w) x"
  "orderStatus (placedWorld orderId sku quantity amountCents w) orderId = Some ''placed''"
  "fs_instances (fw_store (placedWorld orderId sku quantity amountCents w)) = (fs_instances (fw_store w))(fulfilmentId orderId \<mapsto>
     \<lparr>wi_input = \<lparr>fi_orderId = orderId, fi_sku = sku, fi_quantity = quantity, fi_amountCents = amountCents\<rparr>,
      wi_journal = [], wi_state = Running\<rparr>)"
  unfolding placedWorld_def orderStatus_def by simp_all

lemma sound_placed:
  assumes "fulfilSound keys levels w" and "fs_instances (fw_store w) (fulfilmentId orderId) = None"
  shows "fulfilSound keys levels (placedWorld orderId sku quantity amountCents w)"
  unfolding fulfilSound_def
proof (intro conjI allI)
  let ?w = "placedWorld orderId sku quantity amountCents w"
  show "\<not> aborted (fw_store ?w)" "stockKept levels ?w"
    using sound_base[OF assms(1)] by (simp_all add: placedWorld_fields)
  fix i
  show "case fs_instances (fw_store ?w) i of
      None \<Rightarrow> charges ?w (chargeName (keys i)) = None \<and> held ?w (reservationName (keys i)) = None
    | Some inst \<Rightarrow> runsWell (keys i) i inst ?w"
  proof (cases "i = fulfilmentId orderId")
    case True
    then have "standsAt (keys i) \<lparr>fi_orderId = orderId, fi_sku = sku, fi_quantity = quantity, fi_amountCents = amountCents\<rparr> 0 None Running ?w"
      using sound_absent[OF assms] sound_base(1)[OF assms(1)] by (simp add: standsAt_def stage_simps placedWorld_fields)
    then show ?thesis
      using True by (auto simp: placedWorld_fields(7) runsWell_def journalTo_def intro!: exI[of _ 0] exI[of _ None])
  next
    case False
    show ?thesis
    proof (cases "fs_instances (fw_store w) i")
      case None
      with False sound_absent[OF assms(1) this] show ?thesis by (simp add: placedWorld_fields)
    next
      case (Some inst)
      note well = sound_present[OF assms(1) this]
      then have "fi_orderId (wi_input inst) \<noteq> orderId" using False by (auto simp: runsWell_def)
      then have "runsWell (keys i) i inst ?w"
        by (intro runsWell_other[OF well]) (use sound_base(1)[OF assms(1)] in \<open>simp_all add: placedWorld_fields\<close>)
      then show ?thesis using Some False by (simp add: placedWorld_fields(7))
    qed
  qed
qed

lemma sound_command:
  assumes "fulfilSound keys levels w" and "fs_instances (fw_store w) (fulfilmentId orderId) = None"
    and "executePlaceOrder orderId sku quantity amountCents failing w = Some (r, w')"
  shows "fulfilSound keys levels w'"
  using assms(3) placeOrder_run[OF sound_base(1)[OF assms(1)], of orderId sku quantity amountCents failing]
    sound_placed[OF assms(1,2), of sku quantity amountCents] assms(1)
  by (auto split: if_splits)

lemma stage_delivered:
  "stageOk n st chargeId d input c h s \<Longrightarrow> stageOk n st chargeId d input c h (Some ''delivered'')"
  by (auto simp: stageOk_def Let_def split: run_state.splits)

lemma sound_webhook:
  assumes "fulfilSound keys levels w" and "confirmDelivery orderId carrier failing w = Some (r, w')"
  shows "fulfilSound keys levels w'"
proof (cases failing)
  case True
  then show ?thesis using assms confirmDelivery_run[of w] by (auto simp: fulfilSound_def)
next
  case False
  have clean: "\<not> aborted (fw_store w)" using assms(1) by (simp add: fulfilSound_def)
  have w': "w' = sent orderId carrier (updatedOrders orderId (\<lambda>row. row\<lparr>oe_status := ''delivered'', oe_carrier := Some carrier\<rparr>) w)"
    using assms(2) confirmDelivery_run[OF clean] False by simp
  have "runsWell key i inst w'" if well: "runsWell key i inst w" for key i inst
  proof (cases "fi_orderId (wi_input inst) = orderId")
    case True
    from well obtain n d where nd: "i = fulfilmentId (fi_orderId (wi_input inst))"
      "wi_journal inst = journalTo n (chargeName key) (reservationName key) d" "standsAt key (wi_input inst) n d (wi_state inst) w"
      by (auto simp: runsWell_def)
    have "standsAt key (wi_input inst) n d (wi_state inst) w'"
      using nd(3) True stage_delivered by (auto simp: standsAt_def w' orderStatus_def)
    then show ?thesis using nd(1,2) by (auto simp: runsWell_def)
  next
    case False
    then show ?thesis by (intro runsWell_other[OF well]) (simp_all add: w' clean)
  qed
  note well = this
  show ?thesis
    unfolding fulfilSound_def
  proof (intro conjI allI)
    show "\<not> aborted (fw_store w')" "stockKept levels w'" using sound_base[OF assms(1)] by (simp_all add: w')
    show "case fs_instances (fw_store w') i of
        None \<Rightarrow> charges w' (chargeName (keys i)) = None \<and> held w' (reservationName (keys i)) = None
      | Some inst \<Rightarrow> runsWell (keys i) i inst w'" for i
      using sound_instance[OF assms(1), of i] well by (cases "fs_instances (fw_store w) i") (simp_all add: w')
  qed
qed

lemma sound_work:
  assumes "fulfilSound keys levels w" and "distinctKeys keys" and "fs_instances (fw_store w) i = Some inst"
    and "worker False (keys i) takesSignal (fulfilOrder (wi_input inst)) (wi_journal inst, wi_state inst, w) (j, st, w')"
  shows "fulfilSound keys levels (putInstance i (inst\<lparr>wi_journal := j, wi_state := st\<rparr>) w')"
proof -
  let ?inst = "inst\<lparr>wi_journal := j, wi_state := st\<rparr>"
  note well = sound_present[OF assms(1,3)]
  then obtain n d where nd: "i = fulfilmentId (fi_orderId (wi_input inst))"
    "wi_journal inst = journalTo n (chargeName (keys i)) (reservationName (keys i)) d"
    "standsAt (keys i) (wi_input inst) n d (wi_state inst) w" by (auto simp: runsWell_def)
  from worker_effect[OF assms(4) nd(2,3)] obtain n' d' where eff: "j = journalTo n' (chargeName (keys i)) (reservationName (keys i)) d'"
    "standsAt (keys i) (wi_input inst) n' d' st w'" "onlyRun (keys i) (wi_input inst) w w'" by blast
  show ?thesis
    unfolding fulfilSound_def
  proof (intro conjI allI)
    show "\<not> aborted (fw_store (putInstance i ?inst w'))" using eff(3) by (simp add: onlyOrder_def)
    show "stockKept levels (putInstance i ?inst w')" using eff(3) assms(1) by (simp add: onlyOrder_def fulfilSound_def)
    fix i1
    show "case fs_instances (fw_store (putInstance i ?inst w')) i1 of
        None \<Rightarrow> charges (putInstance i ?inst w') (chargeName (keys i1)) = None \<and> held (putInstance i ?inst w') (reservationName (keys i1)) = None
      | Some inst1 \<Rightarrow> runsWell (keys i1) i1 inst1 (putInstance i ?inst w')"
    proof (cases "i1 = i")
      case True
      have "standsAt (keys i) (wi_input inst) n' d' st (putInstance i ?inst w')"
        using eff(2) by (simp add: standsAt_def orderStatus_def)
      then show ?thesis using True nd(1) eff(1) by (auto simp: runsWell_def)
    next
      case False
      then have names: "chargeName (keys i1) \<noteq> chargeName (keys i)" "reservationName (keys i1) \<noteq> reservationName (keys i)"
        using names_apart[OF assms(2)] by metis+
      then have same: "charges w' (chargeName (keys i1)) = charges w (chargeName (keys i1))"
        "held w' (reservationName (keys i1)) = held w (reservationName (keys i1))"
        "fs_instances (fw_store w') = fs_instances (fw_store w)" using eff(3) by (simp_all add: onlyOrder_def)
      show ?thesis
      proof (cases "fs_instances (fw_store w) i1")
        case None
        with sound_absent[OF assms(1) this] False same show ?thesis by simp
      next
        case (Some inst1)
        note other = sound_present[OF assms(1) this]
        then have "fi_orderId (wi_input inst1) \<noteq> fi_orderId (wi_input inst)" using False nd(1) by (auto simp: runsWell_def)
        then have "runsWell (keys i1) i1 inst1 (putInstance i ?inst w')"
          by (intro runsWell_other[OF other]) (use same eff(3) in \<open>simp_all add: onlyOrder_def\<close>)
        then show ?thesis using Some False same(3) by simp
      qed
    qed
  qed
qed

lemma reaches_sound:
  assumes "fulfilReaches False keys levels w" and "distinctKeys keys"
  shows "fulfilSound keys levels w"
  using assms(1) unfolding fulfilReaches_def
proof (induction rule: rtranclp_induct)
  case base
  show ?case by (simp add: fulfilSound_def fulfilOpened_def stockKept_def)
next
  case (step w w')
  from step(2) show ?case
  proof (cases rule: fulfil_step.cases)
    case (command orderId sku quantity amountCents failing r)
    then show ?thesis by (intro sound_command[OF step(3)])
  next
    case (webhook orderId carrier failing r)
    then show ?thesis by (intro sound_webhook[OF step(3)])
  next
    case (works i inst j st w1)
    show ?thesis unfolding works(1) by (rule sound_work[OF step(3) assms(2) works(2,3)])
  qed
qed

end
