(* ===== verification/Fulfilment_Outcome.thy ===== *)
theory Fulfilment_Outcome
  imports Fulfilment_Properties
begin

text \<open>
  How the runs of the fulfilment workflow end: a worker that goes on ends every run, with the
  order charged and its stock held or with both undone. The end of the theory shows what the
  unconditional updates of the order and a step that is given up leave behind.
\<close>

section \<open>A worker that goes on\<close>

text \<open>The step of the worker that records its result; a wait runs into its timeout.\<close>

fun advanced :: "(string \<Rightarrow> string) \<Rightarrow> ('w, 'r) flow \<Rightarrow> journal_entry list \<times> 'r run_state \<times> 'w \<Rightarrow> journal_entry list \<times> 'r run_state \<times> 'w" where
  "advanced key flow (j, Running, w) = (case resume flow j [] of
      (Step name act undo k, undos) \<Rightarrow> (case act (key name) w of
          None \<Rightarrow> (j, Running, w)
        | Some (Resolve v, w') \<Rightarrow> (j @ [Finished v], Running, w')
        | Some (Reject e, w') \<Rightarrow> (j, Compensating (length undos), w'))
    | (WaitForSignal k1 k, undos) \<Rightarrow> (j @ [Heard None], Running, w)
    | (FailRun, undos) \<Rightarrow> (j, Compensating (length undos), w)
    | (ReturnRun v, undos) \<Rightarrow> (j, Completed v, w))"
| "advanced key flow (j, Compensating 0, w) = (j, FailedRun, w)"
| "advanced key flow (j, Compensating (Suc n), w) = (let undos = snd (resume flow j []) in
      if n < length undos then (case (undos ! n) w of
          Some (Resolve u, w') \<Rightarrow> (j, Compensating n, w')
        | Some (Reject e, w') \<Rightarrow> (j, Compensating (Suc n), w')
        | None \<Rightarrow> (j, Compensating (Suc n), w))
      else (j, Compensating (Suc n), w))"
| "advanced key flow (j, Completed v, w) = (j, Completed v, w)"
| "advanced key flow (j, FailedRun, w) = (j, FailedRun, w)"

definition goesOn :: "(string \<Rightarrow> string \<Rightarrow> string) \<Rightarrow> string \<Rightarrow> fulfil_world \<Rightarrow> fulfil_world" where
  "goesOn keys i w = (case fs_instances (fw_store w) i of
      None \<Rightarrow> w
    | Some inst \<Rightarrow> (case advanced (keys i) (fulfilOrder (wi_input inst)) (wi_journal inst, wi_state inst, w) of
        (j, st, w') \<Rightarrow> putInstance i (inst\<lparr>wi_journal := j, wi_state := st\<rparr>) w'))"

definition hasEnded :: "fulfilment_result run_state \<Rightarrow> bool" where
  "hasEnded st = (case st of Completed r \<Rightarrow> True | FailedRun \<Rightarrow> True | _ \<Rightarrow> False)"

text \<open>How many steps a run that stands at a position is from its end.\<close>

fun remaining :: "nat \<Rightarrow> fulfilment_result run_state \<Rightarrow> nat" where
  "remaining n Running = 8 - n"
| "remaining n (Compensating m) = Suc m"
| "remaining n (Completed r) = 0"
| "remaining n FailedRun = 0"

lemma remaining_ended: "n \<le> 4 \<Longrightarrow> remaining n st = 0 \<longleftrightarrow> hasEnded st"
  by (cases st) (auto simp: hasEnded_def)

lemma advanced_running:
  assumes "standsAt key input n d Running w" and "j = journalTo n (chargeName key) (reservationName key) d"
    and "advanced key (fulfilOrder input) (j, Running, w) = (j', st', w')"
  shows "worker outages key takesSignal (fulfilOrder input) (j, Running, w) (j', st', w') \<and>
    (\<exists>n' d'. j' = journalTo n' (chargeName key) (reservationName key) d' \<and> n' \<le> 4 \<and> remaining n' st' < remaining n Running)"
proof -
  obtain pos undos where pos: "resume (fulfilOrder input) j [] = (pos, undos)" by fastforce
  have n: "n \<le> 4" using assms(1) by (simp add: standsAt_def)
  from pos[unfolded assms(2)] n show ?thesis
  proof (cases rule: position_cases)
    case (charging k)
    obtain w1 where run: "chargeOrder (fi_orderId input) (fi_amountCents input) (key ''charge-payment'') w = Some (Resolve (chargeName key), w1)"
      by (simp add: chargeOrder_def chargeName_def Let_def)
    then have res: "j' = j @ [Finished (chargeName key)]" "st' = Running" "w' = w1"
      using assms(3) pos charging(3) by simp_all
    moreover have "worker outages key takesSignal (fulfilOrder input) (j, Running, w) (j @ [Finished (chargeName key)], Running, w1)"
      by (rule worker.finishes[OF pos[unfolded charging(3)]]) (simp add: run)
    ultimately show ?thesis
      using journal_snoc(1) assms(2) charging(1) by (auto intro!: exI[of _ 1] exI[of _ d])
  next
    case (reserving k)
    obtain res w1 where run: "reserve_stock (fi_sku input) (fi_quantity input) (key ''reserve-stock'') w = Some (res, w1)"
    proof (cases "reserve_stock (fi_sku input) (fi_quantity input) (key ''reserve-stock'') w")
      case None
      then show ?thesis by (simp add: reserve_stock_def Let_def split: if_splits)
    qed (auto intro: that)
    from reserve_step[OF assms(1)[unfolded reserving(1)] run] have cases: "res = Resolve (reservationName key) \<or> (\<exists>e. res = Reject e)"
      by (cases res) auto
    show ?thesis
    proof (cases "\<exists>e. res = Reject e")
      case True
      then obtain e where e: "res = Reject e" by blast
      then have "worker outages key takesSignal (fulfilOrder input) (j, Running, w) (j, Compensating (length undos), w1)"
        using run by (auto intro!: worker.givesUp[OF pos[unfolded reserving(3)]])
      moreover have "j' = j" "st' = Compensating (length undos)" "w' = w1"
        using assms(3) pos reserving(3) run e by simp_all
      ultimately show ?thesis
        using assms(2) reserving(1,2) by (auto intro!: exI[of _ 1] exI[of _ d])
    next
      case False
      then have v: "res = Resolve (reservationName key)" using cases by blast
      have "worker outages key takesSignal (fulfilOrder input) (j, Running, w) (j @ [Finished (reservationName key)], Running, w1)"
        by (rule worker.finishes[OF pos[unfolded reserving(3)]]) (simp add: run v)
      moreover have "j' = j @ [Finished (reservationName key)]" "st' = Running" "w' = w1"
        using assms(3) pos reserving(3) run v by simp_all
      ultimately show ?thesis
        using journal_snoc(2) assms(2) reserving(1) by (auto intro!: exI[of _ 2] exI[of _ d])
    qed
  next
    case (paying k)
    have clean: "\<not> aborted (fw_store w)" using assms(1) by (simp add: standsAt_def)
    obtain w1 where run: "andThen (markPaid (fi_orderId input) (chargeName key)) (\<lambda>_. ret []) w = Some (Resolve ([] :: string), w1)"
      by (simp add: andThen_def markPaid_run[OF clean])
    have "worker outages key takesSignal (fulfilOrder input) (j, Running, w) (j @ [Finished []], Running, w1)"
      by (rule worker.finishes[OF pos[unfolded paying(3)]]) (simp add: run)
    moreover have "j' = j @ [Finished []]" "st' = Running" "w' = w1"
      using assms(3) pos paying(3) run by simp_all
    ultimately show ?thesis
      using journal_snoc(3) assms(2) paying(1) by (auto intro!: exI[of _ 3] exI[of _ d])
  next
    case (waiting k)
    then show ?thesis
      using assms(2,3) pos worker.timesOut[OF pos[unfolded waiting(3)], of outages key takesSignal w] journal_snoc(4)
      by (auto intro!: exI[of _ 4] exI[of _ None])
  next
    case late
    then show ?thesis
      using assms(2,3) pos worker.fails[OF pos[unfolded late(4)], of outages key takesSignal w]
      by (auto intro!: exI[of _ 4] exI[of _ None])
  next
    case (delivered carrier)
    then show ?thesis
      using assms(2,3) pos worker.returns[OF pos[unfolded delivered(4)], of outages key takesSignal w]
      by (auto intro!: exI[of _ 4] exI[of _ d])
  qed
qed

lemma undo_resolves:
  assumes "standsAt key input n d (Compensating (Suc m)) w"
    and "resume (fulfilOrder input) (journalTo n (chargeName key) (reservationName key) d) [] = (f, undos)"
  shows "m < length undos" and "\<exists>w'. (undos ! m) w = Some (Resolve (), w')"
proof -
  have n: "n \<le> 4" "Suc m \<le> 2 \<and> Suc m \<le> n" and clean: "\<not> aborted (fw_store w)"
    using assms(1) stage_compensating[of n "Suc m"] unfolding standsAt_def by blast+
  have undos: "undos = take n [refundUndo (fi_orderId input) (chargeName key), release_stock (reservationName key)]"
    by (rule undos_at[OF assms(2) n(1)])
  show "m < length undos" using undos n(2) by simp
  have release: "\<exists>w'. release_stock r w = Some (Resolve (), w')" for r by (simp add: release_stock_def)
  obtain w1 where refund: "refund (chargeName key) w = Some (Resolve (), w1)" "fw_store w1 = fw_store w"
    by (cases "charges w (chargeName key)") (simp_all add: refund_def)
  then have undo: "\<exists>w'. refundUndo (fi_orderId input) (chargeName key) w = Some (Resolve (), w')"
    using clean by (simp add: refundUndo_def andThen_def cancel_run)
  show "\<exists>w'. (undos ! m) w = Some (Resolve (), w')"
  proof (cases m)
    case 0
    then show ?thesis using undo undos n(2) by (cases n) simp_all
  next
    case (Suc k)
    then have "undos ! m = release_stock (reservationName key)"
      using undos n(2) by (cases n) (auto simp: take_Cons split: nat.splits)
    then show ?thesis using release by simp
  qed
qed

lemma advanced_step:
  assumes "standsAt key input n d st w" and "j = journalTo n (chargeName key) (reservationName key) d"
    and "advanced key (fulfilOrder input) (j, st, w) = (j', st', w')" and "\<not> hasEnded st"
  shows "worker outages key takesSignal (fulfilOrder input) (j, st, w) (j', st', w') \<and>
    (\<exists>n' d'. j' = journalTo n' (chargeName key) (reservationName key) d' \<and> n' \<le> 4 \<and> remaining n' st' < remaining n st)"
proof -
  have n: "n \<le> 4" using assms(1) by (simp add: standsAt_def)
  show ?thesis
  proof (cases st)
    case Running
    then show ?thesis using advanced_running[of key input n d w j j' st' w' outages] assms(1-3) by simp
  next
    case (Compensating m)
    show ?thesis
    proof (cases m)
      case 0
      then have "j' = j" "st' = FailedRun" "w' = w" using assms(3) Compensating by simp_all
      then show ?thesis using Compensating 0 worker.compensated assms(2) n by auto
    next
      case (Suc k)
      obtain pos undos where pos: "resume (fulfilOrder input) j [] = (pos, undos)" by fastforce
      note at = assms(1)[unfolded Compensating Suc]
      obtain w1 where w1: "(undos ! k) w = Some (Resolve (), w1)" and k: "k < length undos"
        using undo_resolves[OF at pos[unfolded assms(2)]] by blast
      have "j' = j" "st' = Compensating k" "w' = w1" using assms(3) Compensating Suc pos w1 k by simp_all
      moreover have "worker outages key takesSignal (fulfilOrder input) (j, Compensating (Suc k), w) (j, Compensating k, w1)"
        by (rule worker.compensates[OF pos k w1])
      ultimately show ?thesis using Compensating Suc assms(2) n by auto
    qed
  qed (use assms(4) in \<open>simp_all add: hasEnded_def\<close>)
qed

section \<open>Every run ends\<close>

definition stepsLeft :: "string \<Rightarrow> fulfil_world \<Rightarrow> nat" where
  "stepsLeft i w = (case fs_instances (fw_store w) i of
      None \<Rightarrow> 0 | Some inst \<Rightarrow> remaining (length (wi_journal inst)) (wi_state inst))"

lemma journalTo_length: "n \<le> 4 \<Longrightarrow> length (journalTo n c r d) = n"
  by (simp add: journalTo_def)

lemma putInstance_again: "fs_instances (fw_store w) i = Some inst \<Longrightarrow> putInstance i inst w = w"
  by (simp add: putInstance_def fun_upd_idem)

lemma advanced_ended: "hasEnded st \<Longrightarrow> advanced key flow (j, st, w) = (j, st, w)"
  by (cases st) (simp_all add: hasEnded_def)

lemma goesOn_step:
  assumes "fulfilReaches False keys levels w" and "distinctKeys keys" and "fs_instances (fw_store w) i = Some inst"
  shows "fulfilReaches False keys levels (goesOn keys i w) \<and>
    (\<exists>inst'. fs_instances (fw_store (goesOn keys i w)) i = Some inst' \<and> wi_input inst' = wi_input inst) \<and>
    (stepsLeft i (goesOn keys i w) = 0 \<or> stepsLeft i (goesOn keys i w) < stepsLeft i w)"
proof -
  note sound = reaches_sound[OF assms(1,2)]
  from sound_present[OF sound assms(3)] obtain n d where nd:
    "wi_journal inst = journalTo n (chargeName (keys i)) (reservationName (keys i)) d"
    "standsAt (keys i) (wi_input inst) n d (wi_state inst) w" by (auto simp: runsWell_def)
  have n: "n \<le> 4" using nd(2) by (simp add: standsAt_def)
  obtain j st w1 where adv: "advanced (keys i) (fulfilOrder (wi_input inst)) (wi_journal inst, wi_state inst, w) = (j, st, w1)"
    by (metis prod_cases3)
  then have goes: "goesOn keys i w = putInstance i (inst\<lparr>wi_journal := j, wi_state := st\<rparr>) w1"
    using assms(3) by (simp add: goesOn_def)
  have left: "stepsLeft i w = remaining n (wi_state inst)"
    using assms(3) nd(1) n by (simp add: stepsLeft_def journalTo_length)
  show ?thesis
  proof (cases "hasEnded (wi_state inst)")
    case True
    then have "goesOn keys i w = w"
      using adv goes advanced_ended[OF True, of "keys i" "fulfilOrder (wi_input inst)" "wi_journal inst" w]
        putInstance_again[OF assms(3)] by (cases inst) auto
    then show ?thesis using assms(1,3) left True remaining_ended[OF n] by simp
  next
    case False
    from advanced_step[OF nd(2,1) adv False, of False] obtain n' d' where moved:
      "worker False (keys i) takesSignal (fulfilOrder (wi_input inst)) (wi_journal inst, wi_state inst, w) (j, st, w1)"
      "j = journalTo n' (chargeName (keys i)) (reservationName (keys i)) d'" "n' \<le> 4"
      "remaining n' st < remaining n (wi_state inst)" by blast
    have "fulfil_step False keys w (goesOn keys i w)"
      unfolding goes by (rule fulfil_step.works[where keys = keys, OF assms(3)]) (rule moved(1))
    then have "fulfilReaches False keys levels (goesOn keys i w)"
      using assms(1) unfolding fulfilReaches_def by (rule rtranclp.rtrancl_into_rtrancl[rotated])
    moreover have "stepsLeft i (goesOn keys i w) < stepsLeft i w"
      unfolding left using moved(2-4) by (simp add: goes stepsLeft_def journalTo_length)
    ultimately show ?thesis by (simp add: goes)
  qed
qed

lemma goesOn_steps:
  assumes "fulfilReaches False keys levels w" and "distinctKeys keys" and "fs_instances (fw_store w) i = Some inst"
  shows "fulfilReaches False keys levels ((goesOn keys i ^^ k) w) \<and>
    (\<exists>inst'. fs_instances (fw_store ((goesOn keys i ^^ k) w)) i = Some inst' \<and> wi_input inst' = wi_input inst) \<and>
    stepsLeft i ((goesOn keys i ^^ k) w) \<le> stepsLeft i w - k"
proof (induction k)
  case 0
  then show ?case using assms by simp
next
  case (Suc k)
  then obtain inst' where at: "fs_instances (fw_store ((goesOn keys i ^^ k) w)) i = Some inst'" "wi_input inst' = wi_input inst" by blast
  from goesOn_step[OF conjunct1[OF Suc] assms(2) at(1)] Suc show ?case by (auto simp: at(2))
qed

lemma stepsLeft_bound:
  assumes "fulfilReaches False keys levels w" and "distinctKeys keys"
  shows "stepsLeft i w \<le> 8"
proof (cases "fs_instances (fw_store w) i")
  case (Some inst)
  from sound_present[OF reaches_sound[OF assms] Some] obtain n d where nd:
    "standsAt (keys i) (wi_input inst) n d (wi_state inst) w" by (auto simp: runsWell_def)
  then show ?thesis
    using Some stage_compensating by (cases "wi_state inst") (fastforce simp: stepsLeft_def standsAt_def)+
qed (simp add: stepsLeft_def)

section \<open>A concrete run\<close>

text \<open>Keys that tell all steps apart, and an order of a product that is out of stock.\<close>

definition exampleKeys :: "string \<Rightarrow> string \<Rightarrow> string" where
  "exampleKeys i s = replicate (length i) CHR ''x'' @ CHR '':'' # i @ s"

lemma prefix_code_inj:
  assumes "x \<noteq> y" and "replicate n x @ y # r = replicate m x @ y # r'"
  shows "n = m \<and> r = r'"
  using assms(2)
proof (induction n arbitrary: m)
  case 0
  then show ?case using assms(1) by (cases m) auto
next
  case (Suc n)
  then show ?case using assms(1) by (cases m) auto
qed

lemma exampleKeys_distinct: "distinctKeys exampleKeys"
  unfolding distinctKeys_def exampleKeys_def
proof (intro allI impI)
  fix i s i' s' :: string
  assume "replicate (length i) CHR ''x'' @ CHR '':'' # i @ s = replicate (length i') CHR ''x'' @ CHR '':'' # i' @ s'"
  then have "length i = length i' \<and> i @ s = i' @ s'" by (intro prefix_code_inj[of "CHR ''x''" "CHR '':''"]) simp_all
  then show "i = i' \<and> s = s'" by auto
qed

definition exampleOrder :: "(string \<Rightarrow> int option) \<Rightarrow> fulfil_world" where
  "exampleOrder levels = placedWorld ''o'' ''book'' 2 500 (fulfilOpened levels)"

definition exampleRun :: "(string \<Rightarrow> int option) \<Rightarrow> fulfil_world" where
  "exampleRun levels = (goesOn exampleKeys ''fulfil-o'' ^^ 8) (exampleOrder levels)"

lemma exampleOrder_instance: "\<exists>inst. fs_instances (fw_store (exampleOrder levels)) ''fulfil-o'' = Some inst"
  by (simp add: exampleOrder_def placedWorld_fields fulfilmentId_def)

lemma exampleOrder_reached: "fulfilReaches False exampleKeys levels (exampleOrder levels)"
proof -
  have "executePlaceOrder ''o'' ''book'' 2 500 False (fulfilOpened levels) = Some (Resolve (), exampleOrder levels)"
    by (simp add: placeOrder_run fulfilOpened_def exampleOrder_def int4_def)
  then have "fulfil_step False exampleKeys (fulfilOpened levels) (exampleOrder levels)"
    by (rule fulfil_step.command[rotated]) (simp add: fulfilOpened_def)
  then show ?thesis unfolding fulfilReaches_def by (rule r_into_rtranclp)
qed

lemma exampleRun_reached: "fulfilReaches False exampleKeys levels (exampleRun levels)"
  using exampleOrder_instance goesOn_steps[OF exampleOrder_reached exampleKeys_distinct, of levels "''fulfil-o''" _ 8]
  unfolding exampleRun_def by blast

lemma exampleRun_fails:
  "\<exists>inst. fs_instances (fw_store (exampleRun Map.empty)) ''fulfil-o'' = Some inst \<and> wi_state inst = FailedRun"
proof -
  have "map_option wi_state (fs_instances (fw_store (exampleRun Map.empty)) ''fulfil-o'') = Some FailedRun" by code_simp
  then show ?thesis by auto
qed

text \<open>
  C20. Whatever has been placed and delivered, and wherever a worker stopped: going on with a
  run takes at most eight more steps to its end, charging, reserving and marking paid, the wait,
  and in the other case at most two compensations. The worker can always go on: no step and no
  compensation is refused.
\<close>

theorem fulfilment_runs_end:
  assumes "fulfilReaches False keys levels w" and "distinctKeys keys" and "fs_instances (fw_store w) i = Some inst"
  shows "fulfilReaches False keys levels ((goesOn keys i ^^ 8) w) \<and>
    (\<exists>inst'. fs_instances (fw_store ((goesOn keys i ^^ 8) w)) i = Some inst' \<and>
      wi_input inst' = wi_input inst \<and> hasEnded (wi_state inst'))"
proof -
  let ?w = "(goesOn keys i ^^ 8) w"
  obtain inst' where at: "fs_instances (fw_store ?w) i = Some inst'" "wi_input inst' = wi_input inst"
    and reach: "fulfilReaches False keys levels ?w" and "stepsLeft i ?w \<le> stepsLeft i w - 8"
    using goesOn_steps[OF assms, of 8] by blast
  then have "stepsLeft i ?w = 0" using stepsLeft_bound[OF assms(1,2), of i] by simp
  moreover from sound_present[OF reaches_sound[OF reach assms(2)] at(1)] obtain n d where
    "wi_journal inst' = journalTo n (chargeName (keys i)) (reservationName (keys i)) d" "n \<le> 4"
    by (auto simp: runsWell_def standsAt_def)
  ultimately have "hasEnded (wi_state inst')"
    using at(1) remaining_ended[of n "wi_state inst'"] by (simp add: stepsLeft_def journalTo_length)
  then show ?thesis using at reach by blast
qed

theorem fulfilment_runs_end_witness:
  "\<exists>inst. fs_instances (fw_store (exampleRun Map.empty)) ''fulfil-o'' = Some inst \<and> hasEnded (wi_state inst)"
  using exampleOrder_instance fulfilment_runs_end[OF exampleOrder_reached exampleKeys_distinct, of Map.empty "''fulfil-o''"]
  unfolding exampleRun_def by blast

section \<open>All or nothing\<close>

text \<open>
  C19. Under any commands, webhooks, crashes and repeated steps: a run that completed has its
  order paid for and its stock held, one that failed has its charge refunded and nothing held,
  and neither was charged twice or for another amount; stock and holds always make up the stock
  at the start.
\<close>

theorem fulfilment_all_or_nothing:
  assumes "fulfilReaches False keys levels w" and "distinctKeys keys" and "fs_instances (fw_store w) i = Some inst"
  shows "i = fulfilmentId (fi_orderId (wi_input inst)) \<and> stockKept levels w \<and>
    (case wi_state inst of
       Completed r \<Rightarrow> fr_chargeId r = chargeName (keys i) \<and> charges w (fr_chargeId r) = Some (chargeOf (wi_input inst) False) \<and>
         held w (reservationName (keys i)) = Some (fi_sku (wi_input inst), fi_quantity (wi_input inst)) \<and>
         orderStatus w (fi_orderId (wi_input inst)) \<in> {Some ''paid'', Some ''delivered''}
     | FailedRun \<Rightarrow> charges w (chargeName (keys i)) = Some (chargeOf (wi_input inst) True) \<and>
         held w (reservationName (keys i)) = None \<and>
         orderStatus w (fi_orderId (wi_input inst)) \<in> {Some ''cancelled'', Some ''delivered''}
     | _ \<Rightarrow> True)"
proof -
  note sound = reaches_sound[OF assms(1,2)]
  from sound_present[OF sound assms(3)] obtain n d where
    "i = fulfilmentId (fi_orderId (wi_input inst))" "standsAt (keys i) (wi_input inst) n d (wi_state inst) w"
    by (auto simp: runsWell_def)
  then show ?thesis
    using sound_base(2)[OF sound] by (cases "wi_state inst") (auto simp: standsAt_def stage_simps)
qed

theorem fulfilment_all_or_nothing_witness:
  "\<exists>inst. fs_instances (fw_store (exampleRun Map.empty)) ''fulfil-o'' = Some inst \<and>
    charges (exampleRun Map.empty) (chargeName (exampleKeys ''fulfil-o'')) = Some (chargeOf (wi_input inst) True)"
  using exampleRun_fails fulfilment_all_or_nothing[OF exampleRun_reached exampleKeys_distinct, of Map.empty "''fulfil-o''"]
  by fastforce

section \<open>What the status does not tell\<close>

text \<open>
  The webhook does not look at the order: after the wait ran out and the order was refunded
  and released, a delivery still turns it from \<open>cancelled\<close> to \<open>delivered\<close>, and its signal is never heard.
\<close>

theorem late_delivery_hides_refund:
  assumes "fulfilReaches False keys levels w" and "distinctKeys keys"
    and "fs_instances (fw_store w) (fulfilmentId orderId) = Some inst" and "wi_state inst = FailedRun"
  shows "\<exists>w'. confirmDelivery orderId carrier False w = Some (Resolve (), w') \<and> fulfil_step False keys w w' \<and>
    orderStatus w' orderId = Some ''delivered'' \<and> (orderId, carrier) \<in> set (fs_signals (fw_store w')) \<and>
    charges w' (chargeName (keys (fulfilmentId orderId))) = Some (chargeOf (wi_input inst) True) \<and>
    held w' (reservationName (keys (fulfilmentId orderId))) = None"
proof -
  note sound = reaches_sound[OF assms(1,2)]
  from sound_present[OF sound assms(3)] assms(4) obtain n d where
    at: "fi_orderId (wi_input inst) = orderId" "standsAt (keys (fulfilmentId orderId)) (wi_input inst) n d FailedRun w"
    by (auto simp: runsWell_def)
  let ?w = "sent orderId carrier (updatedOrders orderId (\<lambda>row. row\<lparr>oe_status := ''delivered'', oe_carrier := Some carrier\<rparr>) w)"
  have run: "confirmDelivery orderId carrier False w = Some (Resolve (), ?w)"
    by (simp add: confirmDelivery_run[OF sound_base(1)[OF sound]])
  moreover have "fulfil_step False keys w ?w" by (rule fulfil_step.webhook[OF run])
  moreover have "orderStatus ?w orderId = Some ''delivered''" using at by (auto simp: standsAt_def orderStatus_def)
  moreover have "(orderId, carrier) \<in> set (fs_signals (fw_store ?w))" by (simp add: sent_def)
  ultimately show ?thesis using at by (auto simp: standsAt_def stage_simps)
qed

theorem late_delivery_hides_refund_witness:
  "\<exists>inst w'. fs_instances (fw_store (exampleRun Map.empty)) (fulfilmentId ''o'') = Some inst \<and>
    confirmDelivery ''o'' ''dhl'' False (exampleRun Map.empty) = Some (Resolve (), w') \<and> orderStatus w' ''o'' = Some ''delivered'' \<and>
    charges w' (chargeName (exampleKeys (fulfilmentId ''o''))) = Some (chargeOf (wi_input inst) True)"
proof -
  obtain inst where at: "fs_instances (fw_store (exampleRun Map.empty)) (fulfilmentId ''o'') = Some inst" "wi_state inst = FailedRun"
    using exampleRun_fails by (auto simp: fulfilmentId_def)
  from late_delivery_hides_refund[OF exampleRun_reached exampleKeys_distinct at, of "''dhl''"] at(1) show ?thesis by blast
qed

text \<open>
  A step that is given up has no compensation of its own: when the payment was taken and the
  worker stopped before it knew, and the provider cannot be reached from then on, the run fails
  with nothing to undo, so that the order stays placed and the charge is kept.
\<close>

theorem given_up_payment_kept:
  "\<exists>w inst. fulfilReaches True keys levels w \<and> fs_instances (fw_store w) ''fulfil-o'' = Some inst \<and> wi_state inst = FailedRun \<and>
    orderStatus w ''o'' = Some ''placed'' \<and> charges w (chargeName (keys ''fulfil-o'')) = Some (chargeOf (wi_input inst) False)"
proof -
  let ?i = "''fulfil-o''" and ?in = "\<lparr>fi_orderId = ''o'', fi_sku = ''book'', fi_quantity = 2, fi_amountCents = 500\<rparr>"
  let ?inst = "\<lambda>st. \<lparr>wi_input = ?in, wi_journal = [], wi_state = st\<rparr>"
  define w0 where "w0 = exampleOrder levels"
  define w1 where "w1 = w0\<lparr>charges := (charges w0)(chargeName (keys ?i) \<mapsto> chargeOf ?in False)\<rparr>"
  obtain k where pos: "resume (fulfilOrder ?in) [] [] = (Step ''charge-payment''
      (\<lambda>key. chargeOrder ''o'' 500 key) (Some (refundUndo ''o'')) k, [])"
    by (simp add: fulfilOrder_def refundUndo_def[abs_def])
  have placed: "fs_instances (fw_store w0) ?i = Some (?inst Running)" "charges w0 = Map.empty" "orderStatus w0 ''o'' = Some ''placed''"
    by (simp_all add: w0_def exampleOrder_def placedWorld_fields fulfilmentId_def fulfilOpened_def)
  have charged: "chargeOrder ''o'' 500 (keys ?i ''charge-payment'') w0 = Some (Resolve (chargeName (keys ?i)), w1)"
    by (simp add: chargeOrder_def chargeName_def chargeOf_def w1_def placed(2) Let_def)
  have "executePlaceOrder ''o'' ''book'' 2 500 False (fulfilOpened levels) = Some (Resolve (), w0)"
    by (simp add: placeOrder_run fulfilOpened_def w0_def exampleOrder_def int4_def)
  then have s0: "fulfil_step True keys (fulfilOpened levels) w0"
    by (rule fulfil_step.command[rotated]) (simp add: fulfilOpened_def)
  have s1: "fulfil_step True keys w0 (putInstance ?i (?inst Running) w1)"
    using fulfil_step.works[OF placed(1), of True keys "[]" Running w1] worker.crashes[OF pos, of "keys ?i" w0] charged by simp
  let ?w1 = "putInstance ?i (?inst Running) w1"
  have s2: "fulfil_step True keys ?w1 (putInstance ?i (?inst (Compensating 0)) ?w1)"
    using fulfil_step.works[of ?w1 ?i "?inst Running" True keys "[]" "Compensating 0" ?w1] worker.outage[OF TrueI pos] by simp
  let ?w2 = "putInstance ?i (?inst (Compensating 0)) ?w1"
  have s3: "fulfil_step True keys ?w2 (putInstance ?i (?inst FailedRun) ?w2)"
    using fulfil_step.works[of ?w2 ?i "?inst (Compensating 0)" True keys "[]" FailedRun ?w2] by (simp add: worker.compensated)
  let ?w3 = "putInstance ?i (?inst FailedRun) ?w2"
  have "fulfilReaches True keys levels ?w3"
    unfolding fulfilReaches_def using s0 s1 s2 s3 by (meson rtranclp.rtrancl_into_rtrancl r_into_rtranclp)
  moreover have "charges ?w3 (chargeName (keys ?i)) = Some (chargeOf ?in False)" "orderStatus ?w3 ''o'' = Some ''placed''"
    using placed(3) by (simp_all add: w1_def orderStatus_def)
  ultimately show ?thesis by (intro exI[of _ ?w3] exI[of _ "?inst FailedRun"]) simp
qed

end
