(* ===== verification/Drizzle_Orders.thy ===== *)
theory Drizzle_Orders
  imports Postgres Workflow_Runs
begin

text \<open>
  \<open>examples/drizzle-orders/src\<close>: an order row, an outbox message and a durable workflow that one
  \<open>@Transactional\<close> method writes through Drizzle, and the workflow that books a courier and marks
  the order shipped.
\<close>

section \<open>State\<close>

record drizzle_row =
  dr_id :: string
  dr_sku :: string
  dr_amountCents :: int
  dr_status :: string

datatype shipping_event = PlacedForShipping string string | OrderShipped string string

record ship_instance =
  si_orderId :: string
  si_journal :: "journal_entry list"
  si_state :: "string run_state"

record ship_store = pg +
  dz_orders :: "string \<Rightarrow> drizzle_row option"
  dz_messages :: "shipping_event list"
  dz_instances :: "string \<Rightarrow> ship_instance option"

section \<open>Operations\<close>

definition insertDrizzleOrder :: "drizzle_row \<Rightarrow> (ship_store, unit) comp" where
  "insertDrizzleOrder row = statement (\<lambda>s.
     if \<not> int4 (dr_amountCents row) then Inl outOfRange
     else if dz_orders s (dr_id row) \<noteq> None then Inl uniqueViolation
     else Inr ((), s\<lparr>dz_orders := (dz_orders s)(dr_id row \<mapsto> row)\<rparr>))"

definition publishShipping :: "shipping_event \<Rightarrow> (ship_store, unit) comp" where
  "publishShipping ev = statement (\<lambda>s. Inr ((), s\<lparr>dz_messages := dz_messages s @ [ev]\<rparr>))"

definition shippingId :: "string \<Rightarrow> string" where
  "shippingId orderId = ''ship-'' @ orderId"

text \<open>\<open>start\<close> of the client. The id is new, since a second order of the same id is refused before.\<close>

definition startShipping :: "string \<Rightarrow> (ship_store, unit) comp" where
  "startShipping orderId = statement (\<lambda>s. Inr ((), s\<lparr>dz_instances := (dz_instances s)(shippingId orderId \<mapsto>
     \<lparr>si_orderId = orderId, si_journal = [], si_state = Running\<rparr>)\<rparr>))"

definition failedPlacing :: jsv where
  "failedPlacing = JObj 0 [''Error''] []"

definition placeDrizzle :: "string \<Rightarrow> string \<Rightarrow> int \<Rightarrow> bool \<Rightarrow> (ship_store, unit) comp" where
  "placeDrizzle orderId sku amountCents failAfterWriting = transactional
     (andThen (insertDrizzleOrder \<lparr>dr_id = orderId, dr_sku = sku, dr_amountCents = amountCents, dr_status = ''placed''\<rparr>) (\<lambda>_.
        andThen (publishShipping (PlacedForShipping orderId sku)) (\<lambda>_.
          andThen (startShipping orderId) (\<lambda>_.
            if failAfterWriting then throw failedPlacing else ret ()))))"

definition bookCourier :: "string \<Rightarrow> (ship_store, string) comp" where
  "bookCourier orderId = ret (''trk-'' @ orderId)"

definition setShipped :: "string \<Rightarrow> (ship_store, unit) comp" where
  "setShipped orderId = statement (\<lambda>s. Inr ((),
     s\<lparr>dz_orders := (dz_orders s)(orderId := map_option (\<lambda>row. row\<lparr>dr_status := ''shipped''\<rparr>) (dz_orders s orderId))\<rparr>))"

definition markShipped :: "string \<Rightarrow> string \<Rightarrow> (ship_store, unit) comp" where
  "markShipped orderId trackingNumber = transactional
     (andThen (setShipped orderId) (\<lambda>_. publishShipping (OrderShipped orderId trackingNumber)))"

definition shipOrder :: "string \<Rightarrow> (ship_store, string) flow" where
  "shipOrder orderId =
     Step ''book-courier'' (\<lambda>_. bookCourier orderId) None (\<lambda>trackingNumber.
     Step ''mark-shipped'' (\<lambda>_. andThen (markShipped orderId trackingNumber) (\<lambda>_. ret [])) None (\<lambda>_.
     ReturnRun trackingNumber))"

section \<open>Steps\<close>

definition putShipping :: "string \<Rightarrow> ship_instance \<Rightarrow> ship_store \<Rightarrow> ship_store" where
  "putShipping i inst s = s\<lparr>dz_instances := (dz_instances s)(i \<mapsto> inst)\<rparr>"

text \<open>
  \<open>b\<close> says whether what a step calls can be unreachable for good: then the worker can give a step
  up, whatever the step is.
\<close>

inductive ship_step :: "bool \<Rightarrow> ship_store \<Rightarrow> ship_store \<Rightarrow> bool" for b :: bool where
  places: "placeDrizzle orderId sku amountCents failing s = Some (r, s') \<Longrightarrow> ship_step b s s'"
| ships: "dz_instances s i = Some inst \<Longrightarrow>
    worker b keys (\<lambda>_ _ _ _. False) (shipOrder (si_orderId inst)) (si_journal inst, si_state inst, s) (j, st, s') \<Longrightarrow>
    ship_step b s (putShipping i (inst\<lparr>si_journal := j, si_state := st\<rparr>) s')"

definition shipOpened :: ship_store where
  "shipOpened = \<lparr>aborted = False, dz_orders = Map.empty, dz_messages = [], dz_instances = Map.empty\<rparr>"

definition shipReaches :: "bool \<Rightarrow> ship_store \<Rightarrow> bool" where
  "shipReaches b s \<longleftrightarrow> (ship_step b)\<^sup>*\<^sup>* shipOpened s"

section \<open>An order and its shipping\<close>

fun shippingOrder :: "shipping_event \<Rightarrow> string" where
  "shippingOrder (PlacedForShipping orderId sku) = orderId"
| "shippingOrder (OrderShipped orderId tracking) = orderId"

definition newsOf :: "string \<Rightarrow> ship_store \<Rightarrow> shipping_event list" where
  "newsOf orderId s = filter (\<lambda>ev. shippingOrder ev = orderId) (dz_messages s)"

text \<open>Where the run of an order stands when \<open>n\<close> of its attempts to mark it shipped committed.\<close>

definition givenUp :: "bool \<Rightarrow> ship_instance \<Rightarrow> bool" where
  "givenUp b inst \<longleftrightarrow> b \<and> si_state inst \<in> {Compensating 0, FailedRun}"

definition shippingAt :: "bool \<Rightarrow> string \<Rightarrow> nat \<Rightarrow> ship_instance \<Rightarrow> bool" where
  "shippingAt b orderId n inst \<longleftrightarrow> si_orderId inst = orderId \<and>
     (si_journal inst = [] \<and> (si_state inst = Running \<or> givenUp b inst) \<and> n = 0 \<or>
      si_journal inst = [Finished (''trk-'' @ orderId)] \<and> (si_state inst = Running \<or> givenUp b inst) \<or>
      si_journal inst = [Finished (''trk-'' @ orderId), Finished []] \<and> 0 < n \<and>
        si_state inst \<in> {Running, Completed (''trk-'' @ orderId)})"

definition orderStands :: "bool \<Rightarrow> string \<Rightarrow> ship_store \<Rightarrow> bool" where
  "orderStands b orderId s = (case dz_orders s orderId of
     None \<Rightarrow> newsOf orderId s = [] \<and> dz_instances s (shippingId orderId) = None
   | Some row \<Rightarrow> (\<exists>n inst.
       newsOf orderId s = PlacedForShipping orderId (dr_sku row) # replicate n (OrderShipped orderId (''trk-'' @ orderId)) \<and>
       dr_status row = (if n = 0 then ''placed'' else ''shipped'') \<and>
       dz_instances s (shippingId orderId) = Some inst \<and> shippingAt b orderId n inst))"

definition shipSound :: "bool \<Rightarrow> ship_store \<Rightarrow> bool" where
  "shipSound b s \<longleftrightarrow> \<not> aborted s \<and> (\<forall>orderId. orderStands b orderId s) \<and>
     (\<forall>i inst. dz_instances s i = Some inst \<longrightarrow> i = shippingId (si_orderId inst))"

lemma shippingId_inj [simp]: "shippingId a = shippingId b \<longleftrightarrow> a = b"
  by (simp add: shippingId_def)

lemma putShipping_fields [simp]:
  "dz_orders (putShipping i inst s) = dz_orders s" "dz_messages (putShipping i inst s) = dz_messages s"
  "dz_instances (putShipping i inst s) = (dz_instances s)(i \<mapsto> inst)" "aborted (putShipping i inst s) = aborted s"
  "newsOf orderId (putShipping i inst s) = newsOf orderId s"
  by (simp_all add: putShipping_def newsOf_def)

lemma orderStands_same:
  assumes "orderStands b orderId s" and "dz_orders s' orderId = dz_orders s orderId" and "newsOf orderId s' = newsOf orderId s"
    and "dz_instances s' (shippingId orderId) = dz_instances s (shippingId orderId)"
  shows "orderStands b orderId s'"
  using assms(1) unfolding orderStands_def assms(2-4) .

definition placedShipping :: "string \<Rightarrow> string \<Rightarrow> int \<Rightarrow> ship_store \<Rightarrow> ship_store" where
  "placedShipping orderId sku amountCents s = s\<lparr>
     dz_orders := (dz_orders s)(orderId \<mapsto> \<lparr>dr_id = orderId, dr_sku = sku, dr_amountCents = amountCents, dr_status = ''placed''\<rparr>),
     dz_messages := dz_messages s @ [PlacedForShipping orderId sku],
     dz_instances := (dz_instances s)(shippingId orderId \<mapsto> \<lparr>si_orderId = orderId, si_journal = [], si_state = Running\<rparr>)\<rparr>"

lemma placedShipping_fields:
  "dz_orders (placedShipping orderId sku amountCents s) = (dz_orders s)(orderId \<mapsto>
     \<lparr>dr_id = orderId, dr_sku = sku, dr_amountCents = amountCents, dr_status = ''placed''\<rparr>)"
  "newsOf o1 (placedShipping orderId sku amountCents s) = newsOf o1 s @ (if o1 = orderId then [PlacedForShipping orderId sku] else [])"
  "dz_instances (placedShipping orderId sku amountCents s) = (dz_instances s)(shippingId orderId \<mapsto>
     \<lparr>si_orderId = orderId, si_journal = [], si_state = Running\<rparr>)"
  "aborted (placedShipping orderId sku amountCents s) = aborted s"
  by (simp_all add: placedShipping_def newsOf_def)

lemma place_run:
  assumes "\<not> aborted s"
  shows "placeDrizzle orderId sku amountCents failing s =
    (if \<not> int4 amountCents then Some (Reject outOfRange, s)
     else if dz_orders s orderId \<noteq> None then Some (Reject uniqueViolation, s)
     else if failing then Some (Reject failedPlacing, s)
     else Some (Resolve (), placedShipping orderId sku amountCents s))"
  using assms
  by (simp add: placeDrizzle_def transactional_def andThen_def insertDrizzleOrder_def publishShipping_def startShipping_def statement_def
      placedShipping_def)

lemma stands_placed:
  assumes "orderStands b o1 s" and "dz_orders s orderId = None"
  shows "orderStands b o1 (placedShipping orderId sku amountCents s)"
proof (cases "o1 = orderId")
  case True
  then have "newsOf orderId s = []" using assms by (simp add: orderStands_def)
  then show ?thesis
    unfolding orderStands_def placedShipping_fields using True
    by (simp add: shippingAt_def givenUp_def)
next
  case False
  then show ?thesis by (intro orderStands_same[OF assms(1)]) (simp_all add: placedShipping_fields)
qed

lemma sound_place:
  assumes "shipSound b s" and "placeDrizzle orderId sku amountCents failing s = Some (r, s')"
  shows "shipSound b s'"
proof -
  have clean: "\<not> aborted s" using assms(1) by (simp add: shipSound_def)
  have "s' = s \<or> dz_orders s orderId = None \<and> s' = placedShipping orderId sku amountCents s"
    using assms(2) place_run[OF clean, of orderId sku amountCents failing] by (auto split: if_splits)
  then show ?thesis
  proof
    assume s': "dz_orders s orderId = None \<and> s' = placedShipping orderId sku amountCents s"
    then have "orderStands b o1 s'" for o1
      using assms(1) stands_placed[of b o1 s orderId sku amountCents] by (simp add: shipSound_def)
    then show ?thesis
      using s' assms(1) clean by (simp add: shipSound_def placedShipping_fields)
  qed (use assms(1) in simp)
qed

lemma markShipped_run:
  assumes "\<not> aborted s"
  shows "markShipped orderId tracking s = Some (Resolve (), s\<lparr>
    dz_orders := (dz_orders s)(orderId := map_option (\<lambda>row. row\<lparr>dr_status := ''shipped''\<rparr>) (dz_orders s orderId)),
    dz_messages := dz_messages s @ [OrderShipped orderId tracking]\<rparr>)"
  using assms by (simp add: markShipped_def transactional_def andThen_def setShipped_def publishShipping_def statement_def)

section \<open>The worker\<close>

text \<open>
  A step of the worker leaves the store alone, or marks the order shipped once more, and takes the
  run from one of its positions to another.
\<close>

lemma worker_ships:
  assumes "worker b keys (\<lambda>_ _ _ _. False) (shipOrder orderId) (si_journal inst, si_state inst, s) (j, st, s')"
    and "shippingAt b orderId n inst" and "\<not> aborted s"
  shows "s' = s \<and> shippingAt b orderId n (inst\<lparr>si_journal := j, si_state := st\<rparr>) \<or>
    markShipped orderId (''trk-'' @ orderId) s = Some (Resolve (), s') \<and>
      shippingAt b orderId (Suc n) (inst\<lparr>si_journal := j, si_state := st\<rparr>)"
proof -
  obtain s1 where run: "markShipped orderId (''trk-'' @ orderId) s = Some (Resolve (), s1)"
    by (simp add: markShipped_run[OF assms(3)])
  show ?thesis
    using assms(1)
  proof cases
    case (finishes name act undo k undos v)
    then show ?thesis using assms(2) run
      by (auto simp: shippingAt_def givenUp_def shipOrder_def bookCourier_def ret_def andThen_def)
  next
    case (crashes name act undo k undos r)
    then show ?thesis using assms(2) run
      by (auto simp: shippingAt_def givenUp_def shipOrder_def bookCourier_def ret_def andThen_def)
  next
    case (givesUp name act undo k undos e)
    then show ?thesis using assms(2) run
      by (auto simp: shippingAt_def givenUp_def shipOrder_def bookCourier_def ret_def andThen_def)
  qed (use assms(2) in \<open>auto simp: shippingAt_def givenUp_def shipOrder_def\<close>)
qed

text \<open>What is known of an order whose run stands at \<open>inst\<close>.\<close>

definition shippedTimes :: "string \<Rightarrow> nat \<Rightarrow> drizzle_row \<Rightarrow> ship_store \<Rightarrow> bool" where
  "shippedTimes orderId n row s \<longleftrightarrow> dz_orders s orderId = Some row \<and>
     newsOf orderId s = PlacedForShipping orderId (dr_sku row) # replicate n (OrderShipped orderId (''trk-'' @ orderId)) \<and>
     dr_status row = (if n = 0 then ''placed'' else ''shipped'')"

lemma stands_instance:
  "dz_instances s (shippingId orderId) = Some inst \<Longrightarrow>
    orderStands b orderId s \<longleftrightarrow> (\<exists>n row. shippedTimes orderId n row s \<and> shippingAt b orderId n inst)"
  by (cases "dz_orders s orderId") (simp_all add: orderStands_def shippedTimes_def)

lemma shippedTimes_put [simp]: "shippedTimes orderId n row (putShipping i inst s) = shippedTimes orderId n row s"
  by (simp add: shippedTimes_def)

lemma shippedTimes_mark:
  assumes "shippedTimes orderId n row s" and "markShipped orderId (''trk-'' @ orderId) s = Some (Resolve (), s')" and "\<not> aborted s"
  shows "shippedTimes orderId (Suc n) (row\<lparr>dr_status := ''shipped''\<rparr>) s'"
proof -
  have s': "dz_orders s' orderId = map_option (\<lambda>row. row\<lparr>dr_status := ''shipped''\<rparr>) (dz_orders s orderId)"
    "newsOf orderId s' = newsOf orderId s @ [OrderShipped orderId (''trk-'' @ orderId)]"
    using assms(2) markShipped_run[OF assms(3), of orderId "''trk-'' @ orderId"] by (auto simp: newsOf_def)
  then show ?thesis using assms(1) by (simp add: shippedTimes_def replicate_append_same)
qed

lemma sound_ship:
  assumes "shipSound b s" and "dz_instances s i = Some inst"
    and "worker b keys (\<lambda>_ _ _ _. False) (shipOrder (si_orderId inst)) (si_journal inst, si_state inst, s) (j, st, s')"
  shows "shipSound b (putShipping i (inst\<lparr>si_journal := j, si_state := st\<rparr>) s')"
proof -
  let ?o = "si_orderId inst" and ?inst = "inst\<lparr>si_journal := j, si_state := st\<rparr>"
  have i: "i = shippingId ?o" and clean: "\<not> aborted s" and stands: "orderStands b o1 s" for o1
    using assms(1,2) by (simp_all add: shipSound_def)
  obtain n where at: "shippingAt b ?o n inst"
    using stands[of ?o] assms(2) by (auto simp: orderStands_def i split: option.splits)
  note eff = worker_ships[OF assms(3) at clean]
  have own: "orderStands b ?o (putShipping i ?inst s')"
  proof -
    obtain n row where n: "shippedTimes ?o n row s" "shippingAt b ?o n inst"
      using stands[of ?o] stands_instance assms(2) i by blast
    have "\<exists>m row. shippedTimes ?o m row s' \<and> shippingAt b ?o m ?inst"
      using worker_ships[OF assms(3) n(2) clean] n(1) shippedTimes_mark[OF n(1) _ clean] by blast
    then show ?thesis using stands_instance[of "putShipping i ?inst s'" ?o ?inst] i by simp
  qed
  have others: "orderStands b o1 (putShipping i ?inst s')" if "o1 \<noteq> ?o" for o1
  proof (rule orderStands_same[OF stands])
    show "dz_orders (putShipping i ?inst s') o1 = dz_orders s o1" "newsOf o1 (putShipping i ?inst s') = newsOf o1 s"
      "dz_instances (putShipping i ?inst s') (shippingId o1) = dz_instances s (shippingId o1)"
      using eff that markShipped_run[OF clean, of ?o "''trk-'' @ ?o"] i by (auto simp: newsOf_def)
  qed
  have "orderStands b o1 (putShipping i ?inst s')" for o1 using own others by (cases "o1 = ?o") auto
  moreover have "\<not> aborted s'" "dz_instances s' = dz_instances s"
    using eff clean markShipped_run[OF clean, of ?o "''trk-'' @ ?o"] by auto
  ultimately show ?thesis using assms(1) i by (auto simp: shipSound_def)
qed

section \<open>What the example promises\<close>

lemma ship_reaches_sound:
  assumes "shipReaches b s"
  shows "shipSound b s"
  using assms unfolding shipReaches_def
proof (induction rule: rtranclp_induct)
  case base
  show ?case by (simp add: shipSound_def shipOpened_def orderStands_def newsOf_def)
next
  case (step s s')
  from step(2) show ?case
  proof (cases rule: ship_step.cases)
    case (places orderId sku amountCents failing r)
    then show ?thesis by (intro sound_place[OF step(3)])
  next
    case (ships i inst keys j st s1)
    show ?thesis unfolding ships(1) by (rule sound_ship[OF step(3) ships(2,3)])
  qed
qed

text \<open>
  C24. Order, message and workflow are there together or not at all: under any placements, also
  refused and failing ones, crashes and repeated steps, an order that is not there has no workflow
  and no message, and one that is there has its workflow, was announced once as placed and then
  as shipped, with its own tracking number, once for every attempt that marked it. A completed run
  has marked its order and answers with that number. A run is never given up because of what its
  steps answer; where what they call can be out of reach for good (\<open>outages\<close>), it can be, and then
  it fails with nothing to undo: the order stays as placed, or as shipped when an attempt to mark
  it had committed before.
\<close>

theorem shipment_follows_order:
  assumes "shipReaches outages s"
  shows "case dz_orders s orderId of
      None \<Rightarrow> newsOf orderId s = [] \<and> dz_instances s (shippingId orderId) = None
    | Some row \<Rightarrow> (\<exists>n inst. dz_instances s (shippingId orderId) = Some inst \<and> si_orderId inst = orderId \<and>
        newsOf orderId s = PlacedForShipping orderId (dr_sku row) # replicate n (OrderShipped orderId (''trk-'' @ orderId)) \<and>
        dr_status row = (if n = 0 then ''placed'' else ''shipped'') \<and>
        (si_state inst = Running \<or> si_state inst = Completed (''trk-'' @ orderId) \<and> 0 < n \<or>
         outages \<and> si_state inst \<in> {Compensating 0, FailedRun}))"
proof (cases "dz_orders s orderId")
  case None
  moreover have "orderStands outages orderId s" using ship_reaches_sound[OF assms] by (simp add: shipSound_def)
  ultimately show ?thesis by (simp add: orderStands_def)
next
  case (Some row)
  have "orderStands outages orderId s" using ship_reaches_sound[OF assms] by (simp add: shipSound_def)
  then obtain n inst where "newsOf orderId s = PlacedForShipping orderId (dr_sku row) # replicate n (OrderShipped orderId (''trk-'' @ orderId))"
    "dr_status row = (if n = 0 then ''placed'' else ''shipped'')" "dz_instances s (shippingId orderId) = Some inst"
    "shippingAt outages orderId n inst"
    unfolding orderStands_def Some option.case by blast
  moreover from this(4) have "si_orderId inst = orderId" "si_state inst = Running \<or>
      si_state inst = Completed (''trk-'' @ orderId) \<and> 0 < n \<or> outages \<and> si_state inst \<in> {Compensating 0, FailedRun}"
    by (auto simp: shippingAt_def givenUp_def)
  ultimately show ?thesis unfolding Some option.case by blast
qed

lemma placed_reached: "shipReaches b (placedShipping ''o'' ''book'' 500 shipOpened)"
proof -
  have "placeDrizzle ''o'' ''book'' 500 False shipOpened = Some (Resolve (), placedShipping ''o'' ''book'' 500 shipOpened)"
    by (simp add: place_run shipOpened_def int4_def)
  then have "ship_step b shipOpened (placedShipping ''o'' ''book'' 500 shipOpened)" by (rule ship_step.places)
  then show ?thesis unfolding shipReaches_def by (rule r_into_rtranclp)
qed

text \<open>An order placed and its first step given up: the run fails, the order stays placed.\<close>

definition abandoned :: ship_store where
  "abandoned = putShipping (shippingId ''o'') \<lparr>si_orderId = ''o'', si_journal = [], si_state = FailedRun\<rparr>
     (placedShipping ''o'' ''book'' 500 shipOpened)"

lemma abandoned_reached: "shipReaches True abandoned"
proof -
  define s0 where "s0 = placedShipping ''o'' ''book'' 500 shipOpened"
  define c where "c = \<lparr>si_orderId = ''o'', si_journal = [], si_state = (Compensating 0 :: string run_state)\<rparr>"
  define s1 where "s1 = putShipping (shippingId ''o'') c s0"
  let ?i = "\<lparr>si_orderId = ''o'', si_journal = [], si_state = Running\<rparr>"
  have "worker True id (\<lambda>_ _ _ _. False) (shipOrder ''o'') ([], Running, s0) ([], Compensating 0, s0)"
    using worker.outage[of True "shipOrder ''o''" "[]" "''book-courier''" _ _ _ "[]" id _ s0]
    by (simp add: shipOrder_def)
  then have "ship_step True s0 (putShipping (shippingId ''o'') (?i\<lparr>si_journal := [], si_state := Compensating 0\<rparr>) s0)"
    by (intro ship_step.ships[where inst = ?i and keys = id]) (simp_all add: s0_def placedShipping_fields)
  then have one: "ship_step True s0 s1" by (simp add: s1_def c_def)
  have "worker True id (\<lambda>_ _ _ _. False) (shipOrder (si_orderId c)) (si_journal c, si_state c, s1) ([], FailedRun, s1)"
    unfolding c_def by (simp add: worker.compensated)
  then have "ship_step True s1 (putShipping (shippingId ''o'') (c\<lparr>si_journal := [], si_state := FailedRun\<rparr>) s1)"
    by (intro ship_step.ships[where inst = c and keys = id]) (simp_all add: s1_def)
  moreover have "putShipping (shippingId ''o'') (c\<lparr>si_journal := [], si_state := FailedRun\<rparr>) s1 = abandoned"
    by (simp add: abandoned_def putShipping_def s1_def c_def s0_def)
  ultimately have "ship_step True s1 abandoned" by simp
  with placed_reached[of True] one show ?thesis
    unfolding shipReaches_def s0_def by (metis rtranclp.rtrancl_into_rtrancl)
qed

lemma shipment_follows_order_witness:
  "shipReaches False (placedShipping ''o'' ''book'' 500 shipOpened) \<and>
   (\<exists>n inst. dz_instances (placedShipping ''o'' ''book'' 500 shipOpened) (shippingId ''o'') = Some inst \<and> si_orderId inst = ''o'' \<and>
      newsOf ''o'' (placedShipping ''o'' ''book'' 500 shipOpened) = PlacedForShipping ''o'' ''book'' # replicate n (OrderShipped ''o'' ''trk-o'')) \<and>
   shipReaches True abandoned \<and> newsOf ''o'' abandoned = [PlacedForShipping ''o'' ''book''] \<and>
   (\<exists>inst. dz_instances abandoned (shippingId ''o'') = Some inst \<and> si_state inst = FailedRun)"
proof -
  have "newsOf ''o'' shipOpened = []" by (simp add: newsOf_def shipOpened_def)
  then have "newsOf ''o'' abandoned = [PlacedForShipping ''o'' ''book'']"
    "dz_instances abandoned (shippingId ''o'') = Some \<lparr>si_orderId = ''o'', si_journal = [], si_state = FailedRun\<rparr>"
    by (simp_all add: abandoned_def placedShipping_fields)
  with placed_reached[of False] shipment_follows_order[OF placed_reached, of "''o''" False] abandoned_reached
  show ?thesis by (auto simp: placedShipping_fields(1))
qed

end
