(* ===== verification/Wallets.thy ===== *)
theory Wallets
  imports Postgres
begin

text \<open>
  \<open>examples/testing-patterns/src\<close>: a wallet service over the interface \<open>WalletRepository\<close>, so that
  tests can substitute the repository. The service is a function of the repository and the
  publisher it is given; what it relies on of them is the locale \<open>wallet_contract\<close>, in which its
  lemmas are proved, and which the repository over TypeORM interprets.
\<close>

section \<open>The service\<close>

record wallet =
  wallet_id :: string
  wallet_balance :: int

datatype wallet_operation = wallet_deposit | wallet_withdraw

datatype wallet_event = WalletOperationEvent string wallet_operation int int

fun walletOf :: "wallet_event \<Rightarrow> string" where
  "walletOf (WalletOperationEvent i ty amount after) = i"

fun walletAfter :: "wallet_event \<Rightarrow> int" where
  "walletAfter (WalletOperationEvent i ty amount after) = after"

fun walletChange :: "wallet_event \<Rightarrow> int" where
  "walletChange (WalletOperationEvent i wallet_deposit amount after) = amount"
| "walletChange (WalletOperationEvent i wallet_withdraw amount after) = - amount"

record 's wallet_repository =
  findById :: "string \<Rightarrow> ('s, wallet option) comp"
  updateWallet :: "string \<Rightarrow> int \<Rightarrow> ('s, unit) comp"

definition walletError :: jsv where
  "walletError = JObj 0 [''Error''] []"

definition depositBody :: "'s wallet_repository \<Rightarrow> (wallet_event \<Rightarrow> ('s, unit) comp) \<Rightarrow> string \<Rightarrow> int \<Rightarrow> ('s, unit) comp" where
  "depositBody wallets publish walletId amount =
     (if amount \<le> 0 then throw walletError
      else andThen (findById wallets walletId) (\<lambda>found. case found of
          None \<Rightarrow> throw walletError
        | Some wallet \<Rightarrow> (let newBalance = wallet_balance wallet + amount in
            andThen (updateWallet wallets walletId newBalance) (\<lambda>_.
              publish (WalletOperationEvent walletId wallet_deposit amount newBalance)))))"

definition withdrawBody :: "'s wallet_repository \<Rightarrow> (wallet_event \<Rightarrow> ('s, unit) comp) \<Rightarrow> string \<Rightarrow> int \<Rightarrow> ('s, unit) comp" where
  "withdrawBody wallets publish walletId amount =
     (if amount \<le> 0 then throw walletError
      else andThen (findById wallets walletId) (\<lambda>found. case found of
          None \<Rightarrow> throw walletError
        | Some wallet \<Rightarrow>
            if wallet_balance wallet < amount then throw walletError
            else (let newBalance = wallet_balance wallet - amount in
              andThen (updateWallet wallets walletId newBalance) (\<lambda>_.
                publish (WalletOperationEvent walletId wallet_withdraw amount newBalance)))))"

section \<open>The repository over TypeORM\<close>

record wallet_db = pg +
  wallet_rows :: "string \<Rightarrow> wallet option"
  wallet_messages :: "wallet_event list"

definition TypeOrmWalletRepository :: "wallet_db wallet_repository" where
  "TypeOrmWalletRepository =
     \<lparr>findById = (\<lambda>i. statement (\<lambda>s. Inr (wallet_rows s i, s))),
      updateWallet = (\<lambda>i balance. statement (\<lambda>s.
        case wallet_rows s i of
          None \<Rightarrow> Inr ((), s)
        | Some row \<Rightarrow>
            if int4 balance then Inr ((), s\<lparr>wallet_rows := (wallet_rows s)(i \<mapsto> row\<lparr>wallet_balance := balance\<rparr>)\<rparr>)
            else Inl outOfRange))\<rparr>"

definition publishWallet :: "wallet_event \<Rightarrow> (wallet_db, unit) comp" where
  "publishWallet ev = statement (\<lambda>s. Inr ((), s\<lparr>wallet_messages := wallet_messages s @ [ev]\<rparr>))"

definition depositWallet :: "string \<Rightarrow> int \<Rightarrow> (wallet_db, unit) comp" where
  "depositWallet walletId amount = transactional (depositBody TypeOrmWalletRepository publishWallet walletId amount)"

definition withdrawWallet :: "string \<Rightarrow> int \<Rightarrow> (wallet_db, unit) comp" where
  "withdrawWallet walletId amount = transactional (withdrawBody TypeOrmWalletRepository publishWallet walletId amount)"

section \<open>What the service relies on\<close>

lemma andThen_resolves:
  assumes "andThen f g s = Some (Resolve v, s')"
  obtains x s1 where "f s = Some (Resolve x, s1)" and "g x s1 = Some (Resolve v, s')"
  using assms by (auto simp: andThen_def split: option.splits prod.splits outcome.splits)

lemma throw_not_resolves [simp]: "throw e s \<noteq> Some (Resolve v, s')"
  by (simp add: throw_def)

definition balancesReplay :: "(string \<Rightarrow> int option) \<Rightarrow> (string \<Rightarrow> int option) \<Rightarrow> wallet_event list \<Rightarrow> bool" where
  "balancesReplay opening balances evs \<longleftrightarrow> dom balances = dom opening \<and> (\<forall>ev\<in>set evs. walletOf ev \<in> dom opening) \<and>
     (\<forall>i b. balances i = Some b \<longrightarrow>
        0 \<le> b \<and> b = the (opening i) + sum_list (map walletChange (filter (\<lambda>ev. walletOf ev = i) evs)))"

locale wallet_contract =
  fixes wallets :: "'s wallet_repository"
    and publish :: "wallet_event \<Rightarrow> ('s, unit) comp"
    and balances :: "'s \<Rightarrow> string \<Rightarrow> int option"
    and published :: "'s \<Rightarrow> wallet_event list"
    and usable :: "'s \<Rightarrow> bool"
  assumes finds: "usable s \<Longrightarrow> findById wallets i s = Some (Resolve found, s') \<Longrightarrow>
      s' = s \<and> map_option wallet_balance found = balances s i"
    and updates: "usable s \<Longrightarrow> balances s i \<noteq> None \<Longrightarrow> updateWallet wallets i b s = Some (Resolve u, s') \<Longrightarrow>
      usable s' \<and> balances s' = (balances s)(i \<mapsto> b) \<and> published s' = published s"
    and publishes: "usable s \<Longrightarrow> publish ev s = Some (Resolve u, s') \<Longrightarrow>
      usable s' \<and> balances s' = balances s \<and> published s' = published s @ [ev]"
begin

lemma changed:
  assumes "usable s" and "balances s i \<noteq> None"
    and "andThen (updateWallet wallets i b) (\<lambda>_. publish ev) s = Some (Resolve u, s')"
  shows "usable s' \<and> balances s' = (balances s)(i \<mapsto> b) \<and> published s' = published s @ [ev]"
  using assms(3)
proof (rule andThen_resolves)
  fix x s1
  assume "updateWallet wallets i b s = Some (Resolve x, s1)" "publish ev s1 = Some (Resolve u, s')"
  then show ?thesis using updates[OF assms(1,2)] publishes[of s1 ev u s'] by simp
qed

lemma deposit_effect:
  assumes "usable s" and "depositBody wallets publish i amount s = Some (Resolve u, s')"
  shows "\<exists>b. 0 < amount \<and> balances s i = Some b \<and> usable s' \<and> balances s' = (balances s)(i \<mapsto> b + amount) \<and>
    published s' = published s @ [WalletOperationEvent i wallet_deposit amount (b + amount)]"
proof -
  have positive: "0 < amount" using assms(2) by (cases "amount \<le> 0") (simp_all add: depositBody_def)
  with assms(2) obtain found s1 where found: "findById wallets i s = Some (Resolve found, s1)"
    and rest: "(case found of None \<Rightarrow> throw walletError | Some wallet \<Rightarrow> 
      andThen (updateWallet wallets i (wallet_balance wallet + amount))
        (\<lambda>_. publish (WalletOperationEvent i wallet_deposit amount (wallet_balance wallet + amount)))) s1 = Some (Resolve u, s')"
    by (auto simp: depositBody_def Let_def elim!: andThen_resolves)
  have s1: "s1 = s" "map_option wallet_balance found = balances s i" using finds[OF assms(1) found] by simp_all
  show ?thesis
  proof (cases found)
    case None
    with rest show ?thesis by simp
  next
    case (Some row)
    then have row: "balances s i = Some (wallet_balance row)" using s1(2) by simp
    show ?thesis
      using rest changed[OF assms(1), of i "wallet_balance row + amount" "WalletOperationEvent i wallet_deposit amount (wallet_balance row + amount)" u s']
        positive row Some s1(1) by (simp split: if_splits)
  qed
qed

lemma withdraw_effect:
  assumes "usable s" and "withdrawBody wallets publish i amount s = Some (Resolve u, s')"
  shows "\<exists>b. 0 < amount \<and> amount \<le> b \<and> balances s i = Some b \<and> usable s' \<and> balances s' = (balances s)(i \<mapsto> b - amount) \<and>
    published s' = published s @ [WalletOperationEvent i wallet_withdraw amount (b - amount)]"
proof -
  have positive: "0 < amount" using assms(2) by (cases "amount \<le> 0") (simp_all add: withdrawBody_def)
  with assms(2) obtain found s1 where found: "findById wallets i s = Some (Resolve found, s1)"
    and rest: "(case found of None \<Rightarrow> throw walletError | Some wallet \<Rightarrow> if wallet_balance wallet < amount then throw walletError else
      andThen (updateWallet wallets i (wallet_balance wallet - amount))
        (\<lambda>_. publish (WalletOperationEvent i wallet_withdraw amount (wallet_balance wallet - amount)))) s1 = Some (Resolve u, s')"
    unfolding withdrawBody_def Let_def by (auto elim!: andThen_resolves)
  have s1: "s1 = s" "map_option wallet_balance found = balances s i" using finds[OF assms(1) found] by simp_all
  show ?thesis
  proof (cases found)
    case None
    with rest show ?thesis by simp
  next
    case (Some row)
    then have row: "balances s i = Some (wallet_balance row)" using s1(2) by simp
    show ?thesis
      using rest changed[OF assms(1), of i "wallet_balance row - amount" "WalletOperationEvent i wallet_withdraw amount (wallet_balance row - amount)" u s']
        positive row Some s1(1) by (simp split: if_splits)
  qed
qed

lemma replay_change:
  assumes "balancesReplay opening (balances s) (published s)" and "balances s (walletOf ev) = Some b" and "0 \<le> b + walletChange ev"
    and "balances s' = (balances s)(walletOf ev \<mapsto> b + walletChange ev)" and "published s' = published s @ [ev]"
  shows "balancesReplay opening (balances s') (published s')"
  using assms by (auto simp: balancesReplay_def)

lemma deposit_replays:
  assumes "usable s" and "balancesReplay opening (balances s) (published s)"
    and "depositBody wallets publish i amount s = Some (Resolve u, s')"
  shows "usable s' \<and> balancesReplay opening (balances s') (published s')"
proof -
  obtain b where b: "0 < amount" "balances s i = Some b" "usable s'" "balances s' = (balances s)(i \<mapsto> b + amount)"
    "published s' = published s @ [WalletOperationEvent i wallet_deposit amount (b + amount)]"
    using deposit_effect[OF assms(1,3)] by blast
  moreover have "0 \<le> b" using assms(2) b(2) by (auto simp: balancesReplay_def)
  ultimately show ?thesis using replay_change[OF assms(2), of "WalletOperationEvent i wallet_deposit amount (b + amount)" b s'] by simp
qed

lemma withdraw_replays:
  assumes "usable s" and "balancesReplay opening (balances s) (published s)"
    and "withdrawBody wallets publish i amount s = Some (Resolve u, s')"
  shows "usable s' \<and> balancesReplay opening (balances s') (published s')"
proof -
  obtain b where b: "amount \<le> b" "balances s i = Some b" "usable s'" "balances s' = (balances s)(i \<mapsto> b - amount)"
    "published s' = published s @ [WalletOperationEvent i wallet_withdraw amount (b - amount)]"
    using withdraw_effect[OF assms(1,3)] by blast
  then show ?thesis using replay_change[OF assms(2), of "WalletOperationEvent i wallet_withdraw amount (b - amount)" b s'] by simp
qed

end

section \<open>The service over TypeORM\<close>

interpretation typeorm_wallets: wallet_contract TypeOrmWalletRepository publishWallet
  "\<lambda>s. map_option wallet_balance \<circ> wallet_rows s" wallet_messages "\<lambda>s. \<not> aborted s"
proof (rule wallet_contract.intro)
  fix s s' :: wallet_db and i found
  assume "\<not> aborted s" "findById TypeOrmWalletRepository i s = Some (Resolve found, s')"
  then show "s' = s \<and> map_option wallet_balance found = (map_option wallet_balance \<circ> wallet_rows s) i"
    by (auto simp: TypeOrmWalletRepository_def statement_def)
next
  fix s s' :: wallet_db and i b and u :: unit
  assume "\<not> aborted s" "(map_option wallet_balance \<circ> wallet_rows s) i \<noteq> None"
    "updateWallet TypeOrmWalletRepository i b s = Some (Resolve u, s')"
  then obtain row where "wallet_rows s i = Some row" "s' = s\<lparr>wallet_rows := (wallet_rows s)(i \<mapsto> row\<lparr>wallet_balance := b\<rparr>)\<rparr>"
    by (auto simp: TypeOrmWalletRepository_def statement_def split: if_splits)
  then show "\<not> aborted s' \<and> map_option wallet_balance \<circ> wallet_rows s' = (map_option wallet_balance \<circ> wallet_rows s)(i \<mapsto> b) \<and>
      wallet_messages s' = wallet_messages s"
    using \<open>\<not> aborted s\<close> by (simp add: fun_eq_iff)
next
  fix s s' :: wallet_db and ev and u :: unit
  assume "\<not> aborted s" "publishWallet ev s = Some (Resolve u, s')"
  then have "s' = s\<lparr>wallet_messages := wallet_messages s @ [ev]\<rparr>" by (simp add: publishWallet_def statement_def)
  then show "\<not> aborted s' \<and> map_option wallet_balance \<circ> wallet_rows s' = map_option wallet_balance \<circ> wallet_rows s \<and>
      wallet_messages s' = wallet_messages s @ [ev]"
    using \<open>\<not> aborted s\<close> by simp
qed

text \<open>A call of the service, and calls one after another.\<close>

datatype wallet_call = DepositCall string int | WithdrawCall string int

fun walletCall :: "wallet_call \<Rightarrow> (wallet_db, unit) comp" where
  "walletCall (DepositCall i amount) = depositWallet i amount"
| "walletCall (WithdrawCall i amount) = withdrawWallet i amount"

fun walletCalls :: "wallet_call list \<Rightarrow> wallet_db \<Rightarrow> wallet_db" where
  "walletCalls [] s = s"
| "walletCalls (c # cs) s = (case walletCall c s of None \<Rightarrow> s | Some (r, s') \<Rightarrow> walletCalls cs s')"

lemma transactional_resolves:
  assumes "transactional f s = Some (Resolve v, s')"
  obtains "s' = s" | "f s = Some (Resolve v, s')"
  using assms by (auto simp: transactional_def split: option.splits prod.splits outcome.splits if_splits)

abbreviation walletsReplay :: "(string \<Rightarrow> int option) \<Rightarrow> wallet_db \<Rightarrow> bool" where
  "walletsReplay opening s \<equiv> balancesReplay opening (map_option wallet_balance \<circ> wallet_rows s) (wallet_messages s)"

lemma walletCall_replays:
  assumes "\<not> aborted s" and "walletsReplay opening s" and "walletCall c s = Some (r, s')"
  shows "\<not> aborted s' \<and> walletsReplay opening s'"
proof (cases r)
  case (Reject e)
  then have "s' = s" using assms(3) transactional_rejects by (cases c) (auto simp: depositWallet_def withdrawWallet_def)
  then show ?thesis using assms(1,2) by simp
next
  case (Resolve u)
  show ?thesis
  proof (cases c)
    case (DepositCall i amount)
    then have "transactional (depositBody TypeOrmWalletRepository publishWallet i amount) s = Some (Resolve u, s')"
      using assms(3) Resolve by (simp add: depositWallet_def)
    then show ?thesis
      by (rule transactional_resolves) (use assms(1,2) typeorm_wallets.deposit_replays[OF assms(1,2)] in auto)
  next
    case (WithdrawCall i amount)
    then have "transactional (withdrawBody TypeOrmWalletRepository publishWallet i amount) s = Some (Resolve u, s')"
      using assms(3) Resolve by (simp add: withdrawWallet_def)
    then show ?thesis
      by (rule transactional_resolves) (use assms(1,2) typeorm_wallets.withdraw_replays[OF assms(1,2)] in auto)
  qed
qed

text \<open>
  Calls one after another keep every wallet at its opening balance plus its published operations,
  never below zero, and publish nothing of a wallet that is not there.
\<close>

theorem wallets_replay_events:
  assumes "\<not> aborted s" and "walletsReplay opening s"
  shows "walletsReplay opening (walletCalls cs s)"
  using assms
proof (induction cs arbitrary: s)
  case (Cons c cs)
  show ?case
  proof (cases "walletCall c s")
    case None
    then show ?thesis using Cons.prems by simp
  next
    case (Some res)
    obtain r s' where res: "res = (r, s')" by fastforce
    note kept = walletCall_replays[OF Cons.prems Some[unfolded res]]
    have "walletCalls (c # cs) s = walletCalls cs s'" using Some res by simp
    then show ?thesis using Cons.IH[OF conjunct1[OF kept] conjunct2[OF kept]] by (simp only:)
  qed
qed simp

lemma wallets_replay_events_example:
  "wallet_messages (walletCalls [DepositCall ''a'' 20, WithdrawCall ''a'' 30, WithdrawCall ''a'' 1, DepositCall ''b'' 5]
     \<lparr>aborted = False, wallet_rows = [''a'' \<mapsto> \<lparr>wallet_id = ''a'', wallet_balance = 10\<rparr>], wallet_messages = []\<rparr>) =
   [WalletOperationEvent ''a'' wallet_deposit 20 30, WalletOperationEvent ''a'' wallet_withdraw 30 0]"
  by code_simp

end
