(* ===== verification/Race_Check.thy ===== *)
theory Race_Check
  imports Js_Prelude "HOL-Library.Sublist"
begin

text \<open>
  \<open>scripts/check-test-races.js\<close>: a gate of the build that scans the integration specs for a
  status asserted after a wait on something in memory. The regular expressions become functions
  from a string to the remainders after their matches; what \<open>git ls-files\<close> and the file system
  give is the argument, the files by name with their text.
\<close>

section \<open>Regular expressions\<close>

type_synonym regex = "string \<Rightarrow> string list"

definition literally :: "string \<Rightarrow> regex" where
  "literally p s = (if take (length p) s = p then [drop (length p) s] else [])"

definition thenMatch :: "regex \<Rightarrow> regex \<Rightarrow> regex" where
  "thenMatch a b s = concat (map b (a s))"

definition anyOf :: "regex list \<Rightarrow> regex" where
  "anyOf res s = concat (map (\<lambda>a. a s) res)"

fun many :: "(char \<Rightarrow> bool) \<Rightarrow> regex" where
  "many P [] = [[]]"
| "many P (c # s) = (if P c then many P s else []) @ [c # s]"

definition possibly :: "regex \<Rightarrow> regex" where
  "possibly a s = a s @ [s]"

text \<open>\<open>\s\<close>, and what \<open>.\<close> does not match, among the characters below 256.\<close>

definition isSpace :: "char \<Rightarrow> bool" where
  "isSpace c = (of_char c \<in> set [9, 10, 11, 12, 13, 32, 160 :: nat])"

definition isLineEnd :: "char \<Rightarrow> bool" where
  "isLineEnd c = (of_char c \<in> set [10, 13 :: nat])"

fun some :: "(char \<Rightarrow> bool) \<Rightarrow> regex" where
  "some P [] = []"
| "some P (c # s) = (if P c then many P s else [])"

definition matchesAt :: "regex \<Rightarrow> string \<Rightarrow> bool" where
  "matchesAt a s = (a s \<noteq> [])"

definition matches :: "regex \<Rightarrow> string \<Rightarrow> bool" where
  "matches a s = list_ex (matchesAt a) (suffixes s)"

definition STATUS :: "string \<Rightarrow> bool" where
  "STATUS = matches (thenMatch (literally ''PublicationStatus.'')
     (anyOf (map literally [''COMPLETED'', ''FAILED'', ''PROCESSING'', ''PUBLISHED''])))"

definition ASSERTION :: "string \<Rightarrow> bool" where
  "ASSERTION = matches (anyOf (map literally [''expect('', ''toBe('', ''toEqual('', ''toMatchObject('']))"

definition IT_BLOCK :: "string \<Rightarrow> bool" where
  "IT_BLOCK = matchesAt (thenMatch (many isSpace) (thenMatch (literally ''it'')
     (thenMatch (possibly (thenMatch (literally ''.each('') (thenMatch (many (\<lambda>c. \<not> isLineEnd c)) (literally '')''))))
       (literally ''(''))))"

definition awaited :: "regex \<Rightarrow> regex" where
  "awaited a = thenMatch (literally ''await'') (thenMatch (some isSpace) a)"

definition WAIT_CALL :: "string \<Rightarrow> bool" where
  "WAIT_CALL = matches (awaited (literally ''waitFor(''))"

definition READS_DB :: "string \<Rightarrow> bool" where
  "READS_DB = matches (anyOf (map literally [''getRepository'', ''waitForPublications'', ''.query('', ''find()'', ''findOne'']))"

definition DB_WAIT :: "string \<Rightarrow> bool" where
  "DB_WAIT = matches (anyOf [literally ''waitForPublications('',
     awaited (thenMatch (literally ''waitFor('') (thenMatch (many isSpace) (literally ''async'')))])"

definition SHUTDOWN :: "string \<Rightarrow> bool" where
  "SHUTDOWN = matches (awaited (thenMatch (anyOf (map literally [''module'', ''app'', ''moduleRef''])) (literally ''.close()'')))"

section \<open>The scan\<close>

fun joinLines :: "string list \<Rightarrow> string" where
  "joinLines [] = []"
| "joinLines [l] = l"
| "joinLines (l # m # ls) = l @ CHR 0x0A # joinLines (m # ls)"

fun splitLines :: "string \<Rightarrow> string list" where
  "splitLines [] = [[]]"
| "splitLines (c # s) = (if c = CHR 0x0A then [] # splitLines s
     else (case splitLines s of [] \<Rightarrow> [[c]] | l # ls \<Rightarrow> (c # l) # ls))"

definition trimmed :: "string \<Rightarrow> string" where
  "trimmed s = rev (dropWhile isSpace (rev (dropWhile isSpace s)))"

definition slice :: "'a list \<Rightarrow> nat \<Rightarrow> nat \<Rightarrow> 'a list" where
  "slice xs i j = drop i (take j xs)"

definition blockStarts :: "string list \<Rightarrow> nat list" where
  "blockStarts ls = filter (\<lambda>i. IT_BLOCK (ls ! i)) [0..<length ls]"

definition blockRanges :: "string list \<Rightarrow> (nat \<times> nat) list" where
  "blockRanges ls = (let starts = blockStarts ls in
     map (\<lambda>i. (starts ! i, if i + 1 < length starts then starts ! (i + 1) else length ls)) [0..<length starts])"

definition waitsOnMemoryOnly :: "string list \<Rightarrow> bool" where
  "waitsOnMemoryOnly ls =
     list_ex (\<lambda>i. WAIT_CALL (ls ! i) \<and> \<not> READS_DB (joinLines (slice ls i (i + 6)))) [0..<length ls]"

definition racesAt :: "string list \<Rightarrow> nat \<Rightarrow> bool" where
  "racesAt block i = (STATUS (block ! i) \<and> ASSERTION (block ! i) \<and>
     (let before = slice block 0 i; beforeText = joinLines before
      in \<not> (DB_WAIT beforeText \<or> SHUTDOWN beforeText) \<and> waitsOnMemoryOnly before))"

definition fileFindings :: "string \<Rightarrow> string list \<Rightarrow> (string \<times> nat \<times> string) list" where
  "fileFindings file ls = concat (map (\<lambda>(start, stop). let block = slice ls start stop in
     map (\<lambda>i. (file, start + i + 1, trimmed (block ! i))) (filter (racesAt block) [0..<length block]))
     (blockRanges ls))"

definition endsWith :: "string \<Rightarrow> string \<Rightarrow> bool" where
  "endsWith s t = suffix t s"

definition raceFindings :: "(string \<times> string) list \<Rightarrow> (string \<times> nat \<times> string) list" where
  "raceFindings files = concat (map (\<lambda>(file, content). fileFindings file (splitLines content))
     (filter (\<lambda>(file, content). endsWith file ''.integration.spec.ts'') files))"

definition exitCode :: "(string \<times> nat \<times> string) list \<Rightarrow> int" where
  "exitCode hits = (if length hits = 0 then 0 else 1)"

end
