(* ===== verification/Race_Properties.thy ===== *)
theory Race_Properties
  imports Race_Check
begin

text \<open>
  What the gate reports: the lines that the rule of its comment describes, each once and in the
  order of the file.
\<close>

section \<open>Blocks\<close>

lemma filtered_upt:
  assumes "i < length (filter P [0..<n])"
  shows "filter P [0..<n] ! i < n" "P (filter P [0..<n] ! i)"
  using nth_mem[OF assms] by auto

lemma filter_upt_less:
  assumes "i < j" and "j < length (filter P [0..<n])"
  shows "filter P [0..<n] ! i < filter P [0..<n] ! j"
  using sorted_wrt_nth_less[OF sorted_wrt_filter[OF sorted_wrt_upt] assms] .

lemma filter_upt_between:
  assumes "i < length (filter P [0..<n])" and "filter P [0..<n] ! i < k" and "P k" and "k < n"
  shows "i + 1 < length (filter P [0..<n]) \<and> filter P [0..<n] ! (i + 1) \<le> k"
proof -
  let ?f = "filter P [0..<n]"
  have "k \<in> set ?f" using assms(3,4) by simp
  then obtain j where j: "j < length ?f" "?f ! j = k" by (auto simp: in_set_conv_nth simp del: set_filter)
  have "i < j"
  proof (rule ccontr)
    assume "\<not> i < j"
    then have "j = i \<or> j < i" by linarith
    then have "k \<le> ?f ! i" using filter_upt_less[of j i P n] assms(1) j by auto
    then show False using assms(2) by simp
  qed
  then have "i + 1 < length ?f" and "i + 1 = j \<or> i + 1 < j" using j by linarith+
  then show ?thesis using filter_upt_less[of "i + 1" j P n] j by auto
qed

text \<open>The block a line belongs to starts at the last \<open>it\<close> at or before it.\<close>

definition inBlock :: "string list \<Rightarrow> nat \<Rightarrow> nat \<Rightarrow> bool" where
  "inBlock ls start i \<longleftrightarrow> start \<le> i \<and> i < length ls \<and> IT_BLOCK (ls ! start) \<and> \<not> (\<exists>k\<in>{start<..i}. IT_BLOCK (ls ! k))"

lemma blockRanges_iff:
  "(\<exists>stop. (start, stop) \<in> set (blockRanges ls) \<and> start \<le> i \<and> i < stop) \<longleftrightarrow> inBlock ls start i"
proof
  assume "\<exists>stop. (start, stop) \<in> set (blockRanges ls) \<and> start \<le> i \<and> i < stop"
  then obtain b where b: "b < length (blockStarts ls)" "start = blockStarts ls ! b"
    and i: "start \<le> i" "i < (if b + 1 < length (blockStarts ls) then blockStarts ls ! (b + 1) else length ls)"
    by (auto simp: blockRanges_def Let_def)
  have start: "IT_BLOCK (ls ! start)" and len: "i < length ls"
    using filtered_upt[of b "\<lambda>i. IT_BLOCK (ls ! i)" "length ls"] filtered_upt[of "b + 1" "\<lambda>i. IT_BLOCK (ls ! i)" "length ls"] b i
    by (auto simp: blockStarts_def split: if_splits)
  have "\<not> IT_BLOCK (ls ! k)" if k: "start < k" "k \<le> i" for k
    using filter_upt_between[of b "\<lambda>i. IT_BLOCK (ls ! i)" "length ls" k] b i k len by (auto simp: blockStarts_def)
  then show "inBlock ls start i" using start len i(1) by (auto simp: inBlock_def)
next
  assume inside: "inBlock ls start i"
  then have "start \<in> set (blockStarts ls)" by (auto simp: inBlock_def blockStarts_def)
  then obtain b where b: "b < length (blockStarts ls)" "start = blockStarts ls ! b" by (auto simp: in_set_conv_nth)
  let ?stop = "if b + 1 < length (blockStarts ls) then blockStarts ls ! (b + 1) else length ls"
  have "i < ?stop"
  proof (cases "b + 1 < length (blockStarts ls)")
    case True
    then have "IT_BLOCK (ls ! (blockStarts ls ! (b + 1)))" "start < blockStarts ls ! (b + 1)"
      using filtered_upt(2)[of "b + 1" "\<lambda>i. IT_BLOCK (ls ! i)" "length ls"]
        filter_upt_less[of b "b + 1" "\<lambda>i. IT_BLOCK (ls ! i)" "length ls"] b by (simp_all add: blockStarts_def)
    then show ?thesis using inside True by (force simp: inBlock_def)
  qed (use inside in \<open>simp add: inBlock_def\<close>)
  moreover have "(start, ?stop) \<in> set (blockRanges ls)"
    using b by (auto simp: blockRanges_def Let_def)
  ultimately show "\<exists>stop. (start, stop) \<in> set (blockRanges ls) \<and> start \<le> i \<and> i < stop"
    using inside unfolding inBlock_def by blast
qed

lemma range_stop:
  assumes "(start, stop) \<in> set (blockRanges ls)"
  shows "stop \<le> length ls" "start < stop"
proof -
  obtain b where b: "b < length (blockStarts ls)" "start = blockStarts ls ! b"
    "stop = (if b + 1 < length (blockStarts ls) then blockStarts ls ! (b + 1) else length ls)"
    using assms by (auto simp: blockRanges_def Let_def)
  then show "stop \<le> length ls" "start < stop"
    using filtered_upt(1)[of "b + 1" "\<lambda>i. IT_BLOCK (ls ! i)" "length ls"] filtered_upt(1)[of b "\<lambda>i. IT_BLOCK (ls ! i)" "length ls"]
      filter_upt_less[of b "b + 1" "\<lambda>i. IT_BLOCK (ls ! i)" "length ls"]
    by (auto simp: blockStarts_def)
qed

section \<open>Slices\<close>

lemma slice_nth: "i < j - s \<Longrightarrow> j \<le> length xs \<Longrightarrow> slice xs s j ! i = xs ! (s + i)"
  by (simp add: slice_def)

lemma slice_length: "j \<le> length xs \<Longrightarrow> length (slice xs s j) = j - s"
  by (simp add: slice_def)

lemma slice_slice:
  assumes "s \<le> e"
  shows "slice (slice xs s e) a b = slice xs (s + a) (min (s + b) e)"
proof -
  have "drop a (take b (drop s (take e xs))) = drop a (drop s (take (s + b) (take e xs)))"
    by (simp only: take_drop add.commute)
  then show ?thesis by (simp add: slice_def add.commute)
qed

lemma waits_iff:
  "waitsOnMemoryOnly ls \<longleftrightarrow> (\<exists>k<length ls. WAIT_CALL (ls ! k) \<and> \<not> READS_DB (joinLines (slice ls k (k + 6))))"
  by (auto simp: waitsOnMemoryOnly_def list_ex_iff)

section \<open>What is reported\<close>

text \<open>The rule: a status is asserted in a test that waited on memory, and on nothing in the database.\<close>

definition racyLine :: "string list \<Rightarrow> nat \<Rightarrow> bool" where
  "racyLine ls i \<longleftrightarrow> (\<exists>start. inBlock ls start i \<and> STATUS (ls ! i) \<and> ASSERTION (ls ! i) \<and>
     \<not> DB_WAIT (joinLines (slice ls start i)) \<and> \<not> SHUTDOWN (joinLines (slice ls start i)) \<and>
     (\<exists>k\<in>{start..<i}. WAIT_CALL (ls ! k) \<and> \<not> READS_DB (joinLines (slice ls k (min (k + 6) i)))))"

lemma racesAt_block:
  assumes "start \<le> i" and "i < stop" and "stop \<le> length ls"
  shows "racesAt (slice ls start stop) (i - start) \<longleftrightarrow> STATUS (ls ! i) \<and> ASSERTION (ls ! i) \<and>
     \<not> DB_WAIT (joinLines (slice ls start i)) \<and> \<not> SHUTDOWN (joinLines (slice ls start i)) \<and>
     (\<exists>k\<in>{start..<i}. WAIT_CALL (ls ! k) \<and> \<not> READS_DB (joinLines (slice ls k (min (k + 6) i))))"
proof -
  have line: "slice ls start stop ! (i - start) = ls ! i"
    using assms by (simp add: slice_nth)
  have before: "slice (slice ls start stop) 0 (i - start) = slice ls start i"
    using assms by (simp add: slice_slice min_def)
  have "waitsOnMemoryOnly (slice ls start i) \<longleftrightarrow>
      (\<exists>k\<in>{start..<i}. WAIT_CALL (ls ! k) \<and> \<not> READS_DB (joinLines (slice ls k (min (k + 6) i))))"
  proof
    assume "waitsOnMemoryOnly (slice ls start i)"
    then obtain k where "k < i - start" "WAIT_CALL (slice ls start i ! k)"
      "\<not> READS_DB (joinLines (slice (slice ls start i) k (k + 6)))"
      using assms by (auto simp: waits_iff slice_length)
    then show "\<exists>k\<in>{start..<i}. WAIT_CALL (ls ! k) \<and> \<not> READS_DB (joinLines (slice ls k (min (k + 6) i)))"
      using assms by (intro bexI[of _ "start + k"]) (simp_all add: slice_nth slice_slice add.assoc)
  next
    assume "\<exists>k\<in>{start..<i}. WAIT_CALL (ls ! k) \<and> \<not> READS_DB (joinLines (slice ls k (min (k + 6) i)))"
    then obtain k where k: "start \<le> k" "k < i" "WAIT_CALL (ls ! k)" "\<not> READS_DB (joinLines (slice ls k (min (k + 6) i)))"
      by auto
    then show "waitsOnMemoryOnly (slice ls start i)"
      unfolding waits_iff using assms by (intro exI[of _ "k - start"]) (simp add: slice_nth slice_slice slice_length)
  qed
  then show ?thesis unfolding racesAt_def line before Let_def by simp
qed

lemma fileFindings_iff:
  "(f, n, t) \<in> set (fileFindings file ls) \<longleftrightarrow>
     (\<exists>i. f = file \<and> n = Suc i \<and> t = trimmed (ls ! i) \<and> racyLine ls i)"
proof
  assume "(f, n, t) \<in> set (fileFindings file ls)"
  then obtain start stop i where range: "(start, stop) \<in> set (blockRanges ls)"
    and i: "i < length (slice ls start stop)" "racesAt (slice ls start stop) i"
    and hit: "f = file" "n = start + i + 1" "t = trimmed (slice ls start stop ! i)"
    by (auto simp: fileFindings_def Let_def)
  note stop = range_stop[OF range]
  have at: "start + i < stop" using i(1) stop by (simp add: slice_length)
  have "inBlock ls start (start + i)" using blockRanges_iff[of start ls "start + i"] range at by auto
  moreover have "racesAt (slice ls start stop) (start + i - start)" using i(2) by simp
  ultimately have "racyLine ls (start + i)"
    using racesAt_block[of start "start + i" stop ls] at stop unfolding racyLine_def by auto
  then show "\<exists>i. f = file \<and> n = Suc i \<and> t = trimmed (ls ! i) \<and> racyLine ls i"
    using hit at stop by (intro exI[of _ "start + i"]) (simp add: slice_nth)
next
  assume "\<exists>i. f = file \<and> n = Suc i \<and> t = trimmed (ls ! i) \<and> racyLine ls i"
  then obtain i where hit: "f = file" "n = Suc i" "t = trimmed (ls ! i)" and racy: "racyLine ls i" by blast
  then obtain start where start: "inBlock ls start i" and rule: "STATUS (ls ! i)" "ASSERTION (ls ! i)"
    "\<not> DB_WAIT (joinLines (slice ls start i))" "\<not> SHUTDOWN (joinLines (slice ls start i))"
    "\<exists>k\<in>{start..<i}. WAIT_CALL (ls ! k) \<and> \<not> READS_DB (joinLines (slice ls k (min (k + 6) i)))"
    by (auto simp: racyLine_def)
  from start obtain stop where range: "(start, stop) \<in> set (blockRanges ls)" "start \<le> i" "i < stop"
    using blockRanges_iff by blast
  note stop = range_stop[OF range(1)]
  have "racesAt (slice ls start stop) (i - start)"
    using racesAt_block[OF range(2,3) stop(1)] rule by blast
  moreover have "i - start < length (slice ls start stop)" "trimmed (slice ls start stop ! (i - start)) = t"
    using range stop hit by (simp_all add: slice_length slice_nth)
  ultimately show "(f, n, t) \<in> set (fileFindings file ls)"
    using range(1,2) hit unfolding fileFindings_def Let_def
    by (auto intro!: bexI[of _ "(start, stop)"] image_eqI[of _ _ "i - start"])
qed

text \<open>
  C38. The gate fails exactly when some integration spec has a line that asserts a status after its
  test waited on something in memory and neither on the database nor for the shutdown; a line is
  reported under its own file and number, and files of other names are not read.
\<close>

theorem race_gate_exact:
  "(exitCode (raceFindings files) = 1 \<longleftrightarrow>
     (\<exists>file content i. (file, content) \<in> set files \<and> suffix ''.integration.spec.ts'' file \<and>
       racyLine (splitLines content) i)) \<and>
   set (raceFindings files) = {(file, Suc i, trimmed (splitLines content ! i)) | file content i.
     (file, content) \<in> set files \<and> suffix ''.integration.spec.ts'' file \<and> racyLine (splitLines content) i}"
proof -
  have all: "set (raceFindings files) = {(file, Suc i, trimmed (splitLines content ! i)) | file content i.
     (file, content) \<in> set files \<and> suffix ''.integration.spec.ts'' file \<and> racyLine (splitLines content) i}"
    by (auto simp: raceFindings_def endsWith_def fileFindings_iff) (use fileFindings_iff in blast)
  have "exitCode (raceFindings files) = 1 \<longleftrightarrow> set (raceFindings files) \<noteq> {}"
    by (simp add: exitCode_def)
  then show ?thesis unfolding all by blast
qed

text \<open>A test that waits for a flag and then asserts the status, and one that waits for the rows.\<close>

lemma race_gate_example:
  "raceFindings [(''a.integration.spec.ts'', joinLines
     [''it('', ''  await waitFor(() => handled);'', ''  expect(status).toBe(PublicationStatus.COMPLETED);'',
      ''it('', ''  await waitFor(async () => rows());'', ''  expect(status).toBe(PublicationStatus.COMPLETED);''])] =
   [(''a.integration.spec.ts'', 3, ''expect(status).toBe(PublicationStatus.COMPLETED);'')]"
  by code_simp

end
