(* ===== verification/Spec2Isabelle.thy ===== *)
theory Spec2Isabelle
  imports Drizzle_Properties Cqrs_Properties Handler_Properties Outbox_Properties
    Workflow_Properties Library_Modules Module_Properties Transactional_Outbox Manager_Scoped Saga_Liveness
    Saga_Transactions Saga_Pattern_Properties Audit_Properties Fulfilment_Outcome Drizzle_Orders Wallets Race_Properties
begin

text \<open>
  A verification development for \<^bold>\<open>nestjs-transactional\<close>, a transaction library for
  NestJS applications: \<open>packages/core\<close>, its adapters for TypeORM and Drizzle, and its
  bindings for CQRS, the transactional outbox and workflows.

  \<^bold>\<open>The program.\<close> A call \<open>TransactionManager.run(options, fn)\<close> reads the active
  transactions of the asynchronous context (a map in an \<open>AsyncLocalStorage\<close> store) and, by
  its propagation mode, joins one, begins one, opens a savepoint, suspends one or refuses.
  Adapters, found in the adapter registry, begin and end transactions on a database. A
  transaction carries three arrays of hooks; the manager runs the before-commit hooks inside
  the transaction and the others after it ended, and may run the whole again when an error is
  retryable. Decorators, an interceptor, a method bootstrap and the CQRS handler wrapper put
  application methods inside \<open>run\<close>. The TypeORM and Drizzle packages patch their library's
  objects so that application code uses the active transaction without naming it. The CQRS
  package hangs event listeners on the hooks of the active transaction, the outbox package a
  flush of externalized events, the workflow package the promises of client calls.

  \<^bold>\<open>Theories and sources\<close> (under \<open>src/packages\<close>):
  \<^item> \<open>Js_Prelude\<close>: JavaScript values, insertion-ordered maps, computations that settle
    (\<open>Some (Resolve v, w)\<close>, \<open>Some (Reject e, w)\<close>) or never do (\<open>None\<close>), and relations such
    computations keep.
  \<^item> \<open>Core_Types\<close>: \<open>core/src/types\<close> and the observer interface. \<open>Tx_Context\<close>:
    \<open>core/src/context\<close>. \<open>Adapter_Registry\<close>: \<open>core/src/manager/adapter.registry.ts\<close>.
  \<^item> \<open>Tx_Manager\<close>: \<open>core/src/manager/transaction.manager.ts\<close>, every method; the manager's
    private state is in the record \<open>manager_world\<close>.
  \<^item> \<open>In_Memory_Adapter\<close>: \<open>core/src/testing/in-memory.adapter.ts\<close>.
  \<^item> \<open>Decorators\<close>: \<open>core/src/decorators\<close>, \<open>bootstrap\<close>, \<open>interceptor\<close>. \<open>Core_Module\<close>:
    \<open>core/src/module\<close>, \<open>tokens\<close> and the injection decorators.
  \<^item> \<open>Interleaving\<close>: \<open>run\<close> and \<open>startNew\<close> once more, as the steps of concurrent tasks.
  \<^item> \<open>Sql_Library\<close>, \<open>Typeorm_Adapter\<close>, \<open>Typeorm_Patches\<close>: \<open>typeorm/src\<close>. \<open>Drizzle\<close>:
    \<open>drizzle/src\<close>.
  \<^item> \<open>Event_Dispatcher\<close>, \<open>Event_Publisher\<close>, \<open>Cqrs_Handlers\<close>: \<open>cqrs/src\<close>.
  \<^item> \<open>Outbox\<close>: \<open>outbox/src\<close>. \<open>Workflows\<close>: \<open>workflows/src\<close>.
  \<^item> \<open>Library_Modules\<close>: the \<open>module\<close> directories of the packages other than core.
  \<^item> \<open>Postgres\<close>: what the applications under \<open>src/examples\<close> rely on of their database.
    \<open>Outbox_Relay\<close>: of the outbox's relay and inbox. \<open>Workflow_Runs\<close>: of durable workflows.
  \<^item> \<open>Order_Saga\<close>: \<open>src/examples/e-commerce-orders/src\<close>, an application of all of them: the
    handlers of its saga over its tables, the aggregate, the controller.
  \<^item> \<open>Saga_Pattern\<close>: \<open>src/examples/saga-pattern/src\<close>. \<open>Audit_Logging\<close>:
    \<open>src/examples/audit-logging/src\<close>. \<open>Fulfilment\<close>: \<open>src/examples/workflows-order-fulfilment/src\<close>.
    \<open>Drizzle_Orders\<close>: \<open>src/examples/drizzle-orders/src\<close>. \<open>Wallets\<close>:
    \<open>src/examples/testing-patterns/src\<close>.
  \<^item> \<open>Race_Check\<close>: \<open>src/scripts/check-test-races.js\<close>, a gate of the build.

  \<^bold>\<open>State.\<close> One record, the world, is threaded through every operation. It holds the heap
  of stores and transactions, the supply of addresses, the clock, the manager's pending
  promises and set of errors rolled back with, and the database of the adapters as a type
  parameter; the packages extend the record with their own state. Objects the program shares
  and mutates are addresses. Code of the application (functions, hooks, observers, listeners)
  is a parameter, a computation over the world; the closures the library itself makes are
  constructors of a datatype of hooks.

  \<^bold>\<open>Interfaces.\<close> The locale \<open>lawful_adapter\<close> (\<open>Adapter_Contract\<close>) states what the manager
  relies on of an adapter, \<open>faithful_adapter\<close> what it promises besides of the outcome, and
  \<open>transactional_adapter\<close> (\<open>Session_Contract\<close>) what \<open>core/src/types/transaction-adapter.ts\<close> promises
  in full: \<open>runInTransaction\<close> and \<open>runInSavepoint\<close> are sessions, entered by given steps and left or
  undone by others, commit and release when the callback resolves, rollback and rollback to the
  savepoint, with the same error, when it rejects. All three adapters interpret it.
  \<open>lawful_environment\<close> of everything the manager calls; \<open>db_relation\<close> and \<open>db_environment\<close>
  carry relations on databases through every \<open>run\<close>; \<open>client_setting\<close> and \<open>client_db\<close> close
  them under programs. \<open>sql_library\<close>, \<open>typeorm_library\<close> and \<open>drizzle_library\<close> state what the
  SQL adapters rely on of the third-party libraries, \<open>settling_typeorm\<close> and \<open>settling_drizzle\<close> that
  their transactions are sessions themselves; sublocales make the two SQL adapters lawful and
  transactional over every such library. The in-memory adapter interprets \<open>faithful_adapter\<close>, and
  logging libraries that answer every call interpret the SQL ones. \<open>outbox_port\<close> is the
  interface \<open>OutboxPublicationScheduler\<close> of the event publisher and the outbox publisher its
  interpretation; \<open>committing_adapter\<close> (\<open>Commit_Contract\<close>) is an adapter whose transactions leave
  in the database what their commit makes of it, and nothing when they reject, and the TypeORM
  adapter over a library that keeps this is one. \<open>idempotent_consumers\<close> (\<open>Outbox_Relay\<close>) is an
  application whose handlers do nothing the second time; that its redeliveries change nothing is
  proved once, for the saga pattern and the audit log. \<open>wallet_contract\<close> is the repository interface of the
  wallets, which the repository over TypeORM interprets.

  \<^bold>\<open>What the lemmas show.\<close>
  \<^item> The manager (\<open>Frame\<close>, \<open>Manager_Frame\<close>, \<open>Propagation\<close>, \<open>Client\<close>,
    \<open>Manager_Properties\<close>): every call leaves the context as it found it, the function it is
    given runs in the situation its mode promises on every attempt, for every client program.
  \<^item> Types (\<open>Context_Typing\<close>): a store maps the key of an adapter to an active transaction of
    that key, so a lookup finds a transaction of the adapter it asked for, at any moment.
  \<^item> Outcomes (\<open>Db_Invariant\<close>, \<open>Settlement\<close>): each transaction is recorded once and rolled
    back exactly when the error that leaves it asks for that.
  \<^item> Retries and hooks (\<open>Retries\<close>, \<open>Hooks\<close>): the loop is a bounded chain of attempts; hooks
    run once, in order, at their time; pending writes are awaited before a body resolves with its
    value. A body that settles with an error exempted from rollback commits without all that, and
    an error that carries the mark of another rollback makes a committed transaction run again.
  \<^item> Concurrency (\<open>Interleaving\<close>): calls on keys of their own behave as under lexical
    scoping in every interleaving and all settle; any two calls on one key can be scheduled so
    that they work in each other's transaction or in none.
    \<open>Manager_Scoped\<close> proves the manager itself to implement the same lexical scoping, so that
    a task of \<open>Interleaving\<close> meets what its calls of \<open>run\<close> meet when they run alone.
  \<^item> Adapters (\<open>Typeorm_Properties\<close>, \<open>Drizzle_Properties\<close>): the SQL adapters refine the
    contract, with the isolation, the commits, the rollbacks and the savepoint statements it asks for; error classification; patched objects join.
  \<^item> Events (\<open>Cqrs_Properties\<close>, \<open>Outbox_Properties\<close>): what a dispatch attaches, when
    the listeners are invoked once the adapter has committed or rolled back, how often an event is
    scheduled, that a retry loses it, what reaches the outbox and where it is routed.
  \<^item> The outbox end to end (\<open>Outbox_Port\<close>, \<open>Outbox_Publishing\<close>, \<open>Transactional_Outbox\<close>):
    publishing on the wrapped bus inside a call of \<open>run\<close> that opens a transaction outside any
    other and is not retried, over any atomic adapter and under any rollback rules: when the call
    resolves, the messages are in the outbox table with the work, when it rejects neither is,
    unless the error is exempted, and then the work is there and the messages need not be.
  \<^item> Wrapping (\<open>Handler_Properties\<close>): no mechanism wraps twice, passes are complete and
    idempotent, a reset undoes them.
  \<^item> Modules (\<open>Registry_Properties\<close>, \<open>Module_Properties\<close>): lookups by dataSource, the tokens
    of any sequence of module calls, the registry the container builds.
  \<^item> Workflows (\<open>Workflow_Properties\<close>): calls that join and are awaited before the body resolves
    with its value, signals that are refused.
  \<^item> The order saga (\<open>Saga_Effects\<close>, \<open>Saga_Safety\<close>, \<open>Saga_Outcome\<close>, \<open>Saga_Liveness\<close>): under any
    deliveries stock is conserved and a confirmed order is paid and served; with an inbox that
    is never lost the handlers refine a state machine per order and the relay brings each order
    that can be served to one of its ends. A redelivered reservation, or an order with a product
    twice, are shown not to. \<open>Saga_Transactions\<close> proves that a decorated method, run by the
    manager over such an adapter, is the atomic step the saga takes it for.
  \<^item> The saga pattern (\<open>Saga_Machine\<close>, \<open>Saga_Pattern_Properties\<close>): its steps refine a machine of
    each order over the shelf of its product, every order ends shipped or failed, and an inbox
    that forgets makes no difference.
  \<^item> The audit log (\<open>Audit_Properties\<close>): it mirrors the recorded operations whatever overlaps and
    repeats; calls one after another keep the balances, and any two overlapping withdrawals that the balance
    covers once both commit.
  \<^item> Workflows of applications (\<open>Fulfilment_Properties\<close>, \<open>Fulfilment_Outcome\<close>, \<open>Drizzle_Orders\<close>): a
    fulfilment charges and reserves, or undoes both, and always comes to an end; a shipment is
    there with its order or not at all, and its run fails only where what it calls can be out of
    reach for good. Both rest on an invariant of the positions a run can be
    in, which every effect keeps however often it runs.
  \<^item> The wallets (\<open>Wallets\<close>): calls one after another keep every balance what its opening and its
    published operations make, and never below zero.
  \<^item> The race check (\<open>Race_Properties\<close>): it reports exactly the lines its rule describes.

  \<^bold>\<open>Bounds and fuel.\<close> The loops of the manager that can run forever (hooks that push
  hooks, promises that are tracked while the others are awaited) are partial functions with
  \<open>None\<close> for not returning. \<open>retryLoop\<close> counts its attempts and terminates on its own.
  Client programs are executed with fuel because hooks may run programs; more fuel never
  changes a result (\<open>client_more_fuel\<close>), and the examples settle with the fuel they are given.
  The deliveries of the saga are bounded by \<open>load\<close>, to which an order adds four.
  The steps of \<open>Interleaving\<close> are bounded by the size of the programs. A fulfilment is at most
  eight steps of a worker from its end (\<open>remaining\<close>), the deliveries of the saga pattern are
  bounded by \<open>stepLoad\<close>.

  \<^bold>\<open>Not modelled.\<close> Log output and error messages. The container, the event bus, the
  outbox, the workflow client and the database libraries are third-party code and parameters.
  \<open>Interleaving\<close> covers the entries of the context only: no hooks, observers, retries or
  rollback rules there, and no interleaving in the other theories, where a computation runs to
  its end; microtasks run one after the other. The deprecated names are aliases, and the
  interfaces of event handlers add nothing to model. The transactions of
  the examples run one after another, but for the calls of the audit log, which overlap between
  their read and the rest; their numbers are integers, and of the database, the relay and the
  worker the model has what the code relies on. Of the race check's regular expressions the
  characters below 256 are modelled. The other examples are a write and a publication in a
  transaction, or wiring; they, the tests, documents and build files are left aside.
\<close>

end
